(* ===== verification/Prelude.thy ===== *)
theory Prelude
  imports Main "HOL-Library.Word"
begin

unbundle bit_operations_syntax

text \<open>
  Shared vocabulary of the development: machine integer types, the outcome of a C function
  (value, error code, undefined behaviour, no return within the fuel), the state monad in which
  the stateful C code is written, the rules that carry an invariant through
  it, and generic lemmas on words, lists and sums of bits.
\<close>

section \<open>Machine integers\<close>

text \<open>
  The program is modelled for an LP64 little-endian host: \<open>size_t\<close> and pointers have 64 bits,
  \<open>int\<close> has 32, and \<open>WORDS_BIGENDIAN\<close> is not defined. A signed 64-bit integer is a
  64-bit word read with \<^const>\<open>sint\<close>.
\<close>

type_synonym u8 = "8 word"
type_synonym u16 = "16 word"
type_synonym u32 = "32 word"
type_synonym u64 = "64 word"
type_synonym i64 = "64 word"

abbreviation UINT64_MAX :: u64 where
  "UINT64_MAX \<equiv> - 1"

definition INT64_MAX :: u64 where
  "INT64_MAX = 0x7FFFFFFFFFFFFFFF"

definition INT64_MIN :: u64 where
  "INT64_MIN = 0x8000000000000000"

section \<open>Return codes (types.h)\<close>

datatype actf_err =
    ACTF_ERROR | ACTF_INTERNAL | ACTF_OOM | ACTF_NOT_FOUND | ACTF_JSON_PARSE_ERROR
  | ACTF_JSON_ERROR | ACTF_JSON_WRONG_TYPE | ACTF_JSON_NOT_GTEZ | ACTF_JSON_NOT_GTZ
  | ACTF_INVALID_ALIGNMENT | ACTF_INVALID_BYTE_ORDER | ACTF_INVALID_BIT_ORDER
  | ACTF_INVALID_RANGE | ACTF_INVALID_RANGE_SET | ACTF_INVALID_UUID | ACTF_INVALID_FLD_LOC
  | ACTF_INVALID_FLD_CLS | ACTF_INVALID_FLAGS | ACTF_INVALID_ROLE | ACTF_INVALID_BASE
  | ACTF_UNSUPPORTED_LENGTH | ACTF_INVALID_ENCODING | ACTF_INVALID_ENVIRONMENT
  | ACTF_INVALID_VARIANT | ACTF_CC_GTE_FREQ_ERROR | ACTF_NO_SUCH_ALIAS
  | ACTF_MISSING_PROPERTY | ACTF_UNSUPPORTED_EXTENSION | ACTF_NO_SUCH_ORIGIN
  | ACTF_NO_DEFAULT_CLOCK | ACTF_INVALID_UUID_ROLE | ACTF_INVALID_MAGIC_ROLE
  | ACTF_NOT_A_STRUCT | ACTF_DUPLICATE_ERROR | ACTF_NO_SUCH_ID | ACTF_UNSUPPORTED_VERSION
  | ACTF_NO_PREAMBLE | ACTF_WRONG_FLD_TYPE | ACTF_MISSING_FLD_LOC | ACTF_NOT_ENOUGH_BITS
  | ACTF_MID_BYTE_ENDIAN_SWAP | ACTF_INVALID_STR_LEN | ACTF_MAGIC_MISMATCH
  | ACTF_UUID_MISMATCH | ACTF_NO_SELECTOR_FLD | ACTF_INVALID_CONTENT_LEN
  | ACTF_INVALID_METADATA_PKT

text \<open>
  The outcome of a call: a value, an error code, \<open>Undef\<close> for what C leaves undefined or an
  assertion stops (an invalid pointer, an oversized shift, a failed \<open>assert\<close>), and
  \<open>Loop\<close> for a recursion that did not return within the fuel of the model.
\<close>

datatype 'a res = Ok 'a | Err actf_err | Undef | Loop

lemma ok_case:
  "(case r of Ok x \<Rightarrow> P x | Err e \<Rightarrow> False | Undef \<Rightarrow> False | Loop \<Rightarrow> False) \<Longrightarrow> \<exists>x. r = Ok x \<and> P x"
  by (cases r) simp_all

lemma filter_unique:
  assumes "i < n" "P i" "\<And>k. k < n \<Longrightarrow> P k \<Longrightarrow> k = i"
  shows "filter P [0..<n] = [i]"
proof -
  have "[0..<n] = [0..<i] @ i # [Suc i..<n]"
    using assms(1) upt_add_eq_append [of 0 i "n - i"] by (simp add: upt_conv_Cons)
  moreover have "filter P [0..<i] = []" "filter P [Suc i..<n] = []"
    using assms(1) by (auto simp: filter_empty_conv dest: assms(3) [rotated])
  ultimately show ?thesis using assms(2) by simp
qed

section \<open>The state monad of the C code\<close>

type_synonym ('s, 'a) cm = "'s \<Rightarrow> 'a res \<times> 's"

definition ret :: "'a \<Rightarrow> ('s, 'a) cm" where
  "ret x s = (Ok x, s)"

definition throw :: "actf_err \<Rightarrow> ('s, 'a) cm" where
  "throw e s = (Err e, s)"

definition undef :: "('s, 'a) cm" where
  "undef s = (Undef, s)"

definition lift_res :: "'a res \<Rightarrow> ('s, 'a) cm" where
  "lift_res r s = (r, s)"

definition bindc :: "('s, 'a) cm \<Rightarrow> ('a \<Rightarrow> ('s, 'b) cm) \<Rightarrow> ('s, 'b) cm" where
  "bindc m f s =
     (case m s of
        (Ok x, t) \<Rightarrow> f x t
      | (Err e, t) \<Rightarrow> (Err e, t)
      | (Undef, t) \<Rightarrow> (Undef, t)
      | (Loop, t) \<Rightarrow> (Loop, t))"

definition thenc :: "('s, unit) cm \<Rightarrow> ('s, 'b) cm \<Rightarrow> ('s, 'b) cm" where
  "thenc m k = bindc m (\<lambda>_. k)"

definition gets :: "('s \<Rightarrow> 'a) \<Rightarrow> ('s, 'a) cm" where
  "gets f s = (Ok (f s), s)"

definition modify :: "('s \<Rightarrow> 's) \<Rightarrow> ('s, unit) cm" where
  "modify f s = (Ok (), f s)"

definition assertc :: "bool \<Rightarrow> ('s, unit) cm" where
  "assertc b s = (if b then (Ok (), s) else (Undef, s))"

definition ensure :: "bool \<Rightarrow> actf_err \<Rightarrow> ('s, unit) cm" where
  "ensure b e s = (if b then (Ok (), s) else (Err e, s))"

named_theorems cm_defs "the combinators of the state monad, unfolded"

lemmas [cm_defs] = ret_def throw_def undef_def lift_res_def bindc_def thenc_def gets_def
  modify_def assertc_def ensure_def

lemma bindc_Ok_iff:
  "bindc m f s = (Ok y, t) \<longleftrightarrow> (\<exists>x u. m s = (Ok x, u) \<and> f x u = (Ok y, t))"
  by (auto simp: bindc_def split: prod.splits res.splits)

lemma bindc_okI: "m s = (Ok x, u) \<Longrightarrow> bindc m f s = f x u"
  by (simp add: bindc_def)

subsection \<open>Invariants\<close>

text \<open>\<open>keeps I m\<close>: every return, normal or not, leaves \<open>I\<close> true.\<close>

definition keeps :: "('s \<Rightarrow> bool) \<Rightarrow> ('s, 'a) cm \<Rightarrow> bool" where
  "keeps I m \<longleftrightarrow> (\<forall>s. I s \<longrightarrow> I (snd (m s)))"

named_theorems keeps_intros "rules that carry an invariant through the combinators"

lemma keepsI: "(\<And>s. I s \<Longrightarrow> I (snd (m s))) \<Longrightarrow> keeps I m"
  by (simp add: keeps_def)

lemma keepsD: "keeps I m \<Longrightarrow> I s \<Longrightarrow> m s = (r, t) \<Longrightarrow> I t"
  by (metis keeps_def snd_conv)

lemma keeps_bindc [keeps_intros]:
  "keeps I m \<Longrightarrow> (\<And>x. keeps I (f x)) \<Longrightarrow> keeps I (bindc m f)"
  by (auto simp: keeps_def bindc_def split: prod.splits res.splits)

lemma keeps_thenc [keeps_intros]: "keeps I m \<Longrightarrow> keeps I k \<Longrightarrow> keeps I (thenc m k)"
  by (simp add: thenc_def keeps_bindc)

lemma keeps_basic [keeps_intros, simp]:
  "keeps I (ret x)" "keeps I (throw e)" "keeps I undef" "keeps I (gets g)"
  "keeps I (assertc b)" "keeps I (ensure b e)" "keeps I (lift_res r)"
  by (auto simp: keeps_def cm_defs)

lemma keeps_modify [keeps_intros]: "(\<And>s. I s \<Longrightarrow> I (h s)) \<Longrightarrow> keeps I (modify h)"
  by (simp add: keeps_def modify_def)

lemma keeps_if [keeps_intros]:
  "(b \<Longrightarrow> keeps I m) \<Longrightarrow> (\<not> b \<Longrightarrow> keeps I n) \<Longrightarrow> keeps I (if b then m else n)"
  by simp

subsection \<open>Functions that only return\<close>

text \<open>Sequencing for functions without a state, and the loop over an array that stops at an error.\<close>

definition bindr :: "'a res \<Rightarrow> ('a \<Rightarrow> 'b res) \<Rightarrow> 'b res" where
  "bindr r f = (case r of Ok x \<Rightarrow> f x | Err e \<Rightarrow> Err e | Undef \<Rightarrow> Undef | Loop \<Rightarrow> Loop)"

fun mapr :: "('a \<Rightarrow> 'b res) \<Rightarrow> 'a list \<Rightarrow> 'b list res" where
  "mapr f [] = Ok []"
| "mapr f (x # xs) = bindr (f x) (\<lambda>y. bindr (mapr f xs) (\<lambda>ys. Ok (y # ys)))"

definition ensurer :: "bool \<Rightarrow> actf_err \<Rightarrow> 'a res \<Rightarrow> 'a res" where
  "ensurer b e r = (if b then r else Err e)"

lemma bindr_simps [simp]:
  "bindr (Ok x) f = f x" "bindr (Err e) f = Err e" "bindr Undef f = Undef" "bindr Loop f = Loop"
  by (simp_all add: bindr_def)

lemma bindr_Ok_iff: "bindr r f = Ok y \<longleftrightarrow> (\<exists>x. r = Ok x \<and> f x = Ok y)"
  by (cases r) simp_all

lemma ensurer_Ok_iff: "ensurer b e r = Ok y \<longleftrightarrow> b \<and> r = Ok y"
  by (simp add: ensurer_def)

lemma mapr_Ok: "mapr f xs = Ok ys \<longleftrightarrow> list_all2 (\<lambda>x y. f x = Ok y) xs ys"
  by (induction xs arbitrary: ys) (auto simp: bindr_Ok_iff list_all2_Cons1)

text \<open>\<open>returns r\<close>: the call returns, with a value, an error or undefined.\<close>

definition returns :: "'a res \<Rightarrow> bool" where
  "returns r \<longleftrightarrow> r \<noteq> Loop"

named_theorems returns_intros "rules that show that a function returns"

lemma returns_simps [simp, returns_intros]:
  "returns (Ok x)" "returns (Err e)" "returns Undef" "\<not> returns Loop"
  by (simp_all add: returns_def)

lemma returns_bindr [returns_intros]: "returns r \<Longrightarrow> (\<And>x. r = Ok x \<Longrightarrow> returns (f x)) \<Longrightarrow> returns (bindr r f)"
  by (cases r) simp_all

lemma returns_ensurer [returns_intros]: "returns r \<Longrightarrow> returns (ensurer b e r)"
  by (simp add: ensurer_def)

lemma returns_mapr [returns_intros]: "(\<And>x. x \<in> set xs \<Longrightarrow> returns (f x)) \<Longrightarrow> returns (mapr f xs)"
  by (induction xs) (auto intro!: returns_bindr)

lemma mapr_cong [fundef_cong]:
  "xs = ys \<Longrightarrow> (\<And>x. x \<in> set ys \<Longrightarrow> f x = g x) \<Longrightarrow> mapr f xs = mapr g ys"
  by (induction xs arbitrary: ys) auto

section \<open>Lists, words and bits\<close>

lemma bit_u64_less: "bit (w :: u64) n \<Longrightarrow> n < 64"
  using bit_imp_le_length by fastforce

lemma bit_u8_less: "bit (w :: u8) n \<Longrightarrow> n < 8"
  using bit_imp_le_length by fastforce

lemma u64_eqI: "(\<And>i. i < 64 \<Longrightarrow> bit v i = bit w i) \<Longrightarrow> v = (w :: u64)"
  by (auto intro: bit_word_eqI)

lemma unat_u64_less: "unat (w :: u64) < 18446744073709551616"
  using unsigned_less [of w, where 'a = nat] by simp

lemma unat_UINT64_MAX [simp]: "unat UINT64_MAX = 18446744073709551615"
  by (simp add: unsigned_minus_1_eq_mask mask_eq_exp_minus_1)

lemma unat_add_u64:
  "unat (a :: u64) + n < 18446744073709551616 \<Longrightarrow> unat (a + of_nat n) = unat a + n"
  by (simp add: unat_word_ariths unat_of_nat take_bit_nat_eq_self)

text \<open>The signed reading of a 64-bit word in terms of the unsigned one.\<close>

lemma uint_u64_less: "uint (w :: u64) < 18446744073709551616"
  using uint_lt2p [of w] by simp

lemma uint_u64_nonneg [simp]: "0 \<le> uint (w :: u64)"
  by simp

lemma sint_u64:
  "sint (w :: u64) =
     (if uint w < 9223372036854775808 then uint w else uint w - 18446744073709551616)"
proof -
  have "sint w = (uint w + 9223372036854775808) mod 18446744073709551616 - 9223372036854775808"
    by (simp add: sint_uint signed_take_bit_eq_take_bit_shift take_bit_eq_mod)
  moreover have "(uint w + 9223372036854775808) mod 18446744073709551616 =
      (if uint w < 9223372036854775808 then uint w + 9223372036854775808
       else uint w + 9223372036854775808 - 18446744073709551616)"
    using uint_u64_less [of w] by (auto simp: mod_pos_pos_trivial mod_pos_geq)
  ultimately show ?thesis by simp
qed

end
