(* ===== verification/Common.thy ===== *)
theory Common
  imports Prelude
begin

unbundle bit_operations_syntax

text \<open>
  The helpers of crust/common.h: byte swaps of 64, 32 and 16 bits and the saturating addition.
  The lemmas describe the swaps bit by bit; the bit reader rests on the 64-bit one.
\<close>

definition bswap64 :: "u64 \<Rightarrow> u64" where
  "bswap64 w =
     drop_bit 56 (w AND 0xFF00000000000000) OR
     drop_bit 40 (w AND 0x00FF000000000000) OR
     drop_bit 24 (w AND 0x0000FF0000000000) OR
     drop_bit 8 (w AND 0x000000FF00000000) OR
     push_bit 8 (w AND 0x00000000FF000000) OR
     push_bit 24 (w AND 0x0000000000FF0000) OR
     push_bit 40 (w AND 0x000000000000FF00) OR
     push_bit 56 (w AND 0x00000000000000FF)"

definition bswap32 :: "u32 \<Rightarrow> u32" where
  "bswap32 w =
     drop_bit 24 (w AND 0xFF000000) OR
     drop_bit 8 (w AND 0x00FF0000) OR
     push_bit 8 (w AND 0x0000FF00) OR
     push_bit 24 (w AND 0x000000FF)"

definition bswap16 :: "u16 \<Rightarrow> u16" where
  "bswap16 w = drop_bit 8 (w AND 0xFF00) OR push_bit 8 (w AND 0x00FF)"

definition sataddu64 :: "u64 \<Rightarrow> u64 \<Rightarrow> u64" where
  "sataddu64 a b = (let r = a + b in if r < b then UINT64_MAX else r)"

section \<open>Byte swaps, bit by bit\<close>

text \<open>A mask \<open>0xFF << 8k\<close> keeps the eight bits of byte \<open>k\<close>.\<close>

lemma byte_masks64:
  "(0xFF00000000000000 :: u64) = push_bit 56 (mask 8)"
  "(0x00FF000000000000 :: u64) = push_bit 48 (mask 8)"
  "(0x0000FF0000000000 :: u64) = push_bit 40 (mask 8)"
  "(0x000000FF00000000 :: u64) = push_bit 32 (mask 8)"
  "(0x00000000FF000000 :: u64) = push_bit 24 (mask 8)"
  "(0x0000000000FF0000 :: u64) = push_bit 16 (mask 8)"
  "(0x000000000000FF00 :: u64) = push_bit 8 (mask 8)"
  "(0x00000000000000FF :: u64) = push_bit 0 (mask 8)"
  by (simp_all add: mask_eq_exp_minus_1)

lemma byte_masks32:
  "(0xFF000000 :: u32) = push_bit 24 (mask 8)"
  "(0x00FF0000 :: u32) = push_bit 16 (mask 8)"
  "(0x0000FF00 :: u32) = push_bit 8 (mask 8)"
  "(0x000000FF :: u32) = push_bit 0 (mask 8)"
  by (simp_all add: mask_eq_exp_minus_1)

lemma byte_masks16:
  "(0xFF00 :: u16) = push_bit 8 (mask 8)"
  "(0x00FF :: u16) = push_bit 0 (mask 8)"
  by (simp_all add: mask_eq_exp_minus_1)

text \<open>The bit that ends up at position \<open>i\<close> comes from the mirrored byte, at the same place.\<close>

definition swap_pos :: "nat \<Rightarrow> nat \<Rightarrow> nat" where
  "swap_pos n i = 8 * (n - 1 - i div 8) + i mod 8"

lemma bit_bswap64_byte:
  assumes r: "r < 8" and q: "q < 8"
  shows "bit (bswap64 w) (8 * q + r) \<longleftrightarrow> bit w (8 * (7 - q) + r)"
proof -
  from q consider "q = 0" | "q = 1" | "q = 2" | "q = 3" | "q = 4" | "q = 5" | "q = 6" | "q = 7"
    by linarith
  then show ?thesis
    by cases (use r in \<open>simp_all add: bswap64_def byte_masks64 bit_or_iff bit_and_iff
        bit_drop_bit_eq bit_push_bit_iff bit_mask_iff\<close>)
qed

lemma bit_bswap64: "bit (bswap64 w) i \<longleftrightarrow> i < 64 \<and> bit w (swap_pos 8 i)"
proof (cases "i < 64")
  case True
  then have "i mod 8 < 8" "i div 8 < 8" by simp_all
  from bit_bswap64_byte [OF this] True show ?thesis by (simp add: swap_pos_def)
qed (auto dest: bit_u64_less)

lemma swap_pos_involution: "i < 8 * n \<Longrightarrow> swap_pos n (swap_pos n i) = i"
proof -
  assume "i < 8 * n"
  then have "i div 8 < n" by (simp add: less_mult_imp_div_less mult.commute)
  then show ?thesis by (simp add: swap_pos_def)
qed

lemma swap_pos_less: "i < 8 * n \<Longrightarrow> swap_pos n i < 8 * n"
  by (simp add: swap_pos_def)

lemma bswap64_bswap64: "bswap64 (bswap64 w) = w"
  by (rule u64_eqI) (auto simp: bit_bswap64 swap_pos_involution [of _ 8, simplified]
      swap_pos_less [of _ 8, simplified])

lemma bswap32_bswap32: "bswap32 (bswap32 w) = w"
proof (rule bit_word_eqI)
  fix i
  assume "i < LENGTH(32)"
  define q r where "q = i div 8" and "r = i mod 8"
  have i: "i = 8 * q + r" and r: "r < 8" and q: "q < 4" using \<open>i < LENGTH(32)\<close> by (simp_all add: q_def r_def)
  have b: "bit (bswap32 w) (8 * q + r) \<longleftrightarrow> bit w (8 * (3 - q) + r)" if "q < 4" for q w
  proof -
    from that consider "q = 0" | "q = 1" | "q = 2" | "q = 3" by linarith
    then show ?thesis
      by cases (use r in \<open>simp_all add: bswap32_def byte_masks32 bit_or_iff bit_and_iff
          bit_drop_bit_eq bit_push_bit_iff bit_mask_iff\<close>)
  qed
  show "bit (bswap32 (bswap32 w)) i = bit w i" unfolding i using b [OF q] b [of "3 - q"] q by simp
qed

section \<open>Saturating addition\<close>

lemma unat_sataddu64:
  "unat (sataddu64 a b) = min (unat a + unat b) 18446744073709551615"
proof -
  have l: "unat a < 18446744073709551616" "unat b < 18446744073709551616"
    by (rule unat_u64_less)+
  show ?thesis
  proof (cases "unat a + unat b < 18446744073709551616")
    case True
    then have "unat (a + b) = unat a + unat b"
      by (simp add: unat_word_ariths take_bit_nat_eq_self)
    moreover from this have "\<not> a + b < b" by (simp add: word_less_nat_alt)
    ultimately show ?thesis using True by (simp add: sataddu64_def Let_def)
  next
    case False
    then have "unat (a + b) = unat a + unat b - 18446744073709551616"
      using l by (simp add: unat_word_ariths mod_if)
    then have "a + b < b" using l False by (simp add: word_less_nat_alt)
    then show ?thesis using False by (simp add: sataddu64_def Let_def)
  qed
qed

end
