(* ===== verification/Types.thy ===== *)
theory Types
  imports Prelude
begin

text \<open>
  The enumerations of types.h that the components share.
\<close>

datatype actf_byte_order = ACTF_LIL_ENDIAN | ACTF_BIG_ENDIAN

datatype actf_bit_order = ACTF_FIRST_TO_LAST | ACTF_LAST_TO_FIRST

datatype actf_encoding =
    ACTF_ENCODING_UTF8 | ACTF_ENCODING_UTF16BE | ACTF_ENCODING_UTF16LE
  | ACTF_ENCODING_UTF32BE | ACTF_ENCODING_UTF32LE

datatype actf_base =
  ACTF_BASE_BINARY | ACTF_BASE_OCTAL | ACTF_BASE_DECIMAL | ACTF_BASE_HEXADECIMAL

end
