(* ===== verification/Breader.thy ===== *)
theory Breader
  imports Common Types
begin

unbundle bit_operations_syntax

text \<open>
  The bit reader of breader.c. The bytes between \<open>start_ptr\<close> and \<open>end_ptr\<close> are the list
  \<open>br_data\<close>, and \<open>read_ptr\<close> is an offset into it. The macros that breader.c instantiates for
  both byte orders are functions of the byte order here. A failed assertion and a shift by 64 or
  more are \<^const>\<open>Undef\<close>.
\<close>

section \<open>State\<close>

record breader =
  br_bo :: actf_byte_order
  br_data :: "u8 list"
  br_read_ptr :: nat
  br_lookahead :: u64
  br_lookahead_bit_cnt :: nat
  br_tot_bit_cnt :: u64

type_synonym 'a br_op = "(breader, 'a) cm"

definition MAX_READ_BITS :: nat where
  "MAX_READ_BITS = 56"

definition breader_init :: "u8 list \<Rightarrow> actf_byte_order \<Rightarrow> breader" where
  "breader_init dat bo =
     \<lparr>br_bo = bo, br_data = dat, br_read_ptr = 0, br_lookahead = 0,
      br_lookahead_bit_cnt = 0, br_tot_bit_cnt = 0\<rparr>"

section \<open>Operations\<close>

definition breader_set_bo :: "actf_byte_order \<Rightarrow> unit br_op" where
  "breader_set_bo bo = modify (\<lambda>br.
     if br_bo br = bo then br
     else br\<lparr>br_lookahead := bswap64 (br_lookahead br), br_bo := bo\<rparr>)"

definition breader_peek_le :: "nat \<Rightarrow> u64 br_op" where
  "breader_peek_le cnt br =
     (if cnt \<le> br_lookahead_bit_cnt br \<and> cnt < 64
      then (Ok (br_lookahead br AND (push_bit cnt 1 - 1)), br)
      else (Undef, br))"

text \<open>Peeking zero bits in big-endian order is a shift by 64.\<close>

definition breader_peek_be :: "nat \<Rightarrow> u64 br_op" where
  "breader_peek_be cnt br =
     (if cnt \<le> br_lookahead_bit_cnt br \<and> 0 < cnt \<and> cnt \<le> 64
      then (Ok (drop_bit (64 - cnt) (br_lookahead br)), br)
      else (Undef, br))"

definition breader_peek_bo :: "actf_byte_order \<Rightarrow> nat \<Rightarrow> u64 br_op" where
  "breader_peek_bo bo cnt =
     (case bo of ACTF_LIL_ENDIAN \<Rightarrow> breader_peek_le cnt | ACTF_BIG_ENDIAN \<Rightarrow> breader_peek_be cnt)"

definition breader_peek :: "nat \<Rightarrow> u64 br_op" where
  "breader_peek cnt = bindc (gets br_bo) (\<lambda>bo. breader_peek_bo bo cnt)"

text \<open>The shift that drops the first bits of the lookahead, and the one that makes room for them.\<close>

definition shft_out :: "actf_byte_order \<Rightarrow> nat \<Rightarrow> u64 \<Rightarrow> u64" where
  "shft_out bo n w =
     (case bo of ACTF_LIL_ENDIAN \<Rightarrow> drop_bit n w | ACTF_BIG_ENDIAN \<Rightarrow> push_bit n w)"

definition shft_in :: "actf_byte_order \<Rightarrow> nat \<Rightarrow> u64 \<Rightarrow> u64" where
  "shft_in bo n w =
     (case bo of ACTF_LIL_ENDIAN \<Rightarrow> push_bit n w | ACTF_BIG_ENDIAN \<Rightarrow> drop_bit n w)"

definition breader_consume_bo :: "actf_byte_order \<Rightarrow> nat \<Rightarrow> unit br_op" where
  "breader_consume_bo bo cnt br =
     (if cnt \<le> br_lookahead_bit_cnt br \<and> cnt < 64
      then (Ok (),
        br\<lparr>br_lookahead := shft_out bo cnt (br_lookahead br),
           br_lookahead_bit_cnt := br_lookahead_bit_cnt br - cnt,
           br_tot_bit_cnt := br_tot_bit_cnt br + of_nat cnt\<rparr>)
      else (Undef, br))"

definition breader_consume :: "nat \<Rightarrow> unit br_op" where
  "breader_consume cnt = bindc (gets br_bo) (\<lambda>bo. breader_consume_bo bo cnt)"

text \<open>
  \<open>read_unalign_64\<close>, and the \<open>memcpy\<close> of the remaining bytes into a zeroed integer: the
  first byte is the least significant one.
\<close>

fun read_unalign_64 :: "u8 list \<Rightarrow> u64" where
  "read_unalign_64 [] = 0"
| "read_unalign_64 (b # bs) = ucast b OR push_bit 8 (read_unalign_64 bs)"

definition htobo64 :: "actf_byte_order \<Rightarrow> u64 \<Rightarrow> u64" where
  "htobo64 bo w = (case bo of ACTF_LIL_ENDIAN \<Rightarrow> w | ACTF_BIG_ENDIAN \<Rightarrow> bswap64 w)"

definition breader_refill_bo :: "actf_byte_order \<Rightarrow> nat br_op" where
  "breader_refill_bo bo br =
     (let la = br_lookahead_bit_cnt br;
          rest = drop (br_read_ptr br) (br_data br);
          used = (63 - la) div 8
      in if 64 \<le> la then (Undef, br)
         else if 8 \<le> length rest then
           (let la' = la OR MAX_READ_BITS
            in (Ok la',
                br\<lparr>br_lookahead := br_lookahead br OR
                      shft_in bo la (htobo64 bo (read_unalign_64 (take 8 rest))),
                   br_read_ptr := br_read_ptr br + used,
                   br_lookahead_bit_cnt := la'\<rparr>))
         else
           (let n_bytes = length rest;
                n_used_bytes = (if n_bytes < used then n_bytes else used);
                la' = la + n_used_bytes * 8
            in (Ok la',
                br\<lparr>br_lookahead := br_lookahead br OR
                      shft_in bo la (htobo64 bo (read_unalign_64 rest)),
                   br_read_ptr := br_read_ptr br + n_used_bytes,
                   br_lookahead_bit_cnt := la'\<rparr>)))"

definition breader_refill :: "nat br_op" where
  "breader_refill = bindc (gets br_bo) breader_refill_bo"

definition breader_consume_checked_bo :: "actf_byte_order \<Rightarrow> nat \<Rightarrow> unit br_op" where
  "breader_consume_checked_bo bo cnt =
     bindc (gets br_lookahead_bit_cnt) (\<lambda>la.
       if cnt \<le> la then breader_consume_bo bo cnt
       else let to_consume = cnt - la; bytes_to_consume = to_consume div 8 in
         thenc (breader_consume_bo bo la)
        (thenc (modify (\<lambda>br. br\<lparr>br_lookahead := 0\<rparr>))
        (bindc (gets (\<lambda>br. length (br_data br) - br_read_ptr br)) (\<lambda>avail_bytes.
          if avail_bytes \<le> bytes_to_consume then
            modify (\<lambda>br. br\<lparr>br_read_ptr := br_read_ptr br + avail_bytes,
                             br_tot_bit_cnt := br_tot_bit_cnt br + of_nat avail_bytes * 8\<rparr>)
          else
            thenc (modify (\<lambda>br. br\<lparr>br_read_ptr := br_read_ptr br + bytes_to_consume,
                             br_tot_bit_cnt := br_tot_bit_cnt br + of_nat bytes_to_consume * 8\<rparr>))
           (bindc (breader_refill_bo bo) (\<lambda>avail_bits.
              let bits_to_consume = to_consume mod 8 in
                thenc (assertc (bits_to_consume \<le> avail_bits)) (breader_consume bits_to_consume)))))))"

definition breader_consume_checked :: "nat \<Rightarrow> unit br_op" where
  "breader_consume_checked cnt = bindc (gets br_bo) (\<lambda>bo. breader_consume_checked_bo bo cnt)"

definition breader_byte_aligned :: "breader \<Rightarrow> bool" where
  "breader_byte_aligned br \<longleftrightarrow> br_lookahead_bit_cnt br mod 8 = 0"

definition breader_align_bo :: "actf_byte_order \<Rightarrow> u64 \<Rightarrow> unit br_op" where
  "breader_align_bo bo align =
     bindc (gets br_tot_bit_cnt) (\<lambda>tot.
       let new_tot = (tot + align - 1) AND (- align) in
         thenc (assertc (tot \<le> new_tot)) (breader_consume_checked_bo bo (unat (new_tot - tot))))"

definition breader_align :: "u64 \<Rightarrow> unit br_op" where
  "breader_align align = bindc (gets br_bo) (\<lambda>bo. breader_align_bo bo align)"

definition breader_bits_remaining :: "breader \<Rightarrow> u64" where
  "breader_bits_remaining br =
     of_nat (length (br_data br) - br_read_ptr br) * 8 + of_nat (br_lookahead_bit_cnt br)"

definition breader_has_bits_remaining :: "breader \<Rightarrow> bool" where
  "breader_has_bits_remaining br \<longleftrightarrow>
     br_lookahead_bit_cnt br \<noteq> 0 \<or> br_read_ptr br < length (br_data br)"

definition breader_bytes_remaining :: "breader \<Rightarrow> nat" where
  "breader_bytes_remaining br =
     (length (br_data br) - br_read_ptr br) + br_lookahead_bit_cnt br div 8"

definition breader_peek_bytes :: "breader \<Rightarrow> nat" where
  "breader_peek_bytes br = br_read_ptr br - br_lookahead_bit_cnt br div 8"

definition breader_read_bits :: "nat \<Rightarrow> u64 br_op" where
  "breader_read_bits cnt =
     thenc (assertc (cnt \<le> MAX_READ_BITS))
    (bindc (gets br_lookahead_bit_cnt) (\<lambda>la.
     bindc (if la < cnt then breader_refill else ret la) (\<lambda>len.
       if len < cnt then ret UINT64_MAX
       else bindc (breader_peek cnt) (\<lambda>res. thenc (breader_consume cnt) (ret res)))))"

definition breader_read_bit :: "u8 br_op" where
  "breader_read_bit = bindc (breader_read_bits 1) (\<lambda>w. ret (ucast w))"

text \<open>\<open>None\<close> is the null pointer; \<open>Some p\<close> points at byte \<open>p\<close> of the data.\<close>

definition breader_read_bytes :: "nat \<Rightarrow> nat option br_op" where
  "breader_read_bytes cnt =
     bindc (gets (\<lambda>br. br)) (\<lambda>br.
       thenc (assertc (breader_byte_aligned br))
        (if breader_bytes_remaining br < cnt then ret None
         else let ptr = br_read_ptr br - br_lookahead_bit_cnt br div 8 in
           thenc (breader_consume_checked (cnt * 8)) (ret (Some ptr))))"

datatype breader_seek_op = BREADER_SEEK_SET | BREADER_SEEK_CUR | BREADER_SEEK_END

definition breader_seek :: "nat \<Rightarrow> breader_seek_op \<Rightarrow> unit br_op" where
  "breader_seek off whence = modify (\<lambda>br.
     let end_ptr = length (br_data br);
         rp = (case whence of
                 BREADER_SEEK_SET \<Rightarrow> if off < end_ptr then off else end_ptr
               | BREADER_SEEK_CUR \<Rightarrow>
                   if off < end_ptr - br_read_ptr br then br_read_ptr br + off else end_ptr
               | BREADER_SEEK_END \<Rightarrow> end_ptr)
     in br\<lparr>br_read_ptr := rp, br_tot_bit_cnt := of_nat rp * 8, br_lookahead := 0,
           br_lookahead_bit_cnt := 0\<rparr>)"

end
