(* ===== verification/Bit_Reader.thy ===== *)
theory Bit_Reader
  imports Prelude
begin

text \<open>
  The interface through which the decoder reads bits: peek, consume and refill. \<open>rel p s\<close> says
  that the reader in state \<open>s\<close> stands at bit \<open>p\<close> of a stream of \<open>total\<close> bits, \<open>avail\<close> is the
  number of bits that can be read without a refill. A bit source promises where the reader stands
  and that a peek returns a value that \<open>holds\<close> for the \<open>n\<close> bits from \<open>p\<close> on; for a bit reader
  that value is \<open>val p n\<close>.
\<close>

locale bit_source =
  fixes rel :: "nat \<Rightarrow> 's \<Rightarrow> bool"
    and avail :: "'s \<Rightarrow> nat"
    and total :: nat
    and holds :: "nat \<Rightarrow> nat \<Rightarrow> u64 \<Rightarrow> bool"
    and peek :: "nat \<Rightarrow> ('s, u64) cm"
    and consume :: "nat \<Rightarrow> ('s, unit) cm"
    and refill :: "('s, nat) cm"
  assumes peek_holds: "rel p s \<Longrightarrow> 0 < n \<Longrightarrow> n \<le> avail s \<Longrightarrow> \<exists>v. peek n s = (Ok v, s) \<and> holds p n v"
    and consume_law: "rel p s \<Longrightarrow> n \<le> avail s \<Longrightarrow>
      \<exists>t. consume n s = (Ok (), t) \<and> rel (p + n) t \<and> avail t = avail s - n"
    and refill_law: "rel p s \<Longrightarrow>
      \<exists>t. refill s = (Ok (avail t), t) \<and> rel p t \<and> min 56 (total - p) \<le> avail t \<and>
        avail t \<le> total - p"
    and rel_le: "rel p s \<Longrightarrow> p \<le> total"
begin

lemma refill_short:
  assumes "rel p s" "refill s = (Ok a, t)"
  shows "a = avail t" "rel p t" "a < n \<Longrightarrow> n \<le> 56 \<Longrightarrow> total < p + n"
  using refill_law [OF assms(1)] assms(2) by auto

end

locale bit_reader = bit_source rel avail total "\<lambda>p n v. v = val p n" peek consume refill
  for rel :: "nat \<Rightarrow> 's \<Rightarrow> bool" and avail total and val :: "nat \<Rightarrow> nat \<Rightarrow> u64" and peek consume refill
begin

lemma peek_law: "rel p s \<Longrightarrow> 0 < n \<Longrightarrow> n \<le> avail s \<Longrightarrow> peek n s = (Ok (val p n), s)"
  using peek_holds by blast

text \<open>Reading what the lookahead holds.\<close>

lemma peek_consume:
  assumes "rel p s" "0 < n" "n \<le> avail s"
  obtains t where "bindc (peek n) (\<lambda>v. thenc (consume n) (k v)) s = k (val p n) t"
    "rel (p + n) t" "avail t = avail s - n"
  using consume_law [OF assms(1,3)] peek_law [OF assms]
  by (auto simp: bindc_def thenc_def)

end

end
