(* ===== verification/Breader_Spec.thy ===== *)
theory Breader_Spec
  imports Breader Bit_Reader
begin

unbundle bit_operations_syntax

text \<open>
  What the bit reader promises. The abstract reader is a cursor: the bytes, the byte order and a
  bit position. \<open>sbit\<close> is the bit of the stream at a position, \<open>bits_val\<close> the integer that a
  run of bits denotes, and \<open>br_at\<close> relates a concrete reader to a cursor. Every operation of
  breader.c is shown to move the cursor as its name says. The locale \<open>bit_reader\<close> states the
  part of this contract the decoder relies on.
\<close>

section \<open>The abstract bit stream\<close>

text \<open>
  Little-endian streams take the bits of a byte from the least significant one on, big-endian
  streams from the most significant one on.
\<close>

definition sbit :: "actf_byte_order \<Rightarrow> u8 list \<Rightarrow> nat \<Rightarrow> bool" where
  "sbit bo dat p \<longleftrightarrow> p < 8 * length dat \<and>
     bit (dat ! (p div 8)) (case bo of ACTF_LIL_ENDIAN \<Rightarrow> p mod 8 | ACTF_BIG_ENDIAN \<Rightarrow> 7 - p mod 8)"

text \<open>
  The first bit of a run is the least significant bit of its value in little-endian order and the
  most significant one in big-endian order.
\<close>

definition bits_val :: "actf_byte_order \<Rightarrow> u8 list \<Rightarrow> nat \<Rightarrow> nat \<Rightarrow> u64" where
  "bits_val bo dat p n =
     horner_sum of_bool 2
       (case bo of
          ACTF_LIL_ENDIAN \<Rightarrow> map (\<lambda>i. sbit bo dat (p + i)) [0..<n]
        | ACTF_BIG_ENDIAN \<Rightarrow> rev (map (\<lambda>i. sbit bo dat (p + i)) [0..<n]))"

lemma bit_bits_val_le:
  "bit (bits_val ACTF_LIL_ENDIAN dat p n) i \<longleftrightarrow>
     i < 64 \<and> i < n \<and> sbit ACTF_LIL_ENDIAN dat (p + i)"
  by (auto simp: bits_val_def bit_horner_sum_bit_iff)

lemma bit_bits_val_be:
  "bit (bits_val ACTF_BIG_ENDIAN dat p n) i \<longleftrightarrow>
     i < 64 \<and> i < n \<and> sbit ACTF_BIG_ENDIAN dat (p + (n - 1 - i))"
  by (auto simp: bits_val_def bit_horner_sum_bit_iff rev_nth)

lemmas bit_bits_val = bit_bits_val_le bit_bits_val_be

text \<open>A run of bits is the combination of two adjacent runs.\<close>

lemma bits_val_append_le:
  "bits_val ACTF_LIL_ENDIAN dat p m OR push_bit m (bits_val ACTF_LIL_ENDIAN dat (p + m) n) =
   bits_val ACTF_LIL_ENDIAN dat p (m + n)"
  by (rule u64_eqI) (auto simp: bit_or_iff bit_push_bit_iff bit_bits_val)

lemma bits_val_append_be:
  "push_bit n (bits_val ACTF_BIG_ENDIAN dat p m) OR bits_val ACTF_BIG_ENDIAN dat (p + m) n =
   bits_val ACTF_BIG_ENDIAN dat p (m + n)"
proof (rule u64_eqI)
  fix i :: nat
  assume "i < 64"
  then show "bit (push_bit n (bits_val ACTF_BIG_ENDIAN dat p m) OR
      bits_val ACTF_BIG_ENDIAN dat (p + m) n) i =
      bit (bits_val ACTF_BIG_ENDIAN dat p (m + n)) i"
    by (cases "n \<le> i") (auto simp: bit_or_iff bit_push_bit_iff bit_bits_val add.assoc)
qed

section \<open>The lookahead window\<close>

text \<open>Position \<open>i\<close> of the lookahead counted from the end that is read next.\<close>

definition win :: "actf_byte_order \<Rightarrow> u64 \<Rightarrow> nat \<Rightarrow> bool" where
  "win bo w i \<longleftrightarrow> i < 64 \<and>
     bit w (case bo of ACTF_LIL_ENDIAN \<Rightarrow> i | ACTF_BIG_ENDIAN \<Rightarrow> 63 - i)"

lemma win_less: "win bo w i \<Longrightarrow> i < 64"
  by (simp add: win_def)

lemma win_zero [simp]: "\<not> win bo 0 i"
  by (simp add: win_def)

lemma win_or [simp]: "win bo (v OR w) i \<longleftrightarrow> win bo v i \<or> win bo w i"
  by (auto simp: win_def bit_or_iff)

lemma win_shft_out [simp]: "win bo (shft_out bo n w) i \<longleftrightarrow> win bo w (n + i)"
  by (cases bo) (auto simp: win_def shft_out_def bit_drop_bit_eq bit_push_bit_iff ac_simps
      dest: bit_u64_less)

lemma win_shft_in [simp]: "win bo (shft_in bo n w) i \<longleftrightarrow> i < 64 \<and> n \<le> i \<and> win bo w (i - n)"
proof (cases bo)
  case ACTF_BIG_ENDIAN
  show ?thesis
  proof (cases "n \<le> i")
    case True
    then show ?thesis using ACTF_BIG_ENDIAN
      by (auto simp: win_def shft_in_def bit_drop_bit_eq add.commute)
  next
    case False
    then show ?thesis using ACTF_BIG_ENDIAN
      by (auto simp: win_def shft_in_def bit_drop_bit_eq dest: bit_u64_less)
  qed
qed (auto simp: win_def shft_in_def bit_push_bit_iff dest: bit_u64_less)

lemma bit_read_unalign_64:
  "bit (read_unalign_64 bs) i \<longleftrightarrow> i < 64 \<and> i < 8 * length bs \<and> bit (bs ! (i div 8)) (i mod 8)"
proof (induction bs arbitrary: i)
  case (Cons b bs)
  show ?case
  proof (cases "i < 8")
    case True
    then show ?thesis by (simp add: bit_or_iff bit_push_bit_iff bit_ucast_iff)
  next
    case False
    then have "i div 8 = Suc ((i - 8) div 8)" "i mod 8 = (i - 8) mod 8"
      by (simp_all add: le_div_geq le_mod_geq)
    with False show ?thesis
      by (auto simp: bit_or_iff bit_push_bit_iff bit_ucast_iff Cons.IH dest: bit_u8_less)
  qed
qed simp

text \<open>The word that a refill merges in shows the next bytes in stream order.\<close>

lemma be_pos:
  assumes "i < 64"
  shows "swap_pos 8 (63 - i) = 8 * (i div 8) + (7 - i mod 8)"
proof -
  define q s where "q = 7 - i div 8" and "s = 7 - i mod 8"
  have "i = 8 * (i div 8) + i mod 8" "i mod 8 < 8" "i div 8 < 8" using assms by simp_all
  then have "s < 8" "63 - i = 8 * q + s" "7 - q = i div 8" unfolding q_def s_def by linarith+
  then show ?thesis by (simp add: swap_pos_def flip: s_def)
qed

lemma bit_bswap_read:
  assumes "i < 64"
  shows "bit (bswap64 (read_unalign_64 bs)) (63 - i) \<longleftrightarrow> sbit ACTF_BIG_ENDIAN bs i"
proof -
  define q s where "q = i div 8" and "s = 7 - i mod 8"
  then have "s < 8" "q < 8" "i < 8 * length bs \<longleftrightarrow> q < length bs" using assms by auto
  moreover have "swap_pos 8 (63 - i) = 8 * q + s" using be_pos [OF assms] by (simp add: q_def s_def)
  ultimately show ?thesis
    by (auto simp: bit_bswap64 bit_read_unalign_64 sbit_def simp flip: s_def q_def)
qed

lemma win_htobo64:
  assumes "length bs \<le> 8"
  shows "win bo (htobo64 bo (read_unalign_64 bs)) i \<longleftrightarrow> sbit bo bs i"
proof -
  have "sbit bo bs i \<Longrightarrow> i < 64" using assms by (simp add: sbit_def)
  then show ?thesis
    by (cases bo) (auto simp: win_def htobo64_def bit_read_unalign_64 bit_bswap_read sbit_def)
qed

lemma sbit_drop: "sbit bo (drop k dat) i \<longleftrightarrow> sbit bo dat (8 * k + i)"
  by (cases bo) (auto simp: sbit_def)

lemma sbit_take: "sbit bo (take k dat) i \<longleftrightarrow> i < 8 * k \<and> sbit bo dat i"
  by (auto simp: sbit_def less_mult_imp_div_less mult.commute split: actf_byte_order.splits)

section \<open>The invariant and the cursor relation\<close>

text \<open>
  The bookkeeping of a reader: the bits handed out and the bits in the lookahead end at the byte
  that is fetched next.
\<close>

definition br_wf :: "breader \<Rightarrow> bool" where
  "br_wf br \<longleftrightarrow>
     br_lookahead_bit_cnt br < 64 \<and>
     br_read_ptr br \<le> length (br_data br) \<and>
     length (br_data br) < 2 ^ 60 \<and>
     unat (br_tot_bit_cnt br) + br_lookahead_bit_cnt br = 8 * br_read_ptr br"

text \<open>
  The lookahead agrees with the stream on its first \<open>br_lookahead_bit_cnt\<close> bits. Bits beyond
  them are the rest of a 64-bit read whose bytes were not all accounted for; where they are set
  they agree with the stream too, so that a later refill may merge the same bytes again.
\<close>

definition br_sync :: "breader \<Rightarrow> bool" where
  "br_sync br \<longleftrightarrow>
     (\<forall>i. win (br_bo br) (br_lookahead br) i \<longrightarrow>
        sbit (br_bo br) (br_data br) (unat (br_tot_bit_cnt br) + i)) \<and>
     (\<forall>i < br_lookahead_bit_cnt br.
        sbit (br_bo br) (br_data br) (unat (br_tot_bit_cnt br) + i) \<longrightarrow>
        win (br_bo br) (br_lookahead br) i)"

text \<open>
  The cursor relation. With \<open>c\<close> the lookahead is in step with the stream; without it only the
  bookkeeping is (a change of byte order in the middle of a byte breaks the former).
\<close>

definition br_rel :: "bool \<Rightarrow> u8 list \<Rightarrow> actf_byte_order \<Rightarrow> nat \<Rightarrow> breader \<Rightarrow> bool" where
  "br_rel c dat bo p br \<longleftrightarrow>
     br_wf br \<and> (c \<longrightarrow> br_sync br) \<and> br_data br = dat \<and> br_bo br = bo \<and>
     unat (br_tot_bit_cnt br) = p"

abbreviation br_at :: "u8 list \<Rightarrow> actf_byte_order \<Rightarrow> nat \<Rightarrow> breader \<Rightarrow> bool" where
  "br_at \<equiv> br_rel True"

text \<open>The bits that are left from a position on.\<close>

abbreviation bits_left :: "u8 list \<Rightarrow> nat \<Rightarrow> nat" where
  "bits_left dat p \<equiv> 8 * length dat - p"

lemma br_rel_facts:
  assumes "br_rel c dat bo p br"
  shows "p + br_lookahead_bit_cnt br = 8 * br_read_ptr br"
    and "br_read_ptr br \<le> length dat"
    and "br_lookahead_bit_cnt br < 64"
    and "length dat < 2 ^ 60"
    and "p \<le> 8 * length dat"
    and "br_data br = dat" and "br_bo br = bo" and "unat (br_tot_bit_cnt br) = p"
  using assms by (auto simp: br_rel_def br_wf_def)

lemma br_at_init: "length dat < 2 ^ 60 \<Longrightarrow> br_at dat bo 0 (breader_init dat bo)"
  by (simp add: br_rel_def br_wf_def br_sync_def breader_init_def)

section \<open>The operations move the cursor\<close>

lemma breader_peek_bo_spec:
  assumes at: "br_at dat bo p br" and n: "0 < n" "n \<le> br_lookahead_bit_cnt br"
  shows "breader_peek_bo bo n br = (Ok (bits_val bo dat p n), br)"
proof -
  have w: "win bo (br_lookahead br) i \<longleftrightarrow> sbit bo dat (p + i)" if "i < n" for i
    using at n that by (auto simp: br_rel_def br_sync_def)
  have la: "n < 64" using at n by (auto dest: br_rel_facts(3))
  show ?thesis
  proof (cases bo)
    case ACTF_LIL_ENDIAN
    have "br_lookahead br AND (push_bit n 1 - 1) = bits_val bo dat p n"
      using w ACTF_LIL_ENDIAN la
      by (intro u64_eqI) (auto simp: push_bit_eq_mult bit_simps bit_bits_val win_def
          simp flip: mask_eq_exp_minus_1)
    then show ?thesis using ACTF_LIL_ENDIAN n la
      by (simp add: breader_peek_bo_def breader_peek_le_def)
  next
    case ACTF_BIG_ENDIAN
    have "bit (br_lookahead br) (64 - n + i) \<longleftrightarrow> sbit bo dat (p + (n - 1 - i))" if "i < n" for i
    proof -
      have "63 - (n - 1 - i) = 64 - n + i" "n - 1 - i < n" "n - 1 - i < 64" using that la by simp_all
      then show ?thesis using w [of "n - 1 - i"] ACTF_BIG_ENDIAN
        by (simp add: win_def del: diff_diff_left)
    qed
    then have "bit (drop_bit (64 - n) (br_lookahead br)) i = bit (bits_val bo dat p n) i"
      if "i < 64" for i
      using ACTF_BIG_ENDIAN la n that
      by (cases "i < n") (auto simp: bit_drop_bit_eq bit_bits_val simp del: diff_diff_left
          dest: bit_u64_less)
    then have "drop_bit (64 - n) (br_lookahead br) = bits_val bo dat p n" by (rule u64_eqI)
    then show ?thesis using ACTF_BIG_ENDIAN n la
      by (simp add: breader_peek_bo_def breader_peek_be_def)
  qed
qed

text \<open>A peek always returns a value, also where the lookahead is out of step.\<close>

lemma breader_peek_bo_any:
  assumes "br_rel c dat bo p br" "0 < n" "n \<le> br_lookahead_bit_cnt br"
  shows "\<exists>v. breader_peek_bo bo n br = (Ok v, br) \<and> (c \<longrightarrow> v = bits_val bo dat p n)"
proof (cases c)
  case True
  then show ?thesis using breader_peek_bo_spec [of dat bo p br n] assms by simp
next
  case False
  then show ?thesis using br_rel_facts(3) [OF assms(1)] assms(2,3)
    by (cases bo) (simp_all add: breader_peek_bo_def breader_peek_le_def breader_peek_be_def)
qed

lemma breader_consume_bo_spec:
  assumes at: "br_rel c dat bo p br" and n: "n \<le> br_lookahead_bit_cnt br"
  obtains br' where "breader_consume_bo bo n br = (Ok (), br')" "br_rel c dat bo (p + n) br'"
    "br_lookahead_bit_cnt br' = br_lookahead_bit_cnt br - n" "br_read_ptr br' = br_read_ptr br"
proof -
  note f = br_rel_facts [OF at]
  have "unat (br_tot_bit_cnt br + of_nat n) = p + n"
    using f n by (subst unat_add_u64) auto
  then show thesis
    using at n f(3)
    by (intro that [of "snd (breader_consume_bo bo n br)"])
      (auto simp: breader_consume_bo_def br_rel_def br_wf_def br_sync_def add.assoc)
qed

lemma lookahead_or_56:
  assumes "la < 64"
  shows "la OR MAX_READ_BITS = la + 8 * ((63 - la) div 8)"
proof -
  have "\<forall>la \<in> set [0..<64]. la OR MAX_READ_BITS = la + 8 * ((63 - la) div 8)" by code_simp
  with assms show ?thesis by simp
qed

text \<open>Both branches of a refill, in one form.\<close>

lemma breader_refill_bo_eq:
  assumes la: "br_lookahead_bit_cnt br < 64"
  defines "rest \<equiv> drop (br_read_ptr br) (br_data br)"
  defines "u \<equiv> min (length rest) ((63 - br_lookahead_bit_cnt br) div 8)"
  shows "breader_refill_bo bo br =
    (Ok (br_lookahead_bit_cnt br + 8 * u),
     br\<lparr>br_lookahead := br_lookahead br OR
           shft_in bo (br_lookahead_bit_cnt br) (htobo64 bo (read_unalign_64 (take 8 rest))),
        br_read_ptr := br_read_ptr br + u,
        br_lookahead_bit_cnt := br_lookahead_bit_cnt br + 8 * u\<rparr>)"
proof (cases "8 \<le> length rest")
  case True
  have "(63 - br_lookahead_bit_cnt br) div 8 \<le> 7" by simp
  then have "u = (63 - br_lookahead_bit_cnt br) div 8" using True by (simp add: u_def)
  then show ?thesis
    using la True lookahead_or_56 [OF la] unfolding breader_refill_bo_def rest_def Let_def
    by (simp del: length_drop)
next
  case False
  then have "take 8 rest = rest" by simp
  with la False show ?thesis
    unfolding breader_refill_bo_def rest_def u_def Let_def by (simp add: min_def mult.commute)
qed

lemma breader_refill_bo_spec:
  assumes at: "br_rel c dat bo p br"
  obtains br' where "breader_refill_bo bo br = (Ok (br_lookahead_bit_cnt br'), br')"
    "br_rel c dat bo p br'" "min 56 (bits_left dat p) \<le> br_lookahead_bit_cnt br'"
    "br_lookahead_bit_cnt br' \<le> bits_left dat p"
proof -
  note f = br_rel_facts [OF at]
  define la rest where "la = br_lookahead_bit_cnt br" and "rest = drop (br_read_ptr br) dat"
  define u where "u = min (length rest) ((63 - la) div 8)"
  define br' where "br' = snd (breader_refill_bo bo br)"
  have la: "la < 64" using f by (simp add: la_def)
  have r: "breader_refill_bo bo br = (Ok (la + 8 * u), br')"
    "br_lookahead br' = br_lookahead br OR shft_in bo la (htobo64 bo (read_unalign_64 (take 8 rest)))"
    "br_read_ptr br' = br_read_ptr br + u" "br_lookahead_bit_cnt br' = la + 8 * u"
    "br_data br' = dat" "br_bo br' = bo" "br_tot_bit_cnt br' = br_tot_bit_cnt br"
    unfolding br'_def using la f breader_refill_bo_eq [of br bo]
    by (simp_all add: la_def u_def rest_def)
  have u: "br_read_ptr br + u \<le> length dat" "la + 8 * u < 64" "p + (la + 8 * u) = 8 * (br_read_ptr br + u)"
    using f la unfolding u_def rest_def la_def by (auto simp: min_def)
  have new: "i < 64 \<and> la \<le> i \<and> sbit bo (take 8 rest) (i - la) \<longleftrightarrow> i < 64 \<and> la \<le> i \<and> sbit bo dat (p + i)" for i
  proof (cases "la \<le> i")
    case True
    then have "8 * br_read_ptr br + (i - la) = p + i" using f(1) by (simp add: la_def)
    then show ?thesis by (auto simp: sbit_take sbit_drop rest_def)
  qed simp
  have w: "win bo (br_lookahead br') i \<longleftrightarrow>
      win bo (br_lookahead br) i \<or> i < 64 \<and> la \<le> i \<and> sbit bo dat (p + i)" for i
    using new [of i] by (simp add: r(2) win_htobo64)
  have at': "win bo (br_lookahead br) i \<Longrightarrow> sbit bo dat (p + i)"
    "i < la \<Longrightarrow> sbit bo dat (p + i) \<Longrightarrow> win bo (br_lookahead br) i" if c for i
    using at that unfolding br_rel_def br_sync_def la_def by auto
  have "win bo (br_lookahead br') i \<Longrightarrow> sbit bo dat (p + i)"
    "i < la + 8 * u \<Longrightarrow> sbit bo dat (p + i) \<Longrightarrow> win bo (br_lookahead br') i" if c for i
    using at' [of i] that u(2) unfolding w by (auto simp: not_le [symmetric])
  then have "br_rel c dat bo p br'"
    unfolding br_rel_def br_wf_def br_sync_def r(3-7) using f u by blast
  moreover have "la + 8 * u \<le> bits_left dat p" using u by simp
  moreover have "min 56 (bits_left dat p) \<le> la + 8 * u"
  proof (cases "length rest \<le> (63 - la) div 8")
    case True
    then have "u + br_read_ptr br = length dat" using f(2) by (simp add: u_def rest_def)
    then show ?thesis using u(3) by simp
  next
    case False
    then have "u = (63 - la) div 8" by (simp add: u_def)
    then show ?thesis using la by linarith
  qed
  ultimately show thesis using that [of br'] by (simp add: r(1,4))
qed

lemma br_rel_byteI:
  assumes "r \<le> length dat" "length dat < 2 ^ 60" "br_data br = dat" "br_bo br = bo"
    "br_read_ptr br = r" "br_lookahead br = 0" "br_lookahead_bit_cnt br = 0"
    "unat (br_tot_bit_cnt br) = 8 * r"
  shows "br_rel c dat bo (8 * r) br"
  using assms by (simp add: br_rel_def br_wf_def br_sync_def)

lemma unat_add_bytes:
  assumes "unat (t :: u64) = 8 * r" "r + k \<le> n" "n < 2 ^ 60"
  shows "unat (t + of_nat k * 8) = 8 * (r + k)"
proof -
  have "unat (t + of_nat (8 * k)) = unat t + 8 * k" using assms by (intro unat_add_u64) simp
  then show ?thesis using assms(1) by (simp add: mult.commute)
qed

lemma breader_consume_checked_bo_spec:
  assumes at: "br_rel c dat bo p br"
  obtains br' where "breader_consume_checked_bo bo n br = (Ok (), br')"
    "br_rel c dat bo (min (p + n) (8 * length dat)) br'"
proof (cases "n \<le> br_lookahead_bit_cnt br")
  case True
  then obtain br' where "breader_consume_bo bo n br = (Ok (), br')" "br_rel c dat bo (p + n) br'"
    using breader_consume_bo_spec [OF at] by metis
  moreover from this(2) have "p + n \<le> 8 * length dat" by (rule br_rel_facts(5))
  ultimately show ?thesis using True that
    by (simp add: breader_consume_checked_bo_def cm_defs)
next
  case False
  define la t where "la = br_lookahead_bit_cnt br" and "t = n - la"
  obtain br1 where c: "breader_consume_bo bo la br = (Ok (), br1)" and at1: "br_rel c dat bo (p + la) br1"
    and z: "br_lookahead_bit_cnt br1 = 0" and rp: "br_read_ptr br1 = br_read_ptr br"
    using breader_consume_bo_spec [OF at, of la] by (auto simp: la_def)
  note f = br_rel_facts [OF at] and f1 = br_rel_facts [OF at1]
  define r where "r = br_read_ptr br"
  have pos: "p + n = 8 * r + t" "p + la = 8 * r" using f(1) False by (auto simp: r_def t_def la_def)
  define jump where "jump = (\<lambda>k. br1\<lparr>br_lookahead := 0, br_read_ptr := r + k,
      br_tot_bit_cnt := br_tot_bit_cnt br1 + of_nat k * 8\<rparr>)"
  have j: "br_rel c dat bo (8 * (r + k)) (jump k)" if "r + k \<le> length dat" for k
    using that f f1 pos z rp unat_add_bytes [of "br_tot_bit_cnt br1" r k "length dat"]
    by (intro br_rel_byteI) (auto simp: jump_def)
  have eq: "breader_consume_checked_bo bo n br =
      (if length dat - r \<le> t div 8 then (Ok (), jump (length dat - r))
       else (bindc (breader_refill_bo bo) (\<lambda>avail.
          thenc (assertc (t mod 8 \<le> avail)) (breader_consume (t mod 8)))) (jump (t div 8)))"
    using False c f1 rp unfolding breader_consume_checked_bo_def Let_def la_def [symmetric] t_def [symmetric]
    by (simp add: cm_defs jump_def r_def la_def t_def)
  show ?thesis
  proof (cases "length dat - r \<le> t div 8")
    case True
    then have "8 * (length dat - r) \<le> t" by linarith
    then have "min (p + n) (8 * length dat) = 8 * (r + (length dat - r))"
      using f(2) unfolding pos r_def by simp
    then show ?thesis using that True eq j [of "length dat - r"] f(2) by (simp add: r_def)
  next
    case short: False
    then have jj: "r + t div 8 \<le> length dat" by simp
    obtain br2 where r2: "breader_refill_bo bo (jump (t div 8)) = (Ok (br_lookahead_bit_cnt br2), br2)"
      "br_rel c dat bo (8 * (r + t div 8)) br2" "min 56 (bits_left dat (8 * (r + t div 8))) \<le> br_lookahead_bit_cnt br2"
      using breader_refill_bo_spec [OF j [OF jj]] by blast
    have "8 \<le> br_lookahead_bit_cnt br2" using r2(3) short by auto
    moreover have "t mod 8 < 8" by simp
    ultimately have le: "t mod 8 \<le> br_lookahead_bit_cnt br2" by linarith
    obtain br3 where r3: "breader_consume_bo bo (t mod 8) br2 = (Ok (), br3)"
      "br_rel c dat bo (8 * (r + t div 8) + t mod 8) br3"
      using breader_consume_bo_spec [OF r2(2) le] by metis
    have "min (p + n) (8 * length dat) = 8 * (r + t div 8) + t mod 8"
      using short f(2) unfolding pos r_def by (auto simp: min_def)
    moreover have "br_bo br2 = bo" using r2(2) by (rule br_rel_facts)
    ultimately show ?thesis
      using that r3 r2(1) le short eq by (simp add: cm_defs breader_consume_def)
  qed
qed

section \<open>Alignment\<close>

definition align_up :: "nat \<Rightarrow> nat \<Rightarrow> nat" where
  "align_up a p = a * ((p + a - 1) div a)"

lemma align_up_facts:
  assumes "0 < a"
  shows "p \<le> align_up a p" "a dvd align_up a p" "align_up a p < p + a"
    "a dvd q \<Longrightarrow> p \<le> q \<Longrightarrow> align_up a p \<le> q"
proof -
  have d: "a * ((p + a - 1) div a) + (p + a - 1) mod a = p + a - 1" by simp
  have m: "(p + a - 1) mod a < a" using assms by simp
  show "p \<le> align_up a p" "align_up a p < p + a" using d m assms unfolding align_up_def by linarith+
  show "a dvd align_up a p" by (simp add: align_up_def)
  show "align_up a p \<le> q" if q: "a dvd q" "p \<le> q"
  proof -
    from q(1) obtain k where k: "q = a * k" ..
    have "(p + a - 1) div a \<le> (a * k + (a - 1)) div a" using q k assms by (intro div_le_mono) simp
    also have "\<dots> = k + (a - 1) div a" using assms by (intro div_mult_self4) simp
    also have "\<dots> = k" using assms by simp
    finally show ?thesis by (simp add: align_up_def k)
  qed
qed

lemma unat_and_neg_exp:
  fixes w :: u64
  assumes "k < 64"
  shows "unat (w AND - (2 ^ k)) = 2 ^ k * (unat w div 2 ^ k)"
proof -
  have "w AND - (2 ^ k) = push_bit k (drop_bit k w)"
    by (rule u64_eqI) (auto simp: bit_simps minus_exp_eq_not_mask)
  also have "\<dots> = w - take_bit k w" using bits_ident [of k w] by (simp add: algebra_simps)
  finally have "unat (w AND - (2 ^ k)) = unat (w - take_bit k w)" by simp
  also have "\<dots> = unat w - unat (take_bit k w)" 
    by (intro unat_sub) (simp add: word_le_nat_alt unsigned_take_bit_eq)
  also have "unat (take_bit k w) = unat w mod 2 ^ k"
    by (simp only: unsigned_take_bit_eq) (simp add: take_bit_eq_mod)
  finally show ?thesis by (simp add: minus_mod_eq_mult_div)
qed

lemma unat_align:
  fixes tot :: u64
  assumes "k < 64" "unat tot \<le> 2 ^ 63"
  shows "unat ((tot + 2 ^ k - 1) AND - (2 ^ k)) = align_up (2 ^ k) (unat tot)"
proof -
  have "(2::nat) ^ k \<le> 2 ^ 63" using assms(1) by (intro power_increasing) simp_all
  then have "unat tot + (2 ^ k - 1) < 18446744073709551616" using assms(2) by simp
  then have "unat (tot + of_nat (2 ^ k - 1)) = unat tot + (2 ^ k - 1)" by (rule unat_add_u64)
  moreover have "tot + of_nat (2 ^ k - 1) = tot + 2 ^ k - 1" by (simp add: of_nat_diff algebra_simps)
  ultimately have "unat (tot + 2 ^ k - 1) = unat tot + 2 ^ k - 1" by (metis add_diff_assoc one_le_numeral one_le_power)
  then show ?thesis using assms by (simp add: unat_and_neg_exp align_up_def)
qed

lemma breader_align_bo_spec:
  assumes at: "br_rel c dat bo p br" and k: "k < 64"
  obtains br' where "breader_align_bo bo (2 ^ k) br = (Ok (), br')"
    "br_rel c dat bo (min (align_up (2 ^ k) p) (8 * length dat)) br'"
proof -
  note f = br_rel_facts [OF at]
  define nt where "nt = (br_tot_bit_cnt br + 2 ^ k - 1) AND - (2 ^ k)"
  have nt: "unat nt = align_up (2 ^ k) p" unfolding nt_def using unat_align [OF k] f by simp
  then have le: "p \<le> unat nt" using align_up_facts(1) [of "2 ^ k"] by simp
  then have "br_tot_bit_cnt br \<le> nt" by (simp add: word_le_nat_alt f(8))
  moreover from this have "unat (nt - br_tot_bit_cnt br) = unat nt - p" by (simp add: unat_sub f(8))
  ultimately have "breader_align_bo bo (2 ^ k) br = breader_consume_checked_bo bo (unat nt - p) br"
    by (simp add: breader_align_bo_def cm_defs Let_def flip: nt_def)
  then show ?thesis
    using that breader_consume_checked_bo_spec [OF at, of "unat nt - p"] le by (metis nt le_add_diff_inverse)
qed
section \<open>Changing the byte order\<close>

text \<open>The position of a bit within its byte, counted from the other end.\<close>

definition flip :: "nat \<Rightarrow> nat" where
  "flip i = 8 * (i div 8) + (7 - i mod 8)"

lemma flip_facts [simp]:
  "flip i div 8 = i div 8" "flip i mod 8 = 7 - i mod 8" "flip i < 8 * k \<longleftrightarrow> i < 8 * k"
  "flip i < 64 \<longleftrightarrow> i < 64"
proof -
  show d: "flip i div 8 = i div 8" by (simp add: flip_def)
  have "(8 * q + s) mod 8 = s" if "s < 8" for q s :: nat using that by simp
  from this [of "7 - i mod 8"] show "flip i mod 8 = 7 - i mod 8" unfolding flip_def by simp
  have "j < 8 * n \<longleftrightarrow> j div 8 < n" for j n :: nat by (auto simp: div_less_iff_less_mult mult.commute)
  then show lt: "flip i < 8 * n \<longleftrightarrow> i < 8 * n" for n using d by metis
  from lt [of 8] show "flip i < 64 \<longleftrightarrow> i < 64" by simp
qed

lemma win_bswap:
  assumes "bo \<noteq> bo'"
  shows "win bo' (bswap64 w) i \<longleftrightarrow> win bo w (flip i)"
proof (cases "i < 64")
  case True
  have s: "swap_pos 8 (63 - i) = flip i" using be_pos [OF True] by (simp add: flip_def)
  have "i = 8 * (i div 8) + i mod 8" "i mod 8 < 8" "i div 8 < 8" using True by simp_all
  then have "swap_pos 8 i = 63 - flip i" unfolding swap_pos_def flip_def by linarith
  with s True assms show ?thesis
    by (cases bo; cases bo') (auto simp: win_def bit_bswap64)
qed (use win_less flip_facts(4) in blast)

lemma sbit_flip:
  assumes "bo \<noteq> bo'" "8 dvd p"
  shows "sbit bo' dat (p + i) \<longleftrightarrow> sbit bo dat (p + flip i)"
proof -
  from assms(2) obtain k where k: "p = 8 * k" ..
  have "sbit bo' (drop k dat) i \<longleftrightarrow> sbit bo (drop k dat) (flip i)"
    using assms(1) by (cases bo; cases bo') (auto simp: sbit_def)
  then show ?thesis by (simp add: sbit_drop k)
qed

lemma breader_set_bo_spec:
  assumes at: "br_rel c dat bo p br"
  obtains br' where "breader_set_bo bo' br = (Ok (), br')"
    "br_rel (c \<and> (bo = bo' \<or> 8 dvd p)) dat bo' p br'"
proof (cases "bo = bo'")
  case True
  with at that show ?thesis by (simp add: breader_set_bo_def modify_def br_rel_facts(7))
next
  case ne: False
  define br' where "br' = br\<lparr>br_lookahead := bswap64 (br_lookahead br), br_bo := bo'\<rparr>"
  note f = br_rel_facts [OF at]
  have "br_sync br'" if "c" "8 dvd p"
  proof -
    from that(2) f(1) obtain k where k: "br_lookahead_bit_cnt br = 8 * k"
      by (metis dvd_add_right_iff dvd_triv_left dvd_def)
    have "win bo (br_lookahead br) j \<longrightarrow> sbit bo dat (p + j)"
      "j < 8 * k \<longrightarrow> sbit bo dat (p + j) \<longrightarrow> win bo (br_lookahead br) j" for j
      using at that(1) k by (auto simp: br_rel_def br_sync_def)
    then show ?thesis
      by (simp add: br_sync_def br'_def f k win_bswap [OF ne] sbit_flip [OF ne that(2)])
  qed
  then have "br_rel (c \<and> 8 dvd p) dat bo' p br'"
    using at by (auto simp: br_rel_def br_wf_def br'_def)
  moreover have "breader_set_bo bo' br = (Ok (), br')"
    using ne f by (simp add: breader_set_bo_def modify_def br'_def)
  ultimately show ?thesis using that [of br'] ne by simp
qed

section \<open>Reads and seeks\<close>

interpretation br: bit_reader "br_at dat bo" br_lookahead_bit_cnt "8 * length dat"
  "bits_val bo dat" "breader_peek_bo bo" "breader_consume_bo bo" "breader_refill_bo bo" for dat bo
proof
  show "\<exists>v. breader_peek_bo bo n s = (Ok v, s) \<and> v = bits_val bo dat p n"
    if "br_at dat bo p s" "0 < n" "n \<le> br_lookahead_bit_cnt s" for p s n
    using breader_peek_bo_spec [OF that] by simp
  show "\<exists>t. breader_consume_bo bo n s = (Ok (), t) \<and> br_at dat bo (p + n) t \<and>
      br_lookahead_bit_cnt t = br_lookahead_bit_cnt s - n"
    if "br_at dat bo p s" "n \<le> br_lookahead_bit_cnt s" for p s n
    using breader_consume_bo_spec [OF that] by metis
  show "\<exists>t. breader_refill_bo bo s = (Ok (br_lookahead_bit_cnt t), t) \<and> br_at dat bo p t \<and>
      min 56 (8 * length dat - p) \<le> br_lookahead_bit_cnt t \<and>
      br_lookahead_bit_cnt t \<le> 8 * length dat - p"
    if "br_at dat bo p s" for p s
    using breader_refill_bo_spec [OF that] by metis
qed (rule br_rel_facts)

lemma breader_read_bits_spec:
  assumes at: "br_at dat bo p br" and n: "0 < n" "n \<le> 56"
  shows "\<exists>br'. breader_read_bits n br =
      (Ok (if p + n \<le> 8 * length dat then bits_val bo dat p n else UINT64_MAX), br') \<and>
    br_at dat bo (if p + n \<le> 8 * length dat then p + n else p) br'"
proof -
  define m where "m = (if br_lookahead_bit_cnt br < n then breader_refill_bo bo
    else ret (br_lookahead_bit_cnt br))"
  obtain br1 where m: "m br = (Ok (br_lookahead_bit_cnt br1), br1)" and at1: "br_at dat bo p br1"
    and le: "br_lookahead_bit_cnt br1 \<le> bits_left dat p"
    and ge: "min n (bits_left dat p) \<le> br_lookahead_bit_cnt br1"
  proof (cases "br_lookahead_bit_cnt br < n")
    case True
    obtain t where "breader_refill_bo bo br = (Ok (br_lookahead_bit_cnt t), t)" "br_at dat bo p t"
      "min 56 (bits_left dat p) \<le> br_lookahead_bit_cnt t" "br_lookahead_bit_cnt t \<le> bits_left dat p"
      using br.refill_law [OF at] by blast
    with True n show ?thesis by (intro that [of t]) (simp_all add: m_def)
  next
    case False
    have "br_lookahead_bit_cnt br \<le> bits_left dat p" using br_rel_facts(1,2) [OF at] by simp
    then show ?thesis using False at n that by (simp add: m_def ret_def)
  qed
  have bo: "br_bo br = bo" "br_bo br1 = bo" using at at1 by (auto dest: br_rel_facts(7))
  have eq: "breader_read_bits n br =
      (if br_lookahead_bit_cnt br1 < n then (Ok UINT64_MAX, br1)
       else bindc (breader_peek_bo bo n) (\<lambda>v. thenc (breader_consume n) (ret v)) br1)"
  proof -
    have "(if br_lookahead_bit_cnt br < n then breader_refill else ret (br_lookahead_bit_cnt br)) br = m br"
      by (simp add: m_def breader_refill_def cm_defs bo)
    then show ?thesis
      using n m by (simp add: breader_read_bits_def MAX_READ_BITS_def thenc_def bindc_def gets_def
          assertc_def ret_def breader_peek_def bo)
  qed
  show ?thesis
  proof (cases "p + n \<le> 8 * length dat")
    case True
    then have n1: "n \<le> br_lookahead_bit_cnt br1" using ge by simp
    then show ?thesis
      using True eq bo br.consume_law [OF at1 n1] br.peek_law [OF at1 n(1) n1]
      by (auto simp: breader_consume_def cm_defs)
  next
    case False
    then have "br_lookahead_bit_cnt br1 < n" using le n(1) by simp
    then show ?thesis using False eq at1 by simp
  qed
qed

lemma breader_seek_set_spec:
  assumes "br_rel c dat bo p br"
  shows "\<exists>br'. breader_seek off BREADER_SEEK_SET br = (Ok (), br') \<and>
    br_at dat bo (8 * min off (length dat)) br'"
proof -
  note f = br_rel_facts [OF assms]
  define k where "k = min off (length dat)"
  have "snd (breader_seek off BREADER_SEEK_SET br) = br\<lparr>br_read_ptr := k,
      br_tot_bit_cnt := of_nat k * 8, br_lookahead := 0, br_lookahead_bit_cnt := 0\<rparr>"
    using f by (auto simp: breader_seek_def modify_def Let_def k_def)
  moreover have "unat (of_nat k * (8 :: u64)) = 8 * k"
    using f unat_add_bytes [of 0 0 k "length dat"] by (simp add: k_def)
  ultimately have "br_at dat bo (8 * k) (snd (breader_seek off BREADER_SEEK_SET br))"
    using f by (intro br_rel_byteI) (auto simp: k_def)
  then show ?thesis by (auto simp: breader_seek_def modify_def k_def)
qed

lemma bytes_of_position:
  assumes "br_rel c dat bo p br" "8 dvd p"
  shows "breader_byte_aligned br" "breader_bytes_remaining br = length dat - p div 8"
    "breader_peek_bytes br = p div 8"
proof -
  note f = br_rel_facts [OF assms(1)]
  from assms(2) obtain k where k: "p = 8 * k" ..
  with f(1) have "br_lookahead_bit_cnt br = 8 * (br_read_ptr br - k)" "k \<le> br_read_ptr br" by linarith+
  with f k show "breader_byte_aligned br" "breader_bytes_remaining br = length dat - p div 8"
    "breader_peek_bytes br = p div 8"
    by (simp_all add: breader_byte_aligned_def breader_bytes_remaining_def breader_peek_bytes_def)
qed

lemma breader_byte_aligned_iff:
  assumes "br_rel c dat bo p br"
  shows "breader_byte_aligned br \<longleftrightarrow> 8 dvd p"
  using br_rel_facts(1) [OF assms] unfolding breader_byte_aligned_def by presburger

lemma breader_read_bytes_spec:
  assumes at: "br_rel c dat bo p br" and "8 dvd p"
  shows "\<exists>br'. breader_read_bytes n br =
      (Ok (if p div 8 + n \<le> length dat then Some (p div 8) else None), br') \<and>
    br_rel c dat bo (if p div 8 + n \<le> length dat then p + 8 * n else p) br'"
proof -
  note f = br_rel_facts [OF at] and b = bytes_of_position [OF assms]
  obtain br' where c: "breader_consume_checked_bo bo (8 * n) br = (Ok (), br')"
    "br_rel c dat bo (min (p + 8 * n) (8 * length dat)) br'"
    using breader_consume_checked_bo_spec [OF at] by blast
  have p: "p = 8 * (p div 8)" using assms(2) by simp
  have "p div 8 \<le> length dat" using f(5) p by linarith
  then have lt: "length dat - p div 8 < n \<longleftrightarrow> \<not> p div 8 + n \<le> length dat" by linarith
  have "min (p + 8 * n) (8 * length dat) = p + 8 * n" if "p div 8 + n \<le> length dat" using that p by linarith
  with c lt b f at show ?thesis
    by (auto simp: breader_read_bytes_def breader_consume_checked_def cm_defs mult.commute
        breader_peek_bytes_def [symmetric])
qed

end
