(* ===== verification/Reader_Theorems.thy ===== *)
theory Reader_Theorems
  imports Breader_Spec
begin

text \<open>
  The reader as a refinement of a cursor over the bits of the data. A client of the reader is a
  sequence of its operations; whatever the sequence, the reader with its lookahead, its refills
  and its byte swaps returns what the cursor returns.
\<close>

section \<open>Clients of the reader\<close>

datatype rd_cmd =
    Read_bits nat | Read_bytes nat | Align nat | Skip nat | Set_bo actf_byte_order
  | Seek nat | Seek_end

datatype rd_out = Bits u64 | Bytes "nat option" | Done

fun exec :: "rd_cmd \<Rightarrow> rd_out br_op" where
  "exec (Read_bits n) = bindc (breader_read_bits n) (\<lambda>v. ret (Bits v))"
| "exec (Read_bytes n) = bindc (breader_read_bytes n) (\<lambda>p. ret (Bytes p))"
| "exec (Align k) = thenc (breader_align (2 ^ k)) (ret Done)"
| "exec (Skip n) = thenc (breader_consume_checked n) (ret Done)"
| "exec (Set_bo bo) = thenc (breader_set_bo bo) (ret Done)"
| "exec (Seek off) = thenc (breader_seek off BREADER_SEEK_SET) (ret Done)"
| "exec Seek_end = thenc (breader_seek 0 BREADER_SEEK_END) (ret Done)"

fun exec_all :: "rd_cmd list \<Rightarrow> rd_out list br_op" where
  "exec_all [] = ret []"
| "exec_all (c # cs) = bindc (exec c) (\<lambda>x. bindc (exec_all cs) (\<lambda>xs. ret (x # xs)))"

section \<open>The cursor\<close>

text \<open>
  What the operations mean: a position in bits and a byte order. \<open>None\<close> is a use that the
  interface does not allow: reading no bits or more than 56, bytes or another byte order in the
  middle of a byte.
\<close>

fun cursor :: "u8 list \<Rightarrow> rd_cmd \<Rightarrow> nat \<times> actf_byte_order \<Rightarrow> (rd_out \<times> nat \<times> actf_byte_order) option" where
  "cursor dat (Read_bits n) (p, bo) =
     (if n = 0 \<or> 56 < n then None
      else if p + n \<le> 8 * length dat then Some (Bits (bits_val bo dat p n), p + n, bo)
      else Some (Bits UINT64_MAX, p, bo))"
| "cursor dat (Read_bytes n) (p, bo) =
     (if \<not> 8 dvd p then None
      else if p div 8 + n \<le> length dat then Some (Bytes (Some (p div 8)), p + 8 * n, bo)
      else Some (Bytes None, p, bo))"
| "cursor dat (Align k) (p, bo) =
     (if 64 \<le> k then None else Some (Done, min (align_up (2 ^ k) p) (8 * length dat), bo))"
| "cursor dat (Skip n) (p, bo) = Some (Done, min (p + n) (8 * length dat), bo)"
| "cursor dat (Set_bo bo') (p, bo) = (if bo = bo' \<or> 8 dvd p then Some (Done, p, bo') else None)"
| "cursor dat (Seek off) (p, bo) = Some (Done, 8 * min off (length dat), bo)"
| "cursor dat Seek_end (p, bo) = Some (Done, 8 * length dat, bo)"

fun cursor_all :: "u8 list \<Rightarrow> rd_cmd list \<Rightarrow> nat \<times> actf_byte_order \<Rightarrow> rd_out list option" where
  "cursor_all dat [] s = Some []"
| "cursor_all dat (c # cs) s =
     (case cursor dat c s of
        None \<Rightarrow> None
      | Some (x, t) \<Rightarrow> map_option ((#) x) (cursor_all dat cs t))"

section \<open>Refinement\<close>

lemma breader_seek_end_spec:
  assumes "br_rel c dat bo p br"
  shows "\<exists>br'. breader_seek off BREADER_SEEK_END br = (Ok (), br') \<and> br_at dat bo (8 * length dat) br'"
proof -
  note f = br_rel_facts [OF assms]
  have "unat (of_nat (length dat) * 8 :: u64) = 8 * length dat"
    using unat_add_bytes [of 0 0 "length dat" "length dat"] f(4) by simp
  then show ?thesis using f
    by (simp add: breader_seek_def modify_def Let_def br_rel_def br_wf_def br_sync_def)
qed

lemma exec_cursor:
  assumes at: "br_at dat bo p br" and c: "cursor dat c (p, bo) = Some (x, q, bo')"
  shows "\<exists>br'. exec c br = (Ok x, br') \<and> br_at dat bo' q br'"
proof (cases c)
  case (Read_bits n)
  then have n: "0 < n" "n \<le> 56" using c by (auto split: if_splits)
  show ?thesis using breader_read_bits_spec [OF at n] c Read_bits
    by (auto simp: cm_defs split: if_splits)
next
  case (Read_bytes n)
  then have "8 dvd p" using c by (auto split: if_splits)
  then show ?thesis using breader_read_bytes_spec [OF at, of n] c Read_bytes
    by (auto simp: cm_defs split: if_splits)
next
  case (Align k)
  then have k: "k < 64" using c by (auto split: if_splits)
  obtain br' where "breader_align_bo bo (2 ^ k) br = (Ok (), br')"
    "br_at dat bo (min (align_up (2 ^ k) p) (8 * length dat)) br'"
    using breader_align_bo_spec [OF at k] .
  then show ?thesis using c k Align br_rel_facts(7) [OF at] by (auto simp: breader_align_def cm_defs)
next
  case (Skip n)
  obtain br' where "breader_consume_checked_bo bo n br = (Ok (), br')"
    "br_at dat bo (min (p + n) (8 * length dat)) br'"
    using breader_consume_checked_bo_spec [OF at] .
  then show ?thesis using c Skip br_rel_facts(7) [OF at] by (auto simp: breader_consume_checked_def cm_defs)
next
  case (Set_bo bo2)
  obtain br' where "breader_set_bo bo2 br = (Ok (), br')" "br_rel (True \<and> (bo = bo2 \<or> 8 dvd p)) dat bo2 p br'"
    using breader_set_bo_spec [OF at] .
  then show ?thesis using c Set_bo by (auto simp: cm_defs split: if_splits)
next
  case (Seek off)
  then show ?thesis using c breader_seek_set_spec [OF at, of off] by (auto simp: cm_defs)
next
  case Seek_end
  then show ?thesis using c breader_seek_end_spec [OF at, of 0] by (auto simp: cm_defs)
qed

lemma exec_all_cursor:
  assumes "br_at dat bo p br" "cursor_all dat cs (p, bo) = Some xs"
  shows "\<exists>br'. exec_all cs br = (Ok xs, br')"
  using assms
proof (induction cs arbitrary: p bo br xs)
  case (Cons c cs)
  then obtain x q bo' ys where c: "cursor dat c (p, bo) = Some (x, q, bo')"
    "cursor_all dat cs (q, bo') = Some ys" "xs = x # ys"
    by (auto split: option.splits)
  obtain br1 where "exec c br = (Ok x, br1)" "br_at dat bo' q br1"
    using exec_cursor [OF Cons.prems(1) c(1)] by blast
  then show ?case using Cons.IH [OF _ c(2)] c(3) by (fastforce simp: cm_defs)
qed (simp add: ret_def)

text \<open>
  C4. Whatever sequence of reads, alignments, skips, byte order changes and seeks a client
  issues on a new reader within the rules of the interface, the reader returns exactly the bits
  and bytes that lie under a cursor moving over the data; the lookahead and its refills are
  invisible.
\<close>

theorem reader_refines_cursor:
  assumes "length dat < 2 ^ 60" "cursor_all dat cs (0, bo) = Some xs"
  shows "\<exists>br. exec_all cs (breader_init dat bo) = (Ok xs, br)"
  using exec_all_cursor [OF br_at_init [OF assms(1)] assms(2)] .

theorem reader_refines_cursor_witness:
  "\<exists>br. exec_all [Read_bits 4, Align 3, Read_bytes 1, Set_bo ACTF_BIG_ENDIAN, Read_bits 12, Read_bits 9]
      (breader_init [0x21, 0x43, 0x65, 0x87] ACTF_LIL_ENDIAN) =
    (Ok [Bits 1, Done, Bytes (Some 1), Done, Bits 0x658, Bits UINT64_MAX], br)"
proof -
  have "cursor_all [0x21, 0x43, 0x65, 0x87]
      [Read_bits 4, Align 3, Read_bytes 1, Set_bo ACTF_BIG_ENDIAN, Read_bits 12, Read_bits 9] (0, ACTF_LIL_ENDIAN) =
    Some [Bits 1, Done, Bytes (Some 1), Done, Bits 0x658, Bits UINT64_MAX]" by code_simp
  then show ?thesis by (intro reader_refines_cursor) simp_all
qed

text \<open>
  C27. A relative seek counts from the end of the lookahead, not from the bit that is read next:
  it also skips the bits that were fetched and not yet read.
\<close>

theorem seek_cur_skips_lookahead:
  assumes "br_at dat bo p br"
  shows "\<exists>br'. breader_seek off BREADER_SEEK_CUR br = (Ok (), br') \<and>
    br_at dat bo (min (p + br_lookahead_bit_cnt br + 8 * off) (8 * length dat)) br'"
proof -
  note f = br_rel_facts [OF assms]
  define k where "k = min (br_read_ptr br + off) (length dat)"
  have s: "snd (breader_seek off BREADER_SEEK_CUR br) = br\<lparr>br_read_ptr := k,
      br_tot_bit_cnt := of_nat k * 8, br_lookahead := 0, br_lookahead_bit_cnt := 0\<rparr>"
    using f by (auto simp: breader_seek_def modify_def Let_def k_def)
  have "8 * k = min (p + br_lookahead_bit_cnt br + 8 * off) (8 * length dat)"
    using f(1) by (auto simp: k_def min_def)
  moreover have "br_at dat bo (8 * k) (snd (breader_seek off BREADER_SEEK_CUR br))"
    unfolding s using f unat_add_bytes [of 0 0 k "length dat"]
    by (intro br_rel_byteI) (simp_all add: k_def)
  moreover have "breader_seek off BREADER_SEEK_CUR br = (Ok (), snd (breader_seek off BREADER_SEEK_CUR br))"
    by (simp add: breader_seek_def modify_def)
  ultimately show ?thesis by auto
qed

theorem seek_cur_skips_lookahead_witness:
  "\<exists>br br'. breader_read_bits 8 (breader_init (replicate 8 1) ACTF_LIL_ENDIAN) = (Ok 1, br) \<and>
    br_at (replicate 8 1) ACTF_LIL_ENDIAN 8 br \<and>
    breader_seek 0 BREADER_SEEK_CUR br = (Ok (), br') \<and> br_at (replicate 8 1) ACTF_LIL_ENDIAN 56 br'"
proof -
  let ?d = "replicate 8 1 :: u8 list"
  have i: "br_at ?d ACTF_LIL_ENDIAN 0 (breader_init ?d ACTF_LIL_ENDIAN)" by (intro br_at_init) simp
  have v: "bits_val ACTF_LIL_ENDIAN ?d 0 8 = 1" by code_simp
  obtain br where r: "breader_read_bits 8 (breader_init ?d ACTF_LIL_ENDIAN) = (Ok 1, br)" and b: "br_at ?d ACTF_LIL_ENDIAN 8 br"
    using breader_read_bits_spec [OF i, of 8] v by auto
  have "br_lookahead_bit_cnt (snd (breader_read_bits 8 (breader_init ?d ACTF_LIL_ENDIAN))) = 48" by code_simp
  then have "br_lookahead_bit_cnt br = 48" using r by simp
  then show ?thesis using seek_cur_skips_lookahead [OF b, of 0] r b by auto
qed

end
