(* ===== verification/Bit_Fields.thy ===== *)
theory Bit_Fields
  imports Breader_Spec
begin

unbundle bit_operations_syntax

text \<open>
  The bit-level routines of decoder.c: bit reversal, sign extension, the two-step read of a
  fixed-length bit array, and the loops of the variable-length integer. The macros of decoder.c
  that paste a byte order into the names of the reader operations take those operations as
  arguments here.
\<close>

section \<open>Definitions\<close>

function reverse_bits_loop :: "u64 \<Rightarrow> u64 \<Rightarrow> nat \<Rightarrow> u64 \<times> nat" where
  "reverse_bits_loop v r s =
     (if v = 0 then (r, s)
      else reverse_bits_loop (drop_bit 1 v) (push_bit 1 r OR (v AND 1)) (s - 1))"
  by pat_completeness auto
termination
proof (relation "measure (\<lambda>(v, r, s). unat v)")
  fix v r :: u64 and s :: nat
  assume "v \<noteq> 0"
  then have "0 < unat v" by (simp add: unat_gt_0)
  then show "((drop_bit 1 v, push_bit 1 r OR (v AND 1), s - 1), v, r, s)
      \<in> measure (\<lambda>(v, r, s). unat v)"
    by (simp add: drop_bit_eq_div unat_div)
qed simp

declare reverse_bits_loop.simps [simp del]

text \<open>A length of zero or above 64 is an oversized shift.\<close>

definition reverse_bits :: "u64 \<Rightarrow> nat \<Rightarrow> u64 res" where
  "reverse_bits v len =
     (let (r, s) = reverse_bits_loop (drop_bit 1 v) v 63 in
      if len = 0 \<or> 64 < len then Undef else Ok (drop_bit (64 - len) (push_bit s r)))"

definition sext :: "u64 \<Rightarrow> nat \<Rightarrow> u64 res" where
  "sext val n_bits =
     (if n_bits = 0 \<or> 64 < n_bits then Undef
      else let sign_bit = drop_bit (n_bits - 1) val in
        if n_bits < 64 \<and> sign_bit \<noteq> 0
        then Ok (val OR push_bit n_bits (push_bit (64 - n_bits) 1 - 1))
        else Ok val)"

definition read_upper_bits_bo ::
  "actf_byte_order \<Rightarrow> u64 \<Rightarrow> nat \<Rightarrow> nat \<Rightarrow> u64 br_op" where
  "read_upper_bits_bo bo result remain_bits first_bits =
     (case bo of
        ACTF_LIL_ENDIAN \<Rightarrow>
          bindc (breader_peek_le remain_bits) (\<lambda>v. ret (result OR push_bit first_bits v))
      | ACTF_BIG_ENDIAN \<Rightarrow>
          bindc (breader_peek_be remain_bits) (\<lambda>v. ret (push_bit remain_bits result OR v)))"

definition bit_run ::
  "('s, nat) cm \<Rightarrow> (nat \<Rightarrow> ('s, u64) cm) \<Rightarrow> (nat \<Rightarrow> ('s, unit) cm) \<Rightarrow>
   (u64 \<Rightarrow> nat \<Rightarrow> nat \<Rightarrow> ('s, u64) cm) \<Rightarrow> nat \<Rightarrow> ('s, u64) cm" where
  "bit_run refill peek consume read_upper_bits len =
     bindc refill (\<lambda>avail_bits.
       thenc (ensure (avail_bits \<noteq> 0) ACTF_NOT_ENOUGH_BITS)
      (let first_bits = min avail_bits len in
       bindc (peek first_bits) (\<lambda>result.
       thenc (consume first_bits)
      (let remain_bits = len - first_bits in
       if remain_bits \<noteq> 0 then
         bindc refill (\<lambda>avail_bits.
           thenc (ensure (remain_bits \<le> avail_bits) ACTF_NOT_ENOUGH_BITS)
          (bindc (read_upper_bits result remain_bits first_bits) (\<lambda>result.
           thenc (consume remain_bits) (ret result))))
       else ret result))))"

definition bit_run_bo :: "actf_byte_order \<Rightarrow> nat \<Rightarrow> u64 br_op" where
  "bit_run_bo bo =
     bit_run (breader_refill_bo bo) (breader_peek_bo bo) (breader_consume_bo bo)
       (read_upper_bits_bo bo)"

text \<open>
  The inner loop of the variable-length integer: the result so far, the shift, and whether the
  last byte has been seen. A shift of 64 or more is undefined.
\<close>

fun var_len_inner ::
  "(nat \<Rightarrow> ('s, u64) cm) \<Rightarrow> (nat \<Rightarrow> ('s, unit) cm) \<Rightarrow> nat \<Rightarrow> u64 \<Rightarrow> nat \<Rightarrow>
   ('s, u64 \<times> nat \<times> bool) cm" where
  "var_len_inner peek consume avail_bits result shift =
     (if avail_bits = 0 then ret (result, shift, False)
      else if avail_bits < 8 \<or> 64 \<le> shift then undef
      else
        bindc (peek 7) (\<lambda>v.
        thenc (consume 7)
       (bindc (peek 1) (\<lambda>more.
        thenc (consume 1)
       (let result = result OR push_bit shift v in
        if more = 0 then ret (result, shift + 7, True)
        else var_len_inner peek consume (avail_bits - 8) result (shift + 7))))))"

declare var_len_inner.simps [simp del]

section \<open>Bit reversal and sign extension\<close>

lemma reverse_bits_loop_bits:
  assumes "v = drop_bit (Suc k) v0" "k \<le> 63" "s = 63 - k"
    "\<And>j. bit r j \<longleftrightarrow> j < 64 \<and> bit v0 (if j \<le> k then k - j else j - k)"
    "reverse_bits_loop v r s = (r', s')"
  shows "bit (push_bit s' r') j \<longleftrightarrow> j < 64 \<and> bit v0 (63 - j)"
  using assms
proof (induction v r s arbitrary: k r' s' rule: reverse_bits_loop.induct)
  case (1 v r s)
  show ?case
  proof (cases "v = 0")
    case True
    have "\<not> bit (drop_bit (Suc k) v0) i" for i using True 1(2) by simp
    then have "\<not> bit v0 (Suc k + i)" for i by (simp add: bit_drop_bit_eq)
    then have z: "\<not> bit v0 i" if "k < i" for i
      using that by (metis Suc_leI le_add_diff_inverse)
    have e: "r' = r" "s' = 63 - k" using 1(4,6) True by (simp_all add: reverse_bits_loop.simps [of 0])
    show ?thesis
    proof (cases "63 - k \<le> j")
      case True
      then have "j - (63 - k) \<le> k \<longleftrightarrow> j < 64" "j < 64 \<Longrightarrow> k - (j - (63 - k)) = 63 - j"
        using 1(3) by auto
      then show ?thesis using True 1(5) [of "j - (63 - k)"] e by (auto simp: bit_push_bit_iff)
    next
      case False
      then show ?thesis using e z [of "63 - j"] by (auto simp: bit_push_bit_iff)
    qed
  next
    case False
    have "drop_bit 64 v0 = 0" by (rule u64_eqI) (auto simp: bit_drop_bit_eq dest: bit_u64_less)
    then have "k \<noteq> 63" using False 1(2) by auto
    then have k: "Suc k \<le> 63" using 1(3) by simp
    have v: "drop_bit 1 v = drop_bit (Suc (Suc k)) v0" using 1(2) by (simp add: drop_bit_Suc)
    have b0: "bit v 0 = bit v0 (Suc k)" using 1(2) by (simp add: bit_drop_bit_eq)
    have pb: "bit (push_bit 1 r) j \<longleftrightarrow> 1 \<le> j \<and> j < 64 \<and> bit r (j - 1)" for j
      unfolding bit_push_bit_iff by auto
    have r: "bit (push_bit 1 r OR (v AND 1)) j \<longleftrightarrow>
        j < 64 \<and> bit v0 (if j \<le> Suc k then Suc k - j else j - Suc k)" for j
    proof (cases j)
      case 0
      then show ?thesis using b0 unfolding bit_or_iff bit_and_iff pb by (simp add: bit_1_iff)
    next
      case (Suc i)
      have "bit (push_bit 1 r OR (v AND 1)) j \<longleftrightarrow> j < 64 \<and> bit r i"
        using Suc unfolding bit_or_iff bit_and_iff pb by (auto simp: bit_1_iff)
      then show ?thesis using Suc 1(5) [of i] by auto
    qed
    show ?thesis
      by (rule 1(1) [OF False v k _ r])
        (use 1(4,6) False in \<open>simp_all add: reverse_bits_loop.simps [of v]\<close>)
  qed
qed

lemma bit_reverse_bits:
  assumes "0 < len" "len \<le> 64" "\<And>i. bit v i \<Longrightarrow> i < len"
  obtains r where "reverse_bits v len = Ok r" "\<And>i. bit r i \<longleftrightarrow> i < len \<and> bit v (len - 1 - i)"
proof -
  obtain r s where rs: "reverse_bits_loop (drop_bit 1 v) v 63 = (r, s)" by fastforce
  have b: "bit (push_bit s r) j \<longleftrightarrow> j < 64 \<and> bit v (63 - j)" for j
    by (rule reverse_bits_loop_bits [OF _ _ _ _ rs, of 0 v]) (auto dest: bit_u64_less)
  have "63 - (64 - len + i) = len - 1 - i" for i using assms(2) by simp
  then have "bit (drop_bit (64 - len) (push_bit s r)) i \<longleftrightarrow> i < len \<and> bit v (len - 1 - i)" for i
    using assms(1,2) unfolding bit_drop_bit_eq comp_apply b by auto
  then show thesis using that rs assms(1,2) by (simp add: reverse_bits_def)
qed

lemma reverse_bits_Ok: "0 < len \<Longrightarrow> len \<le> 64 \<Longrightarrow> \<exists>w. reverse_bits v len = Ok w"
  by (cases "reverse_bits_loop (drop_bit 1 v) v 63") (simp add: reverse_bits_def)

text \<open>Sign extension is reading the low bits as a two's complement number.\<close>

lemma sext_signed:
  assumes "0 < n" "n \<le> 64" "\<And>i. bit v i \<Longrightarrow> i < n"
  shows "sext v n = Ok (signed_take_bit (n - 1) v)"
proof -
  have hi: "drop_bit (n - 1) v \<noteq> 0 \<longleftrightarrow> bit v (n - 1)"
  proof
    assume "drop_bit (n - 1) v \<noteq> 0"
    then obtain i where i: "bit (drop_bit (n - 1) v) i" using bit_eqI [of "drop_bit (n - 1) v" 0] by auto
    then have "bit v (n - 1 + i)" by (simp add: bit_drop_bit_eq)
    moreover from assms(3) [OF this] have "i = 0" by simp
    ultimately show "bit v (n - 1)" by simp
  qed (metis bit_0_eq bit_iff_odd_drop_bit bot_apply bot_bool_def even_zero)
  show ?thesis
  proof (cases "n < 64 \<and> bit v (n - 1)")
    case True
    have m: "push_bit (64 - n) 1 - 1 = (mask (64 - n) :: u64)"
      by (simp add: push_bit_eq_mult mask_eq_exp_minus_1)
    have "v OR push_bit n (mask (64 - n)) = signed_take_bit (n - 1) v"
    proof (rule u64_eqI)
      fix i :: nat
      assume "i < 64"
      then show "bit (v OR push_bit n (mask (64 - n))) i = bit (signed_take_bit (n - 1) v) i"
        using True assms by (cases "i = n - 1") (auto simp: bit_simps min_def)
    qed
    then show ?thesis using True assms hi m by (simp add: sext_def Let_def)
  next
    case False
    have "v = signed_take_bit (n - 1) v"
    proof (rule u64_eqI)
      fix i :: nat
      assume "i < 64"
      then show "bit v i = bit (signed_take_bit (n - 1) v) i"
        using False assms(1,2) assms(3) [of i]
        by (cases "i = n - 1") (auto simp: bit_signed_take_bit_iff min_def)
    qed
    then show ?thesis using False assms hi by (auto simp: sext_def Let_def)
  qed
qed

section \<open>The two-step read\<close>

locale wide_reader = bit_source rel avail total holds peek consume refill
  for rel :: "nat \<Rightarrow> 's \<Rightarrow> bool" and avail total holds peek consume refill +
  fixes upper :: "u64 \<Rightarrow> nat \<Rightarrow> nat \<Rightarrow> ('s, u64) cm"
  assumes upper_law: "rel (p + m) s \<Longrightarrow> 0 < n \<Longrightarrow> n \<le> avail s \<Longrightarrow> 0 < m \<Longrightarrow> m + n \<le> 64 \<Longrightarrow> holds p m r \<Longrightarrow>
    \<exists>v. upper r n m s = (Ok v, s) \<and> holds p (m + n) v"
begin

text \<open>
  A run of up to 64 bits is read whole, over at most two refills, or reported as missing. The
  reader never moves past the end of the run.
\<close>

lemma bit_run_spec:
  assumes at: "rel p s" and n: "0 < n" "n \<le> 64"
  shows "\<exists>t q v. bit_run refill peek consume upper n s =
      (if p + n \<le> total then Ok v else Err ACTF_NOT_ENOUGH_BITS, t) \<and> (p + n \<le> total \<longrightarrow> holds p n v) \<and>
      rel q t \<and> p \<le> q \<and> q \<le> p + n \<and> (p + n \<le> total \<longrightarrow> q = p + n)"
proof -
  obtain s1 where s1: "refill s = (Ok (avail s1), s1)" "rel p s1" "min 56 (total - p) \<le> avail s1"
    "avail s1 \<le> total - p"
    using refill_law [OF at] by blast
  define m where "m = min (avail s1) n"
  show ?thesis
  proof (cases "avail s1 = 0")
    case True
    then have "\<not> p + n \<le> total" using s1(3) rel_le [OF at] n by simp
    then show ?thesis using True s1 by (auto simp: bit_run_def cm_defs)
  next
    case False
    then have m: "0 < m" "m \<le> avail s1" "m \<le> n" using n by (auto simp: m_def)
    obtain s2 where s2: "consume m s1 = (Ok (), s2)" "rel (p + m) s2"
      using consume_law [OF s1(2) m(2)] by blast
    obtain v where pk: "peek m s1 = (Ok v, s1)" and v: "holds p m v" using peek_holds [OF s1(2) m(1,2)] by blast
    show ?thesis
    proof (cases "n \<le> m")
      case True
      then have "n = m" using m(3) by simp
      then show ?thesis using False s1 s2 pk v m rel_le [OF s2(2)]
        by (auto simp: bit_run_def cm_defs Let_def m_def)
    next
      case short: False
      define r where "r = n - m"
      have r: "0 < r" "p + m + r = p + n" "m + r = n" "m = avail s1"
        using short m s1(3,4) n rel_le [OF at] unfolding r_def m_def by auto
      obtain s3 where s3: "refill s2 = (Ok (avail s3), s3)" "rel (p + m) s3"
        "min 56 (total - (p + m)) \<le> avail s3" "avail s3 \<le> total - (p + m)"
        using refill_law [OF s2(2)] by blast
      have eq: "bit_run refill peek consume upper n s =
          thenc (ensure (r \<le> avail s3) ACTF_NOT_ENOUGH_BITS)
            (bindc (upper v r m) (\<lambda>w. thenc (consume r) (ret w))) s3"
        using False s1(1) s2(1) pk s3(1) short r(1)
        by (simp add: bit_run_def bindc_def thenc_def ensure_def Let_def r_def flip: m_def)
      show ?thesis
      proof (cases "p + n \<le> total")
        case True
        then have "56 \<le> m" using s1(3) short r by linarith
        then have le: "r \<le> avail s3" using True s3(3) r n(2) by linarith
        obtain s4 where s4: "consume r s3 = (Ok (), s4)" "rel (p + m + r) s4"
          using consume_law [OF s3(2) le] by blast
        obtain w where "upper v r m s3 = (Ok w, s3)" "holds p n w"
          using upper_law [OF s3(2) r(1) le m(1) _ v] r n by auto
        then show ?thesis using True eq le s4 r by (auto simp: cm_defs add.assoc)
      next
        case False
        then have "\<not> r \<le> avail s3" using s3(4) r by linarith
        then show ?thesis using False eq s3(2) r by (auto simp: cm_defs)
      qed
    qed
  qed
qed

end

text \<open>
  The reader of breader.c with its lookahead in step with the stream or not; only in the former
  case its values are those of the stream.
\<close>

interpretation brw: wide_reader "br_rel c dat bo" br_lookahead_bit_cnt "8 * length dat"
  "\<lambda>p n v. c \<longrightarrow> v = bits_val bo dat p n" "breader_peek_bo bo" "breader_consume_bo bo" "breader_refill_bo bo"
  "read_upper_bits_bo bo" for c dat bo
proof
  show "\<exists>v. breader_peek_bo bo n s = (Ok v, s) \<and> (c \<longrightarrow> v = bits_val bo dat p n)"
    if "br_rel c dat bo p s" "0 < n" "n \<le> br_lookahead_bit_cnt s" for p s n
    using that by (rule breader_peek_bo_any)
  show "\<exists>t. breader_consume_bo bo n s = (Ok (), t) \<and> br_rel c dat bo (p + n) t \<and>
      br_lookahead_bit_cnt t = br_lookahead_bit_cnt s - n"
    if "br_rel c dat bo p s" "n \<le> br_lookahead_bit_cnt s" for p s n
    using breader_consume_bo_spec [OF that] by metis
  show "\<exists>t. breader_refill_bo bo s = (Ok (br_lookahead_bit_cnt t), t) \<and> br_rel c dat bo p t \<and>
      min 56 (8 * length dat - p) \<le> br_lookahead_bit_cnt t \<and>
      br_lookahead_bit_cnt t \<le> 8 * length dat - p"
    if "br_rel c dat bo p s" for p s
    using breader_refill_bo_spec [OF that] by metis
  show "\<exists>v. read_upper_bits_bo bo r n m s = (Ok v, s) \<and> (c \<longrightarrow> v = bits_val bo dat p (m + n))"
    if "br_rel c dat bo (p + m) s" "0 < n" "n \<le> br_lookahead_bit_cnt s" "c \<longrightarrow> r = bits_val bo dat p m" for p m n r s
    using breader_peek_bo_any [OF that(1-3)] that(4)
    by (cases bo) (auto simp: read_upper_bits_bo_def breader_peek_bo_def cm_defs
        bits_val_append_le bits_val_append_be)
qed (rule br_rel_facts)

lemmas bit_run_bo_spec = brw.bit_run_spec [folded bit_run_bo_def]

end
