(* ===== verification/Rng.thy ===== *)
theory Rng
  imports Prelude
begin

text \<open>
  Range sets (rng.c, rng_int.h): arrays of inclusive 64-bit ranges, all signed or all unsigned.
  \<open>rng_set_ints\<close> is the set of integers a range set denotes; the intersection tests of rng.c
  are shown to decide membership and overlap of these sets, across signedness.
\<close>

section \<open>Data\<close>

record srng =
  s_lower :: i64
  s_upper :: i64

record urng =
  u_lower :: u64
  u_upper :: u64

type_synonym srng_set = "srng list"
type_synonym urng_set = "urng list"

datatype actf_rng_set = RNG_SINT srng_set | RNG_UINT urng_set

section \<open>Operations\<close>

definition actf_rng_set_len :: "actf_rng_set \<Rightarrow> nat" where
  "actf_rng_set_len rs = (case rs of RNG_SINT srs \<Rightarrow> length srs | RNG_UINT urs \<Rightarrow> length urs)"

definition urng_intersect_urng :: "urng \<Rightarrow> urng \<Rightarrow> bool" where
  "urng_intersect_urng rng_a rng_b \<longleftrightarrow>
     \<not> (u_upper rng_a < u_lower rng_b \<or> u_lower rng_a > u_upper rng_b)"

definition srng_intersect_srng :: "srng \<Rightarrow> srng \<Rightarrow> bool" where
  "srng_intersect_srng rng_a rng_b \<longleftrightarrow>
     \<not> (sint (s_upper rng_a) < sint (s_lower rng_b) \<or> sint (s_lower rng_a) > sint (s_upper rng_b))"

text \<open>The non-negative part of a signed range, where it has one.\<close>

definition urng_of_srng :: "srng \<Rightarrow> urng" where
  "urng_of_srng rng =
     \<lparr>u_lower = (if 0 < sint (s_lower rng) then s_lower rng else 0), u_upper = s_upper rng\<rparr>"

definition urng_intersect_srng :: "urng \<Rightarrow> srng \<Rightarrow> bool" where
  "urng_intersect_srng rng_a rng_b \<longleftrightarrow>
     (if sint (s_upper rng_b) < 0 then False else urng_intersect_urng rng_a (urng_of_srng rng_b))"

fun urng_set_intersect_urng :: "urng_set \<Rightarrow> urng \<Rightarrow> bool" where
  "urng_set_intersect_urng [] rng \<longleftrightarrow> False"
| "urng_set_intersect_urng (r # rs) rng \<longleftrightarrow>
     (if urng_intersect_urng r rng then True else urng_set_intersect_urng rs rng)"

fun srng_set_intersect_srng :: "srng_set \<Rightarrow> srng \<Rightarrow> bool" where
  "srng_set_intersect_srng [] rng \<longleftrightarrow> False"
| "srng_set_intersect_srng (r # rs) rng \<longleftrightarrow>
     (if srng_intersect_srng r rng then True else srng_set_intersect_srng rs rng)"

definition urng_set_intersect_srng :: "urng_set \<Rightarrow> srng \<Rightarrow> bool" where
  "urng_set_intersect_srng rs rng \<longleftrightarrow>
     (if sint (s_upper rng) < 0 then False else urng_set_intersect_urng rs (urng_of_srng rng))"

definition actf_rng_set_intersect_rng_set :: "actf_rng_set \<Rightarrow> actf_rng_set \<Rightarrow> bool" where
  "actf_rng_set_intersect_rng_set rs_a rs_b \<longleftrightarrow>
     (case (rs_a, rs_b) of
        (RNG_SINT a, RNG_SINT b) \<Rightarrow> list_ex (\<lambda>r. srng_set_intersect_srng b r) a
      | (RNG_UINT a, RNG_UINT b) \<Rightarrow> list_ex (\<lambda>r. urng_set_intersect_urng b r) a
      | (RNG_UINT a, RNG_SINT b) \<Rightarrow> list_ex (\<lambda>r. urng_set_intersect_srng a r) b
      | (RNG_SINT a, RNG_UINT b) \<Rightarrow> list_ex (\<lambda>r. urng_set_intersect_srng b r) a)"

fun urng_set_intersect :: "urng_set \<Rightarrow> u64 \<Rightarrow> bool" where
  "urng_set_intersect [] pt \<longleftrightarrow> False"
| "urng_set_intersect (r # rs) pt \<longleftrightarrow>
     (if u_lower r \<le> pt \<and> pt \<le> u_upper r then True else urng_set_intersect rs pt)"

fun srng_set_intersect :: "srng_set \<Rightarrow> i64 \<Rightarrow> bool" where
  "srng_set_intersect [] pt \<longleftrightarrow> False"
| "srng_set_intersect (r # rs) pt \<longleftrightarrow>
     (if sint (s_lower r) \<le> sint pt \<and> sint pt \<le> sint (s_upper r) then True
      else srng_set_intersect rs pt)"

definition actf_rng_set_intersect_sint :: "actf_rng_set \<Rightarrow> i64 \<Rightarrow> bool" where
  "actf_rng_set_intersect_sint rs pt \<longleftrightarrow>
     (case rs of
        RNG_SINT srs \<Rightarrow> srng_set_intersect srs pt
      | RNG_UINT urs \<Rightarrow> if sint pt < 0 then False else urng_set_intersect urs pt)"

definition actf_rng_set_intersect_uint :: "actf_rng_set \<Rightarrow> u64 \<Rightarrow> bool" where
  "actf_rng_set_intersect_uint rs pt \<longleftrightarrow>
     (case rs of
        RNG_SINT srs \<Rightarrow> if INT64_MAX < pt then False else srng_set_intersect srs pt
      | RNG_UINT urs \<Rightarrow> urng_set_intersect urs pt)"

section \<open>The integers of a range set\<close>

definition urng_ints :: "urng \<Rightarrow> int set" where
  "urng_ints r = {uint (u_lower r)..uint (u_upper r)}"

definition srng_ints :: "srng \<Rightarrow> int set" where
  "srng_ints r = {sint (s_lower r)..sint (s_upper r)}"

definition rng_set_ints :: "actf_rng_set \<Rightarrow> int set" where
  "rng_set_ints rs =
     (case rs of RNG_SINT srs \<Rightarrow> \<Union> (set (map srng_ints srs))
               | RNG_UINT urs \<Rightarrow> \<Union> (set (map urng_ints urs)))"

text \<open>Every range is a proper one: the parser rejects a lower bound above the upper one.\<close>

definition rng_set_wf :: "actf_rng_set \<Rightarrow> bool" where
  "rng_set_wf rs \<longleftrightarrow>
     (case rs of RNG_SINT srs \<Rightarrow> (\<forall>r \<in> set srs. sint (s_lower r) \<le> sint (s_upper r))
               | RNG_UINT urs \<Rightarrow> (\<forall>r \<in> set urs. u_lower r \<le> u_upper r))"

section \<open>Lemmas\<close>

lemma sint_nonneg_uint: "0 \<le> sint (w :: i64) \<Longrightarrow> uint w = sint w"
  using uint_u64_less [of w] by (simp add: sint_u64 split: if_splits)

lemma INT64_MAX_less_iff: "INT64_MAX < pt \<longleftrightarrow> sint pt < 0"
  using uint_u64_less [of pt] uint_u64_nonneg [of pt]
  by (auto simp: INT64_MAX_def word_less_def sint_u64 simp del: uint_u64_nonneg)

lemma interval_overlap:
  "l \<le> u \<Longrightarrow> m \<le> v \<Longrightarrow> \<not> (u < m \<or> l > v) \<longleftrightarrow> {l..u} \<inter> {m..v} \<noteq> {}" for l u m v :: int
  by auto

lemma urng_intersect_urng_iff:
  "u_lower a \<le> u_upper a \<Longrightarrow> u_lower b \<le> u_upper b \<Longrightarrow>
   urng_intersect_urng a b \<longleftrightarrow> urng_ints a \<inter> urng_ints b \<noteq> {}"
  unfolding urng_intersect_urng_def urng_ints_def
  by (subst interval_overlap [symmetric]) (simp_all add: word_le_def word_less_def)

lemma srng_intersect_srng_iff:
  "sint (s_lower a) \<le> sint (s_upper a) \<Longrightarrow> sint (s_lower b) \<le> sint (s_upper b) \<Longrightarrow>
   srng_intersect_srng a b \<longleftrightarrow> srng_ints a \<inter> srng_ints b \<noteq> {}"
  unfolding srng_intersect_srng_def srng_ints_def
  by (subst interval_overlap [symmetric]) simp_all

lemma urng_of_srng_ints:
  assumes "0 \<le> sint (s_upper r)"
  shows "urng_ints (urng_of_srng r) = srng_ints r \<inter> {0..}"
  using assms by (auto simp: urng_ints_def urng_of_srng_def srng_ints_def sint_nonneg_uint)

lemma urng_ints_nonneg: "urng_ints r \<subseteq> {0..}"
  by (auto simp: urng_ints_def intro: order_trans [OF uint_u64_nonneg])

lemma set_intersect_ex:
  "urng_set_intersect_urng us u \<longleftrightarrow> (\<exists>r \<in> set us. urng_intersect_urng r u)"
  "srng_set_intersect_srng ss s \<longleftrightarrow> (\<exists>r \<in> set ss. srng_intersect_srng r s)"
  by (induction us, simp_all) (induction ss, simp_all)

lemma urng_set_intersect_srng_iff:
  assumes "\<forall>r \<in> set us. u_lower r \<le> u_upper r" "sint (s_lower s) \<le> sint (s_upper s)"
  shows "urng_set_intersect_srng us s \<longleftrightarrow> (\<exists>r \<in> set us. urng_ints r \<inter> srng_ints s \<noteq> {})"
proof (cases "sint (s_upper s) < 0")
  case True
  then have "srng_ints s \<inter> {0..} = {}" by (auto simp: srng_ints_def)
  then show ?thesis using True urng_ints_nonneg by (fastforce simp: urng_set_intersect_srng_def)
next
  case False
  then have "u_lower (urng_of_srng s) \<le> u_upper (urng_of_srng s)"
    using assms(2) by (auto simp: urng_of_srng_def word_le_def sint_nonneg_uint)
  moreover have "urng_ints r \<inter> (srng_ints s \<inter> {0..}) = urng_ints r \<inter> srng_ints s" for r
    using urng_ints_nonneg [of r] by auto
  ultimately show ?thesis
    using False assms(1)
    by (simp add: urng_set_intersect_srng_def set_intersect_ex urng_intersect_urng_iff urng_of_srng_ints)
qed

section \<open>Properties\<close>

lemma rng_set_intersect_iff:
  assumes "rng_set_wf a" "rng_set_wf b"
  shows "actf_rng_set_intersect_rng_set a b \<longleftrightarrow> rng_set_ints a \<inter> rng_set_ints b \<noteq> {}"
  using assms
  by (cases a; cases b)
    (fastforce simp: actf_rng_set_intersect_rng_set_def rng_set_ints_def rng_set_wf_def list_ex_iff
      set_intersect_ex urng_set_intersect_srng_iff urng_intersect_urng_iff srng_intersect_srng_iff)+

lemma set_intersect_pt:
  "urng_set_intersect us w \<longleftrightarrow> uint w \<in> rng_set_ints (RNG_UINT us)"
  "srng_set_intersect ss w \<longleftrightarrow> sint w \<in> rng_set_ints (RNG_SINT ss)"
proof -
  show "urng_set_intersect us w \<longleftrightarrow> uint w \<in> rng_set_ints (RNG_UINT us)"
    by (induction us) (auto simp: rng_set_ints_def urng_ints_def word_le_def)
  show "srng_set_intersect ss w \<longleftrightarrow> sint w \<in> rng_set_ints (RNG_SINT ss)"
    by (induction ss) (auto simp: rng_set_ints_def srng_ints_def)
qed

lemma rng_set_intersect_uint_iff:
  "actf_rng_set_intersect_uint rs w \<longleftrightarrow> uint w \<in> rng_set_ints rs"
proof (cases rs)
  case (RNG_SINT srs)
  show ?thesis
  proof (cases "sint w < 0")
    case True
    then have "2 ^ 63 \<le> uint w" using INT64_MAX_less_iff [of w] by (simp add: INT64_MAX_def word_less_def)
    moreover have "sint (v :: i64) < 2 ^ 63" for v using sint_less [of v] by simp
    ultimately have "uint w \<notin> srng_ints r" for r
      unfolding srng_ints_def atLeastAtMost_iff by (meson not_le order_trans)
    then show ?thesis using True RNG_SINT
      by (auto simp: actf_rng_set_intersect_uint_def INT64_MAX_less_iff rng_set_ints_def)
  next
    case False
    then show ?thesis using RNG_SINT
      by (simp add: actf_rng_set_intersect_uint_def INT64_MAX_less_iff set_intersect_pt sint_nonneg_uint)
  qed
qed (simp add: actf_rng_set_intersect_uint_def set_intersect_pt)

lemma rng_set_intersect_sint_iff:
  "actf_rng_set_intersect_sint rs w \<longleftrightarrow> sint w \<in> rng_set_ints rs"
proof (cases rs)
  case (RNG_UINT urs)
  show ?thesis
  proof (cases "sint w < 0")
    case True
    then have "sint w \<notin> urng_ints r" for r using urng_ints_nonneg by fastforce
    then show ?thesis using True RNG_UINT
      by (simp add: actf_rng_set_intersect_sint_def rng_set_ints_def)
  next
    case False
    then show ?thesis using RNG_UINT sint_nonneg_uint [of w]
      by (simp add: actf_rng_set_intersect_sint_def set_intersect_pt)
  qed
qed (simp add: actf_rng_set_intersect_sint_def set_intersect_pt)

end
