(* ===== verification/Rb_Tree.thy ===== *)
theory Rb_Tree
  imports Prelude
begin

text \<open>
  The red-black tree of crust/rb_tree.c with parent pointers. A node is a cell of the memory of the
  tree and a pointer to it is the index of the cell; cell 0 is the sentinel \<open>nil\<close>. The structure
  a node is embedded in is the field \<open>n_data\<close>. The colour, which the code keeps in bit 0 of the
  parent pointer, is a field of its own. \<open>cb\<close> stands for the function that the code stores in
  \<open>reorder_cb\<close> with the first insertion; \<open>rb_cb_set\<close> tells whether it has done so.
\<close>

section \<open>Data\<close>

datatype rb_dir = RB_LEFT | RB_RIGHT

record 'd rb_node =
  n_left :: nat
  n_right :: nat
  n_p :: nat
  n_red :: bool
  n_data :: 'd

record 'd rb_tree =
  rb_root :: nat
  rb_mem :: "'d rb_node list"
  rb_cb_set :: bool

type_synonym 'd rb_cb = "'d rb_tree \<Rightarrow> nat \<Rightarrow> 'd rb_tree"

abbreviation (input) rbt_nil :: nat where
  "rbt_nil \<equiv> 0"

fun FLIP :: "rb_dir \<Rightarrow> rb_dir" where
  "FLIP RB_LEFT = RB_RIGHT"
| "FLIP RB_RIGHT = RB_LEFT"

section \<open>Memory\<close>

text \<open>
  Reading and writing cells. The pointers of a tree are cells of its memory; a read outside of it
  gives the sentinel.
\<close>

definition rb_cell :: "'d rb_tree \<Rightarrow> nat \<Rightarrow> 'd rb_node" where
  "rb_cell t x = (if x < length (rb_mem t) then rb_mem t ! x else rb_mem t ! rbt_nil)"

definition upd_cell :: "nat \<Rightarrow> ('d rb_node \<Rightarrow> 'd rb_node) \<Rightarrow> 'd rb_tree \<Rightarrow> 'd rb_tree" where
  "upd_cell x f t = t\<lparr>rb_mem := (rb_mem t)[x := f (rb_cell t x)]\<rparr>"

abbreviation RB_P :: "'d rb_tree \<Rightarrow> nat \<Rightarrow> nat" where
  "RB_P t x \<equiv> n_p (rb_cell t x)"

abbreviation RB_COLOR :: "'d rb_tree \<Rightarrow> nat \<Rightarrow> bool" where
  "RB_COLOR t x \<equiv> n_red (rb_cell t x)"

definition rb_c :: "'d rb_tree \<Rightarrow> rb_dir \<Rightarrow> nat \<Rightarrow> nat" where
  "rb_c t dir x = (case dir of RB_LEFT \<Rightarrow> n_left (rb_cell t x) | RB_RIGHT \<Rightarrow> n_right (rb_cell t x))"

definition set_c :: "rb_dir \<Rightarrow> nat \<Rightarrow> nat \<Rightarrow> 'd rb_tree \<Rightarrow> 'd rb_tree" where
  "set_c dir x c =
     (case dir of
        RB_LEFT \<Rightarrow> upd_cell x (\<lambda>n. n\<lparr>n_left := c\<rparr>)
      | RB_RIGHT \<Rightarrow> upd_cell x (\<lambda>n. n\<lparr>n_right := c\<rparr>))"

definition SET_P :: "nat \<Rightarrow> nat \<Rightarrow> 'd rb_tree \<Rightarrow> 'd rb_tree" where
  "SET_P x newp = upd_cell x (\<lambda>n. n\<lparr>n_p := newp\<rparr>)"

definition SET_COLOR :: "nat \<Rightarrow> bool \<Rightarrow> 'd rb_tree \<Rightarrow> 'd rb_tree" where
  "SET_COLOR x c = upd_cell x (\<lambda>n. n\<lparr>n_red := c\<rparr>)"

abbreviation SET_COLOR_BLACK :: "nat \<Rightarrow> 'd rb_tree \<Rightarrow> 'd rb_tree" where
  "SET_COLOR_BLACK x \<equiv> SET_COLOR x False"

abbreviation SET_COLOR_RED :: "nat \<Rightarrow> 'd rb_tree \<Rightarrow> 'd rb_tree" where
  "SET_COLOR_RED x \<equiv> SET_COLOR x True"

section \<open>Insertion\<close>

text \<open>
  A tree over cells that are not linked yet: the sentinel is black. \<open>None\<close> is a failed
  allocation of the sentinel.
\<close>

definition rb_tree_init :: "bool \<Rightarrow> 'd rb_node list \<Rightarrow> 'd rb_node \<Rightarrow> 'd rb_tree option" where
  "rb_tree_init alloc cells junk =
     (if alloc then Some \<lparr>rb_root = rbt_nil, rb_mem = junk\<lparr>n_red := False\<rparr> # cells, rb_cb_set = False\<rparr> else None)"

text \<open>
  \<open>side\<close> is the child pointer of \<open>par\<close> that is set: the left one where it is the address of the
  left child, the right one otherwise.
\<close>

definition rb_tree_insert :: "nat \<Rightarrow> nat \<Rightarrow> rb_dir \<Rightarrow> 'd rb_tree \<Rightarrow> 'd rb_tree" where
  "rb_tree_insert par new side t =
     (let t1 = upd_cell new (\<lambda>n. n\<lparr>n_p := par, n_red := True, n_left := rbt_nil, n_right := rbt_nil\<rparr>) t
      in set_c side par new t1)"

definition reorder_cb :: "'d rb_cb \<Rightarrow> nat \<Rightarrow> 'd rb_tree \<Rightarrow> 'd rb_tree" where
  "reorder_cb cb x t = (if rb_cb_set t \<and> x \<noteq> rbt_nil then cb t x else t)"

definition rb_tree_insert_root :: "'d rb_cb \<Rightarrow> nat \<Rightarrow> 'd rb_tree \<Rightarrow> 'd rb_tree" where
  "rb_tree_insert_root cb new t =
     (let t1 = upd_cell new (\<lambda>n. n\<lparr>n_p := rbt_nil, n_red := False, n_left := rbt_nil, n_right := rbt_nil\<rparr>) t
      in cb (t1\<lparr>rb_root := new, rb_cb_set := True\<rparr>) new)"

definition rotate_tree :: "'d rb_cb \<Rightarrow> nat \<Rightarrow> rb_dir \<Rightarrow> 'd rb_tree \<Rightarrow> 'd rb_tree" where
  "rotate_tree cb x dir t =
     (let y = rb_c t (FLIP dir) x;
          t1 = set_c (FLIP dir) x (rb_c t dir y) t;
          c = rb_c t1 (FLIP dir) x;
          t2 = (if c \<noteq> rbt_nil then SET_P c x t1 else t1);
          t3 = SET_P y (RB_P t2 x) t2;
          p = RB_P t3 x;
          t4 = (if p \<noteq> rbt_nil then
                  if rb_c t3 dir p = x then set_c dir p y t3 else set_c (FLIP dir) p y t3
                else t3\<lparr>rb_root := y\<rparr>);
          t5 = SET_P x y (set_c dir y x t4)
      in reorder_cb cb y (reorder_cb cb x t5))"

text \<open>The loops of the tree run at most once per level; the fuel bounds them.\<close>

fun rb_tree_insert_rebalance :: "nat \<Rightarrow> 'd rb_cb \<Rightarrow> nat \<Rightarrow> 'd rb_tree \<Rightarrow> 'd rb_tree res" where
  "rb_tree_insert_rebalance 0 cb x t = Loop"
| "rb_tree_insert_rebalance (Suc n) cb x t =
     (if RB_COLOR t (RB_P t x) then
        let dir = (if RB_P t x = rb_c t RB_LEFT (RB_P t (RB_P t x)) then RB_LEFT else RB_RIGHT);
            u = rb_c t (FLIP dir) (RB_P t (RB_P t x))
        in if RB_COLOR t u then
             let t1 = SET_COLOR_BLACK (RB_P t x) t;
                 t2 = SET_COLOR_BLACK u t1;
                 t3 = SET_COLOR_RED (RB_P t2 (RB_P t2 x)) t2
             in rb_tree_insert_rebalance n cb (RB_P t3 (RB_P t3 x)) t3
           else
             let inner = (x = rb_c t (FLIP dir) (RB_P t x));
                 x1 = (if inner then RB_P t x else x);
                 t1 = (if inner then rotate_tree cb x1 dir t else t);
                 t2 = SET_COLOR_BLACK (RB_P t1 x1) t1;
                 t3 = SET_COLOR_RED (RB_P t2 (RB_P t2 x1)) t2;
                 t4 = rotate_tree cb (RB_P t3 (RB_P t3 x1)) (FLIP dir) t3
             in rb_tree_insert_rebalance n cb x1 t4
      else Ok (SET_COLOR_BLACK (rb_root t) t))"

section \<open>Deletion\<close>

fun node_min :: "nat \<Rightarrow> 'd rb_tree \<Rightarrow> nat \<Rightarrow> nat res" where
  "node_min 0 t x = Loop"
| "node_min (Suc n) t x = (if rb_c t RB_LEFT x \<noteq> rbt_nil then node_min n t (rb_c t RB_LEFT x) else Ok x)"

definition replace_node :: "nat \<Rightarrow> nat \<Rightarrow> 'd rb_tree \<Rightarrow> 'd rb_tree" where
  "replace_node x y t =
     (let t1 =
        (if RB_P t x = rbt_nil then t\<lparr>rb_root := y\<rparr>
         else if rb_c t RB_RIGHT (RB_P t x) = x then set_c RB_RIGHT (RB_P t x) y t
         else set_c RB_LEFT (RB_P t x) y t)
      in SET_P y (RB_P t1 x) t1)"

text \<open>The result is the deepest node whose augmentation is not updated yet.\<close>

fun rebalance_delete :: "nat \<Rightarrow> 'd rb_cb \<Rightarrow> nat \<Rightarrow> 'd rb_tree \<Rightarrow> (nat \<times> 'd rb_tree) res" where
  "rebalance_delete 0 cb x t = Loop"
| "rebalance_delete (Suc n) cb x t =
     (if rb_root t \<noteq> x \<and> \<not> RB_COLOR t x then
        let dir = (if x = rb_c t RB_LEFT (RB_P t x) then RB_LEFT else RB_RIGHT);
            s = rb_c t (FLIP dir) (RB_P t x);
            t1 = (if RB_COLOR t s then rotate_tree cb (RB_P t x) dir (SET_COLOR_BLACK s (SET_COLOR_RED (RB_P t x) t)) else t);
            s1 = (if RB_COLOR t s then rb_c t1 (FLIP dir) (RB_P t1 x) else s)
        in if \<not> RB_COLOR t1 (rb_c t1 RB_LEFT s1) \<and> \<not> RB_COLOR t1 (rb_c t1 RB_RIGHT s1) then
             let t2 = reorder_cb cb x (SET_COLOR_RED s1 t1)
             in rebalance_delete n cb (RB_P t2 x) t2
           else
             let far_black = (\<not> RB_COLOR t1 (rb_c t1 (FLIP dir) s1));
                 t2 = (if far_black
                       then rotate_tree cb s1 (FLIP dir) (SET_COLOR_BLACK (rb_c t1 dir s1) (SET_COLOR_RED s1 t1))
                       else t1);
                 s2 = (if far_black then rb_c t2 (FLIP dir) (RB_P t2 x) else s1);
                 t3 = SET_COLOR s2 (RB_COLOR t2 (RB_P t2 x)) t2;
                 t4 = SET_COLOR_BLACK (RB_P t3 x) t3;
                 t5 = SET_COLOR_BLACK (rb_c t4 (FLIP dir) s2) t4;
                 t6 = rotate_tree cb (RB_P t5 x) dir t5
             in Ok (x, SET_COLOR_BLACK (rb_root t6) t6)
      else Ok (x, SET_COLOR_BLACK x t))"

fun reorder_up :: "nat \<Rightarrow> 'd rb_cb \<Rightarrow> nat \<Rightarrow> 'd rb_tree \<Rightarrow> 'd rb_tree res" where
  "reorder_up 0 cb y t = Loop"
| "reorder_up (Suc n) cb y t =
     (let t1 = reorder_cb cb y t in
      if RB_P t1 y \<noteq> rbt_nil then reorder_up n cb (RB_P t1 y) t1 else Ok t1)"

text \<open>The node that takes the place of a node with two children.\<close>

definition splice_min :: "nat \<Rightarrow> nat \<Rightarrow> 'd rb_tree \<Rightarrow> 'd rb_tree" where
  "splice_min x m t =
     (let y = rb_c t RB_RIGHT m;
          t1 =
            (if RB_P t m = x then SET_P y m t
             else
               let ta = replace_node m y t;
                   tb = set_c RB_RIGHT m (rb_c ta RB_RIGHT x) ta
               in SET_P (rb_c tb RB_RIGHT m) m tb);
          t2 = replace_node x m t1;
          t3 = set_c RB_LEFT m (rb_c t2 RB_LEFT x) t2;
          t4 = SET_P (rb_c t3 RB_LEFT m) m t3
      in SET_COLOR m (RB_COLOR t4 x) t4)"

definition rb_tree_delete :: "nat \<Rightarrow> 'd rb_cb \<Rightarrow> nat \<Rightarrow> 'd rb_tree \<Rightarrow> 'd rb_tree res" where
  "rb_tree_delete n cb x t =
     (let spliced =
        (if rb_c t RB_LEFT x = rbt_nil then
           Ok (rb_c t RB_RIGHT x, RB_COLOR t x, replace_node x (rb_c t RB_RIGHT x) t)
         else if rb_c t RB_RIGHT x = rbt_nil then
           Ok (rb_c t RB_LEFT x, RB_COLOR t x, replace_node x (rb_c t RB_LEFT x) t)
         else case node_min n t (rb_c t RB_RIGHT x) of
             Ok m \<Rightarrow> Ok (rb_c t RB_RIGHT m, RB_COLOR t m, splice_min x m t)
           | Err e \<Rightarrow> Err e | Undef \<Rightarrow> Undef | Loop \<Rightarrow> Loop)
      in case spliced of
           Ok (y, deleted_red, t1) \<Rightarrow>
             (if deleted_red then reorder_up n cb (RB_P t1 y) t1
              else case rebalance_delete n cb y t1 of
                  Ok (y', t2) \<Rightarrow> reorder_up n cb y' t2
                | Err e \<Rightarrow> Err e | Undef \<Rightarrow> Undef | Loop \<Rightarrow> Loop)
         | Err e \<Rightarrow> Err e | Undef \<Rightarrow> Undef | Loop \<Rightarrow> Loop)"

end
