(* ===== verification/Ival.thy ===== *)
theory Ival
  imports Rb_Tree
begin

text \<open>
  The interval tree of crust/ival.h. The header is a template over the integer type of the bounds;
  the model stores the bounds as 64-bit words, and \<open>rd\<close>, which is \<^const>\<open>uint\<close> for \<open>uival\<close>
  and \<^const>\<open>sint\<close> for \<open>sival\<close>, reads them in the comparisons. A pointer to an interval is the
  cell of its node.
\<close>

record ival =
  iv_lower :: u64
  iv_upper :: u64
  iv_value :: string
  iv_link_max :: u64

type_synonym ival_tree = "ival rb_tree"

abbreviation iv_unpack :: "ival_tree \<Rightarrow> nat \<Rightarrow> ival" where
  "iv_unpack t x \<equiv> n_data (rb_cell t x)"

definition IVAL_MAX :: "(u64 \<Rightarrow> int) \<Rightarrow> u64 \<Rightarrow> u64 \<Rightarrow> u64" where
  "IVAL_MAX rd a b = (if rd b \<le> rd a then a else b)"

definition iv_intersects :: "(u64 \<Rightarrow> int) \<Rightarrow> ival \<Rightarrow> ival \<Rightarrow> bool" where
  "iv_intersects rd iv val \<longleftrightarrow>
     rd (iv_lower iv) \<le> rd (iv_upper val) \<and> rd (iv_lower val) \<le> rd (iv_upper iv)"

definition set_link_max :: "nat \<Rightarrow> u64 \<Rightarrow> ival_tree \<Rightarrow> ival_tree" where
  "set_link_max x m = upd_cell x (\<lambda>n. n\<lparr>n_data := (n_data n)\<lparr>iv_link_max := m\<rparr>\<rparr>)"

text \<open>The maximum of a subtree that is missing is taken to be 0.\<close>

definition ivt_update_link_max :: "(u64 \<Rightarrow> int) \<Rightarrow> ival rb_cb" where
  "ivt_update_link_max rd t x =
     (let l = rb_c t RB_LEFT x;
          r = rb_c t RB_RIGHT x;
          l_max = (if l \<noteq> rbt_nil then iv_link_max (iv_unpack t l) else 0);
          r_max = (if r \<noteq> rbt_nil then iv_link_max (iv_unpack t r) else 0)
      in set_link_max x (IVAL_MAX rd (iv_upper (iv_unpack t x)) (IVAL_MAX rd l_max r_max)) t)"

text \<open>The descent to the place of a new interval, which raises the maxima on its way.\<close>

fun ivt_descend :: "nat \<Rightarrow> (u64 \<Rightarrow> int) \<Rightarrow> ival \<Rightarrow> nat \<Rightarrow> nat \<Rightarrow> rb_dir \<Rightarrow> ival_tree \<Rightarrow> (nat \<times> rb_dir \<times> ival_tree) res" where
  "ivt_descend 0 rd new_iv cur par side t = Loop"
| "ivt_descend (Suc n) rd new_iv cur par side t =
     (if cur \<noteq> rbt_nil then
        let cur_iv = iv_unpack t cur;
            t1 = set_link_max cur (IVAL_MAX rd (iv_upper new_iv) (iv_link_max cur_iv)) t;
            side1 = (if rd (iv_lower new_iv) < rd (iv_lower cur_iv) then RB_LEFT else RB_RIGHT)
        in ivt_descend n rd new_iv (rb_c t1 side1 cur) cur side1 t1
      else Ok (par, side, t))"

definition ivt_insert :: "nat \<Rightarrow> (u64 \<Rightarrow> int) \<Rightarrow> nat \<Rightarrow> ival_tree \<Rightarrow> ival_tree res" where
  "ivt_insert n rd new t0 =
     (let t = set_link_max new (iv_upper (iv_unpack t0 new)) t0 in
      if rb_root t = rbt_nil then Ok (rb_tree_insert_root (ivt_update_link_max rd) new t)
      else case ivt_descend n rd (iv_unpack t new) (rb_root t) rbt_nil RB_LEFT t of
          Ok (par, side, t1) \<Rightarrow>
            rb_tree_insert_rebalance n (ivt_update_link_max rd) new (rb_tree_insert par new side t1)
        | Err e \<Rightarrow> Err e | Undef \<Rightarrow> Undef | Loop \<Rightarrow> Loop)"

text \<open>
  The walk up from a subtree that has been searched: to the right sibling of the first ancestor
  that may still hold a match, or to the root.
\<close>

fun ivt_walk_up :: "nat \<Rightarrow> (u64 \<Rightarrow> int) \<Rightarrow> ival_tree \<Rightarrow> ival \<Rightarrow> nat \<Rightarrow> nat \<Rightarrow> nat res" where
  "ivt_walk_up 0 rd t iv cur p = Loop"
| "ivt_walk_up (Suc n) rd t iv cur p =
     (if p \<noteq> rbt_nil then
        let r = rb_c t RB_RIGHT p in
        if cur = rb_c t RB_LEFT p \<and> r \<noteq> rbt_nil \<and>
           rd (iv_lower iv) \<le> rd (iv_link_max (iv_unpack t r)) \<and>
           rd (iv_lower (iv_unpack t p)) \<le> rd (iv_upper iv)
        then Ok r
        else ivt_walk_up n rd t iv p (RB_P t p)
      else Ok cur)"

text \<open>The next interval that intersects \<open>iv\<close> behind \<open>lastmatch\<close>, or the first one without it.\<close>

fun ivt_search :: "nat \<Rightarrow> (u64 \<Rightarrow> int) \<Rightarrow> ival_tree \<Rightarrow> ival \<Rightarrow> nat option \<Rightarrow> nat \<Rightarrow> nat option res" where
  "ivt_search 0 rd t iv lastmatch cur = Loop"
| "ivt_search (Suc n) rd t iv lastmatch cur =
     (if cur = rbt_nil then Ok None
      else if Some cur \<noteq> lastmatch \<and> iv_intersects rd (iv_unpack t cur) iv then Ok (Some cur)
      else
        let l = rb_c t RB_LEFT cur;
            nxt = (if l \<noteq> rbt_nil \<and> rd (iv_lower iv) \<le> rd (iv_link_max (iv_unpack t l)) then l
                   else rb_c t RB_RIGHT cur)
        in if nxt = rbt_nil \<and> lastmatch \<noteq> None then
             (case ivt_walk_up (length (rb_mem t)) rd t iv nxt cur of
                Ok c \<Rightarrow> if c = rb_root t then Ok None else ivt_search n rd t iv lastmatch c
              | Err e \<Rightarrow> Err e | Undef \<Rightarrow> Undef | Loop \<Rightarrow> Loop)
           else ivt_search n rd t iv lastmatch nxt)"

definition ivt_intersect :: "nat \<Rightarrow> (u64 \<Rightarrow> int) \<Rightarrow> ival_tree \<Rightarrow> ival \<Rightarrow> nat option \<Rightarrow> nat option res" where
  "ivt_intersect n rd t iv lastmatch =
     ivt_search n rd t iv lastmatch (case lastmatch of Some x \<Rightarrow> x | None \<Rightarrow> rb_root t)"

definition ivt_intersect_pt :: "nat \<Rightarrow> (u64 \<Rightarrow> int) \<Rightarrow> ival_tree \<Rightarrow> u64 \<Rightarrow> nat option \<Rightarrow> nat option res" where
  "ivt_intersect_pt n rd t pt lastmatch =
     ivt_intersect n rd t \<lparr>iv_lower = pt, iv_upper = pt, iv_value = [], iv_link_max = 0\<rparr> lastmatch"

definition ivt_delete :: "nat \<Rightarrow> (u64 \<Rightarrow> int) \<Rightarrow> nat \<Rightarrow> ival_tree \<Rightarrow> ival_tree res" where
  "ivt_delete n rd x t = rb_tree_delete n (ivt_update_link_max rd) x t"

end
