(* ===== verification/Scan.thy ===== *)
theory Scan
  imports Prelude
begin

text \<open>
  Searches that hand out an iterator, as the lookups of mappings and flags do: the interface
  between such a search and the loop of its client.
\<close>

text \<open>
  The loop of a client: it hands the iterator of every match to the next search until there is
  no match. The fuel bounds the number of searches.
\<close>

fun find_all :: "nat \<Rightarrow> ('it \<Rightarrow> ('v option \<times> 'it) res) \<Rightarrow> 'it \<Rightarrow> 'v list res" where
  "find_all 0 search it = Loop"
| "find_all (Suc n) search it =
     (case search it of
        Ok (Some v, it') \<Rightarrow>
          (case find_all n search it' of Ok vs \<Rightarrow> Ok (v # vs) | Err e \<Rightarrow> Err e | Undef \<Rightarrow> Undef | Loop \<Rightarrow> Loop)
      | Ok (None, it') \<Rightarrow> Ok []
      | Err e \<Rightarrow> Err e | Undef \<Rightarrow> Undef | Loop \<Rightarrow> Loop)"

text \<open>What a search promises: the first element of the rest of the scan that passes the test.\<close>

definition finds :: "('v option \<times> 'it) res \<Rightarrow> ('i \<Rightarrow> bool) \<Rightarrow> ('i \<Rightarrow> 'v) \<Rightarrow> ('i \<Rightarrow> 'it) \<Rightarrow> 'i list \<Rightarrow> bool" where
  "finds r test val behind xs \<longleftrightarrow>
     (case find test xs of
        None \<Rightarrow> (\<exists>it. r = Ok (None, it))
      | Some x \<Rightarrow> r = Ok (Some (val x), behind x))"

text \<open>
  \<open>scan\<close> is the order in which the search visits the elements, \<open>start\<close> the iterator of a new
  search and \<open>behind x\<close> the one it leaves at a match.
\<close>

locale scan_search =
  fixes search :: "'it \<Rightarrow> ('v option \<times> 'it) res" and start :: 'it and behind :: "'i \<Rightarrow> 'it"
    and scan :: "'i list" and test :: "'i \<Rightarrow> bool" and val :: "'i \<Rightarrow> 'v"
  assumes first: "finds (search start) test val behind scan"
    and behind: "scan = pre @ x # post \<Longrightarrow> finds (search (behind x)) test val behind post"
begin

lemma find_all_from:
  assumes "scan = pre @ post" "finds (search it) test val behind post" "length post < n"
  shows "find_all n search it = Ok (map val (filter test post))"
  using assms
proof (induction n arbitrary: it pre post)
  case (Suc n)
  show ?case
  proof (cases "find test post")
    case None
    then have "filter test post = []" by (auto simp: find_None_iff filter_empty_conv)
    then show ?thesis using None Suc.prems(2) by (auto simp: finds_def)
  next
    case (Some x)
    then obtain as bs where post: "post = as @ x # bs" "test x" "\<forall>a \<in> set as. \<not> test a"
      by (auto simp: find_Some_iff id_take_nth_drop) (metis id_take_nth_drop in_set_conv_nth length_take min.absorb4 nth_take)
    have sc: "scan = (pre @ as) @ x # bs" using Suc.prems(1) post(1) by simp
    have "find_all n search (behind x) = Ok (map val (filter test bs))"
      using Suc.IH [of "pre @ as @ [x]" bs "behind x"] behind [OF sc] sc Suc.prems(3) post(1) by simp
    moreover have "filter test post = x # filter test bs" using post by (simp add: filter_empty_conv)
    ultimately show ?thesis using Some Suc.prems(2) by (simp add: finds_def)
  qed
qed simp

lemma find_all_scan: "length scan < n \<Longrightarrow> find_all n search start = Ok (map val (filter test scan))"
  using find_all_from [of "[]" scan start n] first by simp

end

end
