(* ===== verification/Mappings.thy ===== *)
theory Mappings
  imports Rng Types Ival Scan
begin

unbundle bit_operations_syntax

text \<open>
  Named range sets (mappings.c, mappings_int.h) and the flags of bit maps (flags.c, flags_int.h).
  The parallel arrays \<open>rng_sets\<close> and \<open>names\<close> are one list of pairs. An iterator is the index
  the next search starts at; a search returns the name, or \<open>None\<close> for the null pointer, and
  the iterator it leaves.
\<close>

section \<open>Mappings\<close>

type_synonym umappings = "(urng_set \<times> string) list"
type_synonym smappings = "(srng_set \<times> string) list"

datatype mappings = SMAPS smappings | UMAPS umappings

definition mappings_len :: "mappings \<Rightarrow> nat" where
  "mappings_len maps = (case maps of SMAPS s \<Rightarrow> length s | UMAPS u \<Rightarrow> length u)"

text \<open>The loop that the searches share: the first index from \<open>i\<close> on that is a hit.\<close>

function next_hit :: "('a \<Rightarrow> bool) \<Rightarrow> 'a list \<Rightarrow> nat \<Rightarrow> nat option" where
  "next_hit hit xs i =
     (if length xs \<le> i then None
      else if hit (xs ! i) then Some i
      else next_hit hit xs (i + 1))"
  by pat_completeness auto
termination by (relation "measure (\<lambda>(h, xs, i). length xs - i)") auto

declare next_hit.simps [simp del]

definition umappings_find :: "umappings \<Rightarrow> u64 \<Rightarrow> nat \<Rightarrow> string option \<times> nat" where
  "umappings_find maps val it =
     (case next_hit (\<lambda>m. urng_set_intersect (fst m) val) maps it of
        Some i \<Rightarrow> (Some (snd (maps ! i)), i + 1)
      | None \<Rightarrow> (None, it))"

definition smappings_find :: "smappings \<Rightarrow> i64 \<Rightarrow> nat \<Rightarrow> string option \<times> nat" where
  "smappings_find maps val it =
     (case next_hit (\<lambda>m. srng_set_intersect (fst m) val) maps it of
        Some i \<Rightarrow> (Some (snd (maps ! i)), i + 1)
      | None \<Rightarrow> (None, it))"

definition umappings_find_first :: "umappings \<Rightarrow> u64 \<Rightarrow> string option" where
  "umappings_find_first maps val = fst (umappings_find maps val 0)"

definition smappings_find_first :: "smappings \<Rightarrow> i64 \<Rightarrow> string option" where
  "smappings_find_first maps val = fst (smappings_find maps val 0)"

definition mappings_find_uint :: "mappings \<Rightarrow> u64 \<Rightarrow> nat \<Rightarrow> string option \<times> nat" where
  "mappings_find_uint maps val it =
     (case maps of
        SMAPS s \<Rightarrow> if INT64_MAX < val then (None, it) else smappings_find s val it
      | UMAPS u \<Rightarrow> umappings_find u val it)"

definition mappings_find_first_uint :: "mappings \<Rightarrow> u64 \<Rightarrow> string option" where
  "mappings_find_first_uint maps val =
     (case maps of
        SMAPS s \<Rightarrow> if INT64_MAX < val then None else smappings_find_first s val
      | UMAPS u \<Rightarrow> umappings_find_first u val)"

definition mappings_find_sint :: "mappings \<Rightarrow> i64 \<Rightarrow> nat \<Rightarrow> string option \<times> nat" where
  "mappings_find_sint maps val it =
     (case maps of
        SMAPS s \<Rightarrow> smappings_find s val it
      | UMAPS u \<Rightarrow> if sint val < 0 then (None, it) else umappings_find u val it)"

definition mappings_find_first_sint :: "mappings \<Rightarrow> i64 \<Rightarrow> string option" where
  "mappings_find_first_sint maps val =
     (case maps of
        SMAPS s \<Rightarrow> smappings_find_first s val
      | UMAPS u \<Rightarrow> if sint val < 0 then None else umappings_find_first u val)"

subsection \<open>Intervals\<close>

text \<open>
  The comparators of the ranges. The difference is converted to a 32-bit \<open>int\<close>; the signed
  difference is undefined where it overflows.
\<close>

definition int_of_diff :: "u64 \<Rightarrow> int" where
  "int_of_diff d = sint (ucast d :: 32 word)"

definition urng_cmp :: "urng \<Rightarrow> urng \<Rightarrow> int option" where
  "urng_cmp r1 r2 = Some (if u_lower r2 \<le> u_lower r1 then int_of_diff (u_lower r1 - u_lower r2) else - 1)"

definition srng_cmp :: "srng \<Rightarrow> srng \<Rightarrow> int option" where
  "srng_cmp r1 r2 =
     (let d = sint (s_lower r1) - sint (s_lower r2) in
      if - (2 ^ 63) \<le> d \<and> d < 2 ^ 63 then Some (int_of_diff (s_lower r1 - s_lower r2)) else None)"

text \<open>
  \<open>qsort\<close> of the C library sorts where the comparator is a total preorder on the elements, and
  is undefined where it is not. Elements that compare equal keep their order.
\<close>

definition cmp_le :: "('a \<Rightarrow> 'a \<Rightarrow> int option) \<Rightarrow> 'a \<Rightarrow> 'a \<Rightarrow> bool" where
  "cmp_le cmp a b \<longleftrightarrow> (case cmp a b of Some c \<Rightarrow> c \<le> 0 | None \<Rightarrow> False)"

definition cmp_ok :: "('a \<Rightarrow> 'a \<Rightarrow> int option) \<Rightarrow> 'a list \<Rightarrow> bool" where
  "cmp_ok cmp xs \<longleftrightarrow>
     list_all (\<lambda>a. list_all (\<lambda>b. case (cmp a b, cmp b a) of
         (Some c, Some d) \<Rightarrow> sgn d = - sgn c | _ \<Rightarrow> False) xs) xs \<and>
     list_all (\<lambda>a. list_all (\<lambda>b. list_all (\<lambda>c.
         cmp_le cmp a b \<and> cmp_le cmp b c \<longrightarrow> cmp_le cmp a c) xs) xs) xs"

fun insort_cmp :: "('a \<Rightarrow> 'a \<Rightarrow> int option) \<Rightarrow> 'a \<Rightarrow> 'a list \<Rightarrow> 'a list" where
  "insort_cmp cmp x [] = [x]"
| "insort_cmp cmp x (y # ys) = (if cmp_le cmp x y then x # y # ys else y # insort_cmp cmp x ys)"

definition qsort :: "('a \<Rightarrow> 'a \<Rightarrow> int option) \<Rightarrow> 'a list \<Rightarrow> 'a list res" where
  "qsort cmp xs = (if cmp_ok cmp xs then Ok (foldr (insort_cmp cmp) xs []) else Undef)"

text \<open>The merge of sorted ranges that overlap.\<close>

definition mk_ival :: "string \<Rightarrow> u64 \<Rightarrow> u64 \<Rightarrow> ival" where
  "mk_ival name l u = \<lparr>iv_lower = l, iv_upper = u, iv_value = name, iv_link_max = 0\<rparr>"

fun umerge :: "string \<Rightarrow> urng \<Rightarrow> urng list \<Rightarrow> ival list" where
  "umerge name tp [] = [mk_ival name (u_lower tp) (u_upper tp)]"
| "umerge name tp (r # rs) =
     (if urng_intersect_urng r tp then umerge name (tp\<lparr>u_upper := max (u_upper r) (u_upper tp)\<rparr>) rs
      else mk_ival name (u_lower tp) (u_upper tp) # umerge name r rs)"

fun smerge :: "string \<Rightarrow> srng \<Rightarrow> srng list \<Rightarrow> ival list" where
  "smerge name tp [] = [mk_ival name (s_lower tp) (s_upper tp)]"
| "smerge name tp (r # rs) =
     (if srng_intersect_srng r tp
      then smerge name (tp\<lparr>s_upper := (if sint (s_upper tp) < sint (s_upper r) then s_upper r else s_upper tp)\<rparr>) rs
      else mk_ival name (s_lower tp) (s_upper tp) # smerge name r rs)"

fun uivals :: "umappings \<Rightarrow> ival list res" where
  "uivals [] = Ok []"
| "uivals ((rs, name) # maps) =
     (case qsort urng_cmp rs of
        Ok [] \<Rightarrow> uivals maps
      | Ok (r # rs') \<Rightarrow>
          (case uivals maps of
             Ok ivs \<Rightarrow> Ok (umerge name r rs' @ ivs)
           | Err e \<Rightarrow> Err e | Undef \<Rightarrow> Undef | Loop \<Rightarrow> Loop)
      | Err e \<Rightarrow> Err e | Undef \<Rightarrow> Undef | Loop \<Rightarrow> Loop)"

fun sivals :: "smappings \<Rightarrow> ival list res" where
  "sivals [] = Ok []"
| "sivals ((rs, name) # maps) =
     (case qsort srng_cmp rs of
        Ok [] \<Rightarrow> sivals maps
      | Ok (r # rs') \<Rightarrow>
          (case sivals maps of
             Ok ivs \<Rightarrow> Ok (smerge name r rs' @ ivs)
           | Err e \<Rightarrow> Err e | Undef \<Rightarrow> Undef | Loop \<Rightarrow> Loop)
      | Err e \<Rightarrow> Err e | Undef \<Rightarrow> Undef | Loop \<Rightarrow> Loop)"

text \<open>
  The intervals are the cells of the tree in their order; the sentinel and the links of a cell
  are written before they are read. The fuel is the number of cells with the sentinel, which no
  path of the tree exceeds.
\<close>

definition unlinked :: "ival \<Rightarrow> ival rb_node" where
  "unlinked iv = \<lparr>n_left = 0, n_right = 0, n_p = 0, n_red = False, n_data = iv\<rparr>"

fun ivt_insert_all :: "(u64 \<Rightarrow> int) \<Rightarrow> nat list \<Rightarrow> ival_tree \<Rightarrow> ival_tree res" where
  "ivt_insert_all rd [] t = Ok t"
| "ivt_insert_all rd (x # xs) t =
     (case ivt_insert (length (rb_mem t)) rd x t of
        Ok t1 \<Rightarrow> ivt_insert_all rd xs t1
      | Err e \<Rightarrow> Err e | Undef \<Rightarrow> Undef | Loop \<Rightarrow> Loop)"

definition build_ivt :: "(nat \<Rightarrow> bool) \<Rightarrow> (u64 \<Rightarrow> int) \<Rightarrow> ival list \<Rightarrow> ival_tree res" where
  "build_ivt alloc rd ivs =
     (case rb_tree_init (alloc 1) (map unlinked ivs) (unlinked (mk_ival [] 0 0)) of
        None \<Rightarrow> Err ACTF_OOM
      | Some t \<Rightarrow> ivt_insert_all rd [1..<Suc (length ivs)] t)"

definition init_uivalt :: "(nat \<Rightarrow> bool) \<Rightarrow> umappings \<Rightarrow> ival_tree res" where
  "init_uivalt alloc maps =
     (if \<not> alloc (sum_list (map (length \<circ> fst) maps)) then Err ACTF_OOM
      else case uivals maps of
          Ok ivs \<Rightarrow> build_ivt alloc uint ivs
        | Err e \<Rightarrow> Err e | Undef \<Rightarrow> Undef | Loop \<Rightarrow> Loop)"

definition init_sivalt :: "(nat \<Rightarrow> bool) \<Rightarrow> smappings \<Rightarrow> ival_tree res" where
  "init_sivalt alloc maps =
     (if \<not> alloc (sum_list (map (length \<circ> fst) maps)) then Err ACTF_OOM
      else case sivals maps of
          Ok ivs \<Rightarrow> build_ivt alloc sint ivs
        | Err e \<Rightarrow> Err e | Undef \<Rightarrow> Undef | Loop \<Rightarrow> Loop)"

text \<open>
  The mappings of an integer class: the tree of the merged intervals, each with its name.
  \<open>am_signed\<close> tells the two values of \<open>sign\<close> apart.
\<close>

record actf_mappings =
  am_signed :: bool
  am_ivt :: ival_tree
  am_names :: "string list"

definition actf_mappings_init :: "(nat \<Rightarrow> bool) \<Rightarrow> mappings \<Rightarrow> actf_mappings res" where
  "actf_mappings_init alloc raw_maps =
     (case raw_maps of
        SMAPS smaps \<Rightarrow>
          (case init_sivalt alloc smaps of
             Ok t \<Rightarrow> Ok \<lparr>am_signed = True, am_ivt = t, am_names = map snd smaps\<rparr>
           | Err e \<Rightarrow> Err e | Undef \<Rightarrow> Undef | Loop \<Rightarrow> Loop)
      | UMAPS umaps \<Rightarrow>
          (case init_uivalt alloc umaps of
             Ok t \<Rightarrow> Ok \<lparr>am_signed = False, am_ivt = t, am_names = map snd umaps\<rparr>
           | Err e \<Rightarrow> Err e | Undef \<Rightarrow> Undef | Loop \<Rightarrow> Loop))"

definition actf_mappings_len :: "actf_mappings \<Rightarrow> nat" where
  "actf_mappings_len maps = length (am_names maps)"

text \<open>
  The searches read the bounds of the intervals in their own signedness, whatever the sign of the
  mappings is. An iterator is the interval of the last match.
\<close>

definition ivt_find :: "(u64 \<Rightarrow> int) \<Rightarrow> actf_mappings \<Rightarrow> u64 \<Rightarrow> nat option \<Rightarrow> (string option \<times> nat option) res" where
  "ivt_find rd maps val it =
     (case ivt_intersect_pt (Suc (length (rb_mem (am_ivt maps)))) rd (am_ivt maps) val it of
        Ok None \<Rightarrow> Ok (None, None)
      | Ok (Some x) \<Rightarrow> Ok (Some (iv_value (iv_unpack (am_ivt maps) x)), Some x)
      | Err e \<Rightarrow> Err e | Undef \<Rightarrow> Undef | Loop \<Rightarrow> Loop)"

definition actf_mappings_find_uint :: "actf_mappings \<Rightarrow> u64 \<Rightarrow> nat option \<Rightarrow> (string option \<times> nat option) res" where
  "actf_mappings_find_uint maps val it = ivt_find uint maps val it"

definition actf_mappings_find_sint :: "actf_mappings \<Rightarrow> i64 \<Rightarrow> nat option \<Rightarrow> (string option \<times> nat option) res" where
  "actf_mappings_find_sint maps val it = ivt_find sint maps val it"

definition actf_mappings_find_first_uint :: "actf_mappings \<Rightarrow> u64 \<Rightarrow> (string option \<times> nat option) res" where
  "actf_mappings_find_first_uint maps val = actf_mappings_find_uint maps val None"

definition actf_mappings_find_first_sint :: "actf_mappings \<Rightarrow> i64 \<Rightarrow> (string option \<times> nat option) res" where
  "actf_mappings_find_first_sint maps val = actf_mappings_find_sint maps val None"

section \<open>Flags\<close>

record actf_flags =
  flags_maps :: umappings
  flags_masks :: "u64 list"

definition rng_mask :: "urng \<Rightarrow> u64" where
  "rng_mask rng =
     (let upper_mask =
            (if u_upper rng < 63 then push_bit (unat (u_upper rng + 1)) 1 - 1
             else 0xFFFFFFFFFFFFFFFF);
          lower_mask =
            (if u_lower rng < 64 then NOT (push_bit (unat (u_lower rng)) 1 - 1) else 0)
      in upper_mask AND lower_mask)"

definition make_bit_mask :: "urng_set \<Rightarrow> u64" where
  "make_bit_mask rs = foldl (\<lambda>mask rng. mask OR rng_mask rng) 0 rs"

text \<open>\<open>None\<close> is a failed allocation.\<close>

definition actf_flags_init :: "bool \<Rightarrow> umappings \<Rightarrow> actf_flags option" where
  "actf_flags_init alloc maps =
     (if alloc then Some \<lparr>flags_maps = maps, flags_masks = map (\<lambda>m. make_bit_mask (fst m)) maps\<rparr>
      else None)"

definition actf_flags_find :: "actf_flags \<Rightarrow> u64 \<Rightarrow> nat \<Rightarrow> string option \<times> nat" where
  "actf_flags_find f val it =
     (case next_hit (\<lambda>i. flags_masks f ! i AND val \<noteq> 0) [0..<length (flags_maps f)] it of
        Some i \<Rightarrow> (Some (snd (flags_maps f ! i)), i + 1)
      | None \<Rightarrow> (None, it))"

definition actf_flags_find_first_match :: "actf_flags \<Rightarrow> u64 \<Rightarrow> string option" where
  "actf_flags_find_first_match f val = fst (actf_flags_find f val 0)"

section \<open>Lemmas\<close>

lemma next_hit_Some:
  "next_hit hit xs i = Some j \<longleftrightarrow>
     i \<le> j \<and> j < length xs \<and> hit (xs ! j) \<and> (\<forall>k. i \<le> k \<and> k < j \<longrightarrow> \<not> hit (xs ! k))"
proof (induction hit xs i rule: next_hit.induct)
  case (1 hit xs i)
  show ?case
  proof (cases "length xs \<le> i \<or> hit (xs ! i)")
    case True
    then show ?thesis by (auto simp: next_hit.simps [of hit xs i] dest: le_neq_implies_less)
  next
    case False
    then have "next_hit hit xs i = next_hit hit xs (i + 1)" by (simp add: next_hit.simps [of hit xs i])
    moreover have "i \<le> k \<longleftrightarrow> k = i \<or> i + 1 \<le> k" for k by auto
    ultimately show ?thesis using False 1 by auto
  qed
qed

lemma next_hit_None: "next_hit hit xs i = None \<longleftrightarrow> (\<forall>k. i \<le> k \<and> k < length xs \<longrightarrow> \<not> hit (xs ! k))"
proof (induction hit xs i rule: next_hit.induct)
  case (1 hit xs i)
  show ?case
  proof (cases "length xs \<le> i \<or> hit (xs ! i)")
    case True
    then show ?thesis by (auto simp: next_hit.simps [of hit xs i])
  next
    case False
    then have "next_hit hit xs i = next_hit hit xs (i + 1)" by (simp add: next_hit.simps [of hit xs i])
    moreover have "i \<le> k \<longleftrightarrow> k = i \<or> i + 1 \<le> k" for k by auto
    ultimately show ?thesis using False 1 by auto
  qed
qed

text \<open>A search by index is a scan of the indices.\<close>

lemma next_hit_find: "next_hit hit xs i = find (\<lambda>k. hit (xs ! k)) [i..<length xs]"
  by (induction hit xs i rule: next_hit.induct) (simp add: next_hit.simps [of _ _ i for i] upt_conv_Cons)

lemma upt_split: "[0..<n] = pre @ x # post \<Longrightarrow> post = [Suc x..<n]"
proof -
  assume a: "[0..<n] = pre @ x # post"
  have l: "length pre < n" using arg_cong [OF a, of length] by (simp only: length_upt length_append list.size)
  then have "x = length pre" using arg_cong [OF a, of "\<lambda>xs. xs ! length pre"] by (simp add: nth_append)
  then show ?thesis using arg_cong [OF a, of "drop (Suc (length pre))"] l by (simp add: drop_upt)
qed

interpretation linear: scan_search
  "\<lambda>it. Ok (case next_hit hit xs it of Some i \<Rightarrow> (Some (name (xs ! i)), i + 1) | None \<Rightarrow> (None, it))" 0 Suc
  "[0..<length xs]" "\<lambda>i. hit (xs ! i)" "\<lambda>i. name (xs ! i)" for hit xs name
  by unfold_locales (auto simp: finds_def next_hit_find dest!: upt_split split: option.split)

lemma find_all_linear:
  assumes "\<And>it. search it = (case next_hit hit xs it of Some i \<Rightarrow> (Some (name (xs ! i)), i + 1) | None \<Rightarrow> (None, it))"
    "length xs < n"
  shows "find_all n (\<lambda>it. Ok (search it)) 0 = Ok (map name (filter hit xs))"
proof -
  have "map (\<lambda>i. name (xs ! i)) (filter (\<lambda>i. hit (xs ! i)) [0..<length xs]) = map name (filter hit (map ((!) xs) [0..<length xs]))"
    by (simp add: filter_map comp_def)
  then show ?thesis using linear.find_all_scan [of xs n name hit] assms by (simp add: map_nth)
qed

text \<open>The bits of a mask are the bit positions in the ranges.\<close>

lemma bit_rng_mask:
  assumes "i < 64"
  shows "bit (rng_mask r) i \<longleftrightarrow> unat (u_lower r) \<le> i \<and> i \<le> unat (u_upper r)"
proof -
  have m: "push_bit n 1 - 1 = (mask n :: u64)" for n
    by (simp add: push_bit_eq_mult mask_eq_exp_minus_1)
  have ones: "0xFFFFFFFFFFFFFFFF = (mask 64 :: u64)" by (simp add: mask_eq_exp_minus_1)
  have up: "bit (if u_upper r < 63 then push_bit (unat (u_upper r + 1)) 1 - 1
        else 0xFFFFFFFFFFFFFFFF :: u64) i
      \<longleftrightarrow> i \<le> unat (u_upper r)"
  proof (cases "u_upper r < 63")
    case True
    then have "unat (u_upper r) < 63" by (simp add: word_less_nat_alt)
    moreover from this have "unat (u_upper r + 1) = unat (u_upper r) + 1"
      using unat_add_u64 [of "u_upper r" 1] by simp
    ultimately show ?thesis using True assms unfolding m by (simp only: if_True bit_mask_iff) auto
  next
    case False
    then have "63 \<le> unat (u_upper r)" by (simp add: word_less_nat_alt)
    then show ?thesis using False assms by (simp add: ones bit_mask_iff)
  qed
  have lo: "bit (if u_lower r < 64 then NOT (push_bit (unat (u_lower r)) 1 - 1) else 0 :: u64) i
      \<longleftrightarrow> unat (u_lower r) \<le> i"
  proof (cases "u_lower r < 64")
    case True
    then show ?thesis using assms unfolding m by (simp only: if_True bit_not_iff bit_mask_iff) auto
  next
    case False
    then have "64 \<le> unat (u_lower r)" by (simp add: word_less_nat_alt)
    then show ?thesis using False assms by simp
  qed
  show ?thesis unfolding rng_mask_def Let_def bit_and_iff up lo by auto
qed

lemma bit_foldl_mask:
  "bit (foldl (\<lambda>mask rng. mask OR rng_mask rng) m rs) i \<longleftrightarrow>
     bit m i \<or> (\<exists>r \<in> set rs. bit (rng_mask r) i)"
  by (induction rs arbitrary: m) (auto simp: bit_or_iff)

lemma urng_set_intersect_unat:
  "urng_set_intersect rs w \<longleftrightarrow> (\<exists>r \<in> set rs. unat (u_lower r) \<le> unat w \<and> unat w \<le> unat (u_upper r))"
  by (induction rs) (auto simp: word_le_nat_alt)

lemma bit_make_bit_mask:
  "bit (make_bit_mask rs) i \<longleftrightarrow> i < 64 \<and> urng_set_intersect rs (of_nat i)"
proof (cases "i < 64")
  case True
  then have "unat (of_nat i :: u64) = i" by (simp add: unat_of_nat take_bit_nat_eq_self)
  then show ?thesis using True
    by (simp add: make_bit_mask_def bit_foldl_mask urng_set_intersect_unat bit_rng_mask)
qed (auto dest: bit_u64_less)

end
