(* ===== verification/Fld_Cls.thy ===== *)
theory Fld_Cls
  imports Mappings
begin

text \<open>
  Field classes (fld_cls_int.h, fld_cls.c) and field locations (fld_loc_int.h, fld_loc.c). The
  tag and the union of \<open>struct actf_fld_cls\<close> are the constructors of one datatype; the alias
  name and the attribute and extension objects, which no decision of the decoder reads, are left
  out. Sets of ORed enumeration constants are sets.
\<close>

section \<open>Field locations\<close>

datatype actf_fld_loc_origin =
    ACTF_FLD_LOC_ORIGIN_NONE | ACTF_FLD_LOC_ORIGIN_PKT_HEADER | ACTF_FLD_LOC_ORIGIN_PKT_CTX
  | ACTF_FLD_LOC_ORIGIN_EVENT_HEADER | ACTF_FLD_LOC_ORIGIN_EVENT_COMMON_CTX
  | ACTF_FLD_LOC_ORIGIN_EVENT_SPECIFIC_CTX | ACTF_FLD_LOC_ORIGIN_EVENT_PAYLOAD

text \<open>A path element that is the null pointer stands for the containing structure.\<close>

record actf_fld_loc =
  fl_origin :: actf_fld_loc_origin
  fl_path :: "string option list"

definition actf_fld_loc_path_len :: "actf_fld_loc \<Rightarrow> nat" where
  "actf_fld_loc_path_len loc = length (fl_path loc)"

fun actf_fld_loc_origin_name :: "actf_fld_loc_origin \<Rightarrow> string option" where
  "actf_fld_loc_origin_name ACTF_FLD_LOC_ORIGIN_NONE = None"
| "actf_fld_loc_origin_name ACTF_FLD_LOC_ORIGIN_PKT_HEADER = Some ''packet-header''"
| "actf_fld_loc_origin_name ACTF_FLD_LOC_ORIGIN_PKT_CTX = Some ''packet-context''"
| "actf_fld_loc_origin_name ACTF_FLD_LOC_ORIGIN_EVENT_HEADER = Some ''event-record-header''"
| "actf_fld_loc_origin_name ACTF_FLD_LOC_ORIGIN_EVENT_COMMON_CTX = Some ''event-record-common-context''"
| "actf_fld_loc_origin_name ACTF_FLD_LOC_ORIGIN_EVENT_SPECIFIC_CTX = Some ''event-record-specific-context''"
| "actf_fld_loc_origin_name ACTF_FLD_LOC_ORIGIN_EVENT_PAYLOAD = Some ''event-record-payload''"

definition fld_loc_origins :: "actf_fld_loc_origin list" where
  "fld_loc_origins =
     [ACTF_FLD_LOC_ORIGIN_NONE, ACTF_FLD_LOC_ORIGIN_PKT_HEADER, ACTF_FLD_LOC_ORIGIN_PKT_CTX,
      ACTF_FLD_LOC_ORIGIN_EVENT_HEADER, ACTF_FLD_LOC_ORIGIN_EVENT_COMMON_CTX,
      ACTF_FLD_LOC_ORIGIN_EVENT_SPECIFIC_CTX, ACTF_FLD_LOC_ORIGIN_EVENT_PAYLOAD]"

definition actf_fld_loc_origin_name_to_type :: "string \<Rightarrow> actf_fld_loc_origin" where
  "actf_fld_loc_origin_name_to_type name =
     (case find (\<lambda>org. actf_fld_loc_origin_name org = Some name) fld_loc_origins of
        Some org \<Rightarrow> org
      | None \<Rightarrow> ACTF_FLD_LOC_ORIGIN_NONE)"

section \<open>Field classes\<close>

datatype actf_role =
    ACTF_ROLE_DSTREAM_CLS_ID | ACTF_ROLE_DSTREAM_ID | ACTF_ROLE_PKT_MAGIC_NUM
  | ACTF_ROLE_METADATA_STREAM_UUID | ACTF_ROLE_DEF_CLK_TSTAMP
  | ACTF_ROLE_DISC_EVENT_CNT_SNAPSHOT | ACTF_ROLE_PKT_CONTENT_LEN
  | ACTF_ROLE_PKT_END_DEF_CLK_TSTAMP | ACTF_ROLE_PKT_SEQ_NUM | ACTF_ROLE_PKT_TOT_LEN
  | ACTF_ROLE_EVENT_CLS_ID

type_synonym roles = "actf_role set"

record bit_arr_cls =
  ba_len :: u64
  ba_bo :: actf_byte_order
  ba_bito :: actf_bit_order
  ba_align :: u64

record int_fld_cls =
  ic_pref_display_base :: actf_base
  ic_maps :: actf_mappings

datatype actf_fld_cls =
    ACTF_FLD_CLS_NIL
  | ACTF_FLD_CLS_FXD_LEN_BIT_ARR bit_arr_cls
  | ACTF_FLD_CLS_FXD_LEN_BIT_MAP bit_arr_cls actf_flags
  | ACTF_FLD_CLS_FXD_LEN_UINT int_fld_cls bit_arr_cls roles
  | ACTF_FLD_CLS_FXD_LEN_SINT int_fld_cls bit_arr_cls roles
  | ACTF_FLD_CLS_FXD_LEN_BOOL bit_arr_cls
  | ACTF_FLD_CLS_FXD_LEN_FLOAT bit_arr_cls
  | ACTF_FLD_CLS_VAR_LEN_UINT int_fld_cls roles
  | ACTF_FLD_CLS_VAR_LEN_SINT int_fld_cls roles
  | ACTF_FLD_CLS_NULL_TERM_STR actf_encoding
  | ACTF_FLD_CLS_STATIC_LEN_STR actf_encoding u64
  | ACTF_FLD_CLS_DYN_LEN_STR actf_encoding actf_fld_loc
  | ACTF_FLD_CLS_STATIC_LEN_BLOB u64 string roles
  | ACTF_FLD_CLS_DYN_LEN_BLOB actf_fld_loc string
  | ACTF_FLD_CLS_STRUCT "struct_fld_member_cls list" u64 u64
  | ACTF_FLD_CLS_STATIC_LEN_ARR actf_fld_cls u64 u64
  | ACTF_FLD_CLS_DYN_LEN_ARR actf_fld_cls u64 actf_fld_loc
  | ACTF_FLD_CLS_OPTIONAL actf_fld_cls actf_fld_loc actf_rng_set
  | ACTF_FLD_CLS_VARIANT "variant_fld_cls_opt list" actf_fld_loc
and struct_fld_member_cls = Member (m_name: string) (m_cls: actf_fld_cls)
and variant_fld_cls_opt = Opt (o_fc: actf_fld_cls) (o_rng_set: actf_rng_set) (o_name: "string option")

definition DEFAULT_MEDIA_TYPE :: string where
  "DEFAULT_MEDIA_TYPE = ''application/octet-stream''"

definition DEFAULT_ALIGNMENT :: u64 where
  "DEFAULT_ALIGNMENT = 1"

subsection \<open>Properties of a class\<close>

text \<open>The bit array a fixed-length class is read as.\<close>

fun cls_bit_arr :: "actf_fld_cls \<Rightarrow> bit_arr_cls option" where
  "cls_bit_arr (ACTF_FLD_CLS_FXD_LEN_BIT_ARR b) = Some b"
| "cls_bit_arr (ACTF_FLD_CLS_FXD_LEN_BIT_MAP b f) = Some b"
| "cls_bit_arr (ACTF_FLD_CLS_FXD_LEN_UINT i b r) = Some b"
| "cls_bit_arr (ACTF_FLD_CLS_FXD_LEN_SINT i b r) = Some b"
| "cls_bit_arr (ACTF_FLD_CLS_FXD_LEN_BOOL b) = Some b"
| "cls_bit_arr (ACTF_FLD_CLS_FXD_LEN_FLOAT b) = Some b"
| "cls_bit_arr _ = None"

definition actf_fld_cls_len :: "actf_fld_cls \<Rightarrow> u64" where
  "actf_fld_cls_len fc =
     (case fc of
        ACTF_FLD_CLS_STATIC_LEN_BLOB len media roles \<Rightarrow> len
      | ACTF_FLD_CLS_STATIC_LEN_STR enc len \<Rightarrow> len
      | ACTF_FLD_CLS_STATIC_LEN_ARR ele align len \<Rightarrow> len
      | _ \<Rightarrow> (case cls_bit_arr fc of Some b \<Rightarrow> ba_len b | None \<Rightarrow> 0))"

definition actf_fld_cls_byte_order :: "actf_fld_cls \<Rightarrow> actf_byte_order" where
  "actf_fld_cls_byte_order fc =
     (case cls_bit_arr fc of Some b \<Rightarrow> ba_bo b | None \<Rightarrow> ACTF_LIL_ENDIAN)"

definition actf_fld_cls_bit_order :: "actf_fld_cls \<Rightarrow> actf_bit_order" where
  "actf_fld_cls_bit_order fc =
     (case cls_bit_arr fc of Some b \<Rightarrow> ba_bito b | None \<Rightarrow> ACTF_FIRST_TO_LAST)"

definition actf_fld_cls_alignment :: "actf_fld_cls \<Rightarrow> u64" where
  "actf_fld_cls_alignment fc = (case cls_bit_arr fc of Some b \<Rightarrow> ba_align b | None \<Rightarrow> 0)"

fun actf_fld_cls_bit_map_flags :: "actf_fld_cls \<Rightarrow> actf_flags option" where
  "actf_fld_cls_bit_map_flags (ACTF_FLD_CLS_FXD_LEN_BIT_MAP b f) = Some f"
| "actf_fld_cls_bit_map_flags _ = None"

fun cls_int_base :: "actf_fld_cls \<Rightarrow> int_fld_cls option" where
  "cls_int_base (ACTF_FLD_CLS_FXD_LEN_SINT i b r) = Some i"
| "cls_int_base (ACTF_FLD_CLS_FXD_LEN_UINT i b r) = Some i"
| "cls_int_base (ACTF_FLD_CLS_VAR_LEN_SINT i r) = Some i"
| "cls_int_base (ACTF_FLD_CLS_VAR_LEN_UINT i r) = Some i"
| "cls_int_base _ = None"

definition actf_fld_cls_pref_display_base :: "actf_fld_cls \<Rightarrow> actf_base" where
  "actf_fld_cls_pref_display_base fc =
     (case cls_int_base fc of Some i \<Rightarrow> ic_pref_display_base i | None \<Rightarrow> ACTF_BASE_DECIMAL)"

definition actf_fld_cls_mappings :: "actf_fld_cls \<Rightarrow> actf_mappings option" where
  "actf_fld_cls_mappings fc = map_option ic_maps (cls_int_base fc)"

fun actf_fld_cls_roles :: "actf_fld_cls \<Rightarrow> roles" where
  "actf_fld_cls_roles (ACTF_FLD_CLS_FXD_LEN_UINT i b r) = r"
| "actf_fld_cls_roles (ACTF_FLD_CLS_VAR_LEN_UINT i r) = r"
| "actf_fld_cls_roles (ACTF_FLD_CLS_STATIC_LEN_BLOB l m r) = r"
| "actf_fld_cls_roles _ = {}"

fun actf_fld_cls_encoding :: "actf_fld_cls \<Rightarrow> actf_encoding" where
  "actf_fld_cls_encoding (ACTF_FLD_CLS_NULL_TERM_STR e) = e"
| "actf_fld_cls_encoding (ACTF_FLD_CLS_STATIC_LEN_STR e l) = e"
| "actf_fld_cls_encoding (ACTF_FLD_CLS_DYN_LEN_STR e l) = e"
| "actf_fld_cls_encoding _ = ACTF_ENCODING_UTF8"

fun actf_fld_cls_media_type :: "actf_fld_cls \<Rightarrow> string option" where
  "actf_fld_cls_media_type (ACTF_FLD_CLS_STATIC_LEN_BLOB l m r) = Some m"
| "actf_fld_cls_media_type (ACTF_FLD_CLS_DYN_LEN_BLOB l m) = Some m"
| "actf_fld_cls_media_type _ = None"

fun actf_fld_cls_len_fld_loc :: "actf_fld_cls \<Rightarrow> actf_fld_loc option" where
  "actf_fld_cls_len_fld_loc (ACTF_FLD_CLS_DYN_LEN_STR e l) = Some l"
| "actf_fld_cls_len_fld_loc (ACTF_FLD_CLS_DYN_LEN_BLOB l m) = Some l"
| "actf_fld_cls_len_fld_loc (ACTF_FLD_CLS_DYN_LEN_ARR ele a l) = Some l"
| "actf_fld_cls_len_fld_loc _ = None"

fun actf_fld_cls_min_alignment :: "actf_fld_cls \<Rightarrow> u64" where
  "actf_fld_cls_min_alignment (ACTF_FLD_CLS_STRUCT ms min_align align) = min_align"
| "actf_fld_cls_min_alignment (ACTF_FLD_CLS_STATIC_LEN_ARR ele a len) = a"
| "actf_fld_cls_min_alignment (ACTF_FLD_CLS_DYN_LEN_ARR ele a loc) = a"
| "actf_fld_cls_min_alignment _ = 0"

fun cls_members :: "actf_fld_cls \<Rightarrow> struct_fld_member_cls list" where
  "cls_members (ACTF_FLD_CLS_STRUCT ms min_align align) = ms"
| "cls_members _ = []"

definition actf_fld_cls_members_len :: "actf_fld_cls \<Rightarrow> nat" where
  "actf_fld_cls_members_len fc = length (cls_members fc)"

definition actf_fld_cls_members_name_idx :: "actf_fld_cls \<Rightarrow> nat \<Rightarrow> string option" where
  "actf_fld_cls_members_name_idx fc i =
     (if i < length (cls_members fc) then Some (m_name (cls_members fc ! i)) else None)"

definition actf_fld_cls_members_fld_cls_idx :: "actf_fld_cls \<Rightarrow> nat \<Rightarrow> actf_fld_cls option" where
  "actf_fld_cls_members_fld_cls_idx fc i =
     (if i < length (cls_members fc) then Some (m_cls (cls_members fc ! i)) else None)"

fun actf_fld_cls_element_fld_cls :: "actf_fld_cls \<Rightarrow> actf_fld_cls option" where
  "actf_fld_cls_element_fld_cls (ACTF_FLD_CLS_STATIC_LEN_ARR ele a len) = Some ele"
| "actf_fld_cls_element_fld_cls (ACTF_FLD_CLS_DYN_LEN_ARR ele a loc) = Some ele"
| "actf_fld_cls_element_fld_cls _ = None"

fun actf_fld_cls_selector_fld_loc :: "actf_fld_cls \<Rightarrow> actf_fld_loc option" where
  "actf_fld_cls_selector_fld_loc (ACTF_FLD_CLS_OPTIONAL fc loc rs) = Some loc"
| "actf_fld_cls_selector_fld_loc (ACTF_FLD_CLS_VARIANT opts loc) = Some loc"
| "actf_fld_cls_selector_fld_loc _ = None"

fun actf_fld_cls_selector_rng_set :: "actf_fld_cls \<Rightarrow> actf_rng_set option" where
  "actf_fld_cls_selector_rng_set (ACTF_FLD_CLS_OPTIONAL fc loc rs) = Some rs"
| "actf_fld_cls_selector_rng_set _ = None"

fun actf_fld_cls_optional_fld_cls :: "actf_fld_cls \<Rightarrow> actf_fld_cls option" where
  "actf_fld_cls_optional_fld_cls (ACTF_FLD_CLS_OPTIONAL fc loc rs) = Some fc"
| "actf_fld_cls_optional_fld_cls _ = None"

fun cls_opts :: "actf_fld_cls \<Rightarrow> variant_fld_cls_opt list" where
  "cls_opts (ACTF_FLD_CLS_VARIANT opts loc) = opts"
| "cls_opts _ = []"

definition actf_fld_cls_options_len :: "actf_fld_cls \<Rightarrow> nat" where
  "actf_fld_cls_options_len fc = length (cls_opts fc)"

definition actf_fld_cls_options_name_idx :: "actf_fld_cls \<Rightarrow> nat \<Rightarrow> string option" where
  "actf_fld_cls_options_name_idx fc i =
     (if i < length (cls_opts fc) then o_name (cls_opts fc ! i) else None)"

definition actf_fld_cls_options_fld_cls_idx :: "actf_fld_cls \<Rightarrow> nat \<Rightarrow> actf_fld_cls option" where
  "actf_fld_cls_options_fld_cls_idx fc i =
     (if i < length (cls_opts fc) then Some (o_fc (cls_opts fc ! i)) else None)"

definition actf_fld_cls_variant_options_selector_rng_set_idx ::
  "actf_fld_cls \<Rightarrow> nat \<Rightarrow> actf_rng_set option" where
  "actf_fld_cls_variant_options_selector_rng_set_idx fc i =
     (if i < length (cls_opts fc) then Some (o_rng_set (cls_opts fc ! i)) else None)"

fun actf_encoding_to_codepoint_size :: "actf_encoding \<Rightarrow> nat" where
  "actf_encoding_to_codepoint_size ACTF_ENCODING_UTF8 = 1"
| "actf_encoding_to_codepoint_size ACTF_ENCODING_UTF16BE = 2"
| "actf_encoding_to_codepoint_size ACTF_ENCODING_UTF16LE = 2"
| "actf_encoding_to_codepoint_size ACTF_ENCODING_UTF32BE = 4"
| "actf_encoding_to_codepoint_size ACTF_ENCODING_UTF32LE = 4"

fun actf_encoding_to_name :: "actf_encoding \<Rightarrow> string" where
  "actf_encoding_to_name ACTF_ENCODING_UTF8 = ''utf-8''"
| "actf_encoding_to_name ACTF_ENCODING_UTF16BE = ''utf-16be''"
| "actf_encoding_to_name ACTF_ENCODING_UTF16LE = ''utf-16le''"
| "actf_encoding_to_name ACTF_ENCODING_UTF32BE = ''utf-32be''"
| "actf_encoding_to_name ACTF_ENCODING_UTF32LE = ''utf-32le''"

subsection \<open>Alignment requirement\<close>

text \<open>The requirement of the null class is a failed assertion.\<close>

fun actf_fld_cls_get_align_req :: "actf_fld_cls \<Rightarrow> u64 res"
  and arr_fld_cls_get_align_req :: "actf_fld_cls \<Rightarrow> u64 \<Rightarrow> u64 res" where
  "actf_fld_cls_get_align_req ACTF_FLD_CLS_NIL = Undef"
| "actf_fld_cls_get_align_req (ACTF_FLD_CLS_FXD_LEN_BIT_ARR b) = Ok (ba_align b)"
| "actf_fld_cls_get_align_req (ACTF_FLD_CLS_FXD_LEN_BIT_MAP b f) = Ok (ba_align b)"
| "actf_fld_cls_get_align_req (ACTF_FLD_CLS_FXD_LEN_UINT i b r) = Ok (ba_align b)"
| "actf_fld_cls_get_align_req (ACTF_FLD_CLS_FXD_LEN_SINT i b r) = Ok (ba_align b)"
| "actf_fld_cls_get_align_req (ACTF_FLD_CLS_FXD_LEN_BOOL b) = Ok (ba_align b)"
| "actf_fld_cls_get_align_req (ACTF_FLD_CLS_FXD_LEN_FLOAT b) = Ok (ba_align b)"
| "actf_fld_cls_get_align_req (ACTF_FLD_CLS_VAR_LEN_UINT i r) = Ok 8"
| "actf_fld_cls_get_align_req (ACTF_FLD_CLS_VAR_LEN_SINT i r) = Ok 8"
| "actf_fld_cls_get_align_req (ACTF_FLD_CLS_NULL_TERM_STR e) = Ok 8"
| "actf_fld_cls_get_align_req (ACTF_FLD_CLS_STATIC_LEN_STR e l) = Ok 8"
| "actf_fld_cls_get_align_req (ACTF_FLD_CLS_DYN_LEN_STR e l) = Ok 8"
| "actf_fld_cls_get_align_req (ACTF_FLD_CLS_STATIC_LEN_BLOB l m r) = Ok 8"
| "actf_fld_cls_get_align_req (ACTF_FLD_CLS_DYN_LEN_BLOB l m) = Ok 8"
| "actf_fld_cls_get_align_req (ACTF_FLD_CLS_STRUCT ms min_align align) = Ok align"
| "actf_fld_cls_get_align_req (ACTF_FLD_CLS_STATIC_LEN_ARR ele a len) = arr_fld_cls_get_align_req ele a"
| "actf_fld_cls_get_align_req (ACTF_FLD_CLS_DYN_LEN_ARR ele a loc) = arr_fld_cls_get_align_req ele a"
| "actf_fld_cls_get_align_req (ACTF_FLD_CLS_OPTIONAL fc loc rs) = Ok 1"
| "actf_fld_cls_get_align_req (ACTF_FLD_CLS_VARIANT opts loc) = Ok 1"
| "arr_fld_cls_get_align_req ele min_align =
     (case actf_fld_cls_get_align_req ele of
        Ok ele_align \<Rightarrow> Ok (if ele_align < min_align then min_align else ele_align)
      | r \<Rightarrow> r)"

section \<open>Lemmas\<close>

lemma origin_name_roundtrip:
  "actf_fld_loc_origin_name org = Some name \<Longrightarrow> actf_fld_loc_origin_name_to_type name = org"
  by (cases org) (auto simp: actf_fld_loc_origin_name_to_type_def fld_loc_origins_def)

text \<open>
  A class is aligned to powers of two when every alignment it holds is one; the effective
  alignment of such a class is a power of two.
\<close>

definition pow2 :: "u64 \<Rightarrow> bool" where
  "pow2 w \<longleftrightarrow> (\<exists>k < 64. w = 2 ^ k)"

fun cls_align_ok :: "actf_fld_cls \<Rightarrow> bool"
  and member_align_ok :: "struct_fld_member_cls \<Rightarrow> bool"
  and opt_align_ok :: "variant_fld_cls_opt \<Rightarrow> bool" where
  "cls_align_ok ACTF_FLD_CLS_NIL \<longleftrightarrow> False"
| "cls_align_ok (ACTF_FLD_CLS_FXD_LEN_BIT_ARR b) \<longleftrightarrow> pow2 (ba_align b)"
| "cls_align_ok (ACTF_FLD_CLS_FXD_LEN_BIT_MAP b f) \<longleftrightarrow> pow2 (ba_align b)"
| "cls_align_ok (ACTF_FLD_CLS_FXD_LEN_UINT i b r) \<longleftrightarrow> pow2 (ba_align b)"
| "cls_align_ok (ACTF_FLD_CLS_FXD_LEN_SINT i b r) \<longleftrightarrow> pow2 (ba_align b)"
| "cls_align_ok (ACTF_FLD_CLS_FXD_LEN_BOOL b) \<longleftrightarrow> pow2 (ba_align b)"
| "cls_align_ok (ACTF_FLD_CLS_FXD_LEN_FLOAT b) \<longleftrightarrow> pow2 (ba_align b)"
| "cls_align_ok (ACTF_FLD_CLS_STRUCT ms min_align align) \<longleftrightarrow> pow2 align \<and> list_all member_align_ok ms"
| "cls_align_ok (ACTF_FLD_CLS_STATIC_LEN_ARR ele a len) \<longleftrightarrow> pow2 a \<and> cls_align_ok ele"
| "cls_align_ok (ACTF_FLD_CLS_DYN_LEN_ARR ele a loc) \<longleftrightarrow> pow2 a \<and> cls_align_ok ele"
| "cls_align_ok (ACTF_FLD_CLS_OPTIONAL fc loc rs) \<longleftrightarrow> cls_align_ok fc"
| "cls_align_ok (ACTF_FLD_CLS_VARIANT opts loc) \<longleftrightarrow> list_all opt_align_ok opts"
| "cls_align_ok _ \<longleftrightarrow> True"
| "member_align_ok (Member n c) \<longleftrightarrow> cls_align_ok c"
| "opt_align_ok (Opt c rs n) \<longleftrightarrow> cls_align_ok c"

lemma pow2_const [simp]: "pow2 1" "pow2 8"
  by (auto simp: pow2_def intro: exI [of _ 0] exI [of _ 3])

lemma align_req_pow2_arr:
  "cls_align_ok fc \<Longrightarrow> \<exists>a. actf_fld_cls_get_align_req fc = Ok a \<and> pow2 a"
  "cls_align_ok ele \<Longrightarrow> pow2 b \<Longrightarrow> \<exists>a. arr_fld_cls_get_align_req ele b = Ok a \<and> pow2 a"
  by (induction fc and ele b rule: actf_fld_cls_get_align_req_arr_fld_cls_get_align_req.induct) auto

lemma align_req_pow2:
  assumes "cls_align_ok fc"
  obtains k where "k < 64" "actf_fld_cls_get_align_req fc = Ok (2 ^ k)"
  using align_req_pow2_arr(1) [OF assms] by (auto simp: pow2_def)

end
