(* ===== verification/Fld.thy ===== *)
theory Fld
  imports Fld_Cls
begin

text \<open>
  Field values (fld_int.h, fld.c). A pointer to a field names the object that holds it: a
  property of the packet, a property of an event of the event array, or a cell of the packet or
  the event arena. A pointer into the data is a byte offset. Floating-point values are kept as
  their bit patterns.
\<close>

section \<open>Data\<close>

datatype fptr =
    PktProp nat
  | EvProp nat nat
  | PktFld nat
  | EvFld nat

datatype actf_fld_type =
    ACTF_FLD_TYPE_NIL | ACTF_FLD_TYPE_BOOL | ACTF_FLD_TYPE_SINT | ACTF_FLD_TYPE_UINT
  | ACTF_FLD_TYPE_BIT_MAP | ACTF_FLD_TYPE_REAL | ACTF_FLD_TYPE_STR | ACTF_FLD_TYPE_BLOB
  | ACTF_FLD_TYPE_ARR | ACTF_FLD_TYPE_STRUCT

text \<open>The union \<open>d\<close>; \<open>D_zero\<close> is the zeroed union of a field that is not decoded yet.\<close>

datatype fld_data =
    D_zero
  | D_bool bool
  | D_uint u64 u64
  | D_int i64
  | D_bit_map u64
  | D_f32 u32
  | D_f64 u64
  | D_arr fptr u64
  | D_str nat nat
  | D_blob nat nat
  | D_struct fptr

record actf_fld =
  f_type :: actf_fld_type
  f_d :: fld_data
  f_cls :: "actf_fld_cls option"
  f_parent :: "fptr option"

definition zero_fld :: actf_fld where
  "zero_fld = \<lparr>f_type = ACTF_FLD_TYPE_NIL, f_d = D_zero, f_cls = None, f_parent = None\<rparr>"

text \<open>The element \<open>i\<close> of an array of fields; only arena cells are allocated as arrays.\<close>

fun fptr_idx :: "fptr \<Rightarrow> nat \<Rightarrow> fptr option" where
  "fptr_idx (PktFld k) i = Some (PktFld (k + i))"
| "fptr_idx (EvFld k) i = Some (EvFld (k + i))"
| "fptr_idx _ i = None"

section \<open>Accessors\<close>

fun actf_fld_type_name :: "actf_fld_type \<Rightarrow> string" where
  "actf_fld_type_name ACTF_FLD_TYPE_NIL = ''nil''"
| "actf_fld_type_name ACTF_FLD_TYPE_BOOL = ''bool''"
| "actf_fld_type_name ACTF_FLD_TYPE_SINT = ''signed int''"
| "actf_fld_type_name ACTF_FLD_TYPE_UINT = ''unsigned int''"
| "actf_fld_type_name ACTF_FLD_TYPE_BIT_MAP = ''bit map''"
| "actf_fld_type_name ACTF_FLD_TYPE_REAL = ''real''"
| "actf_fld_type_name ACTF_FLD_TYPE_STR = ''string''"
| "actf_fld_type_name ACTF_FLD_TYPE_BLOB = ''blob''"
| "actf_fld_type_name ACTF_FLD_TYPE_ARR = ''array''"
| "actf_fld_type_name ACTF_FLD_TYPE_STRUCT = ''struct''"

text \<open>
  The members of the union. A member is read only under the matching type, where the decoder has
  written it; the other cases do not occur in a field the decoder has filled (\<open>fld_ok\<close> below).
\<close>

fun d_bool :: "fld_data \<Rightarrow> bool" where
  "d_bool (D_bool b) = b"
| "d_bool _ = False"

fun d_int :: "fld_data \<Rightarrow> i64" where
  "d_int (D_int v) = v"
| "d_int _ = 0"

fun d_uint :: "fld_data \<Rightarrow> u64" where
  "d_uint (D_uint v l) = v"
| "d_uint _ = 0"

fun d_uint_len :: "fld_data \<Rightarrow> u64" where
  "d_uint_len (D_uint v l) = l"
| "d_uint_len _ = 0"

fun d_bit_map :: "fld_data \<Rightarrow> u64" where
  "d_bit_map (D_bit_map v) = v"
| "d_bit_map _ = 0"

fun d_arr_n :: "fld_data \<Rightarrow> u64" where
  "d_arr_n (D_arr p n) = n"
| "d_arr_n _ = 0"

fun d_vals :: "fld_data \<Rightarrow> fptr option" where
  "d_vals (D_arr p n) = Some p"
| "d_vals (D_struct p) = Some p"
| "d_vals _ = None"

fun d_ptr :: "fld_data \<Rightarrow> nat option" where
  "d_ptr (D_str p l) = Some p"
| "d_ptr (D_blob p l) = Some p"
| "d_ptr _ = None"

fun d_len :: "fld_data \<Rightarrow> nat" where
  "d_len (D_str p l) = l"
| "d_len (D_blob p l) = l"
| "d_len _ = 0"

definition actf_fld_bool :: "actf_fld \<Rightarrow> bool" where
  "actf_fld_bool fld =
     (case f_type fld of
        ACTF_FLD_TYPE_BOOL \<Rightarrow> d_bool (f_d fld)
      | ACTF_FLD_TYPE_SINT \<Rightarrow> d_int (f_d fld) \<noteq> 0
      | ACTF_FLD_TYPE_UINT \<Rightarrow> d_uint (f_d fld) \<noteq> 0
      | _ \<Rightarrow> False)"

definition actf_fld_uint64 :: "actf_fld \<Rightarrow> u64" where
  "actf_fld_uint64 fld =
     (case f_type fld of
        ACTF_FLD_TYPE_BOOL \<Rightarrow> of_bool (d_bool (f_d fld))
      | ACTF_FLD_TYPE_SINT \<Rightarrow> if sint (d_int (f_d fld)) < 0 then 0 else d_int (f_d fld)
      | ACTF_FLD_TYPE_UINT \<Rightarrow> d_uint (f_d fld)
      | ACTF_FLD_TYPE_BIT_MAP \<Rightarrow> d_bit_map (f_d fld)
      | _ \<Rightarrow> UINT64_MAX)"

definition actf_fld_int64 :: "actf_fld \<Rightarrow> i64" where
  "actf_fld_int64 fld =
     (case f_type fld of
        ACTF_FLD_TYPE_BOOL \<Rightarrow> of_bool (d_bool (f_d fld))
      | ACTF_FLD_TYPE_SINT \<Rightarrow> d_int (f_d fld)
      | ACTF_FLD_TYPE_UINT \<Rightarrow>
          if INT64_MAX \<le> d_uint (f_d fld) then INT64_MAX else d_uint (f_d fld)
      | ACTF_FLD_TYPE_BIT_MAP \<Rightarrow>
          if INT64_MAX \<le> d_bit_map (f_d fld) then INT64_MAX else d_bit_map (f_d fld)
      | _ \<Rightarrow> INT64_MAX)"

definition actf_fld_str_raw :: "actf_fld \<Rightarrow> nat option" where
  "actf_fld_str_raw fld = (if f_type fld \<noteq> ACTF_FLD_TYPE_STR then None else d_ptr (f_d fld))"

definition actf_fld_str_sz :: "actf_fld \<Rightarrow> nat" where
  "actf_fld_str_sz fld = (if f_type fld \<noteq> ACTF_FLD_TYPE_STR then 0 else d_len (f_d fld))"

definition actf_fld_blob :: "actf_fld \<Rightarrow> nat option" where
  "actf_fld_blob fld = (if f_type fld \<noteq> ACTF_FLD_TYPE_BLOB then None else d_ptr (f_d fld))"

definition actf_fld_blob_sz :: "actf_fld \<Rightarrow> nat" where
  "actf_fld_blob_sz fld = (if f_type fld \<noteq> ACTF_FLD_TYPE_BLOB then 0 else d_len (f_d fld))"

definition actf_fld_arr_len :: "actf_fld \<Rightarrow> u64" where
  "actf_fld_arr_len fld = (if f_type fld \<noteq> ACTF_FLD_TYPE_ARR then 0 else d_arr_n (f_d fld))"

definition actf_fld_arr_idx :: "actf_fld \<Rightarrow> u64 \<Rightarrow> fptr option" where
  "actf_fld_arr_idx fld i =
     (if f_type fld \<noteq> ACTF_FLD_TYPE_ARR \<or> d_arr_n (f_d fld) \<le> i then None
      else Option.bind (d_vals (f_d fld)) (\<lambda>p. fptr_idx p (unat i)))"

text \<open>The members of the class of a structure value.\<close>

definition fld_members :: "actf_fld \<Rightarrow> struct_fld_member_cls list" where
  "fld_members fld =
     (if f_type fld \<noteq> ACTF_FLD_TYPE_STRUCT then []
      else case f_cls fld of Some c \<Rightarrow> cls_members c | None \<Rightarrow> [])"

fun member_index :: "string \<Rightarrow> struct_fld_member_cls list \<Rightarrow> nat option" where
  "member_index name [] = None"
| "member_index name (Member n c # ms) =
     (if name = n then Some 0 else map_option Suc (member_index name ms))"

definition actf_fld_struct_fld :: "actf_fld \<Rightarrow> string \<Rightarrow> fptr option" where
  "actf_fld_struct_fld fld key =
     (case member_index key (fld_members fld) of
        Some i \<Rightarrow> Option.bind (d_vals (f_d fld)) (\<lambda>p. fptr_idx p i)
      | None \<Rightarrow> None)"

definition actf_fld_struct_len :: "actf_fld \<Rightarrow> nat" where
  "actf_fld_struct_len fld = length (fld_members fld)"

definition actf_fld_struct_fld_idx :: "actf_fld \<Rightarrow> nat \<Rightarrow> fptr option" where
  "actf_fld_struct_fld_idx fld i =
     (if length (fld_members fld) \<le> i then None
      else Option.bind (d_vals (f_d fld)) (\<lambda>p. fptr_idx p i))"

section \<open>Lemmas\<close>

text \<open>A filled field: the union holds the member that the type announces.\<close>

fun data_ok :: "actf_fld_type \<Rightarrow> fld_data \<Rightarrow> bool" where
  "data_ok ACTF_FLD_TYPE_NIL d \<longleftrightarrow> True"
| "data_ok ACTF_FLD_TYPE_BOOL d \<longleftrightarrow> (\<exists>b. d = D_bool b)"
| "data_ok ACTF_FLD_TYPE_SINT d \<longleftrightarrow> (\<exists>v. d = D_int v)"
| "data_ok ACTF_FLD_TYPE_UINT d \<longleftrightarrow> (\<exists>v l. d = D_uint v l)"
| "data_ok ACTF_FLD_TYPE_BIT_MAP d \<longleftrightarrow> (\<exists>v. d = D_bit_map v)"
| "data_ok ACTF_FLD_TYPE_REAL d \<longleftrightarrow> (\<exists>v. d = D_f32 v) \<or> (\<exists>v. d = D_f64 v)"
| "data_ok ACTF_FLD_TYPE_STR d \<longleftrightarrow> (\<exists>p l. d = D_str p l)"
| "data_ok ACTF_FLD_TYPE_BLOB d \<longleftrightarrow> (\<exists>p l. d = D_blob p l)"
| "data_ok ACTF_FLD_TYPE_ARR d \<longleftrightarrow> (\<exists>p n. d = D_arr p n)"
| "data_ok ACTF_FLD_TYPE_STRUCT d \<longleftrightarrow> (\<exists>p. d = D_struct p)"

definition fld_ok :: "actf_fld \<Rightarrow> bool" where
  "fld_ok fld \<longleftrightarrow> data_ok (f_type fld) (f_d fld)"

text \<open>The index of a name is the first member that carries it.\<close>

lemma member_index_Some:
  "member_index name ms = Some i \<longleftrightarrow>
     i < length ms \<and> m_name (ms ! i) = name \<and> (\<forall>j < i. m_name (ms ! j) \<noteq> name)"
proof (induction name ms arbitrary: i rule: member_index.induct)
  case (2 name n c ms)
  show ?case
  proof (cases i)
    case 0
    then show ?thesis by (auto simp: 2)
  next
    case (Suc k)
    then show ?thesis using 2
      by (auto simp: All_less_Suc2)
  qed
qed simp

lemma member_index_None: "member_index name ms = None \<longleftrightarrow> name \<notin> m_name ` set ms"
  by (induction name ms rule: member_index.induct) auto

end
