(* ===== verification/Hash_Map.thy ===== *)
theory Hash_Map
  imports Prelude
begin

unbundle bit_operations_syntax

text \<open>
  The open-addressing hash map of crust/map.h with its helpers of crust/map_util.h. A slot whose
  hash is \<open>MAP_NOENT\<close> is \<open>None\<close>. The macros \<open>MAP_HASH\<close> and \<open>MAP_KEY_CMP\<close> are the
  arguments \<open>hash\<close> and \<open>cmp\<close>; \<open>cmp k k'\<close> is true where the C comparison returns zero.
\<close>

section \<open>Data and helpers\<close>

type_synonym ('k, 'v) slot = "(u64 \<times> 'k \<times> 'v) option"

record ('k, 'v) hmap =
  hm_slots :: "('k, 'v) slot list"
  hm_len :: nat
  hm_cap :: nat
  hm_grow_limit :: nat

definition MAP_NOENT :: u64 where
  "MAP_NOENT = UINT64_MAX"

definition hash_uint64 :: "u64 \<Rightarrow> u64" where
  "hash_uint64 val = val"

text \<open>
  The difference of the keys is returned as an \<open>int\<close>, which keeps its low 32 bits; the
  comparison reports equality where these are zero.
\<close>

definition uint64cmp :: "u64 \<Rightarrow> u64 \<Rightarrow> bool" where
  "uint64cmp v1 v2 \<longleftrightarrow> (ucast (v2 - v1) :: u32) = 0"

definition map_is_pow2 :: "nat \<Rightarrow> bool" where
  "map_is_pow2 v \<longleftrightarrow> v \<noteq> 0 \<and> v AND (v - 1) = 0"

section \<open>Operations\<close>

definition hm_hash :: "('k \<Rightarrow> u64) \<Rightarrow> 'k \<Rightarrow> u64" where
  "hm_hash hash key = (let h = hash key in if h = MAP_NOENT then h - 1 else h)"

definition hm_wrap :: "nat \<Rightarrow> nat \<Rightarrow> nat" where
  "hm_wrap cap index = index AND (cap - 1)"

definition hm_init_cap :: "(nat \<Rightarrow> bool) \<Rightarrow> nat \<Rightarrow> ('k, 'v) hmap option" where
  "hm_init_cap alloc cap =
     (if \<not> map_is_pow2 cap \<or> \<not> alloc cap then None
      else Some \<lparr>hm_slots = replicate cap None, hm_len = 0, hm_cap = cap, hm_grow_limit = cap div 2\<rparr>)"

definition hm_init :: "(nat \<Rightarrow> bool) \<Rightarrow> ('k, 'v) hmap option" where
  "hm_init alloc = hm_init_cap alloc 8"

text \<open>
  The probe of \<open>find\<close> and \<open>delete\<close>: it stops at an empty slot, at a slot with the key, or when
  it is back at the first slot, which takes as many steps as there are slots.
\<close>

fun hm_probe ::
  "('k \<Rightarrow> 'k \<Rightarrow> bool) \<Rightarrow> ('k, 'v) slot list \<Rightarrow> 'k \<Rightarrow> nat \<Rightarrow> nat \<Rightarrow> nat option" where
  "hm_probe cmp slots key index 0 = None"
| "hm_probe cmp slots key index (Suc n) =
     (case slots ! index of
        None \<Rightarrow> None
      | Some (h, k, v) \<Rightarrow>
          if cmp k key then Some index
          else hm_probe cmp slots key (hm_wrap (length slots) (index + 1)) n)"

definition hm_index :: "('k \<Rightarrow> u64) \<Rightarrow> ('k \<Rightarrow> 'k \<Rightarrow> bool) \<Rightarrow> ('k, 'v) hmap \<Rightarrow> 'k \<Rightarrow> nat option" where
  "hm_index hash cmp m key =
     hm_probe cmp (hm_slots m) key (hm_wrap (hm_cap m) (unat (hm_hash hash key))) (hm_cap m)"

definition hm_find :: "('k \<Rightarrow> u64) \<Rightarrow> ('k \<Rightarrow> 'k \<Rightarrow> bool) \<Rightarrow> ('k, 'v) hmap \<Rightarrow> 'k \<Rightarrow> 'v option" where
  "hm_find hash cmp m key =
     map_option (\<lambda>i. snd (snd (the (hm_slots m ! i)))) (hm_index hash cmp m key)"

definition hm_contains :: "('k \<Rightarrow> u64) \<Rightarrow> ('k \<Rightarrow> 'k \<Rightarrow> bool) \<Rightarrow> ('k, 'v) hmap \<Rightarrow> 'k \<Rightarrow> bool" where
  "hm_contains hash cmp m key \<longleftrightarrow> hm_find hash cmp m key \<noteq> None"

text \<open>The search for an empty slot; \<open>None\<close> when every slot is taken, where the C loop spins.\<close>

fun hm_free_slot :: "('k, 'v) slot list \<Rightarrow> nat \<Rightarrow> nat \<Rightarrow> nat option" where
  "hm_free_slot slots index 0 = None"
| "hm_free_slot slots index (Suc n) =
     (if slots ! index = None then Some index
      else hm_free_slot slots (hm_wrap (length slots) (index + 1)) n)"

text \<open>
  Insertion and growth call each other; the first argument bounds the depth of the recursion.
  A failed allocation leaves the map at its size.
\<close>

fun hm_insert_hash_unchk ::
  "nat \<Rightarrow> (nat \<Rightarrow> bool) \<Rightarrow> ('k, 'v) hmap \<Rightarrow> u64 \<Rightarrow> 'k \<Rightarrow> 'v \<Rightarrow> ('k, 'v) hmap res" where
  "hm_insert_hash_unchk 0 alloc m h key val = Loop"
| "hm_insert_hash_unchk (Suc fuel) alloc m h key val =
     (case hm_free_slot (hm_slots m) (hm_wrap (hm_cap m) (unat h)) (hm_cap m) of
        None \<Rightarrow> Loop
      | Some index \<Rightarrow>
          let m' = m\<lparr>hm_slots := (hm_slots m)[index := Some (h, key, val)], hm_len := hm_len m + 1\<rparr> in
          if hm_grow_limit m' \<le> hm_len m' then
            (let next_cap = (hm_cap m' * 2) mod 2 ^ 64 in
             if next_cap < hm_cap m' then Ok m'
             else case hm_init_cap alloc next_cap of
                 None \<Rightarrow> Ok m'
               | Some next_m \<Rightarrow>
                   foldl (\<lambda>acc s. case (acc, s) of
                       (Ok nm, Some (h, k, v)) \<Rightarrow> hm_insert_hash_unchk fuel alloc nm h k v
                     | _ \<Rightarrow> acc) (Ok next_m) (hm_slots m'))
          else Ok m')"

definition hm_insert ::
  "nat \<Rightarrow> (nat \<Rightarrow> bool) \<Rightarrow> ('k \<Rightarrow> u64) \<Rightarrow> ('k, 'v) hmap \<Rightarrow> 'k \<Rightarrow> 'v \<Rightarrow> ('k, 'v) hmap res" where
  "hm_insert fuel alloc hash m key val =
     (if hm_cap m \<le> hm_len m then Err ACTF_OOM
      else hm_insert_hash_unchk fuel alloc m (hm_hash hash key) key val)"

text \<open>The back shift of \<open>delete\<close>; the last argument bounds it by the number of slots.\<close>

fun hm_back_shift :: "('k, 'v) slot list \<Rightarrow> nat \<Rightarrow> nat \<Rightarrow> nat \<Rightarrow> ('k, 'v) slot list" where
  "hm_back_shift slots prev_index index 0 = slots"
| "hm_back_shift slots prev_index index (Suc n) =
     (case slots ! index of
        None \<Rightarrow> slots
      | Some (h, k, v) \<Rightarrow>
          if hm_wrap (length slots) (unat h) = index then slots
          else hm_back_shift (slots[prev_index := slots ! index, index := None]) index
                 (hm_wrap (length slots) (index + 1)) n)"

text \<open>\<open>None\<close> is the error \<open>-ESRCH\<close>. The length of the map is not changed.\<close>

definition hm_delete ::
  "('k \<Rightarrow> u64) \<Rightarrow> ('k \<Rightarrow> 'k \<Rightarrow> bool) \<Rightarrow> ('k, 'v) hmap \<Rightarrow> 'k \<Rightarrow> ('k, 'v) hmap option" where
  "hm_delete hash cmp m key =
     map_option (\<lambda>i. m\<lparr>hm_slots :=
         hm_back_shift ((hm_slots m)[i := None]) i (hm_wrap (hm_cap m) (i + 1)) (hm_cap m)\<rparr>)
       (hm_index hash cmp m key)"

text \<open>The iterator: the first occupied slot from \<open>i\<close> on, and the position after it.\<close>

function hm_foreach :: "('k, 'v) hmap \<Rightarrow> nat \<Rightarrow> (('k \<times> 'v) \<times> nat) option" where
  "hm_foreach m i =
     (if hm_cap m \<le> i then None
      else case hm_slots m ! i of
          None \<Rightarrow> hm_foreach m (i + 1)
        | Some (h, k, v) \<Rightarrow> Some ((k, v), i + 1))"
  by pat_completeness auto
termination by (relation "measure (\<lambda>(m, i). hm_cap m - i)") auto

declare hm_foreach.simps [simp del]

end
