(* ===== verification/Metadata.thy ===== *)
theory Metadata
  imports Fld Hash_Map Common
begin

unbundle bit_operations_syntax

text \<open>
  The metadata classes (metadata_int.h) and the parts of metadata.c that do not parse JSON: the
  search for an alias, clock identities, the conversion of a clock value to nanoseconds, the
  verification of roles, and the packetized metadata stream. Pointers to data stream classes and
  to clock classes are indexes into the lists of the metadata.
\<close>

section \<open>Data\<close>

record actf_preamble =
  pa_version :: u32
  pa_uuid :: "u8 list"
  pa_has_uuid :: bool

datatype actf_clk_origin =
    ACTF_CLK_ORIGIN_TYPE_NONE
  | ACTF_CLK_ORIGIN_TYPE_UNIX_EPOCH
  | ACTF_CLK_ORIGIN_TYPE_CUSTOM "string option" string string

record actf_clk_cls =
  ck_id :: string
  ck_namespace :: "string option"
  ck_name :: "string option"
  ck_uid :: "string option"
  ck_freq :: u64
  ck_origin :: actf_clk_origin
  ck_off_seconds :: i64
  ck_off_cycles :: u64
  ck_precision :: "u64 option"
  ck_accuracy :: "u64 option"
  ck_desc :: "string option"

record actf_event_cls =
  ec_id :: u64
  ec_dsc_id :: u64
  ec_dsc :: nat
  ec_namespace :: "string option"
  ec_name :: "string option"
  ec_uid :: "string option"
  ec_spec_ctx :: actf_fld_cls
  ec_payload :: actf_fld_cls

record actf_dstream_cls =
  dc_id :: u64
  dc_name :: "string option"
  dc_namespace :: "string option"
  dc_uid :: "string option"
  dc_def_clkc_id :: "string option"
  dc_def_clkc :: "nat option"
  dc_pkt_ctx :: actf_fld_cls
  dc_event_hdr :: actf_fld_cls
  dc_event_common_ctx :: actf_fld_cls
  dc_idtoevc :: "(u64, actf_event_cls) hmap"

record actf_trace_cls =
  tc_namespace :: "string option"
  tc_name :: "string option"
  tc_uid :: "string option"
  tc_pkt_hdr :: actf_fld_cls

record actf_metadata =
  md_preamble :: actf_preamble
  md_preamble_is_set :: bool
  md_fld_cls_aliases :: "(string \<times> actf_fld_cls) list"
  md_trace_cls :: actf_trace_cls
  md_trace_cls_is_set :: bool
  md_clk_clses :: "actf_clk_cls list"
  md_dscs :: "actf_dstream_cls list"
  md_idtodsc :: "(u64, nat) hmap"

abbreviation md_pkt_hdr :: "actf_metadata \<Rightarrow> actf_fld_cls" where
  "md_pkt_hdr md \<equiv> tc_pkt_hdr (md_trace_cls md)"

abbreviation u64todsc_find :: "(u64, nat) hmap \<Rightarrow> u64 \<Rightarrow> nat option" where
  "u64todsc_find \<equiv> hm_find hash_uint64 uint64cmp"

abbreviation u64toevc_find :: "(u64, actf_event_cls) hmap \<Rightarrow> u64 \<Rightarrow> actf_event_cls option" where
  "u64toevc_find \<equiv> hm_find hash_uint64 uint64cmp"

section \<open>Lookups\<close>

definition actf_metadata_find_fld_cls_alias :: "actf_metadata \<Rightarrow> string \<Rightarrow> actf_fld_cls option" where
  "actf_metadata_find_fld_cls_alias md name = map_of (md_fld_cls_aliases md) name"

text \<open>\<open>None\<close> is a dangling pointer, \<open>Some None\<close> the null pointer.\<close>

definition actf_dstream_cls_clk_cls :: "actf_metadata \<Rightarrow> actf_dstream_cls \<Rightarrow> actf_clk_cls option res" where
  "actf_dstream_cls_clk_cls md dsc =
     (case dc_def_clkc dsc of
        None \<Rightarrow> Ok None
      | Some i \<Rightarrow> if i < length (md_clk_clses md) then Ok (Some (md_clk_clses md ! i)) else Undef)"

section \<open>Clocks\<close>

fun actf_clk_origin_type_to_name :: "actf_clk_origin \<Rightarrow> string option" where
  "actf_clk_origin_type_to_name ACTF_CLK_ORIGIN_TYPE_UNIX_EPOCH = Some ''unix-epoch''"
| "actf_clk_origin_type_to_name _ = None"

definition actf_clk_origin_name_to_type :: "string \<Rightarrow> actf_clk_origin" where
  "actf_clk_origin_name_to_type name =
     (if name = ''unix-epoch'' then ACTF_CLK_ORIGIN_TYPE_UNIX_EPOCH else ACTF_CLK_ORIGIN_TYPE_NONE)"

fun actf_clk_origin_eq :: "actf_clk_origin \<Rightarrow> actf_clk_origin \<Rightarrow> bool" where
  "actf_clk_origin_eq (ACTF_CLK_ORIGIN_TYPE_CUSTOM ns1 n1 u1) (ACTF_CLK_ORIGIN_TYPE_CUSTOM ns2 n2 u2) \<longleftrightarrow>
     (if ns1 \<noteq> ns2 then False else if n1 \<noteq> n2 then False else if u1 \<noteq> u2 then False else True)"
| "actf_clk_origin_eq ACTF_CLK_ORIGIN_TYPE_NONE ACTF_CLK_ORIGIN_TYPE_NONE \<longleftrightarrow> True"
| "actf_clk_origin_eq ACTF_CLK_ORIGIN_TYPE_UNIX_EPOCH ACTF_CLK_ORIGIN_TYPE_UNIX_EPOCH \<longleftrightarrow> True"
| "actf_clk_origin_eq _ _ \<longleftrightarrow> False"

definition actf_clk_cls_eq_identities :: "actf_clk_cls \<Rightarrow> actf_clk_cls \<Rightarrow> bool" where
  "actf_clk_cls_eq_identities c1 c2 \<longleftrightarrow>
     (if ck_namespace c1 \<noteq> ck_namespace c2 then False
      else if ck_name c1 \<noteq> ck_name c2 then False
      else if ck_uid c1 \<noteq> ck_uid c2 then False
      else True)"

definition actf_clk_cls_eq_identities_strict :: "actf_clk_cls \<Rightarrow> actf_clk_cls \<Rightarrow> bool" where
  "actf_clk_cls_eq_identities_strict c1 c2 \<longleftrightarrow>
     (if \<not> actf_clk_cls_eq_identities c1 c2 then False
      else if ck_freq c1 \<noteq> ck_freq c2 then False
      else if ck_precision c1 \<noteq> ck_precision c2 then False
      else if ck_accuracy c1 \<noteq> ck_accuracy c2 then False
      else actf_clk_origin_eq (ck_origin c1) (ck_origin c2))"

text \<open>Signed arithmetic on 64 bits: an overflow is undefined.\<close>

definition in_i64 :: "int \<Rightarrow> bool" where
  "in_i64 x \<longleftrightarrow> - (2 ^ 63) \<le> x \<and> x < 2 ^ 63"

definition actf_clk_cls_cc_to_ns_from_origin :: "actf_clk_cls \<Rightarrow> u64 \<Rightarrow> i64 res" where
  "actf_clk_cls_cc_to_ns_from_origin clkc tstamp_cc =
     (let freq = ck_freq clkc;
          s_off = ck_off_seconds clkc;
          cc = tstamp_cc + ck_off_cycles clkc
      in if freq = 0 then Undef
         else let q = cc div freq; s = sint s_off + sint q in
           if \<not> in_i64 s then Undef
           else if \<not> in_i64 (s * 1000000000) then Undef
           else Ok (word_of_int (s * 1000000000) + ((cc mod freq) * 1000000000) div freq))"

section \<open>Verification of roles\<close>

text \<open>The first error of the members in order.\<close>

fun first_err :: "unit res list \<Rightarrow> unit res" where
  "first_err [] = Ok ()"
| "first_err (r # rs) = (if r = Ok () then first_err rs else r)"

fun verify_clk_roles :: "actf_dstream_cls \<Rightarrow> actf_fld_cls \<Rightarrow> unit res"
  and verify_clk_roles_member :: "actf_dstream_cls \<Rightarrow> struct_fld_member_cls \<Rightarrow> unit res" where
  "verify_clk_roles dsc fc =
     (case fc of
        ACTF_FLD_CLS_STRUCT ms min_align align \<Rightarrow> first_err (map (verify_clk_roles_member dsc) ms)
      | _ \<Rightarrow>
          let roles = actf_fld_cls_roles fc in
          if ACTF_ROLE_DEF_CLK_TSTAMP \<in> roles \<and> dc_def_clkc_id dsc = None then Err ACTF_NO_DEFAULT_CLOCK
          else if ACTF_ROLE_PKT_END_DEF_CLK_TSTAMP \<in> roles \<and> dc_def_clkc_id dsc = None
          then Err ACTF_NO_DEFAULT_CLOCK
          else Ok ())"
| "verify_clk_roles_member dsc (Member name c) = verify_clk_roles dsc c"

fun verify_metadata_stream_uuid_role :: "actf_preamble \<Rightarrow> actf_fld_cls \<Rightarrow> unit res"
  and verify_metadata_stream_uuid_role_member :: "actf_preamble \<Rightarrow> struct_fld_member_cls \<Rightarrow> unit res" where
  "verify_metadata_stream_uuid_role preamble fc =
     (case fc of
        ACTF_FLD_CLS_STRUCT ms min_align align \<Rightarrow>
          first_err (map (verify_metadata_stream_uuid_role_member preamble) ms)
      | _ \<Rightarrow>
          if ACTF_ROLE_METADATA_STREAM_UUID \<in> actf_fld_cls_roles fc then
            if \<not> pa_has_uuid preamble then Err ACTF_INVALID_UUID_ROLE
            else (case fc of
                ACTF_FLD_CLS_STATIC_LEN_BLOB len media roles \<Rightarrow>
                  if len \<noteq> 16 then Err ACTF_INVALID_UUID_ROLE else Ok ()
              | _ \<Rightarrow> Err ACTF_INVALID_UUID_ROLE)
          else Ok ())"
| "verify_metadata_stream_uuid_role_member preamble (Member name c) =
     verify_metadata_stream_uuid_role preamble c"

fun is_struct :: "actf_fld_cls \<Rightarrow> bool" where
  "is_struct (ACTF_FLD_CLS_STRUCT ms min_align align) \<longleftrightarrow> True"
| "is_struct _ \<longleftrightarrow> False"

fun int_verify_pkt_magic_num_role :: "actf_fld_cls \<Rightarrow> bool \<Rightarrow> bool \<Rightarrow> unit res"
  and int_verify_pkt_magic_num_role_members ::
    "struct_fld_member_cls list \<Rightarrow> bool \<Rightarrow> bool \<Rightarrow> unit res" where
  "int_verify_pkt_magic_num_role fc is_top_lvl_struct is_first_member =
     (case fc of
        ACTF_FLD_CLS_STRUCT ms min_align align \<Rightarrow>
          int_verify_pkt_magic_num_role_members ms is_top_lvl_struct True
      | _ \<Rightarrow>
          if ACTF_ROLE_PKT_MAGIC_NUM \<in> actf_fld_cls_roles fc \<and> (\<not> is_top_lvl_struct \<or> \<not> is_first_member)
          then Err ACTF_INVALID_MAGIC_ROLE else Ok ())"
| "int_verify_pkt_magic_num_role_members [] is_top_lvl_struct first = Ok ()"
| "int_verify_pkt_magic_num_role_members (Member name c # ms) is_top_lvl_struct first =
     (let rc = int_verify_pkt_magic_num_role c (is_top_lvl_struct \<and> \<not> is_struct c) first in
      if rc = Ok () then int_verify_pkt_magic_num_role_members ms is_top_lvl_struct False else rc)"

definition verify_pkt_magic_num_role :: "actf_fld_cls \<Rightarrow> unit res" where
  "verify_pkt_magic_num_role fc = int_verify_pkt_magic_num_role fc True False"

section \<open>Packetized metadata\<close>

definition METADATA_PKT_HDR_MAGIC :: u32 where
  "METADATA_PKT_HDR_MAGIC = 0x75d11d57"

definition METADATA_PKT_HDR_SZ_BITS :: u32 where
  "METADATA_PKT_HDR_SZ_BITS = 352"

record metadata_pkt_hdr =
  mh_magic :: u32
  mh_uuid :: "u8 list"
  mh_checksum :: u32
  mh_content_sz_bits :: u32
  mh_total_sz_bits :: u32
  mh_compression_scheme :: u8
  mh_encryption_scheme :: u8
  mh_content_checksum :: u8
  mh_major :: u8
  mh_minor :: u8
  mh_reserved :: "u8 list"
  mh_hdr_sz_bits :: u32

text \<open>A 32-bit load of a little-endian host.\<close>

definition load32 :: "u8 list \<Rightarrow> nat \<Rightarrow> u32" where
  "load32 b i = ucast (b ! i) OR push_bit 8 (ucast (b ! (i + 1))) OR
     push_bit 16 (ucast (b ! (i + 2))) OR push_bit 24 (ucast (b ! (i + 3)))"

definition is_metadata_stream_magic_valid :: "u32 \<Rightarrow> bool" where
  "is_metadata_stream_magic_valid magic \<longleftrightarrow>
     magic = METADATA_PKT_HDR_MAGIC \<or> magic = bswap32 METADATA_PKT_HDR_MAGIC"

definition is_metadata_stream_packetized :: "u8 list \<Rightarrow> bool" where
  "is_metadata_stream_packetized b \<longleftrightarrow>
     (if length b < 4 then False else is_metadata_stream_magic_valid (load32 b 0))"

text \<open>The \<open>memcpy\<close> of the packed structure.\<close>

definition load_hdr :: "u8 list \<Rightarrow> metadata_pkt_hdr" where
  "load_hdr b =
     \<lparr>mh_magic = load32 b 0, mh_uuid = take 16 (drop 4 b), mh_checksum = load32 b 20,
      mh_content_sz_bits = load32 b 24, mh_total_sz_bits = load32 b 28,
      mh_compression_scheme = b ! 32, mh_encryption_scheme = b ! 33, mh_content_checksum = b ! 34,
      mh_major = b ! 35, mh_minor = b ! 36, mh_reserved = take 3 (drop 37 b),
      mh_hdr_sz_bits = load32 b 40\<rparr>"

definition hdr_host_order :: "metadata_pkt_hdr \<Rightarrow> metadata_pkt_hdr" where
  "hdr_host_order hdr =
     (if mh_magic hdr = bswap32 METADATA_PKT_HDR_MAGIC
      then hdr\<lparr>mh_content_sz_bits := bswap32 (mh_content_sz_bits hdr),
               mh_total_sz_bits := bswap32 (mh_total_sz_bits hdr),
               mh_hdr_sz_bits := bswap32 (mh_hdr_sz_bits hdr)\<rparr>
      else hdr)"

definition read_metadata_pkt_hdr :: "u8 list \<Rightarrow> metadata_pkt_hdr res" where
  "read_metadata_pkt_hdr b =
     (if length b < 44 then Err ACTF_INVALID_METADATA_PKT
      else let raw = load_hdr b; hdr = hdr_host_order raw in
        if \<not> is_metadata_stream_magic_valid (mh_magic raw) then Err ACTF_INVALID_METADATA_PKT
        else if mh_major hdr \<noteq> 2 then Err ACTF_INVALID_METADATA_PKT
        else if mh_minor hdr \<noteq> 0 then Err ACTF_INVALID_METADATA_PKT
        else if mh_content_sz_bits hdr mod 8 \<noteq> 0 then Err ACTF_INVALID_METADATA_PKT
        else if mh_total_sz_bits hdr mod 8 \<noteq> 0 then Err ACTF_INVALID_METADATA_PKT
        else if mh_compression_scheme hdr \<noteq> 0 then Err ACTF_INVALID_METADATA_PKT
        else if mh_encryption_scheme hdr \<noteq> 0 then Err ACTF_INVALID_METADATA_PKT
        else if mh_content_checksum hdr \<noteq> 0 then Err ACTF_INVALID_METADATA_PKT
        else if mh_hdr_sz_bits hdr \<noteq> METADATA_PKT_HDR_SZ_BITS then Err ACTF_INVALID_METADATA_PKT
        else if mh_content_sz_bits hdr < mh_hdr_sz_bits hdr then Err ACTF_INVALID_METADATA_PKT
        else if mh_total_sz_bits hdr < mh_content_sz_bits hdr then Err ACTF_INVALID_METADATA_PKT
        else Ok hdr)"

lemma read_metadata_pkt_hdr_Ok:
  assumes "read_metadata_pkt_hdr b = Ok hdr"
  shows "44 \<le> length b" "unat (mh_hdr_sz_bits hdr) div 8 = 44"
    "44 \<le> unat (mh_total_sz_bits hdr) div 8"
    "44 \<le> unat (mh_content_sz_bits hdr) div 8"
    "unat (mh_content_sz_bits hdr) div 8 \<le> unat (mh_total_sz_bits hdr) div 8"
proof -
  have c: "44 \<le> length b" "mh_hdr_sz_bits hdr = METADATA_PKT_HDR_SZ_BITS"
    "\<not> mh_content_sz_bits hdr < mh_hdr_sz_bits hdr" "\<not> mh_total_sz_bits hdr < mh_content_sz_bits hdr"
    using assms unfolding read_metadata_pkt_hdr_def Let_def by (auto split: if_splits)
  then have "352 \<le> unat (mh_content_sz_bits hdr)"
    "unat (mh_content_sz_bits hdr) \<le> unat (mh_total_sz_bits hdr)"
    by (auto simp: METADATA_PKT_HDR_SZ_BITS_def word_less_nat_alt)
  with c show "44 \<le> length b" "unat (mh_hdr_sz_bits hdr) div 8 = 44"
    "44 \<le> unat (mh_total_sz_bits hdr) div 8" "44 \<le> unat (mh_content_sz_bits hdr) div 8"
    "unat (mh_content_sz_bits hdr) div 8 \<le> unat (mh_total_sz_bits hdr) div 8"
    by (auto simp: METADATA_PKT_HDR_SZ_BITS_def intro: div_le_mono)
qed

text \<open>
  The fragments of a metadata stream are separated by the byte \<open>0x1e\<close>; the parser sees the
  non-empty ones in order.
\<close>

function split_frags :: "u8 list \<Rightarrow> u8 list list" where
  "split_frags [] = []"
| "split_frags (c # b) =
     (if c = 0x1e then split_frags b
      else takeWhile (\<lambda>x. x \<noteq> 0x1e) (c # b) # split_frags (dropWhile (\<lambda>x. x \<noteq> 0x1e) b))"
  by pat_completeness auto
termination
  by (relation "measure length") (auto intro: le_imp_less_Suc length_dropWhile_le)

text \<open>
  \<open>frag\<close> stands for \<open>json_tokener_parse_ex\<close> followed by \<open>frag_parse\<close>: it takes the state of
  the tokener and the metadata, and returns whether the fragment was accepted.
\<close>

fun parse_json_frags :: "('t \<Rightarrow> u8 list \<Rightarrow> unit res \<times> 't) \<Rightarrow> 't \<Rightarrow> u8 list list \<Rightarrow> unit res \<times> 't" where
  "parse_json_frags frag t [] = (Ok (), t)"
| "parse_json_frags frag t (f # fs) =
     (case frag t f of (Ok (), u) \<Rightarrow> parse_json_frags frag u fs | (r, u) \<Rightarrow> (r, u))"

text \<open>
  \<open>continues t\<close> tells whether the last tokener error was \<open>json_tokener_continue\<close>, that is a
  JSON text cut by the end of a packet. Every accepted header advances by at least the size of
  the header.
\<close>

function unpack_packetized_metadata_stream ::
  "('t \<Rightarrow> u8 list \<Rightarrow> unit res \<times> 't) \<Rightarrow> ('t \<Rightarrow> bool) \<Rightarrow> 't \<Rightarrow> unit res \<Rightarrow> u8 list \<Rightarrow> nat \<Rightarrow> unit res \<times> 't" where
  "unpack_packetized_metadata_stream frag continues t rc b cur =
     (if length b \<le> cur then (rc, t)
      else case read_metadata_pkt_hdr (drop cur b) of
          Ok hdr \<Rightarrow>
            (let hdr_sz = unat (mh_hdr_sz_bits hdr) div 8;
                 content_sz = unat (mh_content_sz_bits hdr) div 8;
                 total_sz = unat (mh_total_sz_bits hdr) div 8
             in if length b < cur + content_sz then (Err ACTF_INVALID_METADATA_PKT, t)
                else let metadata_b = take (content_sz - hdr_sz) (drop (cur + hdr_sz) b) in
                  case parse_json_frags frag t (split_frags metadata_b) of
                    (r, u) \<Rightarrow>
                      if r \<noteq> Ok () \<and> \<not> continues u then (r, u)
                      else unpack_packetized_metadata_stream frag continues u r b
                             (cur + total_sz))
        | Err e \<Rightarrow> (Err e, t)
        | Undef \<Rightarrow> (Undef, t)
        | Loop \<Rightarrow> (Loop, t))"
  by pat_completeness auto
termination
proof (relation "measure (\<lambda>(f, c, t, rc, b, cur). length b - cur)", goal_cases)
  case (2 frag continues t rc b cur hdr hdr_sz content_sz total_sz)
  then have "44 \<le> total_sz" using read_metadata_pkt_hdr_Ok(3) by auto
  with 2 show ?case by simp
qed simp

declare unpack_packetized_metadata_stream.simps [simp del]

end
