(* ===== verification/Pkt.thy ===== *)
theory Pkt
  imports Metadata
begin

unbundle bit_operations_syntax

text \<open>
  Packets and events (pkt_state.h, pkt_int.h, pkt.c, event_state.h, event_int.h, event.c). The
  packet owns its state here; in the code it points at it. A pointer to a data stream class is
  an index into the metadata.
\<close>

section \<open>Data\<close>

definition PACKET_MAGIC_NUMBER :: u64 where
  "PACKET_MAGIC_NUMBER = 0xc1fc1fc1"

datatype pkt_state_opt =
  PKT_DISC_ER_SNAP | PKT_DSTREAM_CLS | PKT_DSTREAM_ID | PKT_LAST_BO | PKT_END_DEF_CLK_VAL | PKT_SEQ_NUM

text \<open>The bit of an option in \<open>opt_flags\<close>.\<close>

fun pkt_state_opt_bit :: "pkt_state_opt \<Rightarrow> u64" where
  "pkt_state_opt_bit PKT_DISC_ER_SNAP = 1"
| "pkt_state_opt_bit PKT_DSTREAM_CLS = 2"
| "pkt_state_opt_bit PKT_DSTREAM_ID = 4"
| "pkt_state_opt_bit PKT_LAST_BO = 8"
| "pkt_state_opt_bit PKT_END_DEF_CLK_VAL = 16"
| "pkt_state_opt_bit PKT_SEQ_NUM = 32"

record pkt_state =
  ps_bit_off :: u64
  ps_def_clk_val :: u64
  ps_begin_def_clk_val :: u64
  ps_disc_er_snap :: u64
  ps_dsc_cls :: "nat option"
  ps_dsc_id :: u64
  ps_ds_id :: u64
  ps_last_bo :: actf_byte_order
  ps_content_len :: u64
  ps_end_def_clk_val :: u64
  ps_seq_num :: u64
  ps_tot_len :: u64
  ps_opt_flags :: "pkt_state_opt set"

text \<open>The fields that are not named keep what they held.\<close>

definition pkt_state_init :: "pkt_state \<Rightarrow> pkt_state" where
  "pkt_state_init pkt =
     pkt\<lparr>ps_bit_off := 0, ps_def_clk_val := 0, ps_begin_def_clk_val := 0, ps_dsc_id := 0,
         ps_dsc_cls := None, ps_content_len := UINT64_MAX, ps_tot_len := UINT64_MAX,
         ps_opt_flags := {}\<rparr>"

datatype actf_pkt_prop = ACTF_PKT_PROP_HEADER | ACTF_PKT_PROP_CTX

datatype actf_event_prop =
    ACTF_EVENT_PROP_HEADER | ACTF_EVENT_PROP_COMMON_CTX | ACTF_EVENT_PROP_SPECIFIC_CTX
  | ACTF_EVENT_PROP_PAYLOAD

fun pkt_prop_idx :: "actf_pkt_prop \<Rightarrow> nat" where
  "pkt_prop_idx ACTF_PKT_PROP_HEADER = 0"
| "pkt_prop_idx ACTF_PKT_PROP_CTX = 1"

fun event_prop_idx :: "actf_event_prop \<Rightarrow> nat" where
  "event_prop_idx ACTF_EVENT_PROP_HEADER = 0"
| "event_prop_idx ACTF_EVENT_PROP_COMMON_CTX = 1"
| "event_prop_idx ACTF_EVENT_PROP_SPECIFIC_CTX = 2"
| "event_prop_idx ACTF_EVENT_PROP_PAYLOAD = 3"

record actf_pkt =
  pk_s :: pkt_state
  pk_props :: "actf_fld list"

record event_state =
  es_id :: u64
  es_cls :: "actf_event_cls option"
  es_def_clk_val :: u64

definition event_state_init :: event_state where
  "event_state_init = \<lparr>es_id = 0, es_cls = None, es_def_clk_val = 0\<rparr>"

record actf_event =
  ev_s :: event_state
  ev_props :: "actf_fld list"

section \<open>Packets\<close>

text \<open>The union of a property keeps its bytes; they are read only after the next decoding.\<close>

definition prop_reset :: "actf_fld \<Rightarrow> actf_fld" where
  "prop_reset fld = fld\<lparr>f_type := ACTF_FLD_TYPE_NIL, f_cls := None, f_parent := None\<rparr>"

definition actf_pkt_init :: "actf_pkt \<Rightarrow> pkt_state \<Rightarrow> actf_pkt" where
  "actf_pkt_init pkt pkt_s = pkt\<lparr>pk_props := map prop_reset (pk_props pkt), pk_s := pkt_s\<rparr>"

definition actf_pkt_prop_fld :: "actf_pkt \<Rightarrow> string \<Rightarrow> actf_pkt_prop \<Rightarrow> fptr option" where
  "actf_pkt_prop_fld pkt key prop = actf_fld_struct_fld (pk_props pkt ! pkt_prop_idx prop) key"

definition actf_pkt_fld :: "actf_pkt \<Rightarrow> string \<Rightarrow> fptr option" where
  "actf_pkt_fld pkt key =
     (case actf_pkt_prop_fld pkt key ACTF_PKT_PROP_HEADER of
        Some p \<Rightarrow> Some p
      | None \<Rightarrow> actf_pkt_prop_fld pkt key ACTF_PKT_PROP_CTX)"

definition actf_pkt_prop :: "actf_pkt \<Rightarrow> actf_pkt_prop \<Rightarrow> fptr" where
  "actf_pkt_prop pkt prop = PktProp (pkt_prop_idx prop)"

definition actf_pkt_seq_num :: "actf_pkt \<Rightarrow> u64" where
  "actf_pkt_seq_num pkt = (if PKT_SEQ_NUM \<in> ps_opt_flags (pk_s pkt) then ps_seq_num (pk_s pkt) else 0)"

definition actf_pkt_has_seq_num :: "actf_pkt \<Rightarrow> bool" where
  "actf_pkt_has_seq_num pkt \<longleftrightarrow> PKT_SEQ_NUM \<in> ps_opt_flags (pk_s pkt)"

definition actf_pkt_begin_tstamp :: "actf_pkt \<Rightarrow> u64" where
  "actf_pkt_begin_tstamp pkt = ps_begin_def_clk_val (pk_s pkt)"

text \<open>The clock class of a data stream class that is referred to by its index.\<close>

definition dsc_clk_cls :: "actf_metadata \<Rightarrow> nat option \<Rightarrow> actf_clk_cls option res" where
  "dsc_clk_cls md dsc =
     (case dsc of
        None \<Rightarrow> Undef
      | Some i \<Rightarrow> if i < length (md_dscs md) then actf_dstream_cls_clk_cls md (md_dscs md ! i) else Undef)"

definition cc_to_ns :: "actf_clk_cls option res \<Rightarrow> u64 \<Rightarrow> i64 res" where
  "cc_to_ns clkc cc =
     (case clkc of
        Ok None \<Rightarrow> Ok 0
      | Ok (Some c) \<Rightarrow> actf_clk_cls_cc_to_ns_from_origin c cc
      | Err e \<Rightarrow> Err e | Undef \<Rightarrow> Undef | Loop \<Rightarrow> Loop)"

definition actf_pkt_begin_tstamp_ns_from_origin :: "actf_metadata \<Rightarrow> actf_pkt \<Rightarrow> i64 res" where
  "actf_pkt_begin_tstamp_ns_from_origin md pkt =
     (if PKT_DSTREAM_CLS \<notin> ps_opt_flags (pk_s pkt) then Ok 0
      else cc_to_ns (dsc_clk_cls md (ps_dsc_cls (pk_s pkt))) (ps_begin_def_clk_val (pk_s pkt)))"

text \<open>The code tests a bit of the end timestamp where it means a bit of the option flags.\<close>

definition actf_pkt_end_tstamp :: "actf_pkt \<Rightarrow> u64" where
  "actf_pkt_end_tstamp pkt =
     (if ps_end_def_clk_val (pk_s pkt) AND pkt_state_opt_bit PKT_END_DEF_CLK_VAL \<noteq> 0
      then ps_end_def_clk_val (pk_s pkt) else 0)"

definition actf_pkt_has_end_tstamp :: "actf_pkt \<Rightarrow> bool" where
  "actf_pkt_has_end_tstamp pkt \<longleftrightarrow> PKT_END_DEF_CLK_VAL \<in> ps_opt_flags (pk_s pkt)"

definition actf_pkt_end_tstamp_ns_from_origin :: "actf_metadata \<Rightarrow> actf_pkt \<Rightarrow> i64 res" where
  "actf_pkt_end_tstamp_ns_from_origin md pkt =
     (if PKT_DSTREAM_CLS \<notin> ps_opt_flags (pk_s pkt) \<or> PKT_END_DEF_CLK_VAL \<notin> ps_opt_flags (pk_s pkt)
      then Ok 0
      else cc_to_ns (dsc_clk_cls md (ps_dsc_cls (pk_s pkt))) (ps_end_def_clk_val (pk_s pkt)))"

definition actf_pkt_disc_event_record_snapshot :: "actf_pkt \<Rightarrow> u64" where
  "actf_pkt_disc_event_record_snapshot pkt =
     (if PKT_DISC_ER_SNAP \<in> ps_opt_flags (pk_s pkt) then ps_disc_er_snap (pk_s pkt) else 0)"

definition actf_pkt_has_disc_event_record_snapshot :: "actf_pkt \<Rightarrow> bool" where
  "actf_pkt_has_disc_event_record_snapshot pkt \<longleftrightarrow> PKT_DISC_ER_SNAP \<in> ps_opt_flags (pk_s pkt)"

definition actf_pkt_dstream_id :: "actf_pkt \<Rightarrow> u64" where
  "actf_pkt_dstream_id pkt = (if PKT_DSTREAM_ID \<in> ps_opt_flags (pk_s pkt) then ps_ds_id (pk_s pkt) else 0)"

definition actf_pkt_has_dstream_id :: "actf_pkt \<Rightarrow> bool" where
  "actf_pkt_has_dstream_id pkt \<longleftrightarrow> PKT_DSTREAM_ID \<in> ps_opt_flags (pk_s pkt)"

definition actf_pkt_dstream_cls_id :: "actf_pkt \<Rightarrow> u64" where
  "actf_pkt_dstream_cls_id pkt = ps_dsc_id (pk_s pkt)"

definition actf_pkt_dstream_cls :: "actf_pkt \<Rightarrow> nat option" where
  "actf_pkt_dstream_cls pkt =
     (if PKT_DSTREAM_CLS \<in> ps_opt_flags (pk_s pkt) then ps_dsc_cls (pk_s pkt) else None)"

section \<open>Events\<close>

definition actf_event_init :: "actf_event \<Rightarrow> actf_event" where
  "actf_event_init ev = ev\<lparr>ev_s := event_state_init, ev_props := map prop_reset (ev_props ev)\<rparr>"

definition actf_event_prop_fld :: "actf_event \<Rightarrow> string \<Rightarrow> actf_event_prop \<Rightarrow> fptr option" where
  "actf_event_prop_fld ev key prop = actf_fld_struct_fld (ev_props ev ! event_prop_idx prop) key"

text \<open>The first property, in the order of the enumeration, that has the field.\<close>

definition actf_event_fld :: "actf_event \<Rightarrow> string \<Rightarrow> fptr option" where
  "actf_event_fld ev key =
     (case actf_event_prop_fld ev key ACTF_EVENT_PROP_HEADER of
        Some p \<Rightarrow> Some p
      | None \<Rightarrow>
     (case actf_event_prop_fld ev key ACTF_EVENT_PROP_COMMON_CTX of
        Some p \<Rightarrow> Some p
      | None \<Rightarrow>
     (case actf_event_prop_fld ev key ACTF_EVENT_PROP_SPECIFIC_CTX of
        Some p \<Rightarrow> Some p
      | None \<Rightarrow> actf_event_prop_fld ev key ACTF_EVENT_PROP_PAYLOAD)))"

definition actf_event_tstamp :: "actf_event \<Rightarrow> u64" where
  "actf_event_tstamp ev = es_def_clk_val (ev_s ev)"

text \<open>An event without a class is a null pointer that is followed.\<close>

definition actf_event_tstamp_ns_from_origin :: "actf_metadata \<Rightarrow> actf_event \<Rightarrow> i64 res" where
  "actf_event_tstamp_ns_from_origin md ev =
     (case es_cls (ev_s ev) of
        None \<Rightarrow> Undef
      | Some evc \<Rightarrow> cc_to_ns (dsc_clk_cls md (Some (ec_dsc evc))) (es_def_clk_val (ev_s ev)))"

definition actf_event_event_cls :: "actf_event \<Rightarrow> actf_event_cls option" where
  "actf_event_event_cls ev = es_cls (ev_s ev)"

definition actf_event_copy :: "actf_event \<Rightarrow> actf_event \<Rightarrow> actf_event" where
  "actf_event_copy dest src = src"

end
