(* ===== verification/Decoder.thy ===== *)
theory Decoder
  imports Bit_Fields Pkt
begin

unbundle bit_operations_syntax

text \<open>
  The decoder of decoder.c. Fields live in an explicit store: the properties of the packet and of
  the events, and the cells of the packet and event arenas, which are lists here (the region
  bookkeeping of arena.h is not modelled). \<open>d_oom\<close> decides which allocations
  fail, by their number and size. \<open>d_depth\<close> bounds the nesting of array lookups in a field
  location. The messages of the error buffer are not part of the model.
\<close>

section \<open>State\<close>

datatype dec_ctx =
    DEC_CTX_PKT_HEADER | DEC_CTX_PKT_CTX | DEC_CTX_EVENT_HEADER | DEC_CTX_EVENT_COMMON_CTX
  | DEC_CTX_EVENT_SPECIFIC_CTX | DEC_CTX_EVENT_PAYLOAD

datatype decoding_state =
  DECODING_STATE_RESUME_PKT | DECODING_STATE_RESUME_SEEK | DECODING_STATE_ERROR

record dec_state =
  ds_pkt_arena :: "actf_fld list"
  ds_ev_arena :: "actf_fld list"
  ds_pkt :: actf_pkt
  ds_ev :: "nat option"
  ds_ctx :: dec_ctx

record actf_decoder =
  d_state :: "decoding_state set"
  d_err_rc :: actf_err
  d_seek_evs_off :: nat
  d_seek_evs_len :: nat
  d_metadata :: actf_metadata
  d_br :: breader
  d_evs :: "actf_event list"
  d_evs_cap :: nat
  d_evs_len :: nat
  d_s :: dec_state
  d_oom :: "nat \<Rightarrow> nat \<Rightarrow> bool"
  d_allocs :: nat
  d_depth :: nat

type_synonym 'a dec_op = "(actf_decoder, 'a) cm"

abbreviation pkt_s :: "actf_decoder \<Rightarrow> pkt_state" where
  "pkt_s d \<equiv> pk_s (ds_pkt (d_s d))"

definition with_br :: "'a br_op \<Rightarrow> 'a dec_op" where
  "with_br m d = (case m (d_br d) of (r, br) \<Rightarrow> (r, d\<lparr>d_br := br\<rparr>))"

definition upd_ds :: "(dec_state \<Rightarrow> dec_state) \<Rightarrow> unit dec_op" where
  "upd_ds h = modify (\<lambda>d. d\<lparr>d_s := h (d_s d)\<rparr>)"

definition upd_pkt_s :: "(pkt_state \<Rightarrow> pkt_state) \<Rightarrow> unit dec_op" where
  "upd_pkt_s h = upd_ds (\<lambda>s. s\<lparr>ds_pkt := (ds_pkt s)\<lparr>pk_s := h (pk_s (ds_pkt s))\<rparr>\<rparr>)"

subsection \<open>The store of fields\<close>

fun load_fld :: "fptr \<Rightarrow> actf_decoder \<Rightarrow> actf_fld option" where
  "load_fld (PktProp i) d =
     (if i < length (pk_props (ds_pkt (d_s d))) then Some (pk_props (ds_pkt (d_s d)) ! i) else None)"
| "load_fld (EvProp e i) d =
     (if e < length (d_evs d) \<and> i < length (ev_props (d_evs d ! e))
      then Some (ev_props (d_evs d ! e) ! i) else None)"
| "load_fld (PktFld i) d =
     (if i < length (ds_pkt_arena (d_s d)) then Some (ds_pkt_arena (d_s d) ! i) else None)"
| "load_fld (EvFld i) d =
     (if i < length (ds_ev_arena (d_s d)) then Some (ds_ev_arena (d_s d) ! i) else None)"

fun store_fld :: "fptr \<Rightarrow> actf_fld \<Rightarrow> actf_decoder \<Rightarrow> actf_decoder" where
  "store_fld (PktProp i) f d =
     d\<lparr>d_s := (d_s d)\<lparr>ds_pkt := (ds_pkt (d_s d))\<lparr>pk_props := (pk_props (ds_pkt (d_s d)))[i := f]\<rparr>\<rparr>\<rparr>"
| "store_fld (EvProp e i) f d =
     d\<lparr>d_evs := (d_evs d)[e := (d_evs d ! e)\<lparr>ev_props := (ev_props (d_evs d ! e))[i := f]\<rparr>]\<rparr>"
| "store_fld (PktFld i) f d = d\<lparr>d_s := (d_s d)\<lparr>ds_pkt_arena := (ds_pkt_arena (d_s d))[i := f]\<rparr>\<rparr>"
| "store_fld (EvFld i) f d = d\<lparr>d_s := (d_s d)\<lparr>ds_ev_arena := (ds_ev_arena (d_s d))[i := f]\<rparr>\<rparr>"

definition get_fld :: "fptr \<Rightarrow> actf_fld dec_op" where
  "get_fld p d = (case load_fld p d of Some f \<Rightarrow> (Ok f, d) | None \<Rightarrow> (Undef, d))"

definition upd_fld :: "fptr \<Rightarrow> (actf_fld \<Rightarrow> actf_fld) \<Rightarrow> unit dec_op" where
  "upd_fld p h d = (case load_fld p d of Some f \<Rightarrow> (Ok (), store_fld p (h f) d) | None \<Rightarrow> (Undef, d))"

definition set_val :: "fptr \<Rightarrow> actf_fld_type \<Rightarrow> fld_data \<Rightarrow> unit dec_op" where
  "set_val p t v = upd_fld p (\<lambda>f. f\<lparr>f_type := t, f_d := v\<rparr>)"

definition fptr_idx_res :: "fptr option \<Rightarrow> nat \<Rightarrow> fptr res" where
  "fptr_idx_res p i =
     (case Option.bind p (\<lambda>q. fptr_idx q i) of Some r \<Rightarrow> Ok r | None \<Rightarrow> Undef)"

subsection \<open>Arena allocation\<close>

definition SIZEOF_FLD :: nat where
  "SIZEOF_FLD = 40"

fun ctx_uses_pkt_arena :: "dec_ctx \<Rightarrow> bool" where
  "ctx_uses_pkt_arena DEC_CTX_PKT_HEADER \<longleftrightarrow> True"
| "ctx_uses_pkt_arena DEC_CTX_PKT_CTX \<longleftrightarrow> True"
| "ctx_uses_pkt_arena _ \<longleftrightarrow> False"

text \<open>
  \<open>arena_allocn\<close> and the \<open>memset\<close> after it. The size is a product of 64-bit integers and wraps;
  the cells that exist afterwards are those the wrapped size pays for.
\<close>

definition arena_allocn_flds :: "nat \<Rightarrow> fptr dec_op" where
  "arena_allocn_flds n d =
     (let sz = unat (of_nat n * of_nat SIZEOF_FLD :: u64);
          cells = replicate (sz div SIZEOF_FLD) zero_fld;
          s = d_s d;
          d' = d\<lparr>d_allocs := d_allocs d + 1\<rparr>
      in if d_oom d (d_allocs d) sz then (Err ACTF_OOM, d')
         else if ctx_uses_pkt_arena (ds_ctx s)
         then (Ok (PktFld (length (ds_pkt_arena s))),
               d'\<lparr>d_s := s\<lparr>ds_pkt_arena := ds_pkt_arena s @ cells\<rparr>\<rparr>)
         else (Ok (EvFld (length (ds_ev_arena s))),
               d'\<lparr>d_s := s\<lparr>ds_ev_arena := ds_ev_arena s @ cells\<rparr>\<rparr>))"

section \<open>Field locations\<close>

definition get_struct_member :: "actf_fld \<Rightarrow> string \<Rightarrow> fptr option res" where
  "get_struct_member val name =
     (if f_type val \<noteq> ACTF_FLD_TYPE_STRUCT then Undef
      else case f_cls val of
          None \<Rightarrow> Undef
        | Some c \<Rightarrow>
            (case member_index name (cls_members c) of
               None \<Rightarrow> Ok None
             | Some i \<Rightarrow>
                 (case Option.bind (d_vals (f_d val)) (\<lambda>q. fptr_idx q i) of
                    Some p \<Rightarrow> Ok (Some p)
                  | None \<Rightarrow> Undef)))"

definition loc_origin :: "actf_decoder \<Rightarrow> actf_fld_loc_origin \<Rightarrow> fptr \<Rightarrow> fptr option res" where
  "loc_origin d org cur =
     (case org of
        ACTF_FLD_LOC_ORIGIN_NONE \<Rightarrow>
          (case load_fld cur d of Some f \<Rightarrow> Ok (f_parent f) | None \<Rightarrow> Undef)
      | ACTF_FLD_LOC_ORIGIN_PKT_HEADER \<Rightarrow> Ok (Some (PktProp 0))
      | ACTF_FLD_LOC_ORIGIN_PKT_CTX \<Rightarrow> Ok (Some (PktProp 1))
      | ACTF_FLD_LOC_ORIGIN_EVENT_HEADER \<Rightarrow> Ok (map_option (\<lambda>e. EvProp e 0) (ds_ev (d_s d)))
      | ACTF_FLD_LOC_ORIGIN_EVENT_COMMON_CTX \<Rightarrow> Ok (map_option (\<lambda>e. EvProp e 1) (ds_ev (d_s d)))
      | ACTF_FLD_LOC_ORIGIN_EVENT_SPECIFIC_CTX \<Rightarrow> Ok (map_option (\<lambda>e. EvProp e 2) (ds_ev (d_s d)))
      | ACTF_FLD_LOC_ORIGIN_EVENT_PAYLOAD \<Rightarrow> Ok (map_option (\<lambda>e. EvProp e 3) (ds_ev (d_s d))))"

text \<open>One element of the path: the named member, or the containing structure.\<close>

definition loc_step :: "actf_decoder \<Rightarrow> fptr \<Rightarrow> string option \<Rightarrow> fptr option res" where
  "loc_step d p next_path =
     (case load_fld p d of
        None \<Rightarrow> Undef
      | Some fld \<Rightarrow>
          (case next_path of
             Some name \<Rightarrow>
               (case get_struct_member fld name of
                  Ok (Some q) \<Rightarrow>
                    (case load_fld q d of
                       None \<Rightarrow> Undef
                     | Some m \<Rightarrow> if f_type m = ACTF_FLD_TYPE_NIL then Ok None else Ok (Some q))
                | r \<Rightarrow> r)
           | None \<Rightarrow> Ok (f_parent fld)))"

text \<open>
  The procedure of section 6.3.2 of the specification. \<open>Ok None\<close> is the null pointer, which the
  callers turn into an error. The fuel bounds the number of arrays that are entered.
\<close>

function (sequential) fld_loc_locate :: "nat \<Rightarrow> actf_decoder \<Rightarrow> actf_fld_loc \<Rightarrow> fptr \<Rightarrow> fptr option res"
  and loc_path :: "nat \<Rightarrow> actf_decoder \<Rightarrow> string option list \<Rightarrow> fptr \<Rightarrow> fptr option res"
  and loc_arr :: "nat \<Rightarrow> actf_decoder \<Rightarrow> fptr \<Rightarrow> fptr option res"
  and get_arr_cls_len :: "nat \<Rightarrow> actf_decoder \<Rightarrow> fptr \<Rightarrow> u64 res" where
  "fld_loc_locate n d loc cur =
     (case loc_origin d (fl_origin loc) cur of
        Ok (Some p) \<Rightarrow>
          (case load_fld p d of
             None \<Rightarrow> Undef
           | Some f \<Rightarrow>
               if f_type f \<noteq> ACTF_FLD_TYPE_STRUCT then Ok None else loc_path n d (fl_path loc) p)
      | r \<Rightarrow> r)"
| "loc_path n d [] p = Ok None"
| "loc_path n d (next_path # rest) p =
     (case loc_step d p next_path of
        Ok (Some q) \<Rightarrow>
          (case load_fld q d of
             None \<Rightarrow> Undef
           | Some f \<Rightarrow>
               (case f_type f of
                  ACTF_FLD_TYPE_BOOL \<Rightarrow> if rest \<noteq> [] then Ok None else Ok (Some q)
                | ACTF_FLD_TYPE_SINT \<Rightarrow> if rest \<noteq> [] then Ok None else Ok (Some q)
                | ACTF_FLD_TYPE_UINT \<Rightarrow> if rest \<noteq> [] then Ok None else Ok (Some q)
                | ACTF_FLD_TYPE_STRUCT \<Rightarrow> loc_path n d rest q
                | ACTF_FLD_TYPE_ARR \<Rightarrow>
                    (case loc_arr n d q of
                       Ok (Some e) \<Rightarrow> loc_path n d rest e
                     | r \<Rightarrow> r)
                | _ \<Rightarrow> Ok None))
      | r \<Rightarrow> r)"
| "loc_arr 0 d p = Loop"
| "loc_arr (Suc n) d p =
     (case load_fld p d of
        None \<Rightarrow> Undef
      | Some f \<Rightarrow>
          (case get_arr_cls_len n d p of
             Ok len \<Rightarrow>
               if d_arr_n (f_d f) = len then Ok None
               else (case fptr_idx_res (d_vals (f_d f)) (unat (d_arr_n (f_d f))) of
                   Ok q \<Rightarrow>
                     (case load_fld q d of
                        None \<Rightarrow> Undef
                      | Some e \<Rightarrow> if f_type e = ACTF_FLD_TYPE_ARR then loc_arr n d q else Ok (Some q))
                 | Err e \<Rightarrow> Err e | Undef \<Rightarrow> Undef | Loop \<Rightarrow> Loop)
           | Err e \<Rightarrow> Ok None
           | Undef \<Rightarrow> Undef
           | Loop \<Rightarrow> Loop))"
| "get_arr_cls_len n d p =
     (case load_fld p d of
        None \<Rightarrow> Undef
      | Some val \<Rightarrow>
          (case f_cls val of
             None \<Rightarrow> Undef
           | Some (ACTF_FLD_CLS_STATIC_LEN_ARR ele a len) \<Rightarrow> Ok len
           | Some (ACTF_FLD_CLS_DYN_LEN_ARR ele a loc) \<Rightarrow>
               (case fld_loc_locate n d loc p of
                  Ok None \<Rightarrow> Err ACTF_MISSING_FLD_LOC
                | Ok (Some q) \<Rightarrow>
                    (case load_fld q d of
                       None \<Rightarrow> Undef
                     | Some len_val \<Rightarrow>
                         if f_type len_val \<noteq> ACTF_FLD_TYPE_UINT then Err ACTF_WRONG_FLD_TYPE
                         else Ok (d_uint (f_d len_val)))
                | Err e \<Rightarrow> Err e | Undef \<Rightarrow> Undef | Loop \<Rightarrow> Loop)
           | Some _ \<Rightarrow> Err ACTF_INTERNAL))"
  by pat_completeness auto
termination
  by (relation "inv_image (less_than <*lex*> less_than <*lex*> less_than)
      (\<lambda>x. case x of
          Inl (Inl (n, d, loc, cur)) \<Rightarrow> (n, 2, length (fl_path loc))
        | Inl (Inr (n, d, path, p)) \<Rightarrow> (n, 1, length path)
        | Inr (Inl (n, d, p)) \<Rightarrow> (n, 0, 0)
        | Inr (Inr (n, d, p)) \<Rightarrow> (n, 3, 0))") auto

declare fld_loc_locate.simps [simp del] loc_path.simps [simp del] loc_arr.simps [simp del]
  get_arr_cls_len.simps [simp del]

definition locate :: "actf_fld_loc \<Rightarrow> fptr \<Rightarrow> fptr option dec_op" where
  "locate loc p d = (fld_loc_locate (d_depth d) d loc p, d)"

section \<open>Positions in the packet\<close>

definition pkt_pos :: "actf_decoder \<Rightarrow> u64" where
  "pkt_pos d = br_tot_bit_cnt (d_br d) - ps_bit_off (pkt_s d)"

definition pkt_bits_remaining :: "actf_decoder \<Rightarrow> u64" where
  "pkt_bits_remaining d =
     (if pkt_pos d < ps_content_len (pkt_s d) then ps_content_len (pkt_s d) - pkt_pos d else 0)"

definition do_align_bo :: "actf_byte_order \<Rightarrow> u64 \<Rightarrow> unit dec_op" where
  "do_align_bo bo align =
     thenc (with_br (breader_align_bo bo align))
    (bindc (gets (\<lambda>d. pkt_pos d \<le> ps_content_len (pkt_s d))) (\<lambda>inside.
       ensure inside ACTF_NOT_ENOUGH_BITS))"

definition do_align :: "u64 \<Rightarrow> unit dec_op" where
  "do_align align = bindc (gets (\<lambda>d. br_bo (d_br d))) (\<lambda>bo. do_align_bo bo align)"

definition do_align_req :: "actf_fld_cls \<Rightarrow> unit dec_op" where
  "do_align_req cls = bindc (lift_res (actf_fld_cls_get_align_req cls)) do_align"

definition ensure_bits :: "u64 \<Rightarrow> unit dec_op" where
  "ensure_bits n =
     bindc (gets (\<lambda>d. n \<le> pkt_bits_remaining d)) (\<lambda>enough. ensure enough ACTF_NOT_ENOUGH_BITS)"

section \<open>Fixed-length classes\<close>

definition needs_reverse_bits :: "bit_arr_cls \<Rightarrow> bool" where
  "needs_reverse_bits cls \<longleftrightarrow>
     (case ba_bo cls of
        ACTF_LIL_ENDIAN \<Rightarrow> ba_bito cls = ACTF_LAST_TO_FIRST
      | ACTF_BIG_ENDIAN \<Rightarrow> ba_bito cls = ACTF_FIRST_TO_LAST)"

definition mid_byte_swap :: "bit_arr_cls \<Rightarrow> actf_decoder \<Rightarrow> bool" where
  "mid_byte_swap cls d \<longleftrightarrow>
     PKT_LAST_BO \<in> ps_opt_flags (pkt_s d) \<and> ps_last_bo (pkt_s d) \<noteq> ba_bo cls \<and>
     \<not> breader_byte_aligned (d_br d)"

definition fxd_len_bit_arr_decode :: "bit_arr_cls \<Rightarrow> u64 dec_op" where
  "fxd_len_bit_arr_decode cls =
     thenc (assertc (ba_len cls \<le> 64))
    (thenc (with_br (breader_set_bo (ba_bo cls)))
    (thenc (do_align_bo (ba_bo cls) (ba_align cls))
    (thenc (ensure_bits (ba_len cls))
    (bindc (gets (mid_byte_swap cls)) (\<lambda>swap.
     thenc (ensure (\<not> swap) ACTF_MID_BYTE_ENDIAN_SWAP)
    (bindc (with_br (bit_run_bo (ba_bo cls) (unat (ba_len cls)))) (\<lambda>result.
     bindc (if needs_reverse_bits cls then lift_res (reverse_bits result (unat (ba_len cls)))
            else ret result) (\<lambda>val.
     thenc (upd_pkt_s (\<lambda>s. s\<lparr>ps_last_bo := ba_bo cls, ps_opt_flags := insert PKT_LAST_BO (ps_opt_flags s)\<rparr>))
           (ret val)))))))))"

definition fld_cls_fxd_len_bit_arr_decode :: "bit_arr_cls \<Rightarrow> fptr \<Rightarrow> unit dec_op" where
  "fld_cls_fxd_len_bit_arr_decode cls val =
     bindc (fxd_len_bit_arr_decode cls) (\<lambda>bit_arr. set_val val ACTF_FLD_TYPE_UINT (D_uint bit_arr 0))"

definition fld_cls_fxd_len_bit_map_decode :: "bit_arr_cls \<Rightarrow> fptr \<Rightarrow> unit dec_op" where
  "fld_cls_fxd_len_bit_map_decode cls val =
     bindc (fxd_len_bit_arr_decode cls) (\<lambda>bit_arr. set_val val ACTF_FLD_TYPE_BIT_MAP (D_bit_map bit_arr))"

definition fld_cls_fxd_len_sint_decode :: "bit_arr_cls \<Rightarrow> fptr \<Rightarrow> unit dec_op" where
  "fld_cls_fxd_len_sint_decode cls val =
     bindc (fxd_len_bit_arr_decode cls) (\<lambda>bit_arr.
     bindc (lift_res (sext bit_arr (unat (ba_len cls)))) (\<lambda>v.
       set_val val ACTF_FLD_TYPE_SINT (D_int v)))"

definition fld_cls_fxd_len_uint_decode :: "bit_arr_cls \<Rightarrow> fptr \<Rightarrow> unit dec_op" where
  "fld_cls_fxd_len_uint_decode cls val =
     bindc (fxd_len_bit_arr_decode cls) (\<lambda>bit_arr. set_val val ACTF_FLD_TYPE_UINT (D_uint bit_arr 0))"

definition fld_cls_fxd_len_bool_decode :: "bit_arr_cls \<Rightarrow> fptr \<Rightarrow> unit dec_op" where
  "fld_cls_fxd_len_bool_decode cls val =
     bindc (fxd_len_bit_arr_decode cls) (\<lambda>bit_arr. set_val val ACTF_FLD_TYPE_BOOL (D_bool (bit_arr \<noteq> 0)))"

text \<open>The type is set before the length is found to be unsupported.\<close>

definition fld_cls_fxd_len_float_decode :: "bit_arr_cls \<Rightarrow> fptr \<Rightarrow> unit dec_op" where
  "fld_cls_fxd_len_float_decode cls val =
     bindc (fxd_len_bit_arr_decode cls) (\<lambda>bit_arr.
     thenc (upd_fld val (\<lambda>f. f\<lparr>f_type := ACTF_FLD_TYPE_REAL\<rparr>))
    (if ba_len cls = 32 then upd_fld val (\<lambda>f. f\<lparr>f_d := D_f32 (ucast bit_arr)\<rparr>)
     else if ba_len cls = 64 then upd_fld val (\<lambda>f. f\<lparr>f_d := D_f64 bit_arr\<rparr>)
     else throw ACTF_UNSUPPORTED_LENGTH))"

section \<open>Variable-length integers\<close>

text \<open>
  The outer loop. Every round that goes on has shifted by at least one byte, and a shift of 64 or
  more is undefined, so eleven rounds are never exceeded.
\<close>

fun var_len_outer :: "nat \<Rightarrow> u64 \<Rightarrow> nat \<Rightarrow> (u64 \<times> nat) dec_op" where
  "var_len_outer 0 result shift = lift_res Loop"
| "var_len_outer (Suc n) result shift =
     bindc (with_br breader_refill) (\<lambda>avail_bits.
     thenc (ensure (avail_bits \<noteq> 0) ACTF_NOT_ENOUGH_BITS)
    (bindc (with_br (var_len_inner breader_peek breader_consume avail_bits result shift)) (\<lambda>(result, shift, fin).
     bindc (gets (\<lambda>d. (\<not> fin \<and> pkt_bits_remaining d < 8) \<or>
                       (fin \<and> ps_content_len (pkt_s d) < pkt_pos d))) (\<lambda>short.
     thenc (ensure (\<not> short) ACTF_NOT_ENOUGH_BITS)
    (if fin then ret (result, min shift 64) else var_len_outer n result shift)))))"

definition VAR_LEN_ROUNDS :: nat where
  "VAR_LEN_ROUNDS = 11"

definition fld_cls_var_len_int_decode :: "actf_fld_cls \<Rightarrow> (u64 \<times> nat) dec_op" where
  "fld_cls_var_len_int_decode gen_cls =
     thenc (with_br (breader_set_bo ACTF_LIL_ENDIAN))
    (thenc (do_align_req gen_cls)
    (thenc (ensure_bits 8)
           (var_len_outer VAR_LEN_ROUNDS 0 0)))"

definition fld_cls_var_len_uint_decode :: "actf_fld_cls \<Rightarrow> fptr \<Rightarrow> unit dec_op" where
  "fld_cls_var_len_uint_decode gen_cls val =
     bindc (fld_cls_var_len_int_decode gen_cls) (\<lambda>(uval, n_bits).
       set_val val ACTF_FLD_TYPE_UINT (D_uint uval (of_nat n_bits)))"

definition fld_cls_var_len_sint_decode :: "actf_fld_cls \<Rightarrow> fptr \<Rightarrow> unit dec_op" where
  "fld_cls_var_len_sint_decode gen_cls val =
     bindc (fld_cls_var_len_int_decode gen_cls) (\<lambda>(uval, n_bits).
     bindc (lift_res (sext uval n_bits)) (\<lambda>v. set_val val ACTF_FLD_TYPE_SINT (D_int v)))"

section \<open>Strings and blobs\<close>

text \<open>Whether the \<open>c\<close> bytes from \<open>k\<close> on are zero; a read past the data is undefined.\<close>

fun null_at :: "u8 list \<Rightarrow> nat \<Rightarrow> nat \<Rightarrow> bool res" where
  "null_at dat k 0 = Ok True"
| "null_at dat k (Suc c) =
     (if length dat \<le> k then Undef else if dat ! k \<noteq> 0 then Ok False else null_at dat (Suc k) c)"

lemma codepoint_size_pos [simp]: "0 < actf_encoding_to_codepoint_size enc"
  by (cases enc) simp_all

text \<open>The offset of the last byte of the terminator, from the start of the string.\<close>

function null_term_loop :: "u8 list \<Rightarrow> nat \<Rightarrow> nat \<Rightarrow> actf_encoding \<Rightarrow> nat \<Rightarrow> nat option res" where
  "null_term_loop dat ptr n_bytes enc i =
     (if n_bytes \<le> i then Ok None
      else case null_at dat (ptr + i) (actf_encoding_to_codepoint_size enc) of
          Ok True \<Rightarrow> Ok (Some (i + actf_encoding_to_codepoint_size enc - 1))
        | Ok False \<Rightarrow> null_term_loop dat ptr n_bytes enc (i + actf_encoding_to_codepoint_size enc)
        | Err e \<Rightarrow> Err e | Undef \<Rightarrow> Undef | Loop \<Rightarrow> Loop)"
  by pat_completeness auto
termination
  by (relation "measure (\<lambda>(dat, ptr, n, enc, i). n - i)") (auto simp: diff_less_mono2)

declare null_term_loop.simps [simp del]

definition find_null_term :: "u8 list \<Rightarrow> nat \<Rightarrow> nat \<Rightarrow> actf_encoding \<Rightarrow> nat option res" where
  "find_null_term dat ptr n_bytes enc = null_term_loop dat ptr n_bytes enc 0"

definition is_valid_str_sz :: "nat \<Rightarrow> actf_encoding \<Rightarrow> bool" where
  "is_valid_str_sz str_sz enc \<longleftrightarrow> str_sz mod actf_encoding_to_codepoint_size enc = 0"

definition null_term_in :: "nat \<Rightarrow> nat \<Rightarrow> actf_encoding \<Rightarrow> nat option dec_op" where
  "null_term_in ptr n enc =
     bindc (gets (\<lambda>d. find_null_term (br_data (d_br d)) ptr n enc)) lift_res"

definition fld_cls_null_term_str_decode :: "actf_fld_cls \<Rightarrow> actf_encoding \<Rightarrow> fptr \<Rightarrow> unit dec_op" where
  "fld_cls_null_term_str_decode gen_cls enc val =
     thenc (do_align_req gen_cls)
    (thenc (ensure_bits (of_nat (actf_encoding_to_codepoint_size enc * 8)))
    (bindc (gets (\<lambda>d. breader_peek_bytes (d_br d))) (\<lambda>ptr.
     bindc (gets (\<lambda>d. min (breader_bytes_remaining (d_br d)) (unat (pkt_bits_remaining d div 8)))) (\<lambda>n_bytes.
     bindc (null_term_in ptr n_bytes enc) (\<lambda>term.
       case term of
         None \<Rightarrow> throw ACTF_NOT_ENOUGH_BITS
       | Some t \<Rightarrow>
           bindc (with_br (breader_read_bytes (t + 1))) (\<lambda>r.
             if r = None then throw ACTF_INTERNAL
             else set_val val ACTF_FLD_TYPE_STR (D_str ptr (t + 1))))))))"

text \<open>The part that static-length and dynamic-length strings share.\<close>

definition len_str_decode :: "actf_fld_cls \<Rightarrow> actf_encoding \<Rightarrow> u64 \<Rightarrow> fptr \<Rightarrow> unit dec_op" where
  "len_str_decode gen_cls enc len val =
     thenc (do_align_req gen_cls)
    (thenc (ensure_bits (len * 8))
    (bindc (with_br (breader_read_bytes (unat len))) (\<lambda>r.
       case r of
         None \<Rightarrow> throw ACTF_NOT_ENOUGH_BITS
       | Some ptr \<Rightarrow>
           bindc (null_term_in ptr (unat len) enc) (\<lambda>term.
             case term of
               Some t \<Rightarrow> set_val val ACTF_FLD_TYPE_STR (D_str ptr (t + 1))
             | None \<Rightarrow>
                 if \<not> is_valid_str_sz (unat len) enc then throw ACTF_INVALID_STR_LEN
                 else set_val val ACTF_FLD_TYPE_STR (D_str ptr (unat len))))))"

text \<open>The length field of a dynamic-length class.\<close>

definition dyn_len :: "actf_fld_loc \<Rightarrow> fptr \<Rightarrow> u64 dec_op" where
  "dyn_len loc val =
     bindc (locate loc val) (\<lambda>r.
       case r of
         None \<Rightarrow> throw ACTF_MISSING_FLD_LOC
       | Some q \<Rightarrow>
           bindc (get_fld q) (\<lambda>len_val.
             if f_type len_val \<noteq> ACTF_FLD_TYPE_UINT then throw ACTF_WRONG_FLD_TYPE
             else ret (d_uint (f_d len_val))))"

definition fld_cls_static_len_str_decode :: "actf_fld_cls \<Rightarrow> actf_encoding \<Rightarrow> u64 \<Rightarrow> fptr \<Rightarrow> unit dec_op" where
  "fld_cls_static_len_str_decode gen_cls enc len val = len_str_decode gen_cls enc len val"

definition fld_cls_dyn_len_str_decode ::
  "actf_fld_cls \<Rightarrow> actf_encoding \<Rightarrow> actf_fld_loc \<Rightarrow> fptr \<Rightarrow> unit dec_op" where
  "fld_cls_dyn_len_str_decode gen_cls enc loc val =
     bindc (dyn_len loc val) (\<lambda>len. len_str_decode gen_cls enc len val)"

definition len_blob_decode :: "actf_fld_cls \<Rightarrow> u64 \<Rightarrow> fptr \<Rightarrow> unit dec_op" where
  "len_blob_decode gen_cls len val =
     thenc (do_align_req gen_cls)
    (thenc (ensure_bits (len * 8))
    (bindc (with_br (breader_read_bytes (unat len))) (\<lambda>r.
       case r of
         None \<Rightarrow> throw ACTF_NOT_ENOUGH_BITS
       | Some ptr \<Rightarrow> set_val val ACTF_FLD_TYPE_BLOB (D_blob ptr (unat len)))))"

definition fld_cls_static_len_blob_decode :: "actf_fld_cls \<Rightarrow> u64 \<Rightarrow> fptr \<Rightarrow> unit dec_op" where
  "fld_cls_static_len_blob_decode gen_cls len val = len_blob_decode gen_cls len val"

definition fld_cls_dyn_len_blob_decode :: "actf_fld_cls \<Rightarrow> actf_fld_loc \<Rightarrow> fptr \<Rightarrow> unit dec_op" where
  "fld_cls_dyn_len_blob_decode gen_cls loc val =
     bindc (dyn_len loc val) (\<lambda>len. len_blob_decode gen_cls len val)"

end
