(* ===== verification/Decoder_Cls.thy ===== *)
theory Decoder_Cls
  imports Decoder
begin

unbundle bit_operations_syntax

text \<open>
  Roles, clock updates and the compound field classes of decoder.c: structures, arrays, optionals
  and variants, and the dispatch over all classes.
\<close>

section \<open>Clock values and roles\<close>

text \<open>
  Section 6.2.1 of the specification: the low bits of the clock are replaced, with a carry when
  they went down. A length of zero, or above 64, is an oversized shift.
\<close>

definition update_clk :: "nat \<Rightarrow> u64 \<Rightarrow> u64 \<Rightarrow> u64 res" where
  "update_clk l v def_clk_val =
     (if l = 0 \<or> 64 < l then Undef
      else let mask = push_bit (l - 1) 2 - 1;
               h = def_clk_val AND NOT mask;
               cur = def_clk_val AND mask
        in Ok (if cur \<le> v then h + v else h + mask + 1 + v))"

definition calc_new_def_clk_val :: "actf_fld_cls \<Rightarrow> actf_fld \<Rightarrow> u64 \<Rightarrow> u64 res" where
  "calc_new_def_clk_val cls val def_clk_val =
     (let v = actf_fld_uint64 val in
      case cls of
        ACTF_FLD_CLS_FXD_LEN_UINT base b roles \<Rightarrow> update_clk (unat (ba_len b)) v def_clk_val
      | ACTF_FLD_CLS_VAR_LEN_UINT base roles \<Rightarrow>
          (let len = unat (d_uint_len (f_d val)) in
           update_clk (len div 7 + of_bool (len mod 7 \<noteq> 0)) v def_clk_val)
      | _ \<Rightarrow> Ok def_clk_val)"

definition ACTF_UUID_N_BYTES :: nat where
  "ACTF_UUID_N_BYTES = 16"

definition whenc :: "bool \<Rightarrow> unit dec_op \<Rightarrow> unit dec_op" where
  "whenc b m = (if b then m else ret ())"

text \<open>The comparison of the UUID in the stream with the one of the preamble.\<close>

definition check_uuid :: "actf_fld \<Rightarrow> unit dec_op" where
  "check_uuid val =
     thenc (assertc (f_type val = ACTF_FLD_TYPE_BLOB))
    (case d_ptr (f_d val) of
       None \<Rightarrow> undef
     | Some ptr \<Rightarrow>
         bindc (gets (\<lambda>d. br_data (d_br d))) (\<lambda>dat.
         bindc (gets (\<lambda>d. pa_uuid (md_preamble (d_metadata d)))) (\<lambda>uuid.
         thenc (assertc (ptr + ACTF_UUID_N_BYTES \<le> length dat))
               (ensure (take ACTF_UUID_N_BYTES uuid = take ACTF_UUID_N_BYTES (drop ptr dat))
                  ACTF_UUID_MISMATCH))))"

definition upd_clk :: "actf_fld_cls \<Rightarrow> actf_fld \<Rightarrow> u64 dec_op" where
  "upd_clk cls val =
     bindc (gets (\<lambda>d. calc_new_def_clk_val cls val (ps_def_clk_val (pkt_s d)))) (\<lambda>r.
     bindc (lift_res r) (\<lambda>c.
     thenc (upd_pkt_s (\<lambda>s. s\<lparr>ps_def_clk_val := c\<rparr>)) (ret c)))"

text \<open>The state of the current event; without an event it is a null pointer.\<close>

definition upd_ev_s :: "(event_state \<Rightarrow> event_state) \<Rightarrow> unit dec_op" where
  "upd_ev_s h d =
     (case ds_ev (d_s d) of
        Some e \<Rightarrow>
          if e < length (d_evs d)
          then (Ok (), d\<lparr>d_evs := (d_evs d)[e := (d_evs d ! e)\<lparr>ev_s := h (ev_s (d_evs d ! e))\<rparr>]\<rparr>)
          else (Undef, d)
      | None \<Rightarrow> (Undef, d))"

definition pkt_header_roles :: "roles \<Rightarrow> actf_fld \<Rightarrow> unit dec_op" where
  "pkt_header_roles roles val =
     thenc (whenc (ACTF_ROLE_DSTREAM_CLS_ID \<in> roles)
       (upd_pkt_s (\<lambda>s. s\<lparr>ps_dsc_id := actf_fld_uint64 val\<rparr>)))
    (thenc (whenc (ACTF_ROLE_DSTREAM_ID \<in> roles)
       (upd_pkt_s (\<lambda>s. s\<lparr>ps_ds_id := actf_fld_uint64 val,
                          ps_opt_flags := insert PKT_DSTREAM_ID (ps_opt_flags s)\<rparr>)))
    (thenc (whenc (ACTF_ROLE_PKT_MAGIC_NUM \<in> roles)
       (ensure (actf_fld_uint64 val = PACKET_MAGIC_NUMBER) ACTF_MAGIC_MISMATCH))
           (whenc (ACTF_ROLE_METADATA_STREAM_UUID \<in> roles) (check_uuid val))))"

definition pkt_ctx_roles :: "roles \<Rightarrow> actf_fld_cls \<Rightarrow> actf_fld \<Rightarrow> unit dec_op" where
  "pkt_ctx_roles roles cls val =
     thenc (whenc (ACTF_ROLE_DEF_CLK_TSTAMP \<in> roles)
       (bindc (upd_clk cls val) (\<lambda>c. upd_pkt_s (\<lambda>s. s\<lparr>ps_begin_def_clk_val := c\<rparr>))))
    (thenc (whenc (ACTF_ROLE_DISC_EVENT_CNT_SNAPSHOT \<in> roles)
       (upd_pkt_s (\<lambda>s. s\<lparr>ps_disc_er_snap := actf_fld_uint64 val,
                          ps_opt_flags := insert PKT_DISC_ER_SNAP (ps_opt_flags s)\<rparr>)))
    (thenc (whenc (ACTF_ROLE_PKT_CONTENT_LEN \<in> roles)
       (upd_pkt_s (\<lambda>s. s\<lparr>ps_content_len := actf_fld_uint64 val\<rparr>)))
    (thenc (whenc (ACTF_ROLE_PKT_END_DEF_CLK_TSTAMP \<in> roles)
       (upd_pkt_s (\<lambda>s. s\<lparr>ps_end_def_clk_val := actf_fld_uint64 val,
                          ps_opt_flags := insert PKT_END_DEF_CLK_VAL (ps_opt_flags s)\<rparr>)))
    (thenc (whenc (ACTF_ROLE_PKT_SEQ_NUM \<in> roles)
       (upd_pkt_s (\<lambda>s. s\<lparr>ps_seq_num := actf_fld_uint64 val,
                          ps_opt_flags := insert PKT_SEQ_NUM (ps_opt_flags s)\<rparr>)))
           (whenc (ACTF_ROLE_PKT_TOT_LEN \<in> roles)
       (upd_pkt_s (\<lambda>s. s\<lparr>ps_tot_len := actf_fld_uint64 val\<rparr>)))))))"

definition event_header_roles :: "roles \<Rightarrow> actf_fld_cls \<Rightarrow> actf_fld \<Rightarrow> unit dec_op" where
  "event_header_roles roles cls val =
     thenc (whenc (ACTF_ROLE_EVENT_CLS_ID \<in> roles)
       (upd_ev_s (\<lambda>s. s\<lparr>es_id := actf_fld_uint64 val\<rparr>)))
          (whenc (ACTF_ROLE_DEF_CLK_TSTAMP \<in> roles)
       (bindc (upd_clk cls val) (\<lambda>c. upd_ev_s (\<lambda>s. s\<lparr>es_def_clk_val := c\<rparr>))))"

definition handle_fld_roles :: "roles \<Rightarrow> actf_fld_cls \<Rightarrow> fptr \<Rightarrow> unit dec_op" where
  "handle_fld_roles roles cls p =
     bindc (get_fld p) (\<lambda>val.
     bindc (gets (\<lambda>d. ds_ctx (d_s d))) (\<lambda>ctx.
       case ctx of
         DEC_CTX_PKT_HEADER \<Rightarrow> pkt_header_roles roles val
       | DEC_CTX_PKT_CTX \<Rightarrow> pkt_ctx_roles roles cls val
       | DEC_CTX_EVENT_HEADER \<Rightarrow> event_header_roles roles cls val
       | _ \<Rightarrow> ret ()))"

definition cls_roles_handle :: "actf_fld_cls \<Rightarrow> fptr \<Rightarrow> unit dec_op" where
  "cls_roles_handle cls p =
     whenc (actf_fld_cls_roles cls \<noteq> {}) (handle_fld_roles (actf_fld_cls_roles cls) cls p)"

section \<open>Selectors\<close>

text \<open>Whether the selector of an optional enables it.\<close>

definition optional_enabled :: "actf_rng_set \<Rightarrow> actf_fld \<Rightarrow> bool dec_op" where
  "optional_enabled rs sel_val =
     (case f_type sel_val of
        ACTF_FLD_TYPE_BOOL \<Rightarrow> ret (d_bool (f_d sel_val))
      | t \<Rightarrow>
          if actf_rng_set_len rs = 0 then throw ACTF_NO_SELECTOR_FLD
          else if t = ACTF_FLD_TYPE_SINT then ret (actf_rng_set_intersect_sint rs (d_int (f_d sel_val)))
          else if t = ACTF_FLD_TYPE_UINT then ret (actf_rng_set_intersect_uint rs (d_uint (f_d sel_val)))
          else throw ACTF_WRONG_FLD_TYPE)"

text \<open>The loop over the options does not stop at a match: the last one is selected.\<close>

fun last_match :: "(actf_rng_set \<Rightarrow> bool) \<Rightarrow> variant_fld_cls_opt list \<Rightarrow> nat option" where
  "last_match hit [] = None"
| "last_match hit (Opt fc rs name # os) =
     (case last_match hit os of
        Some i \<Rightarrow> Some (Suc i)
      | None \<Rightarrow> if hit rs then Some 0 else None)"

definition variant_select :: "variant_fld_cls_opt list \<Rightarrow> actf_fld \<Rightarrow> nat dec_op" where
  "variant_select opts sel_val =
     bindc (case f_type sel_val of
        ACTF_FLD_TYPE_SINT \<Rightarrow>
          ret (last_match (\<lambda>rs. actf_rng_set_intersect_sint rs (d_int (f_d sel_val))) opts)
      | ACTF_FLD_TYPE_UINT \<Rightarrow>
          ret (last_match (\<lambda>rs. actf_rng_set_intersect_uint rs (d_uint (f_d sel_val))) opts)
      | _ \<Rightarrow> throw ACTF_WRONG_FLD_TYPE) (\<lambda>r.
       case r of None \<Rightarrow> throw ACTF_NO_SELECTOR_FLD | Some i \<Rightarrow> ret i)"

definition selector :: "actf_fld_loc \<Rightarrow> fptr \<Rightarrow> actf_fld dec_op" where
  "selector loc p =
     bindc (locate loc p) (\<lambda>r.
       case r of None \<Rightarrow> throw ACTF_MISSING_FLD_LOC | Some q \<Rightarrow> get_fld q)"

section \<open>Compound classes\<close>

definition idx_fld :: "fptr \<Rightarrow> nat \<Rightarrow> fptr dec_op" where
  "idx_fld vals i = lift_res (fptr_idx_res (Some vals) i)"

definition arr_begin :: "fptr \<Rightarrow> u64 \<Rightarrow> fptr dec_op" where
  "arr_begin val arr_len =
     bindc (arena_allocn_flds (unat arr_len)) (\<lambda>vals.
     thenc (set_val val ACTF_FLD_TYPE_ARR (D_arr vals 0)) (ret vals))"

definition struct_begin :: "fptr \<Rightarrow> nat \<Rightarrow> fptr dec_op" where
  "struct_begin val n_members =
     bindc (arena_allocn_flds n_members) (\<lambda>vals.
     thenc (set_val val ACTF_FLD_TYPE_STRUCT (D_struct vals)) (ret vals))"

fun d_arr_inc :: "fld_data \<Rightarrow> fld_data" where
  "d_arr_inc (D_arr p n) = D_arr p (n + 1)"
| "d_arr_inc d = d"

definition arr_len_of :: "fptr \<Rightarrow> u64 dec_op" where
  "arr_len_of val d = (get_arr_cls_len (d_depth d) d val, d)"

function (sequential) fld_cls_decode :: "actf_fld_cls \<Rightarrow> fptr \<Rightarrow> unit dec_op"
  and struct_members_decode :: "struct_fld_member_cls list \<Rightarrow> nat \<Rightarrow> fptr \<Rightarrow> fptr \<Rightarrow> unit dec_op"
  and arr_elements_decode :: "actf_fld_cls \<Rightarrow> nat \<Rightarrow> nat \<Rightarrow> fptr \<Rightarrow> fptr \<Rightarrow> unit dec_op"
  and option_decode :: "variant_fld_cls_opt list \<Rightarrow> nat \<Rightarrow> fptr \<Rightarrow> unit dec_op" where
  "fld_cls_decode cls val =
     thenc (upd_fld val (\<lambda>f. f\<lparr>f_cls := Some cls\<rparr>))
    (case cls of
       ACTF_FLD_CLS_NIL \<Rightarrow> throw ACTF_INTERNAL
     | ACTF_FLD_CLS_FXD_LEN_BIT_ARR b \<Rightarrow> fld_cls_fxd_len_bit_arr_decode b val
     | ACTF_FLD_CLS_FXD_LEN_BIT_MAP b f \<Rightarrow> fld_cls_fxd_len_bit_map_decode b val
     | ACTF_FLD_CLS_FXD_LEN_UINT i b r \<Rightarrow> fld_cls_fxd_len_uint_decode b val
     | ACTF_FLD_CLS_FXD_LEN_SINT i b r \<Rightarrow> fld_cls_fxd_len_sint_decode b val
     | ACTF_FLD_CLS_FXD_LEN_BOOL b \<Rightarrow> fld_cls_fxd_len_bool_decode b val
     | ACTF_FLD_CLS_FXD_LEN_FLOAT b \<Rightarrow> fld_cls_fxd_len_float_decode b val
     | ACTF_FLD_CLS_VAR_LEN_UINT i r \<Rightarrow> fld_cls_var_len_uint_decode cls val
     | ACTF_FLD_CLS_VAR_LEN_SINT i r \<Rightarrow> fld_cls_var_len_sint_decode cls val
     | ACTF_FLD_CLS_NULL_TERM_STR e \<Rightarrow> fld_cls_null_term_str_decode cls e val
     | ACTF_FLD_CLS_STATIC_LEN_STR e len \<Rightarrow> fld_cls_static_len_str_decode cls e len val
     | ACTF_FLD_CLS_DYN_LEN_STR e loc \<Rightarrow> fld_cls_dyn_len_str_decode cls e loc val
     | ACTF_FLD_CLS_STATIC_LEN_BLOB len m r \<Rightarrow> fld_cls_static_len_blob_decode cls len val
     | ACTF_FLD_CLS_DYN_LEN_BLOB loc m \<Rightarrow> fld_cls_dyn_len_blob_decode cls loc val
     | ACTF_FLD_CLS_STRUCT ms min_align align \<Rightarrow>
         thenc (do_align_req cls)
        (bindc (struct_begin val (length ms)) (\<lambda>vals. struct_members_decode ms 0 vals val))
     | ACTF_FLD_CLS_STATIC_LEN_ARR ele a len \<Rightarrow>
         bindc (lift_res (actf_fld_cls_get_align_req cls)) (\<lambda>align.
         bindc (arr_len_of val) (\<lambda>l.
         thenc (do_align align)
        (bindc (arr_begin val len) (\<lambda>vals. arr_elements_decode ele (unat len) 0 vals val))))
     | ACTF_FLD_CLS_DYN_LEN_ARR ele a loc \<Rightarrow>
         bindc (lift_res (actf_fld_cls_get_align_req cls)) (\<lambda>align.
         bindc (arr_len_of val) (\<lambda>len.
         thenc (do_align align)
        (bindc (arr_begin val len) (\<lambda>vals. arr_elements_decode ele (unat len) 0 vals val))))
     | ACTF_FLD_CLS_OPTIONAL fc loc rs \<Rightarrow>
         bindc (selector loc val) (\<lambda>sel_val.
         bindc (optional_enabled rs sel_val) (\<lambda>enabled.
           if \<not> enabled then upd_fld val (\<lambda>f. f\<lparr>f_type := ACTF_FLD_TYPE_NIL\<rparr>)
           else thenc (fld_cls_decode fc val) (cls_roles_handle fc val)))
     | ACTF_FLD_CLS_VARIANT opts loc \<Rightarrow>
         bindc (selector loc val) (\<lambda>sel_val.
         bindc (variant_select opts sel_val) (\<lambda>i. option_decode opts i val)))"
| "struct_members_decode [] i vals val = ret ()"
| "struct_members_decode (Member name c # ms) i vals val =
     bindc (idx_fld vals i) (\<lambda>p.
     thenc (upd_fld p (\<lambda>f. f\<lparr>f_parent := Some val\<rparr>))
    (thenc (fld_cls_decode c p)
    (thenc (cls_roles_handle c p)
           (struct_members_decode ms (Suc i) vals val))))"
| "arr_elements_decode ele 0 i vals val = ret ()"
| "arr_elements_decode ele (Suc n) i vals val =
     bindc (idx_fld vals i) (\<lambda>p.
     bindc (get_fld val) (\<lambda>v.
     thenc (upd_fld p (\<lambda>f. f\<lparr>f_parent := f_parent v\<rparr>))
    (thenc (fld_cls_decode ele p)
    (thenc (upd_fld val (\<lambda>f. f\<lparr>f_d := d_arr_inc (f_d f)\<rparr>))
           (arr_elements_decode ele n (Suc i) vals val)))))"
| "option_decode [] i val = undef"
| "option_decode (Opt fc rs name # os) 0 val =
     thenc (fld_cls_decode fc val) (cls_roles_handle fc val)"
| "option_decode (Opt fc rs name # os) (Suc i) val = option_decode os i val"
  by pat_completeness auto
termination
  by (relation "inv_image (less_than <*lex*> less_than)
      (\<lambda>x. case x of
          Inl (Inl (c, p)) \<Rightarrow> (size c, 0)
        | Inl (Inr (ms, i, vals, val)) \<Rightarrow> (size_list size ms, 0)
        | Inr (Inl (ele, n, i, vals, val)) \<Rightarrow> (size ele, Suc n)
        | Inr (Inr (os, i, val)) \<Rightarrow> (size_list size os, 0))") auto

declare fld_cls_decode.simps [simp del]

end
