(* ===== verification/Clock.thy ===== *)
theory Clock
  imports Decoder_Cls
begin

unbundle bit_operations_syntax

text \<open>
  Clock values: the update of the default clock from a timestamp with fewer bits, and the
  conversion of a clock value to nanoseconds.
\<close>

section \<open>Updating the default clock\<close>

lemma clk_mask: "0 < l \<Longrightarrow> push_bit (l - 1) 2 - 1 = (mask l :: u64)"
  by (cases l) (simp_all add: mask_eq_exp_minus_1 push_bit_eq_mult)

lemma unat_and_mask: "unat (w AND mask l) = unat w mod 2 ^ l" for w :: u64
  unfolding take_bit_eq_mask [symmetric] unsigned_take_bit_eq by (rule take_bit_eq_mod)

lemma unat_and_not_mask: "unat (w AND NOT (mask l)) = 2 ^ l * (unat w div 2 ^ l)" for w :: u64
proof -
  have "w - (w AND mask l) = w AND NOT (w AND mask l)"
    by (rule disjunctive_diff) (simp add: bit_and_iff)
  also have "\<dots> = w AND NOT (mask l)"
    by (rule u64_eqI) (auto simp: bit_and_iff bit_or_iff bit_not_iff)
  finally have "w AND NOT (mask l) = w - (w AND mask l)" ..
  moreover have "w AND mask l \<le> w" by (simp add: word_and_le2)
  ultimately have "unat (w AND NOT (mask l)) = unat w - unat w mod 2 ^ l"
    by (simp add: unat_sub unat_and_mask)
  then show ?thesis by (simp add: minus_mod_eq_mult_div)
qed

text \<open>The next value of the clock, without the wrap-around of the code.\<close>

definition next_clk :: "nat \<Rightarrow> nat \<Rightarrow> nat \<Rightarrow> nat" where
  "next_clk l v c = 2 ^ l * (c div 2 ^ l + (if c mod 2 ^ l \<le> v then 0 else 1)) + v"

lemma next_clk_facts:
  assumes "v < 2 ^ l"
  shows "next_clk l v c mod 2 ^ l = v" "c \<le> next_clk l v c" "next_clk l v c < c + 2 ^ l"
proof -
  define P q r where "P = (2 :: nat) ^ l" and "q = P * (c div P)" and "r = c mod P"
  have c: "c = q + r" "r < P" "v < P" using assms by (simp_all add: P_def q_def r_def)
  have n: "next_clk l v c = (if r \<le> v then q + v else q + P + v)"
    by (simp add: next_clk_def P_def q_def r_def)
  show "next_clk l v c mod 2 ^ l = v" using assms by (simp add: next_clk_def)
  show "c \<le> next_clk l v c" "next_clk l v c < c + 2 ^ l"
    unfolding n P_def [symmetric] using c by (auto split: if_splits)
qed

text \<open>It is the first clock value from the current one on with these low bits.\<close>

lemma next_clk_least:
  assumes "v < 2 ^ l" "c \<le> x" "x mod 2 ^ l = v"
  shows "next_clk l v c \<le> x"
proof (rule ccontr)
  assume n: "\<not> next_clk l v c \<le> x"
  have "next_clk l v c - x < 2 ^ l" using next_clk_facts(3) [OF assms(1), of c] assms(2) n by linarith
  moreover have "2 ^ l dvd next_clk l v c - x"
    using next_clk_facts(1) [OF assms(1), of c] assms(3) n
    by (intro mod_eq_dvd_iff_nat [THEN iffD1]) simp_all
  ultimately show False using n by (auto dest: dvd_imp_le)
qed

lemma update_clk_next:
  assumes "0 < l" "l \<le> 64"
  shows "update_clk l v c = Ok (of_nat (next_clk l (unat v) (unat c)))"
proof -
  define m h where "m = (mask l :: u64)" and "h = c AND NOT m"
  have h: "h = of_nat (2 ^ l * (unat c div 2 ^ l))"
    unfolding unat_and_not_mask [of c l, symmetric] by (simp add: h_def m_def)
  have m1: "m + 1 = of_nat (2 ^ l)" by (simp add: m_def mask_eq_exp_minus_1)
  have le: "c AND m \<le> v \<longleftrightarrow> unat c mod 2 ^ l \<le> unat v"
    by (simp add: word_le_nat_alt unat_and_mask m_def)
  have "update_clk l v c = Ok (if c AND m \<le> v then h + v else h + (m + 1) + v)"
    using assms unfolding update_clk_def clk_mask [OF assms(1)] Let_def m_def h_def
    by (simp add: add.assoc)
  also have "\<dots> = Ok (of_nat (next_clk l (unat v) (unat c)))"
    unfolding le h m1 next_clk_def by (simp add: algebra_simps)
  finally show ?thesis .
qed

section \<open>Nanoseconds\<close>

text \<open>
  The exact time of a clock value: the offset in seconds and the cycles since, in nanoseconds,
  rounded down.
\<close>

definition exact_ns :: "actf_clk_cls \<Rightarrow> u64 \<Rightarrow> int" where
  "exact_ns clkc cc =
     sint (ck_off_seconds clkc) * 1000000000 +
     ((uint cc + uint (ck_off_cycles clkc)) * 1000000000) div uint (ck_freq clkc)"

lemma div_scale: "0 < f \<Longrightarrow> (n * k) div f = (n div f) * k + ((n mod f) * k) div f" for n k f :: int
proof -
  assume "0 < f"
  have "n * k = f * ((n div f) * k) + (n mod f) * k"
    by (metis (no_types, lifting) distrib_right mult.assoc mult_div_mod_eq)
  then show ?thesis using \<open>0 < f\<close> by simp
qed

text \<open>
  The conversion is exact when the sum of the cycles does not wrap, the frequency leaves room for
  the multiplication of the remainder, and the time fits into 64 bits.
\<close>

lemma cc_to_ns_exact:
  assumes freq: "0 < uint (ck_freq clkc)" "uint (ck_freq clkc) * 1000000000 \<le> 2 ^ 64"
    and cc: "uint cc + uint (ck_off_cycles clkc) < 2 ^ 64"
      "(uint cc + uint (ck_off_cycles clkc)) div uint (ck_freq clkc) < 2 ^ 63"
    and s: "in_i64 (sint (ck_off_seconds clkc) +
      (uint cc + uint (ck_off_cycles clkc)) div uint (ck_freq clkc))"
      "in_i64 ((sint (ck_off_seconds clkc) +
        (uint cc + uint (ck_off_cycles clkc)) div uint (ck_freq clkc)) * 1000000000)"
    and ns: "in_i64 (exact_ns clkc cc)"
  obtains r where "actf_clk_cls_cc_to_ns_from_origin clkc cc = Ok r" "sint r = exact_ns clkc cc"
proof -
  define f n w where "f = uint (ck_freq clkc)" and "n = uint cc + uint (ck_off_cycles clkc)"
    and "w = cc + ck_off_cycles clkc"
  have w: "uint w = n" using cc(1) by (simp add: w_def n_def uint_word_ariths take_bit_int_eq_self)
  have q: "uint (w div ck_freq clkc) = n div f" by (simp add: uint_div w f_def)
  have sq: "sint (w div ck_freq clkc) = n div f"
    using cc(2) q by (simp add: sint_u64 n_def f_def)
  have m: "uint (w mod ck_freq clkc) = n mod f" by (simp add: uint_mod w f_def)
  have mf: "0 \<le> n mod f" "n mod f < f" using freq(1) by (simp_all add: f_def)
  have "uint ((w mod ck_freq clkc) * 1000000000) = (n mod f) * 1000000000"
    using mf freq(2) by (simp add: uint_word_ariths m take_bit_int_eq_self f_def)
  then have p: "uint (((w mod ck_freq clkc) * 1000000000) div ck_freq clkc) = ((n mod f) * 1000000000) div f"
    by (simp add: uint_div f_def)
  define S where "S = sint (ck_off_seconds clkc) + n div f"
  define r where "r = word_of_int (S * 1000000000) + ((w mod ck_freq clkc) * 1000000000) div ck_freq clkc"
  have "ck_freq clkc \<noteq> 0" using freq(1) by auto
  then have eq: "actf_clk_cls_cc_to_ns_from_origin clkc cc = Ok r"
    using s by (simp add: actf_clk_cls_cc_to_ns_from_origin_def Let_def sq S_def r_def
        flip: w_def n_def f_def)
  have "r = word_of_int (S * 1000000000 + ((n mod f) * 1000000000) div f)"
    unfolding r_def p [symmetric] by simp
  also have "S * 1000000000 + ((n mod f) * 1000000000) div f = exact_ns clkc cc"
    using div_scale [of f n 1000000000] freq(1)
    by (simp add: exact_ns_def S_def f_def n_def distrib_right)
  finally have "sint r = exact_ns clkc cc"
    using ns by (simp add: in_i64_def signed_of_int signed_take_bit_int_eq_self)
  with eq show thesis using that by blast
qed

end
