(* ===== verification/Decoder_Api.thy ===== *)
theory Decoder_Api
  imports Decoder_Cls
begin

text \<open>
  Events, packets and the interface of the decoder (the second half of decoder.c): the decoding
  of an event and of a packet header and context, the resumable decoding of a packet, the calls
  \<open>actf_decoder_decode\<close> and \<open>actf_decoder_seek_ns_from_origin\<close>, and the creation of a decoder.
\<close>

section \<open>Events and packet headers\<close>

definition dec_state_init :: "u64 \<Rightarrow> dec_state \<Rightarrow> dec_state" where
  "dec_state_init pkt_bit_off s =
     s\<lparr>ds_pkt_arena := [], ds_ev_arena := [],
       ds_pkt := actf_pkt_init (ds_pkt s)
         ((pkt_state_init (pk_s (ds_pkt s)))\<lparr>ps_bit_off := pkt_bit_off\<rparr>),
       ds_ev := None\<rparr>"

text \<open>The data stream class of the packet; an index out of range is a dangling pointer.\<close>

definition cur_dsc :: "actf_dstream_cls dec_op" where
  "cur_dsc d =
     (case ps_dsc_cls (pkt_s d) of
        Some i \<Rightarrow> if i < length (md_dscs (d_metadata d)) then (Ok (md_dscs (d_metadata d) ! i), d)
                  else (Undef, d)
      | None \<Rightarrow> (Undef, d))"

definition cur_ev_s :: "event_state dec_op" where
  "cur_ev_s d =
     (case ds_ev (d_s d) of
        Some e \<Rightarrow> if e < length (d_evs d) then (Ok (ev_s (d_evs d ! e)), d) else (Undef, d)
      | None \<Rightarrow> (Undef, d))"

text \<open>A property class that is not the null class is decoded in its context.\<close>

definition decode_prop :: "dec_ctx \<Rightarrow> actf_fld_cls \<Rightarrow> fptr \<Rightarrow> unit dec_op" where
  "decode_prop ctx cls p =
     whenc (cls \<noteq> ACTF_FLD_CLS_NIL)
       (thenc (upd_ds (\<lambda>s. s\<lparr>ds_ctx := ctx\<rparr>)) (fld_cls_decode cls p))"

definition event_begin :: "nat \<Rightarrow> unit dec_op" where
  "event_begin e d =
     (if e < length (d_evs d)
      then (Ok (), d\<lparr>d_evs := (d_evs d)[e := actf_event_init (d_evs d ! e)],
                     d_s := (d_s d)\<lparr>ds_ev := Some e\<rparr>\<rparr>)
      else (Undef, d))"

definition actf_decoder_ev_decode :: "nat \<Rightarrow> unit dec_op" where
  "actf_decoder_ev_decode e =
     thenc (event_begin e)
    (bindc cur_dsc (\<lambda>dsc.
     thenc (decode_prop DEC_CTX_EVENT_HEADER (dc_event_hdr dsc) (EvProp e 0))
    (bindc cur_ev_s (\<lambda>es.
       case u64toevc_find (dc_idtoevc dsc) (es_id es) of
         None \<Rightarrow> throw ACTF_NO_SUCH_ID
       | Some evc \<Rightarrow>
           thenc (upd_ev_s (\<lambda>s. s\<lparr>es_cls := Some evc\<rparr>))
          (thenc (decode_prop DEC_CTX_EVENT_COMMON_CTX (dc_event_common_ctx dsc) (EvProp e 1))
          (thenc (decode_prop DEC_CTX_EVENT_SPECIFIC_CTX (ec_spec_ctx evc) (EvProp e 2))
                 (decode_prop DEC_CTX_EVENT_PAYLOAD (ec_payload evc) (EvProp e 3))))))))"

text \<open>The lengths of the packet after its context is known.\<close>

definition settle_lens :: "pkt_state \<Rightarrow> pkt_state" where
  "settle_lens s =
     (let s1 = (if ps_tot_len s = UINT64_MAX \<and> ps_content_len s \<noteq> UINT64_MAX
                then s\<lparr>ps_tot_len := ps_content_len s\<rparr> else s)
      in if ps_content_len s1 = UINT64_MAX \<and> ps_tot_len s1 \<noteq> UINT64_MAX
         then s1\<lparr>ps_content_len := ps_tot_len s1\<rparr> else s1)"

definition actf_decoder_pkt_hdrctx_decode :: "unit dec_op" where
  "actf_decoder_pkt_hdrctx_decode =
     bindc (gets (\<lambda>d. br_tot_bit_cnt (d_br d))) (\<lambda>off.
     thenc (upd_ds (dec_state_init off))
    (bindc (gets d_metadata) (\<lambda>md.
     thenc (decode_prop DEC_CTX_PKT_HEADER (md_pkt_hdr md) (PktProp 0))
    (bindc (gets (\<lambda>d. ps_dsc_id (pkt_s d))) (\<lambda>dsc_id.
       case u64todsc_find (md_idtodsc md) dsc_id of
         None \<Rightarrow> throw ACTF_NO_SUCH_ID
       | Some i \<Rightarrow>
           thenc (upd_pkt_s (\<lambda>s. s\<lparr>ps_dsc_cls := Some i,
                                    ps_opt_flags := insert PKT_DSTREAM_CLS (ps_opt_flags s)\<rparr>))
          (bindc cur_dsc (\<lambda>dsc.
             whenc (dc_pkt_ctx dsc \<noteq> ACTF_FLD_CLS_NIL)
              (thenc (decode_prop DEC_CTX_PKT_CTX (dc_pkt_ctx dsc) (PktProp 1))
              (thenc (upd_pkt_s settle_lens)
              (bindc (gets (\<lambda>d. ps_content_len (pkt_s d) \<le> ps_tot_len (pkt_s d))) (\<lambda>fits.
                 ensure fits ACTF_INVALID_CONTENT_LEN)))))))))))"

section \<open>Packets\<close>

text \<open>
  The loop over the events of a packet. The first argument is the room left in the event array;
  the loop stops where it is used up, so that it runs at most that often.
\<close>

definition more_events :: "actf_decoder \<Rightarrow> bool" where
  "more_events d \<longleftrightarrow> breader_has_bits_remaining (d_br d) \<and> pkt_bits_remaining d \<noteq> 0"

definition set_flag :: "decoding_state \<Rightarrow> unit dec_op" where
  "set_flag f = modify (\<lambda>d. d\<lparr>d_state := insert f (d_state d)\<rparr>)"

definition clear_flag :: "decoding_state \<Rightarrow> unit dec_op" where
  "clear_flag f = modify (\<lambda>d. d\<lparr>d_state := d_state d - {f}\<rparr>)"

text \<open>The packet is done: skip to its end where the lengths are known.\<close>

definition pkt_skip_rest :: "unit dec_op" where
  "pkt_skip_rest =
     bindc (gets (\<lambda>d. (pkt_s d, br_tot_bit_cnt (d_br d)))) (\<lambda>(s, tot).
       whenc (ps_tot_len s \<noteq> UINT64_MAX \<and> ps_content_len s \<noteq> UINT64_MAX)
         (with_br (breader_consume_checked (unat (ps_bit_off s + ps_tot_len s - tot)))))"

fun pkt_events :: "nat \<Rightarrow> unit dec_op" where
  "pkt_events 0 =
     bindc (gets more_events) (\<lambda>more.
       if more then set_flag DECODING_STATE_RESUME_PKT else pkt_skip_rest)"
| "pkt_events (Suc room) =
     bindc (gets more_events) (\<lambda>more.
       if more then
         bindc (gets d_evs_len) (\<lambda>e.
         thenc (actf_decoder_ev_decode e)
        (thenc (modify (\<lambda>d. d\<lparr>d_evs_len := d_evs_len d + 1\<rparr>)) (pkt_events room)))
       else pkt_skip_rest)"

definition actf_decoder_pkt_decode :: "unit dec_op" where
  "actf_decoder_pkt_decode =
     bindc (gets (\<lambda>d. DECODING_STATE_RESUME_PKT \<in> d_state d)) (\<lambda>resume.
     thenc (if resume
            then thenc (clear_flag DECODING_STATE_RESUME_PKT) (upd_ds (\<lambda>s. s\<lparr>ds_ev_arena := []\<rparr>))
            else actf_decoder_pkt_hdrctx_decode)
    (bindc (gets (\<lambda>d. d_evs_cap d - d_evs_len d)) pkt_events))"

section \<open>The interface\<close>

definition ACTF_DEFAULT_EVS_CAP :: nat where
  "ACTF_DEFAULT_EVS_CAP = 64"

text \<open>
  A new decoder. \<open>junk\<close> supplies the contents of memory that the code does not initialise; the
  event array has \<open>evs_cap\<close> entries.
\<close>

definition actf_decoder_init ::
  "actf_decoder \<Rightarrow> u8 list \<Rightarrow> nat \<Rightarrow> actf_event list \<Rightarrow> actf_metadata \<Rightarrow> actf_decoder" where
  "actf_decoder_init junk dat evs_cap evs md =
     junk\<lparr>d_state := {}, d_metadata := md, d_br := breader_init dat ACTF_LIL_ENDIAN,
          d_evs := evs, d_evs_cap := (if evs_cap = 0 then ACTF_DEFAULT_EVS_CAP else evs_cap),
          d_s := (d_s junk)\<lparr>ds_pkt_arena := [], ds_ev_arena := []\<rparr>\<rparr>"

text \<open>
  The result is the first event of the returned run and its length; with an error no events are
  returned.
\<close>

definition actf_decoder_decode :: "(nat \<times> nat) dec_op" where
  "actf_decoder_decode d =
     (if DECODING_STATE_RESUME_SEEK \<in> d_state d then
        (Ok (d_seek_evs_off d, d_seek_evs_len d),
         d\<lparr>d_state := d_state d - {DECODING_STATE_RESUME_SEEK}\<rparr>)
      else if DECODING_STATE_ERROR \<in> d_state d then (Err (d_err_rc d), d)
      else
        let d0 = d\<lparr>d_evs_len := 0\<rparr> in
        if \<not> breader_has_bits_remaining (d_br d0) then (Ok (0, 0), d0)
        else case actf_decoder_pkt_decode d0 of
            (Ok u, d1) \<Rightarrow> (Ok (0, d_evs_len d1), d1)
          | (Err rc, d1) \<Rightarrow>
              (let d2 = d1\<lparr>d_state := insert DECODING_STATE_ERROR (d_state d1), d_err_rc := rc\<rparr> in
               if d_evs_len d1 = 0 then (Err rc, d2) else (Ok (0, d_evs_len d1), d2))
          | (Undef, d1) \<Rightarrow> (Undef, d1)
          | (Loop, d1) \<Rightarrow> (Loop, d1))"

text \<open>The first of the events \<open>i\<close> to \<open>n - 1\<close> of the returned run with a timestamp at or after \<open>t\<close>.\<close>

function first_at_or_after :: "actf_decoder \<Rightarrow> nat \<Rightarrow> nat \<Rightarrow> nat \<Rightarrow> i64 \<Rightarrow> nat option res" where
  "first_at_or_after d off i n t =
     (if n \<le> i then Ok None
      else if length (d_evs d) \<le> off + i then Undef
      else case actf_event_tstamp_ns_from_origin (d_metadata d) (d_evs d ! (off + i)) of
          Ok ts \<Rightarrow> if sint t \<le> sint ts then Ok (Some i) else first_at_or_after d off (i + 1) n t
        | Err e \<Rightarrow> Err e | Undef \<Rightarrow> Undef | Loop \<Rightarrow> Loop)"
  by pat_completeness auto
termination by (relation "measure (\<lambda>(d, off, i, n, t). n - i)") auto

declare first_at_or_after.simps [simp del]

datatype seek_step = Found | Next_pkt

text \<open>The search within a packet; the fuel bounds the calls of \<open>actf_decoder_decode\<close>.\<close>

fun seek_in_pkt :: "nat \<Rightarrow> i64 \<Rightarrow> (seek_step \<times> unit res) dec_op" where
  "seek_in_pkt 0 t d = (Loop, d)"
| "seek_in_pkt (Suc n) t d =
     (case actf_decoder_decode d of
        (Ok (off, len), d1) \<Rightarrow>
          if len = 0 then (Ok (Next_pkt, Ok ()), d1)
          else (case first_at_or_after d1 off 0 len t of
              Ok (Some i) \<Rightarrow>
                (Ok (Found, Ok ()),
                 d1\<lparr>d_state := insert DECODING_STATE_RESUME_SEEK (d_state d1),
                    d_seek_evs_off := i, d_seek_evs_len := len - i\<rparr>)
            | Ok None \<Rightarrow>
                if pkt_bits_remaining d1 = 0 then (Ok (Next_pkt, Ok ()), d1) else seek_in_pkt n t d1
            | Err e \<Rightarrow> (Err e, d1) | Undef \<Rightarrow> (Undef, d1) | Loop \<Rightarrow> (Loop, d1))
      | (Err e, d1) \<Rightarrow> (Ok (Next_pkt, Err e), d1)
      | (Undef, d1) \<Rightarrow> (Undef, d1)
      | (Loop, d1) \<Rightarrow> (Loop, d1))"

text \<open>Whether the packet ends before the sought time.\<close>

definition pkt_ends_before :: "i64 \<Rightarrow> actf_decoder \<Rightarrow> bool res" where
  "pkt_ends_before t d =
     (case dsc_clk_cls (d_metadata d) (ps_dsc_cls (pkt_s d)) of
        Ok None \<Rightarrow> Ok False
      | Ok (Some clkc) \<Rightarrow>
          if PKT_END_DEF_CLK_VAL \<in> ps_opt_flags (pkt_s d) then
            (case actf_clk_cls_cc_to_ns_from_origin clkc (ps_end_def_clk_val (pkt_s d)) of
               Ok ns \<Rightarrow> Ok (sint ns < sint t)
             | Err e \<Rightarrow> Err e | Undef \<Rightarrow> Undef | Loop \<Rightarrow> Loop)
          else Ok False
      | Err e \<Rightarrow> Err e | Undef \<Rightarrow> Undef | Loop \<Rightarrow> Loop)"

text \<open>
  The search over the packets. A packet that ends before the sought time is skipped by its total
  length; the fuel bounds the packets that are looked at.
\<close>

fun seek_pkts :: "nat \<Rightarrow> i64 \<Rightarrow> unit res \<Rightarrow> unit dec_op" where
  "seek_pkts 0 t rc d = (Loop, d)"
| "seek_pkts (Suc n) t rc d =
     (if \<not> breader_has_bits_remaining (d_br d) then (rc, d)
      else case actf_decoder_pkt_hdrctx_decode d of
          (Err e, d1) \<Rightarrow>
            (Err e, d1\<lparr>d_state := insert DECODING_STATE_ERROR (d_state d1), d_err_rc := e\<rparr>)
        | (Undef, d1) \<Rightarrow> (Undef, d1)
        | (Loop, d1) \<Rightarrow> (Loop, d1)
        | (Ok u, d1) \<Rightarrow>
            (case pkt_ends_before t d1 of
               Ok True \<Rightarrow>
                 (let off = sataddu64 (ps_bit_off (pkt_s d1)) (ps_tot_len (pkt_s d1));
                      d2 = snd (with_br (breader_seek (unat (off div 8)) BREADER_SEEK_SET) d1)
                  in seek_pkts n t (Ok ()) d2)
             | Ok False \<Rightarrow>
                 (case seek_in_pkt n t (d1\<lparr>d_state := insert DECODING_STATE_RESUME_PKT (d_state d1)\<rparr>) of
                    (Ok (Found, r), d2) \<Rightarrow> (Ok (), d2)
                  | (Ok (Next_pkt, r), d2) \<Rightarrow> seek_pkts n t r d2
                  | (Err e, d2) \<Rightarrow> (Err e, d2) | (Undef, d2) \<Rightarrow> (Undef, d2) | (Loop, d2) \<Rightarrow> (Loop, d2))
             | Err e \<Rightarrow> (Err e, d1) | Undef \<Rightarrow> (Undef, d1) | Loop \<Rightarrow> (Loop, d1)))"

definition actf_decoder_seek_ns_from_origin :: "nat \<Rightarrow> i64 \<Rightarrow> unit dec_op" where
  "actf_decoder_seek_ns_from_origin fuel tstamp d =
     seek_pkts fuel tstamp (Ok ())
       (snd (with_br (breader_seek 0 BREADER_SEEK_SET) (d\<lparr>d_state := {}\<rparr>)))"

end
