(* ===== verification/Decoder_Safety.thy ===== *)
theory Decoder_Safety
  imports Decoder_Api
begin

text \<open>
  Decoding never leaves the data. The locale \<open>decoder_invariant\<close> states what an invariant of the
  decoder has to survive: a step of the reader, a change of the packet state or of an event, and
  an allocation. Every field, event and packet header that is decoded keeps such an invariant,
  whatever the bytes and the classes are. It is interpreted on the frame of a decoder: the reader
  only moves forward within its data, and the rest of the decoder is not touched.
\<close>

section \<open>Steps of the reader\<close>

definition rd_next :: "breader \<Rightarrow> breader \<Rightarrow> bool" where
  "rd_next br br' \<longleftrightarrow>
     (br_wf br \<longrightarrow> br_wf br' \<and> br_data br' = br_data br \<and>
        unat (br_tot_bit_cnt br) \<le> unat (br_tot_bit_cnt br'))"

lemma rd_next_refl [simp]: "rd_next br br"
  by (simp add: rd_next_def)

lemma rd_next_trans: "rd_next a b \<Longrightarrow> rd_next b c \<Longrightarrow> rd_next a c"
  by (auto simp: rd_next_def)

text \<open>An operation of the reader that only moves it forward.\<close>

definition forward :: "'a br_op \<Rightarrow> bool" where
  "forward m \<longleftrightarrow> (\<forall>br. keeps (rd_next br) m)"

lemma forwardI: "(\<And>br. br_wf br \<Longrightarrow> rd_next br (snd (m br))) \<Longrightarrow> forward m"
  unfolding forward_def keeps_def by (metis rd_next_def rd_next_trans)

lemma forwardD: "forward m \<Longrightarrow> rd_next br (snd (m br))"
  by (simp add: forward_def keeps_def)

named_theorems forward_intros "operations that move the reader forward only"

lemma forward_comb [forward_intros]:
  "forward m \<Longrightarrow> (\<And>x. forward (f x)) \<Longrightarrow> forward (bindc m f)"
  "forward u \<Longrightarrow> forward m \<Longrightarrow> forward (thenc u m)"
  "(b \<Longrightarrow> forward m) \<Longrightarrow> (\<not> b \<Longrightarrow> forward k) \<Longrightarrow> forward (if b then m else k)"
  "forward (ret x)" "forward (gets g)" "forward (ensure b e)" "forward (assertc b)" "forward undef"
  by (auto simp: forward_def intro!: keeps_intros)

lemma forward_case_bo [forward_intros]:
  "forward m \<Longrightarrow> forward k \<Longrightarrow> forward (case bo of ACTF_LIL_ENDIAN \<Rightarrow> m | ACTF_BIG_ENDIAN \<Rightarrow> k)"
  by (cases bo) simp_all

lemma forward_set_bo [forward_intros]: "forward (breader_set_bo bo)"
  by (rule forwardI) (simp add: breader_set_bo_def modify_def rd_next_def br_wf_def)

lemma forward_peek [forward_intros]:
  "forward (breader_peek_le n)" "forward (breader_peek_be n)" "forward (breader_peek_bo bo n)"
  by (auto intro!: forwardI simp: breader_peek_bo_def breader_peek_le_def breader_peek_be_def
      split: actf_byte_order.splits)

text \<open>The bit count does not wrap: it stays at or below the size of the data.\<close>

lemma wf_tot_add:
  assumes "br_wf br" "n \<le> br_lookahead_bit_cnt br"
  shows "unat (br_tot_bit_cnt br + of_nat n) = unat (br_tot_bit_cnt br) + n"
  using assms by (intro unat_add_u64) (simp add: br_wf_def)

lemma forward_consume_bo [forward_intros]: "forward (breader_consume_bo bo n)"
proof (rule forwardI)
  fix br assume "br_wf br"
  then show "rd_next br (snd (breader_consume_bo bo n br))"
    using wf_tot_add [of br n] by (auto simp: breader_consume_bo_def rd_next_def br_wf_def)
qed

lemma forward_refill_bo [forward_intros]: "forward (breader_refill_bo bo)"
proof (rule forwardI)
  fix br assume wf: "br_wf br"
  then have "br_lookahead_bit_cnt br < 64" by (simp add: br_wf_def)
  from breader_refill_bo_eq [OF this] wf show "rd_next br (snd (breader_refill_bo bo br))"
    by (auto simp: rd_next_def br_wf_def min_def)
qed

lemma wf_skip_bytes:
  assumes "br_wf br" "br_read_ptr br + k \<le> length (br_data br)"
  shows "rd_next br (br\<lparr>br_read_ptr := br_read_ptr br + k, br_tot_bit_cnt := br_tot_bit_cnt br + of_nat k * 8\<rparr>)"
proof -
  have "unat (br_tot_bit_cnt br + of_nat (8 * k)) = unat (br_tot_bit_cnt br) + 8 * k"
    using assms by (intro unat_add_u64) (simp add: br_wf_def)
  then have "unat (br_tot_bit_cnt br + of_nat k * 8) = unat (br_tot_bit_cnt br) + 8 * k"
    by (simp add: mult.commute)
  then show ?thesis using assms by (auto simp: rd_next_def br_wf_def)
qed

lemma forward_consume [forward_intros]: "forward (breader_consume n)"
  unfolding breader_consume_def by (intro forward_intros)

lemma forward_consume_checked_bo [forward_intros]: "forward (breader_consume_checked_bo bo n)"
proof (rule forwardI)
  fix br assume wf: "br_wf br"
  let ?la = "br_lookahead_bit_cnt br"
  show "rd_next br (snd (breader_consume_checked_bo bo n br))"
  proof (cases "n \<le> ?la")
    case True
    then show ?thesis using forwardD [OF forward_consume_bo]
      by (simp add: breader_consume_checked_bo_def bindc_def gets_def)
  next
    case False
    obtain br1 where br1: "breader_consume_bo bo ?la br = (Ok (), br1)"
      using wf by (auto simp: breader_consume_bo_def br_wf_def)
    define br2 where "br2 = br1\<lparr>br_lookahead := 0\<rparr>"
    have s1: "rd_next br br1" using forwardD [OF forward_consume_bo, of br bo ?la] br1 by simp
    then have s2: "rd_next br br2" and wf2: "br_wf br2" using wf by (auto simp: br2_def rd_next_def br_wf_def)
    define av bytes where "av = length (br_data br2) - br_read_ptr br2" and "bytes = (n - ?la) div 8"
    have le: "br_read_ptr br2 + av \<le> length (br_data br2)" using wf2 by (simp add: av_def br_wf_def)
    define rest :: "unit br_op" where "rest = bindc (breader_refill_bo bo) (\<lambda>avail_bits.
      thenc (assertc ((n - ?la) mod 8 \<le> avail_bits)) (breader_consume ((n - ?la) mod 8)))"
    have fr: "forward rest" unfolding rest_def by (intro forward_intros)
    let ?skip = "\<lambda>k. br2\<lparr>br_read_ptr := br_read_ptr br2 + k, br_tot_bit_cnt := br_tot_bit_cnt br2 + of_nat k * 8\<rparr>"
    have eq: "snd (breader_consume_checked_bo bo n br) =
        (if av \<le> bytes then ?skip av else snd (rest (?skip bytes)))"
      using False br1 by (simp add: breader_consume_checked_bo_def cm_defs rest_def av_def bytes_def
          br2_def Let_def)
    show ?thesis
    proof (cases "av \<le> bytes")
      case True
      then show ?thesis using eq wf_skip_bytes [OF wf2 le] s2 rd_next_trans by simp
    next
      case False
      then have "rd_next br2 (?skip bytes)" using le by (intro wf_skip_bytes [OF wf2]) simp
      then show ?thesis using False eq rd_next_trans [OF s2 rd_next_trans [OF _ forwardD [OF fr]]] by simp
    qed
  qed
qed

lemma forward_reads [forward_intros]:
  "forward (breader_peek n)" "forward breader_refill" "forward (breader_consume_checked n)"
  "forward (breader_align_bo bo a)" "forward (breader_read_bytes n)"
  unfolding breader_peek_def breader_refill_def breader_consume_checked_def breader_align_bo_def
    breader_read_bytes_def Let_def
  by (intro forward_intros)+

lemma forward_bit_run_bo [forward_intros]: "forward (bit_run_bo bo n)"
  unfolding bit_run_bo_def bit_run_def Let_def read_upper_bits_bo_def by (intro forward_intros)

lemma forward_var_len_inner [forward_intros]:
  "forward (var_len_inner breader_peek breader_consume avail r sh)"
proof (induction "breader_peek" "breader_consume" avail r sh rule: var_len_inner.induct)
  case (1 avail r sh)
  then show ?case unfolding var_len_inner.simps [of _ _ avail] Let_def
    by (intro forward_intros) auto
qed

section \<open>What decoding keeps\<close>

lemma snd_with_br: "snd (with_br m d) = d\<lparr>d_br := snd (m (d_br d))\<rparr>"
  by (simp add: with_br_def split: prod.splits)

locale decoder_invariant =
  fixes I :: "actf_decoder \<Rightarrow> bool"
  assumes I_br: "I d \<Longrightarrow> rd_next (d_br d) br \<Longrightarrow> I (d\<lparr>d_br := br\<rparr>)"
    and I_ds: "I d \<Longrightarrow> I (d\<lparr>d_s := s\<rparr>)"
    and I_evs: "I d \<Longrightarrow> length es = length (d_evs d) \<Longrightarrow> I (d\<lparr>d_evs := es\<rparr>)"
    and I_allocs: "I d \<Longrightarrow> I (d\<lparr>d_allocs := n\<rparr>)"
begin

named_theorems kept "operations of the decoder that keep the invariant"

lemmas [kept] = keeps_bindc keeps_thenc keeps_basic keeps_if

lemma keeps_with_br [kept]: "forward m \<Longrightarrow> keeps I (with_br m)"
  using I_br forwardD [of m] by (simp add: keeps_def snd_with_br)

lemma keeps_upd [kept]:
  "keeps I (upd_ds h)" "keeps I (upd_pkt_s g)" "keeps I (upd_ev_s k)"
  using I_ds I_evs by (auto simp: keeps_def upd_ds_def upd_pkt_s_def upd_ev_s_def modify_def split: option.splits)

lemma I_store: "I d \<Longrightarrow> I (store_fld p f d)"
  using I_ds I_evs by (cases p) simp_all

lemma keeps_flds [kept]: "keeps I (get_fld p)" "keeps I (upd_fld p h)" "keeps I (set_val p t v)"
  using I_store by (auto simp: keeps_def get_fld_def upd_fld_def set_val_def split: option.splits)

lemma keeps_alloc [kept]: "keeps I (arena_allocn_flds n)"
  using I_ds I_allocs by (auto simp: keeps_def arena_allocn_flds_def Let_def)

lemma keeps_whenc [kept]: "keeps I m \<Longrightarrow> keeps I (whenc b m)"
  by (auto simp: whenc_def)

lemma keeps_case_option [kept]:
  "keeps I m \<Longrightarrow> (\<And>x. keeps I (f x)) \<Longrightarrow> keeps I (case z of None \<Rightarrow> m | Some x \<Rightarrow> f x)"
  by (cases z) simp_all

lemma keeps_locate [kept]: "keeps I (locate loc p)" "keeps I (arr_len_of p)"
  by (auto simp: keeps_def locate_def arr_len_of_def)

lemma keeps_align [kept]:
  "keeps I (do_align_bo bo a)" "keeps I (do_align a)" "keeps I (do_align_req cls)" "keeps I (ensure_bits b)"
  unfolding do_align_req_def do_align_def do_align_bo_def ensure_bits_def
  by (intro kept forward_intros)+

lemma keeps_fxd [kept]: "keeps I (fxd_len_bit_arr_decode b)"
  unfolding fxd_len_bit_arr_decode_def by (intro kept forward_intros)

lemma keeps_fxd_fields [kept]:
  "keeps I (fld_cls_fxd_len_bit_arr_decode b p)" "keeps I (fld_cls_fxd_len_bit_map_decode b p)"
  "keeps I (fld_cls_fxd_len_uint_decode b p)" "keeps I (fld_cls_fxd_len_sint_decode b p)"
  "keeps I (fld_cls_fxd_len_bool_decode b p)" "keeps I (fld_cls_fxd_len_float_decode b p)"
  unfolding fld_cls_fxd_len_bit_arr_decode_def fld_cls_fxd_len_bit_map_decode_def
    fld_cls_fxd_len_uint_decode_def fld_cls_fxd_len_sint_decode_def fld_cls_fxd_len_bool_decode_def
    fld_cls_fxd_len_float_decode_def
  by (intro kept forward_intros)+

lemma keeps_case_prod3 [kept]: "(\<And>x y z. keeps I (f x y z)) \<Longrightarrow> keeps I (case t of (x, y, z) \<Rightarrow> f x y z)"
  by (cases t) simp

lemma keeps_case_prod [kept]: "(\<And>x y. keeps I (f x y)) \<Longrightarrow> keeps I (case t of (x, y) \<Rightarrow> f x y)"
  by (cases t) simp

lemma keeps_var_len_outer [kept]: "keeps I (var_len_outer n r sh)"
proof (induction n r sh rule: var_len_outer.induct)
  case (2 n r sh)
  then show ?case unfolding var_len_outer.simps by (intro kept forward_intros) auto
qed simp

lemma keeps_var_len [kept]:
  "keeps I (fld_cls_var_len_int_decode cls)" "keeps I (fld_cls_var_len_uint_decode cls p)"
  "keeps I (fld_cls_var_len_sint_decode cls p)"
  unfolding fld_cls_var_len_int_decode_def fld_cls_var_len_uint_decode_def fld_cls_var_len_sint_decode_def
  by (intro kept forward_intros)+

lemma keeps_null_term_in [kept]: "keeps I (null_term_in ptr n enc)"
  unfolding null_term_in_def by (intro kept)

lemma keeps_dyn_len [kept]: "keeps I (dyn_len loc p)" "keeps I (selector loc p)"
  unfolding dyn_len_def selector_def by (intro kept)+

lemma keeps_strings [kept]:
  "keeps I (fld_cls_null_term_str_decode cls e p)" "keeps I (len_str_decode cls e len p)"
  "keeps I (len_blob_decode cls len p)"
  unfolding fld_cls_null_term_str_decode_def len_str_decode_def len_blob_decode_def
  by (intro kept forward_intros)+

lemma keeps_strings_len [kept]:
  "keeps I (fld_cls_static_len_str_decode cls e len p)" "keeps I (fld_cls_dyn_len_str_decode cls e loc p)"
  "keeps I (fld_cls_static_len_blob_decode cls len p)" "keeps I (fld_cls_dyn_len_blob_decode cls loc p)"
  unfolding fld_cls_static_len_str_decode_def fld_cls_dyn_len_str_decode_def
    fld_cls_static_len_blob_decode_def fld_cls_dyn_len_blob_decode_def
  by (intro kept)+

lemma keeps_clk [kept]: "keeps I (upd_clk cls f)" "keeps I (check_uuid f)"
  unfolding upd_clk_def check_uuid_def by (intro kept)+

lemma keeps_roles [kept]: "keeps I (cls_roles_handle cls p)"
proof -
  have "keeps I (handle_fld_roles roles cls p)" for roles
    unfolding handle_fld_roles_def pkt_header_roles_def pkt_ctx_roles_def event_header_roles_def
  proof (intro kept, goal_cases)
    case (1 f ctx)
    show ?case by (cases ctx) (auto intro!: kept)
  qed
  then show ?thesis unfolding cls_roles_handle_def by (intro kept)
qed

lemma keeps_select [kept]: "keeps I (optional_enabled rs f)" "keeps I (variant_select os f)"
  unfolding optional_enabled_def variant_select_def
  by (cases "f_type f"; auto intro!: kept)+

lemma keeps_begin [kept]: "keeps I (arr_begin p n)" "keeps I (struct_begin p k)" "keeps I (idx_fld v i)"
  unfolding arr_begin_def struct_begin_def idx_fld_def by (intro kept)+

theorem keeps_decode:
  "keeps I (fld_cls_decode cls p)" "keeps I (struct_members_decode ms i vals p)"
  "keeps I (arr_elements_decode ele n i vals p)" "keeps I (option_decode os i p)"
proof (induction cls p and ms i vals p and ele n i vals p and os i p
    rule: fld_cls_decode_struct_members_decode_arr_elements_decode_option_decode.induct)
  case (1 cls p)
  then show ?case unfolding fld_cls_decode.simps [of cls]
    by (cases cls) (auto intro!: kept)
qed (auto intro!: kept)

lemma keeps_prop [kept]: "keeps I (decode_prop ctx cls p)"
  unfolding decode_prop_def by (intro kept keeps_decode)

lemma keeps_cur [kept]: "keeps I cur_dsc" "keeps I cur_ev_s"
  by (auto simp: keeps_def cur_dsc_def cur_ev_s_def split: option.splits)

lemma keeps_event_begin [kept]: "keeps I (event_begin e)"
proof (rule keepsI)
  fix d assume "I d"
  then have "I (d\<lparr>d_evs := (d_evs d)[e := actf_event_init (d_evs d ! e)]\<rparr>)" using I_evs by simp
  from I_ds [OF this] show "I (snd (event_begin e d))" using \<open>I d\<close> by (auto simp: event_begin_def)
qed

lemma keeps_event [kept]: "keeps I (actf_decoder_ev_decode e)"
  unfolding actf_decoder_ev_decode_def by (intro kept)

lemma keeps_hdrctx [kept]: "keeps I actf_decoder_pkt_hdrctx_decode"
  unfolding actf_decoder_pkt_hdrctx_decode_def by (intro kept)

lemma keeps_skip_rest [kept]: "keeps I pkt_skip_rest"
  unfolding pkt_skip_rest_def by (intro kept forward_intros)

end

section \<open>The frame of the decoder\<close>

text \<open>What decoding a field, an event or a header does not touch.\<close>

definition dec_const :: "actf_decoder \<Rightarrow> actf_metadata \<times> nat \<times> nat \<times> nat" where
  "dec_const d = (d_metadata d, d_evs_cap d, length (d_evs d), d_depth d)"

definition dec_ctl :: "actf_decoder \<Rightarrow> decoding_state set \<times> nat \<times> actf_err \<times> nat \<times> nat" where
  "dec_ctl d = (d_state d, d_evs_len d, d_err_rc d, d_seek_evs_off d, d_seek_evs_len d)"

definition dec_frame :: "actf_decoder \<Rightarrow> actf_decoder \<Rightarrow> bool" where
  "dec_frame d d' \<longleftrightarrow> rd_next (d_br d) (d_br d') \<and> dec_const d' = dec_const d"

lemma dec_frame_refl [simp]: "dec_frame d d"
  by (simp add: dec_frame_def)

lemma dec_frame_trans: "dec_frame a b \<Longrightarrow> dec_frame b c \<Longrightarrow> dec_frame a c"
  by (auto simp: dec_frame_def intro: rd_next_trans)

interpretation frame: decoder_invariant "\<lambda>d. dec_frame d0 d \<and> dec_ctl d = dec_ctl d0" for d0
  by unfold_locales (auto simp: dec_frame_def dec_const_def dec_ctl_def intro: rd_next_trans)

lemma frameD:
  assumes "\<And>d0. keeps (\<lambda>d. dec_frame d0 d \<and> dec_ctl d = dec_ctl d0) m" "m d = (r, d')"
  shows "dec_frame d d' \<and> dec_ctl d' = dec_ctl d"
  using assms(1) [of d] assms(2) by (auto simp: keeps_def dest!: spec [of _ d])

text \<open>The loop over the events of a packet fills at most the room it is given.\<close>

lemma pkt_events_frame:
  "pkt_events room d = (r, d') \<Longrightarrow>
   dec_frame d d' \<and> d_evs_len d \<le> d_evs_len d' \<and> d_evs_len d' \<le> d_evs_len d + room \<and>
   d_state d \<subseteq> d_state d' \<and> d_state d' \<subseteq> insert DECODING_STATE_RESUME_PKT (d_state d)"
proof (induction room arbitrary: d)
  case 0
  show ?case
  proof (cases "more_events d")
    case True
    then show ?thesis using 0 by (auto simp: set_flag_def cm_defs dec_frame_def dec_const_def)
  next
    case False
    then have "pkt_skip_rest d = (r, d')" using 0 by (simp add: bindc_def gets_def)
    from frameD [OF frame.keeps_skip_rest this] show ?thesis by (auto simp: dec_ctl_def)
  qed
next
  case (Suc room)
  show ?case
  proof (cases "more_events d")
    case True
    obtain r1 d1 where e: "actf_decoder_ev_decode (d_evs_len d) d = (r1, d1)" by fastforce
    note f = frameD [OF frame.keeps_event e]
    define d2 where "d2 = d1\<lparr>d_evs_len := d_evs_len d1 + 1\<rparr>"
    have f2: "dec_frame d d2" "d_evs_len d2 = d_evs_len d + 1" "d_state d2 = d_state d"
      using f by (auto simp: d2_def dec_frame_def dec_const_def dec_ctl_def)
    show ?thesis
    proof (cases "r1 = Ok ()")
      case True
      then have "pkt_events room d2 = (r, d')"
        using Suc.prems \<open>more_events d\<close> e by (simp add: thenc_def bindc_def gets_def modify_def d2_def)
      from Suc.IH [OF this] f2 show ?thesis using dec_frame_trans by auto
    next
      case False
      then have "d' = d1" using Suc.prems \<open>more_events d\<close> e
        by (cases r1) (auto simp: thenc_def bindc_def gets_def)
      then show ?thesis using f by (auto simp: dec_ctl_def)
    qed
  next
    case False
    then have "pkt_skip_rest d = (r, d')" using Suc.prems by (simp add: bindc_def gets_def)
    from frameD [OF frame.keeps_skip_rest this] show ?thesis by (auto simp: dec_ctl_def)
  qed
qed

lemma pkt_decode_frame:
  assumes "actf_decoder_pkt_decode d = (r, d')"
  shows "dec_frame d d' \<and> d_evs_len d \<le> d_evs_len d' \<and> d_evs_len d' \<le> max (d_evs_len d) (d_evs_cap d) \<and>
    d_state d' \<subseteq> insert DECODING_STATE_RESUME_PKT (d_state d) \<and>
    d_state d \<subseteq> insert DECODING_STATE_RESUME_PKT (d_state d')"
proof -
  define m where "m = (if DECODING_STATE_RESUME_PKT \<in> d_state d
    then thenc (clear_flag DECODING_STATE_RESUME_PKT) (upd_ds (\<lambda>s. s\<lparr>ds_ev_arena := []\<rparr>))
    else actf_decoder_pkt_hdrctx_decode)"
  obtain r1 d1 where m: "m d = (r1, d1)" by fastforce
  have f1: "dec_frame d d1 \<and> d_evs_len d1 = d_evs_len d \<and> d_state d1 = d_state d - (if DECODING_STATE_RESUME_PKT \<in> d_state d
      then {DECODING_STATE_RESUME_PKT} else {})"
  proof (cases "DECODING_STATE_RESUME_PKT \<in> d_state d")
    case True
    then show ?thesis using m
      by (auto simp: m_def clear_flag_def upd_ds_def thenc_def bindc_def modify_def dec_frame_def dec_const_def)
  next
    case False
    then show ?thesis using frameD [OF frame.keeps_hdrctx] m by (auto simp: m_def dec_ctl_def)
  qed
  have eq: "actf_decoder_pkt_decode d = (case r1 of Ok u \<Rightarrow> pkt_events (d_evs_cap d1 - d_evs_len d1) d1 | _ \<Rightarrow> (map_res undefined r1, d1))"
    using m by (auto simp: actf_decoder_pkt_decode_def m_def thenc_def bindc_def gets_def split: res.splits)
  show ?thesis
  proof (cases "r1 = Ok ()")
    case True
    then have "pkt_events (d_evs_cap d1 - d_evs_len d1) d1 = (r, d')" using eq assms by simp
    from pkt_events_frame [OF this] f1 show ?thesis
      using dec_frame_trans by (auto simp: dec_frame_def dec_const_def split: if_splits)
  next
    case False
    then have "d' = d1" using eq assms by (cases r1) auto
    then show ?thesis using f1 by (auto split: if_splits)
  qed
qed

text \<open>
  One call of the interface: the returned run fits into the event array, and an error is
  remembered.
\<close>

lemma decoder_decode_frame:
  assumes "DECODING_STATE_RESUME_SEEK \<notin> d_state d" "actf_decoder_decode d = (r, d')"
  shows "dec_frame d d'"
    and "r = Ok (off, len) \<Longrightarrow> off = 0 \<and> len = d_evs_len d' \<and> len \<le> d_evs_cap d"
    and "r = Err e \<Longrightarrow> DECODING_STATE_ERROR \<in> d_state d' \<and> (DECODING_STATE_ERROR \<notin> d_state d \<longrightarrow> d_err_rc d' = e)"
proof -
  define d0 where "d0 = d\<lparr>d_evs_len := 0\<rparr>"
  have d0: "dec_frame d d0" "d_evs_len d0 = 0" "d_evs_cap d0 = d_evs_cap d"
    by (simp_all add: d0_def dec_frame_def dec_const_def)
  obtain r1 d1 where p: "actf_decoder_pkt_decode d0 = (r1, d1)" by fastforce
  note f = pkt_decode_frame [OF p]
  have g: "dec_frame d d1" "d_evs_len d1 \<le> d_evs_cap d" using f d0 dec_frame_trans by auto
  have rd: "d_evs_cap d0 = d_evs_cap d" by (simp add: d0_def)
  have eq: "actf_decoder_decode d =
      (if DECODING_STATE_ERROR \<in> d_state d then (Err (d_err_rc d), d)
       else if \<not> breader_has_bits_remaining (d_br d0) then (Ok (0, 0), d0)
       else case r1 of
            Ok u \<Rightarrow> (Ok (0, d_evs_len d1), d1)
          | Err rc \<Rightarrow>
              (let d2 = d1\<lparr>d_state := insert DECODING_STATE_ERROR (d_state d1), d_err_rc := rc\<rparr> in
               if d_evs_len d1 = 0 then (Err rc, d2) else (Ok (0, d_evs_len d1), d2))
          | Undef \<Rightarrow> (Undef, d1) | Loop \<Rightarrow> (Loop, d1))"
    using assms(1) p by (simp add: actf_decoder_decode_def d0_def)
  have up: "dec_frame d (d1\<lparr>d_state := S, d_err_rc := c\<rparr>)" for S c
    using g(1) by (simp add: dec_frame_def dec_const_def)
  show "dec_frame d d'" using assms(2) eq g(1) d0(1) up
    by (auto simp: Let_def split: if_splits res.splits)
  show "off = 0 \<and> len = d_evs_len d' \<and> len \<le> d_evs_cap d" if "r = Ok (off, len)"
    using that assms(2) eq g d0 by (auto simp: Let_def split: if_splits res.splits)
  show "DECODING_STATE_ERROR \<in> d_state d' \<and> (DECODING_STATE_ERROR \<notin> d_state d \<longrightarrow> d_err_rc d' = e)" if "r = Err e"
    using that assms(2) eq by (auto simp: Let_def split: if_splits res.splits)
qed

text \<open>A packet that fails behind some events: the events come first, the error afterwards.\<close>

lemma decoder_error_deferred:
  assumes "d_state d \<inter> {DECODING_STATE_RESUME_SEEK, DECODING_STATE_ERROR} = {}"
    and "breader_has_bits_remaining (d_br d)"
    and p: "actf_decoder_pkt_decode (d\<lparr>d_evs_len := 0\<rparr>) = (Err rc, d1)"
  shows "\<exists>d2. actf_decoder_decode d = (if d_evs_len d1 = 0 then Err rc else Ok (0, d_evs_len d1), d2) \<and>
    d_evs d2 = d_evs d1 \<and> actf_decoder_decode d2 = (Err rc, d2)"
proof -
  define d2 where "d2 = d1\<lparr>d_state := insert DECODING_STATE_ERROR (d_state d1), d_err_rc := rc\<rparr>"
  have "d_state d1 \<subseteq> insert DECODING_STATE_RESUME_PKT (d_state d)" using pkt_decode_frame [OF p] by simp
  then have "DECODING_STATE_RESUME_SEEK \<notin> d_state d2" using assms(1) by (auto simp: d2_def)
  then have "actf_decoder_decode d2 = (Err rc, d2)" by (simp add: actf_decoder_decode_def d2_def)
  moreover have "actf_decoder_decode d = (if d_evs_len d1 = 0 then Err rc else Ok (0, d_evs_len d1), d2)"
    using assms by (auto simp: actf_decoder_decode_def Let_def d2_def)
  ultimately show ?thesis by (auto simp: d2_def)
qed

end
