(* ===== verification/Decoder_Fields.thy ===== *)
theory Decoder_Fields
  imports Decoder_Safety
begin

unbundle bit_operations_syntax

text \<open>
  What the fixed-length field classes decode. The value of a bit array is given by the bits of
  the stream and the byte and bit order of its class, without the two reads and the reversal of
  the code.
\<close>

section \<open>The value of a bit array\<close>

text \<open>Bit \<open>i\<close> of the value is the \<open>i\<close>th bit of the run, from its first or from its last bit on.\<close>

definition fld_bits :: "bit_arr_cls \<Rightarrow> u8 list \<Rightarrow> nat \<Rightarrow> u64" where
  "fld_bits cls dat q =
     horner_sum of_bool 2
       (map (\<lambda>i. sbit (ba_bo cls) dat
           (q + (if ba_bito cls = ACTF_FIRST_TO_LAST then i else unat (ba_len cls) - 1 - i)))
          [0..<unat (ba_len cls)])"

lemma bit_fld_bits:
  "bit (fld_bits cls dat q) i \<longleftrightarrow> i < 64 \<and> i < unat (ba_len cls) \<and>
     sbit (ba_bo cls) dat (q + (if ba_bito cls = ACTF_FIRST_TO_LAST then i else unat (ba_len cls) - 1 - i))"
  by (auto simp: fld_bits_def bit_horner_sum_bit_iff)

lemma fld_bits_value:
  assumes "0 < unat (ba_len cls)" "unat (ba_len cls) \<le> 64"
  shows "(if needs_reverse_bits cls
          then reverse_bits (bits_val (ba_bo cls) dat q (unat (ba_len cls))) (unat (ba_len cls))
          else Ok (bits_val (ba_bo cls) dat q (unat (ba_len cls)))) = Ok (fld_bits cls dat q)"
proof (cases "needs_reverse_bits cls")
  case True
  let ?n = "unat (ba_len cls)" and ?v = "bits_val (ba_bo cls) dat q (unat (ba_len cls))"
  have lt: "bit ?v i \<Longrightarrow> i < ?n" for i by (cases "ba_bo cls") (simp_all add: bit_bits_val)
  obtain r where r: "reverse_bits ?v ?n = Ok r" "\<And>i. bit r i \<longleftrightarrow> i < ?n \<and> bit ?v (?n - 1 - i)"
    using bit_reverse_bits [OF assms lt] by blast
  have "r = fld_bits cls dat q"
    using True assms(2) by (intro u64_eqI)
      (cases "ba_bo cls"; cases "ba_bito cls"; auto simp: r(2) bit_fld_bits bit_bits_val needs_reverse_bits_def)
  with r(1) True show ?thesis by simp
next
  case False
  then have "bits_val (ba_bo cls) dat q (unat (ba_len cls)) = fld_bits cls dat q"
    by (intro u64_eqI)
      (cases "ba_bo cls"; cases "ba_bito cls"; auto simp: bit_fld_bits bit_bits_val needs_reverse_bits_def)
  with False show ?thesis by simp
qed

section \<open>Alignment and bounds within a packet\<close>

text \<open>The decoder stands at bit \<open>p\<close> of the data, in a packet that begins at or before it.\<close>

definition dec_at :: "bool \<Rightarrow> u8 list \<Rightarrow> actf_byte_order \<Rightarrow> nat \<Rightarrow> actf_decoder \<Rightarrow> bool" where
  "dec_at c dat bo p d \<longleftrightarrow> br_rel c dat bo p (d_br d) \<and> unat (ps_bit_off (pkt_s d)) \<le> p"

text \<open>The first bit after the content of the packet.\<close>

definition pkt_end :: "actf_decoder \<Rightarrow> nat" where
  "pkt_end d = unat (ps_bit_off (pkt_s d)) + unat (ps_content_len (pkt_s d))"

lemma pkt_end_br [simp]: "pkt_end (d\<lparr>d_br := br\<rparr>) = pkt_end d"
  by (simp add: pkt_end_def)

lemma unat_pkt_pos:
  assumes "dec_at c dat bo p d"
  shows "unat (pkt_pos d) = p - unat (ps_bit_off (pkt_s d))"
proof -
  have "br_tot_bit_cnt (d_br d) = of_nat p" "unat (ps_bit_off (pkt_s d)) \<le> unat (br_tot_bit_cnt (d_br d))"
    "unat (br_tot_bit_cnt (d_br d)) = p"
    using assms by (auto simp: dec_at_def br_rel_def)
  then show ?thesis by (simp add: pkt_pos_def unat_sub word_le_nat_alt)
qed

lemma pkt_pos_inside:
  assumes "dec_at c dat bo p d"
  shows "pkt_pos d \<le> ps_content_len (pkt_s d) \<longleftrightarrow> p \<le> pkt_end d"
  using unat_pkt_pos [OF assms] assms by (auto simp: word_le_nat_alt pkt_end_def dec_at_def)

lemma unat_pkt_bits_remaining:
  assumes "dec_at c dat bo p d"
  shows "unat (pkt_bits_remaining d) = pkt_end d - p"
proof -
  have "unat (pkt_pos d) < unat (ps_content_len (pkt_s d)) \<Longrightarrow>
      unat (ps_content_len (pkt_s d) - pkt_pos d) = unat (ps_content_len (pkt_s d)) - unat (pkt_pos d)"
    by (simp add: unat_sub word_le_nat_alt)
  then show ?thesis using unat_pkt_pos [OF assms] assms
    by (auto simp: pkt_bits_remaining_def word_less_nat_alt pkt_end_def dec_at_def)
qed

lemma do_align_bo_spec:
  assumes at: "dec_at c dat bo p d" and k: "k < 64"
  defines "q \<equiv> min (align_up (2 ^ k) p) (8 * length dat)"
  shows "\<exists>br. do_align_bo bo (2 ^ k) d =
      (if q \<le> pkt_end d then Ok () else Err ACTF_NOT_ENOUGH_BITS, d\<lparr>d_br := br\<rparr>) \<and>
    dec_at c dat bo q (d\<lparr>d_br := br\<rparr>) \<and> p \<le> q"
proof -
  have rel: "br_rel c dat bo p (d_br d)" and off: "unat (ps_bit_off (pkt_s d)) \<le> p"
    using at by (auto simp: dec_at_def)
  have pq: "p \<le> q" using align_up_facts(1) [of "2 ^ k" p] br_rel_facts(5) [OF rel] by (simp add: q_def)
  obtain br where br: "breader_align_bo bo (2 ^ k) (d_br d) = (Ok (), br)" "br_rel c dat bo q br"
    using breader_align_bo_spec [OF rel k] unfolding q_def by blast
  have at': "dec_at c dat bo q (d\<lparr>d_br := br\<rparr>)" using br(2) off pq by (simp add: dec_at_def)
  then show ?thesis using br(1) pkt_pos_inside [OF at'] pq
    by (auto simp: do_align_bo_def cm_defs with_br_def)
qed

lemma ensure_bits_spec:
  assumes "dec_at c dat bo p d"
  shows "ensure_bits n d = (if unat n \<le> pkt_end d - p then Ok () else Err ACTF_NOT_ENOUGH_BITS, d)"
  using unat_pkt_bits_remaining [OF assms] by (simp add: ensure_bits_def cm_defs word_le_nat_alt)

lemma mid_byte_swap_iff:
  assumes "dec_at c dat bo p d"
  shows "mid_byte_swap cls d \<longleftrightarrow>
    PKT_LAST_BO \<in> ps_opt_flags (pkt_s d) \<and> ps_last_bo (pkt_s d) \<noteq> ba_bo cls \<and> \<not> 8 dvd p"
  using breader_byte_aligned_iff assms by (auto simp: mid_byte_swap_def dec_at_def)

section \<open>Reading a bit array\<close>

text \<open>The outcome of reading a bit array from bit \<open>q\<close> on, where the field begins.\<close>

definition bit_arr_outcome :: "bit_arr_cls \<Rightarrow> u8 list \<Rightarrow> nat \<Rightarrow> actf_decoder \<Rightarrow> u64 res" where
  "bit_arr_outcome cls dat q d =
     (if pkt_end d < q + unat (ba_len cls) then Err ACTF_NOT_ENOUGH_BITS
      else if PKT_LAST_BO \<in> ps_opt_flags (pkt_s d) \<and> ps_last_bo (pkt_s d) \<noteq> ba_bo cls \<and> \<not> 8 dvd q
      then Err ACTF_MID_BYTE_ENDIAN_SWAP
      else if 8 * length dat < q + unat (ba_len cls) then Err ACTF_NOT_ENOUGH_BITS
      else Ok (fld_bits cls dat q))"

definition set_last_bo :: "bit_arr_cls \<Rightarrow> pkt_state \<Rightarrow> pkt_state" where
  "set_last_bo cls s = s\<lparr>ps_last_bo := ba_bo cls, ps_opt_flags := insert PKT_LAST_BO (ps_opt_flags s)\<rparr>"

text \<open>
  A result that has the given outcome: the same error, or a value, which with \<open>c\<close> is the given one.
\<close>

definition has_outcome :: "bool \<Rightarrow> 'a res \<Rightarrow> 'a res \<Rightarrow> bool" where
  "has_outcome c out r \<longleftrightarrow> (case out of Ok v \<Rightarrow> (\<exists>w. r = Ok w \<and> (c \<longrightarrow> w = v)) | _ \<Rightarrow> r = out)"

lemma has_outcome_True [simp]: "has_outcome True out r \<longleftrightarrow> r = out"
  by (cases out) (auto simp: has_outcome_def)

lemma bit_run_dec:
  assumes at: "dec_at c dat bo q d" and n: "0 < n" "n \<le> 64"
  shows "\<exists>br t v. with_br (bit_run_bo bo n) d =
      (if q + n \<le> 8 * length dat then Ok v else Err ACTF_NOT_ENOUGH_BITS, d\<lparr>d_br := br\<rparr>) \<and>
    (q + n \<le> 8 * length dat \<longrightarrow> c \<longrightarrow> v = bits_val bo dat q n) \<and>
    dec_at c dat bo t (d\<lparr>d_br := br\<rparr>) \<and> q \<le> t \<and> (q + n \<le> 8 * length dat \<longrightarrow> t = q + n)"
proof -
  have rel: "br_rel c dat bo q (d_br d)" using at by (simp add: dec_at_def)
  obtain br t v where "bit_run_bo bo n (d_br d) =
      (if q + n \<le> 8 * length dat then Ok v else Err ACTF_NOT_ENOUGH_BITS, br)"
    "q + n \<le> 8 * length dat \<longrightarrow> c \<longrightarrow> v = bits_val bo dat q n"
    "br_rel c dat bo t br" "q \<le> t" "q + n \<le> 8 * length dat \<longrightarrow> t = q + n"
    using bit_run_bo_spec [OF rel n] by blast
  then show ?thesis using at by (intro exI [of _ br] exI [of _ t] exI [of _ v]) (simp add: with_br_def dec_at_def)
qed

text \<open>
  The errors and the position do not depend on the bits, so that they are known also where the
  lookahead is out of step with the stream: before the call, or because the call changes the byte
  order within a byte.
\<close>

lemma fxd_len_bit_arr_decode_outcome:
  assumes at: "dec_at c dat bo p d"
    and len: "0 < unat (ba_len cls)" "unat (ba_len cls) \<le> 64" and al: "ba_align cls = 2 ^ k" "k < 64"
  defines "q \<equiv> min (align_up (2 ^ k) p) (8 * length dat)" and "c' \<equiv> c \<and> (bo = ba_bo cls \<or> 8 dvd p)"
  shows "\<exists>r d' t. fxd_len_bit_arr_decode cls d = (r, d') \<and> has_outcome c' (bit_arr_outcome cls dat q d) r \<and>
    dec_at c' dat (ba_bo cls) t d' \<and> p \<le> t \<and>
    (\<forall>v. bit_arr_outcome cls dat q d = Ok v \<longrightarrow> t = q + unat (ba_len cls) \<and>
       pkt_s d' = set_last_bo cls (pkt_s d))"
proof -
  let ?bo = "ba_bo cls" and ?n = "unat (ba_len cls)"
  have rel: "br_rel c dat bo p (d_br d)" using at by (simp add: dec_at_def)
  obtain br0 where br0: "breader_set_bo ?bo (d_br d) = (Ok (), br0)" "br_rel c' dat ?bo p br0"
    using breader_set_bo_spec [OF rel] unfolding c'_def by metis
  define d0 where "d0 = d\<lparr>d_br := br0\<rparr>"
  have at0: "dec_at c' dat ?bo p d0" using br0(2) at by (simp add: d0_def dec_at_def)
  obtain br1 where al1: "do_align_bo ?bo (2 ^ k) d0 =
      (if q \<le> pkt_end d0 then Ok () else Err ACTF_NOT_ENOUGH_BITS, d0\<lparr>d_br := br1\<rparr>)"
    and at1: "dec_at c' dat ?bo q (d0\<lparr>d_br := br1\<rparr>)" and pq: "p \<le> q"
    using do_align_bo_spec [OF at0 al(2)] unfolding q_def by blast
  define d1 where "d1 = d0\<lparr>d_br := br1\<rparr>"
  have pe: "pkt_end d0 = pkt_end d" "pkt_end d1 = pkt_end d" "pkt_s d1 = pkt_s d" by (simp_all add: d0_def d1_def)
  obtain br2 t v where run: "with_br (bit_run_bo ?bo ?n) d1 =
      (if q + ?n \<le> 8 * length dat then Ok v else Err ACTF_NOT_ENOUGH_BITS, d1\<lparr>d_br := br2\<rparr>)"
    and v: "q + ?n \<le> 8 * length dat \<longrightarrow> c' \<longrightarrow> v = bits_val ?bo dat q ?n"
    and at2: "dec_at c' dat ?bo t (d1\<lparr>d_br := br2\<rparr>)" "q \<le> t" "q + ?n \<le> 8 * length dat \<longrightarrow> t = q + ?n"
    using bit_run_dec [OF at1 len] unfolding d1_def by blast
  define d2 where "d2 = d1\<lparr>d_br := br2\<rparr>"
  define k2 where "k2 = (\<lambda>result. bindc (if needs_reverse_bits cls then lift_res (reverse_bits result ?n) else ret result)
     (\<lambda>val. thenc (upd_pkt_s (set_last_bo cls)) (ret val)))"
  define k1 where "k1 = thenc (ensure_bits (ba_len cls)) (bindc (gets (mid_byte_swap cls)) (\<lambda>swap.
     thenc (ensure (\<not> swap) ACTF_MID_BYTE_ENDIAN_SWAP) (bindc (with_br (bit_run_bo ?bo ?n)) k2)))"
  have "fxd_len_bit_arr_decode cls d = thenc (do_align_bo ?bo (2 ^ k)) k1 d0"
    using br0(1) len by (simp add: fxd_len_bit_arr_decode_def k1_def k2_def thenc_def bindc_def assertc_def
        with_br_def d0_def al(1) word_le_nat_alt set_last_bo_def [abs_def])
  also have "\<dots> = (if q \<le> pkt_end d then k1 d1 else (Err ACTF_NOT_ENOUGH_BITS, d1))"
    using al1 pe by (simp add: thenc_def bindc_def flip: d1_def)
  finally have top: "fxd_len_bit_arr_decode cls d = \<dots>" .
  define d3 where "d3 = snd (upd_pkt_s (set_last_bo cls) d2)"
  obtain w where w: "(if needs_reverse_bits cls then reverse_bits v ?n else Ok v) = Ok w"
    using reverse_bits_Ok [OF len, of v] by (cases "needs_reverse_bits cls") auto
  have k2: "k2 v d2 = (Ok w, d3)"
    using w by (simp add: k2_def d3_def upd_pkt_s_def upd_ds_def cm_defs split: if_splits)
  have val: "c' \<longrightarrow> w = fld_bits cls dat q" if "q + ?n \<le> 8 * length dat"
    using that v w fld_bits_value [OF len, of dat q] by (auto split: if_splits)
  have at1': "dec_at c' dat ?bo q d1" using at1 by (simp add: d1_def)
  have k1: "k1 d1 = (if pkt_end d - q < ?n then (Err ACTF_NOT_ENOUGH_BITS, d1)
     else if mid_byte_swap cls d1 then (Err ACTF_MID_BYTE_ENDIAN_SWAP, d1)
     else if q + ?n \<le> 8 * length dat then (Ok w, d3) else (Err ACTF_NOT_ENOUGH_BITS, d2))"
    using ensure_bits_spec [OF at1', of "ba_len cls"] pe(2) run k2
    by (simp add: k1_def thenc_def bindc_def gets_def ensure_def flip: d2_def)
  have at3: "dec_at c' dat ?bo t d3" "pkt_s d3 = set_last_bo cls (pkt_s d)"
    using at2(1) pe(3) by (simp_all add: d3_def d2_def dec_at_def upd_pkt_s_def upd_ds_def modify_def set_last_bo_def)
  have at2': "dec_at c' dat ?bo t d2" using at2(1) by (simp add: d2_def)
  have pt: "p \<le> t" using at2(2) pq by simp
  have mid: "mid_byte_swap cls d1 \<longleftrightarrow>
      PKT_LAST_BO \<in> ps_opt_flags (pkt_s d) \<and> ps_last_bo (pkt_s d) \<noteq> ?bo \<and> \<not> 8 dvd q"
    using mid_byte_swap_iff [OF at1'] pe(3) by simp
  note out = bit_arr_outcome_def [of cls dat q d] top k1
  consider "pkt_end d < q + ?n" | "q + ?n \<le> pkt_end d" "mid_byte_swap cls d1"
    | "q + ?n \<le> pkt_end d" "\<not> mid_byte_swap cls d1" "8 * length dat < q + ?n"
    | "q + ?n \<le> pkt_end d" "\<not> mid_byte_swap cls d1" "q + ?n \<le> 8 * length dat" by linarith
  then show ?thesis
  proof cases
    case 1
    then have o: "bit_arr_outcome cls dat q d = Err ACTF_NOT_ENOUGH_BITS" "fxd_len_bit_arr_decode cls d = (Err ACTF_NOT_ENOUGH_BITS, d1)"
      using len(1) by (auto simp: out)
    then show ?thesis using at1' pq by (intro exI [of _ "Err ACTF_NOT_ENOUGH_BITS"] exI [of _ d1] exI [of _ q]) (simp add: has_outcome_def)
  next
    case 2
    then have o: "bit_arr_outcome cls dat q d = Err ACTF_MID_BYTE_ENDIAN_SWAP" "fxd_len_bit_arr_decode cls d = (Err ACTF_MID_BYTE_ENDIAN_SWAP, d1)"
      using mid by (auto simp: out)
    then show ?thesis using at1' pq by (intro exI [of _ "Err ACTF_MID_BYTE_ENDIAN_SWAP"] exI [of _ d1] exI [of _ q]) (simp add: has_outcome_def)
  next
    case 3
    then have o: "bit_arr_outcome cls dat q d = Err ACTF_NOT_ENOUGH_BITS" "fxd_len_bit_arr_decode cls d = (Err ACTF_NOT_ENOUGH_BITS, d2)"
      using mid by (auto simp: out)
    then show ?thesis using at2' pt by (intro exI [of _ "Err ACTF_NOT_ENOUGH_BITS"] exI [of _ d2] exI [of _ t]) (simp add: has_outcome_def)
  next
    case 4
    then have o: "bit_arr_outcome cls dat q d = Ok (fld_bits cls dat q)" "fxd_len_bit_arr_decode cls d = (Ok w, d3)"
      using mid by (auto simp: out)
    then show ?thesis using at3 at2(3) 4(3) pt val
      by (intro exI [of _ "Ok w"] exI [of _ d3] exI [of _ t]) (simp add: has_outcome_def)
  qed
qed

section \<open>The store of fields\<close>

text \<open>The laws of a store: a cell holds what was written last, and the other cells what they held.\<close>

locale field_store =
  fixes load :: "'p \<Rightarrow> 's \<Rightarrow> 'v option"
    and store :: "'p \<Rightarrow> 'v \<Rightarrow> 's \<Rightarrow> 's"
  assumes load_store: "load p s \<noteq> None \<Longrightarrow> load p (store p v s) = Some v"
    and load_store_other: "p \<noteq> q \<Longrightarrow> load q (store p v s) = load q s"
begin

lemma load_store_eq:
  "load p s \<noteq> None \<Longrightarrow> load q (store p v s) = (if q = p then Some v else load q s)"
  using load_store load_store_other by simp

lemma dom_store: "load p s \<noteq> None \<Longrightarrow> load q (store p v s) \<noteq> None \<longleftrightarrow> load q s \<noteq> None"
  using load_store_eq by simp

lemma store_store: "load p s \<noteq> None \<Longrightarrow> load q (store p w (store p v s)) = load q (store p w s)"
  using load_store_eq [of p s] load_store_eq [of p "store p v s"] by simp

end

interpretation flds: field_store load_fld store_fld
proof
  show "load_fld p (store_fld p v d) = Some v" if "load_fld p d \<noteq> None" for p v d
    using that by (cases p) (auto split: if_splits)
  show "load_fld q (store_fld p v d) = load_fld q d" if ne: "p \<noteq> q" for p q v d
  proof (cases p)
    case (EvProp e i)
    then show ?thesis using ne by (cases q; cases "e < length (d_evs d)") (auto simp: nth_list_update)
  qed (use ne in \<open>cases q; simp\<close>)+
qed

lemma load_fld_view [simp]: "load_fld p (d\<lparr>d_br := br\<rparr>) = load_fld p d"
  by (cases p) simp_all

text \<open>Reading bits does not write a field.\<close>

lemma fxd_len_bit_arr_decode_load: "load_fld p (snd (fxd_len_bit_arr_decode cls d)) = load_fld p d"
proof -
  let ?I = "\<lambda>d'. load_fld p d' = load_fld p d"
  have br_u: "keeps ?I (with_br m)" for m :: "unit br_op" by (simp add: keeps_def snd_with_br)
  have br_w: "keeps ?I (with_br m)" for m :: "u64 br_op" by (simp add: keeps_def snd_with_br)
  have pk: "keeps ?I (upd_pkt_s h)" for h
    by (cases p) (simp_all add: keeps_def upd_pkt_s_def upd_ds_def modify_def)
  have "keeps ?I (fxd_len_bit_arr_decode cls)"
    unfolding fxd_len_bit_arr_decode_def do_align_bo_def ensure_bits_def
    by (intro keeps_intros br_u br_w pk)
  then show ?thesis by (simp add: keeps_def)
qed

text \<open>
  A class that stores what it makes of the bits it reads: the field gets the value, and no other
  field changes.
\<close>

lemma decoded_field_spec:
  assumes f: "load_fld ptr d = Some f"
    and dec: "fld_cls_decode cls ptr = thenc (upd_fld ptr (\<lambda>f. f\<lparr>f_cls := Some cls\<rparr>)) (bindc m fin)"
    and m: "m (store_fld ptr (f\<lparr>f_cls := Some cls\<rparr>) d) = (Ok v, d2)"
    and kept: "\<And>r. load_fld r d2 = load_fld r (store_fld ptr (f\<lparr>f_cls := Some cls\<rparr>) d)"
    and fin: "\<And>d. fin v d = set_val ptr t w d"
  shows "\<exists>d'. fld_cls_decode cls ptr d = (Ok (), d') \<and>
    load_fld ptr d' = Some (f\<lparr>f_cls := Some cls, f_type := t, f_d := w\<rparr>) \<and>
    (\<forall>q. q \<noteq> ptr \<longrightarrow> load_fld q d' = load_fld q d) \<and> d_br d' = d_br d2"
proof -
  have l1: "load_fld r d2 = (if r = ptr then Some (f\<lparr>f_cls := Some cls\<rparr>) else load_fld r d)" for r
    using kept [of r] flds.load_store_eq [of ptr d r] f by simp
  define d3 where "d3 = store_fld ptr (f\<lparr>f_cls := Some cls, f_type := t, f_d := w\<rparr>) d2"
  have "fld_cls_decode cls ptr d = set_val ptr t w d2"
    using f m fin by (simp add: dec thenc_def bindc_def upd_fld_def)
  then have run: "fld_cls_decode cls ptr d = (Ok (), d3)"
    using l1 [of ptr] by (simp add: set_val_def upd_fld_def d3_def)
  have "d_br d3 = d_br d2" by (cases ptr; simp add: d3_def)
  moreover have "load_fld r d3 = (if r = ptr then Some (f\<lparr>f_cls := Some cls, f_type := t, f_d := w\<rparr>) else load_fld r d)" for r
    using flds.load_store_eq [of ptr d2 r] l1 [of ptr] l1 [of r] by (simp add: d3_def)
  ultimately show ?thesis using run by auto
qed

lemma store_fld_view [simp]: "d_br (store_fld ptr f d) = d_br d" "pkt_s (store_fld ptr f d) = pkt_s d"
  by (cases ptr; simp)+

lemma bit_arr_field_spec:
  assumes at: "dec_at True dat bo p d" and bo: "bo = ba_bo b \<or> 8 dvd p"
    and len: "0 < unat (ba_len b)" "unat (ba_len b) \<le> 64" and al: "ba_align b = 2 ^ k" "k < 64"
    and f: "load_fld ptr d = Some f"
    and v: "bit_arr_outcome b dat (min (align_up (2 ^ k) p) (8 * length dat)) d = Ok v"
    and fin: "\<And>d. fin v d = set_val ptr t w d"
    and dec: "fld_cls_decode cls ptr =
      thenc (upd_fld ptr (\<lambda>f. f\<lparr>f_cls := Some cls\<rparr>)) (bindc (fxd_len_bit_arr_decode b) fin)"
  shows "\<exists>d'. fld_cls_decode cls ptr d = (Ok (), d') \<and>
    load_fld ptr d' = Some (f\<lparr>f_cls := Some cls, f_type := t, f_d := w\<rparr>) \<and>
    (\<forall>q. q \<noteq> ptr \<longrightarrow> load_fld q d' = load_fld q d) \<and>
    br_at dat (ba_bo b) (min (align_up (2 ^ k) p) (8 * length dat) + unat (ba_len b)) (d_br d')"
proof -
  define d1 where "d1 = store_fld ptr (f\<lparr>f_cls := Some cls\<rparr>) d"
  let ?q = "min (align_up (2 ^ k) p) (8 * length dat)"
  have at1: "dec_at True dat bo p d1" using at by (simp add: dec_at_def d1_def)
  have v1: "bit_arr_outcome b dat ?q d1 = Ok v"
    using v unfolding bit_arr_outcome_def pkt_end_def d1_def store_fld_view .
  have c: "(True \<and> (bo = ba_bo b \<or> 8 dvd p)) = True" using bo by simp
  obtain d2 where d2: "fxd_len_bit_arr_decode b d1 = (Ok v, d2)"
    "dec_at True dat (ba_bo b) (?q + unat (ba_len b)) d2"
    using fxd_len_bit_arr_decode_outcome [OF at1 len al] v1 unfolding c has_outcome_True by auto
  have "load_fld r d2 = load_fld r d1" for r using fxd_len_bit_arr_decode_load [of r b d1] d2(1) by simp
  from decoded_field_spec [OF f dec d2(1) [unfolded d1_def] this [unfolded d1_def] fin]
  show ?thesis using d2(2) by (auto simp: dec_at_def simp del: load_fld.simps)
qed

end
