(* ===== verification/Var_Len.thy ===== *)
theory Var_Len
  imports Decoder_Fields
begin

unbundle bit_operations_syntax

text \<open>
  Variable-length integers (LEB128). \<open>leb_val\<close> is the number that a sequence of bytes encodes;
  the decoder is shown to compute it for every encoding of up to ten bytes, whatever the state of
  its lookahead, and the encoder \<open>leb_enc\<close> gives the round trip.
\<close>

section \<open>Encodings\<close>

fun leb_val :: "u8 list \<Rightarrow> nat" where
  "leb_val [] = 0"
| "leb_val (b # bs) = unat b mod 128 + 128 * leb_val bs"

text \<open>Every byte but the last has its continuation bit set.\<close>

fun leb_wf :: "u8 list \<Rightarrow> bool" where
  "leb_wf [] \<longleftrightarrow> False"
| "leb_wf (b # bs) \<longleftrightarrow> (if bs = [] then \<not> bit b 7 else bit b 7 \<and> leb_wf bs)"

lemma leb_wf_bit: "leb_wf bs \<Longrightarrow> i < length bs \<Longrightarrow> bit (bs ! i) 7 \<longleftrightarrow> Suc i < length bs"
  by (induction bs arbitrary: i) (auto simp: nth_Cons split: nat.splits if_splits)

lemma leb_val_append: "leb_val (as @ bs) = leb_val as + 128 ^ length as * leb_val bs"
  by (induction as) (simp_all add: algebra_simps)

lemma leb_val_less: "leb_val bs < 128 ^ length bs"
proof (induction bs)
  case (Cons b bs)
  have "unat b mod 128 + 128 * leb_val bs < 128 + 128 * leb_val bs" by simp
  also have "\<dots> \<le> 128 * 128 ^ length bs" using Cons.IH by (simp flip: mult_Suc_right)
  finally show ?case by simp
qed simp

lemma leb_val_take_Suc:
  "i < length bs \<Longrightarrow> leb_val (take (Suc i) bs) = leb_val (take i bs) + 2 ^ (7 * i) * (unat (bs ! i) mod 128)"
  by (simp add: take_Suc_conv_app_nth leb_val_append power_mult)

text \<open>The step of the loop adds the next seven bits.\<close>

lemma or_push_bit:
  fixes r v :: u64
  assumes "unat r < 2 ^ sh"
  shows "r OR push_bit sh v = r + of_nat (2 ^ sh) * v"
proof -
  have "\<not> bit r i" if "sh \<le> i" for i
  proof -
    have "unat r < 2 ^ i" using assms that by (meson less_le_trans power_increasing one_le_numeral)
    then have "\<not> bit (unat r) i" by (simp add: bit_iff_odd)
    then show ?thesis by (auto simp: bit_unsigned_iff dest: bit_u64_less)
  qed
  then have "r OR push_bit sh v = r + push_bit sh v"
    by (intro disjunctive_add [symmetric]) (auto simp: bit_push_bit_iff)
  then show ?thesis by (simp add: push_bit_eq_mult mult.commute)
qed

lemma leb_step:
  assumes "i < length bs" "i \<le> 9"
  shows "(of_nat (leb_val (take i bs)) :: u64) OR push_bit (7 * i) (of_nat (unat (bs ! i) mod 128)) =
    of_nat (leb_val (take (Suc i) bs))"
proof -
  have "(7 :: nat) * i \<le> 63" using assms(2) by simp
  then have "(2 :: nat) ^ (7 * i) \<le> 2 ^ 63" by (intro power_increasing) simp_all
  moreover have l: "leb_val (take i bs) < 2 ^ (7 * i)"
    using leb_val_less [of "take i bs"] assms(1) by (simp add: power_mult)
  ultimately have "unat (of_nat (leb_val (take i bs)) :: u64) < 2 ^ (7 * i)"
    by (simp add: unat_of_nat take_bit_nat_eq_self)
  from or_push_bit [OF this] show ?thesis using assms(1) by (simp add: leb_val_take_Suc)
qed

section \<open>The bytes of the stream\<close>

lemma bits_val_payload:
  assumes "n < length dat"
  shows "bits_val ACTF_LIL_ENDIAN dat (8 * n) 7 = of_nat (unat (dat ! n) mod 128)"
proof -
  have s: "sbit ACTF_LIL_ENDIAN dat (8 * n + i) \<longleftrightarrow> bit (dat ! n) i" if "i < 8" for i
    using assms that by (simp add: sbit_def)
  have m: "unat (dat ! n) mod 128 = take_bit 7 (unat (dat ! n))" by (simp add: take_bit_eq_mod)
  show ?thesis unfolding m
    by (rule u64_eqI) (auto simp: bit_bits_val s bit_simps)
qed

lemma bits_val_more:
  assumes "n < length dat"
  shows "bits_val ACTF_LIL_ENDIAN dat (8 * n + 7) 1 = 0 \<longleftrightarrow> \<not> bit (dat ! n) 7"
proof -
  have "sbit ACTF_LIL_ENDIAN dat (8 * n + 7) \<longleftrightarrow> bit (dat ! n) 7" using assms by (simp add: sbit_def)
  then show ?thesis by (simp add: bits_val_def)
qed

section \<open>The loops\<close>

text \<open>The encoding \<open>bs\<close> lies in the data from byte \<open>k\<close> on.\<close>

definition leb_at :: "u8 list \<Rightarrow> nat \<Rightarrow> u8 list \<Rightarrow> bool" where
  "leb_at dat k bs \<longleftrightarrow> k + length bs \<le> length dat \<and> take (length bs) (drop k dat) = bs \<and> leb_wf bs"

lemma leb_at_nth: "leb_at dat k bs \<Longrightarrow> i < length bs \<Longrightarrow> dat ! (k + i) = bs ! i"
  unfolding leb_at_def by (metis nth_drop nth_take add_leD1)

lemma peek_consume_le:
  assumes "br_at dat ACTF_LIL_ENDIAN p br" "0 < n" "n \<le> br_lookahead_bit_cnt br"
  shows "\<exists>br'. bindc (breader_peek n) (\<lambda>v. thenc (breader_consume n) (f v)) br =
      f (bits_val ACTF_LIL_ENDIAN dat p n) br' \<and>
    br_at dat ACTF_LIL_ENDIAN (p + n) br' \<and> br_lookahead_bit_cnt br' = br_lookahead_bit_cnt br - n"
proof -
  have bo: "br_bo br = ACTF_LIL_ENDIAN" using assms(1) by (simp add: br_rel_def)
  show ?thesis using br.peek_law [OF assms] br.consume_law [OF assms(1,3)] bo
    by (auto simp: breader_peek_def breader_consume_def cm_defs)
qed

lemma var_len_inner_leb:
  assumes "leb_at dat k bs" "length bs \<le> 10" "i < length bs"
    "br_at dat ACTF_LIL_ENDIAN (8 * (k + i)) br" "br_lookahead_bit_cnt br = 8 * j"
  shows "\<exists>br'. var_len_inner breader_peek breader_consume (8 * j) (of_nat (leb_val (take i bs))) (7 * i) br =
      (Ok (of_nat (leb_val (take (i + j) bs)), 7 * min (i + j) (length bs), length bs \<le> i + j), br') \<and>
    br_at dat ACTF_LIL_ENDIAN (8 * (k + min (i + j) (length bs))) br'"
  using assms(3-)
proof (induction j arbitrary: i br)
  case 0
  then show ?case by (auto simp: var_len_inner.simps [of _ _ 0] ret_def)
next
  case (Suc j)
  note at = Suc.prems(2) and la = Suc.prems(3) and i = Suc.prems(1)
  have kl: "k + i < length dat" "dat ! (k + i) = bs ! i" "i \<le> 9"
    using assms(1,2) i leb_at_nth [OF assms(1) i] by (auto simp: leb_at_def)
  have more: "bits_val ACTF_LIL_ENDIAN dat (8 * (k + i) + 7) 1 = 0 \<longleftrightarrow> Suc i = length bs"
    using bits_val_more [OF kl(1)] kl(2) leb_wf_bit [of bs i] assms(1) i by (auto simp: leb_at_def)
  define r where "r = (of_nat (leb_val (take (Suc i) bs)) :: u64)"
  have r: "of_nat (leb_val (take i bs)) OR push_bit (7 * i) (bits_val ACTF_LIL_ENDIAN dat (8 * (k + i)) 7) = r"
    using leb_step [OF i kl(3)] bits_val_payload [OF kl(1)] kl(2) by (simp add: r_def)
  define tail where "tail = (\<lambda>more :: u64. if more = 0 then ret (r, 7 * i + 7, True)
      else var_len_inner breader_peek breader_consume (8 * Suc j - 8) r (7 * i + 7))"
  define body where "body = (\<lambda>v. bindc (breader_peek 1) (\<lambda>more. thenc (breader_consume 1)
      (let result = of_nat (leb_val (take i bs)) OR push_bit (7 * i) v in
       if more = 0 then ret (result, 7 * i + 7, True)
       else var_len_inner breader_peek breader_consume (8 * Suc j - 8) result (7 * i + 7))))"
  have inner: "var_len_inner breader_peek breader_consume (8 * Suc j) (of_nat (leb_val (take i bs))) (7 * i) =
      bindc (breader_peek 7) (\<lambda>v. thenc (breader_consume 7) (body v))"
    using kl(3) unfolding body_def var_len_inner.simps [of _ _ "8 * Suc j"] by simp
  have body: "body (bits_val ACTF_LIL_ENDIAN dat (8 * (k + i)) 7) =
      bindc (breader_peek 1) (\<lambda>more. thenc (breader_consume 1) (tail more))"
    unfolding body_def tail_def Let_def r ..
  obtain br1 where s1: "var_len_inner breader_peek breader_consume (8 * Suc j) (of_nat (leb_val (take i bs))) (7 * i) br =
      bindc (breader_peek 1) (\<lambda>more. thenc (breader_consume 1) (tail more)) br1"
    "br_at dat ACTF_LIL_ENDIAN (8 * (k + i) + 7) br1" "br_lookahead_bit_cnt br1 = 8 * Suc j - 7"
    using peek_consume_le [OF at, of 7 body] la unfolding inner body by auto
  obtain br2 where s2: "bindc (breader_peek 1) (\<lambda>more. thenc (breader_consume 1) (tail more)) br1 =
      tail (bits_val ACTF_LIL_ENDIAN dat (8 * (k + i) + 7) 1) br2"
    "br_at dat ACTF_LIL_ENDIAN (8 * (k + Suc i)) br2" "br_lookahead_bit_cnt br2 = 8 * j"
    using peek_consume_le [OF s1(2), of 1 tail] s1(3) by (auto simp: algebra_simps)
  show ?case
  proof (cases "Suc i = length bs")
    case True
    have m: "min (i + Suc j) (length bs) = Suc i" "length bs \<le> i + Suc j" "take (i + Suc j) bs = take (Suc i) bs"
      using True by simp_all
    show ?thesis using s1(1) s2 more True unfolding m(1,3) by (simp add: tail_def ret_def r_def m(2))
  next
    case False
    then have "Suc i < length bs" using i by simp
    from Suc.IH [OF this s2(2,3)] False show ?thesis
      using s1(1) s2(1) more by (auto simp: tail_def r_def add.commute)
  qed
qed

text \<open>Refills in the midst of an integer deliver whole bytes.\<close>

lemma refill_bytes:
  assumes "br_at dat ACTF_LIL_ENDIAN (8 * n) br" "n < length dat"
  obtains br' j where "breader_refill br = (Ok (8 * j), br')" "0 < j" "br_lookahead_bit_cnt br' = 8 * j"
    "br_at dat ACTF_LIL_ENDIAN (8 * n) br'"
proof -
  have bo: "br_bo br = ACTF_LIL_ENDIAN" using assms(1) by (simp add: br_rel_def)
  obtain br' where br': "breader_refill_bo ACTF_LIL_ENDIAN br = (Ok (br_lookahead_bit_cnt br'), br')"
    "br_at dat ACTF_LIL_ENDIAN (8 * n) br'" "min 56 (8 * length dat - 8 * n) \<le> br_lookahead_bit_cnt br'"
    using br.refill_law [OF assms(1)] by blast
  have "8 * n + br_lookahead_bit_cnt br' = 8 * br_read_ptr br'" using br_rel_facts(1) [OF br'(2)] .
  then have j: "br_lookahead_bit_cnt br' = 8 * (br_read_ptr br' - n)" by simp
  moreover have "0 < br_read_ptr br' - n" using br'(3) assms(2) j by simp
  moreover have "breader_refill br = (Ok (8 * (br_read_ptr br' - n)), br')"
    using br'(1) bo j by (simp add: breader_refill_def bindc_def gets_def)
  ultimately show thesis using that br'(2) by blast
qed

lemma var_len_outer_leb:
  assumes leb: "leb_at dat k bs" "length bs \<le> 10" and fits: "8 * (k + length bs) \<le> pkt_end d"
    and "i < length bs" "length bs \<le> i + n"
    "dec_at True dat ACTF_LIL_ENDIAN (8 * (k + i)) d"
  shows "\<exists>br. var_len_outer n (of_nat (leb_val (take i bs))) (7 * i) d =
      (Ok (of_nat (leb_val bs), min (7 * length bs) 64), d\<lparr>d_br := br\<rparr>) \<and>
    dec_at True dat ACTF_LIL_ENDIAN (8 * (k + length bs)) (d\<lparr>d_br := br\<rparr>)"
  using assms(3-)
proof (induction n arbitrary: i d)
  case (Suc n)
  note i = Suc.prems(2) and at = Suc.prems(4)
  have "k + i < length dat" using leb(1) i by (auto simp: leb_at_def)
  moreover have "br_at dat ACTF_LIL_ENDIAN (8 * (k + i)) (d_br d)" using at by (simp add: dec_at_def)
  ultimately obtain br1 j where f: "breader_refill (d_br d) = (Ok (8 * j), br1)" "0 < j"
    "br_lookahead_bit_cnt br1 = 8 * j" "br_at dat ACTF_LIL_ENDIAN (8 * (k + i)) br1"
    using refill_bytes by metis
  define e where "e = min (i + j) (length bs)"
  have ie: "i \<le> e" using i by (simp add: e_def)
  obtain br2 where v: "var_len_inner breader_peek breader_consume (8 * j) (of_nat (leb_val (take i bs))) (7 * i) br1 =
      (Ok (of_nat (leb_val (take (i + j) bs)), 7 * e, length bs \<le> i + j), br2)"
    "br_at dat ACTF_LIL_ENDIAN (8 * (k + e)) br2"
    using var_len_inner_leb [OF leb i f(4,3)] unfolding e_def by blast
  define d2 where "d2 = d\<lparr>d_br := br2\<rparr>"
  have at2: "dec_at True dat ACTF_LIL_ENDIAN (8 * (k + e)) d2"
    using at v(2) ie by (simp add: dec_at_def d2_def)
  have in2: "pkt_pos d2 \<le> ps_content_len (pkt_s d2)" "unat (pkt_bits_remaining d2) = pkt_end d2 - 8 * (k + e)"
    using pkt_pos_inside [OF at2] unat_pkt_bits_remaining [OF at2] Suc.prems(1) by (auto simp: d2_def e_def)
  have rem: "\<not> pkt_bits_remaining d2 < 8" if "\<not> length bs \<le> i + j"
    using in2(2) Suc.prems(1) that by (simp add: word_less_nat_alt d2_def e_def)
  have step: "var_len_outer (Suc n) (of_nat (leb_val (take i bs))) (7 * i) d =
      (if length bs \<le> i + j then (Ok (of_nat (leb_val (take (i + j) bs)), min (7 * e) 64), d2)
       else var_len_outer n (of_nat (leb_val (take (i + j) bs))) (7 * e) d2)"
    using f(1,2) v(1) in2(1) rem
    by (auto simp: bindc_def thenc_def with_br_def ensure_def gets_def ret_def not_less [symmetric] d2_def [symmetric]
        simp flip: d2_def)
  show ?case
  proof (cases "length bs \<le> i + j")
    case True
    then have "e = length bs" "take (i + j) bs = bs" by (simp_all add: e_def)
    then show ?thesis using step True at2 by (auto simp: d2_def)
  next
    case False
    then have e: "e = i + j" by (simp add: e_def)
    have "8 * (k + length bs) \<le> pkt_end d2" using Suc.prems(1) by (simp add: d2_def)
    from Suc.IH [OF this, of "i + j"] show ?thesis
      using step False e at2 f(2) Suc.prems(3) by (auto simp: d2_def)
  qed
qed simp

section \<open>Decoding an integer\<close>

lemma var_len_int_decode_leb:
  assumes at: "dec_at True dat bo p d" and bo: "bo = ACTF_LIL_ENDIAN \<or> 8 dvd p"
    and al: "actf_fld_cls_get_align_req cls = Ok 8"
    and k: "align_up 8 p = 8 * k" and leb: "leb_at dat k bs" "length bs \<le> 10" and fits: "8 * (k + length bs) \<le> pkt_end d"
  shows "\<exists>br. fld_cls_var_len_int_decode cls d =
      (Ok (of_nat (leb_val bs), min (7 * length bs) 64), d\<lparr>d_br := br\<rparr>) \<and>
    br_at dat ACTF_LIL_ENDIAN (8 * (k + length bs)) br"
proof -
  have ne: "0 < length bs" "k + length bs \<le> length dat" using leb(1) by (auto simp: leb_at_def)
  have rel: "br_at dat bo p (d_br d)" using at by (simp add: dec_at_def)
  obtain br0 where br0: "breader_set_bo ACTF_LIL_ENDIAN (d_br d) = (Ok (), br0)" "br_at dat ACTF_LIL_ENDIAN p br0"
    using breader_set_bo_spec [OF rel] bo by metis
  define d0 where "d0 = d\<lparr>d_br := br0\<rparr>"
  have at0: "dec_at True dat ACTF_LIL_ENDIAN p d0" "br_bo (d_br d0) = ACTF_LIL_ENDIAN"
    using br0(2) at by (simp_all add: d0_def dec_at_def br_rel_def)
  have q: "min (align_up (2 ^ 3) p) (8 * length dat) = 8 * k" using k ne by simp
  have fits0: "8 * (k + length bs) \<le> pkt_end d0" using fits by (simp add: d0_def)
  obtain br1 where a1: "do_align_bo ACTF_LIL_ENDIAN 8 d0 = (Ok (), d0\<lparr>d_br := br1\<rparr>)"
    "dec_at True dat ACTF_LIL_ENDIAN (8 * k) (d0\<lparr>d_br := br1\<rparr>)"
    using do_align_bo_spec [OF at0(1), of 3] fits0 unfolding q by auto
  define d1 where "d1 = d0\<lparr>d_br := br1\<rparr>"
  have at1: "dec_at True dat ACTF_LIL_ENDIAN (8 * (k + 0)) d1" "8 * (k + length bs) \<le> pkt_end d1"
    using a1(2) fits0 by (simp_all add: d1_def)
  have "unat (8 :: u64) \<le> pkt_end d1 - 8 * k" using at1(2) ne(1) by (cases bs) simp_all
  then have e1: "ensure_bits 8 d1 = (Ok (), d1)" using ensure_bits_spec [OF at1(1), of 8] by simp
  obtain br2 where v: "var_len_outer VAR_LEN_ROUNDS 0 0 d1 =
      (Ok (of_nat (leb_val bs), min (7 * length bs) 64), d1\<lparr>d_br := br2\<rparr>)"
    "dec_at True dat ACTF_LIL_ENDIAN (8 * (k + length bs)) (d1\<lparr>d_br := br2\<rparr>)"
    using var_len_outer_leb [OF leb at1(2) ne(1) _ at1(1), of VAR_LEN_ROUNDS] leb
    by (auto simp: leb_at_def VAR_LEN_ROUNDS_def)
  have "fld_cls_var_len_int_decode cls d = var_len_outer VAR_LEN_ROUNDS 0 0 d1"
    using br0(1) at0(2) a1(1) e1
    by (simp add: fld_cls_var_len_int_decode_def do_align_req_def do_align_def al thenc_def bindc_def
        with_br_def lift_res_def gets_def flip: d0_def d1_def)
  then show ?thesis using v by (auto simp: d1_def d0_def dec_at_def)
qed

section \<open>The round trip\<close>

text \<open>The shortest encoding of a number.\<close>

function leb_enc :: "nat \<Rightarrow> u8 list" where
  "leb_enc n = (if n < 128 then [of_nat n] else of_nat (n mod 128 + 128) # leb_enc (n div 128))"
  by pat_completeness auto
termination by (relation "measure id") auto

declare leb_enc.simps [simp del]

lemma bit_7_u8: "bit (b :: u8) 7 \<longleftrightarrow> 128 \<le> unat b"
proof -
  have "unat b < 256" using unsigned_less [of b, where 'a = nat] by simp
  then have "unat b div 128 = (if 128 \<le> unat b then 1 else 0)" by auto
  moreover have "bit b 7 \<longleftrightarrow> bit (unat b) 7" by (simp add: bit_unsigned_iff)
  ultimately show ?thesis by (simp add: bit_iff_odd)
qed

lemma leb_enc_facts: "leb_val (leb_enc n) = n \<and> leb_wf (leb_enc n)"
proof (induction n rule: leb_enc.induct)
  case (1 n)
  show ?case
  proof (cases "n < 128")
    case True
    then have "unat (of_nat n :: u8) = n" by (simp add: unat_of_nat take_bit_nat_eq_self)
    then show ?thesis using True by (simp add: leb_enc.simps [of n] bit_7_u8)
  next
    case False
    define b where "b = (of_nat (n mod 128 + 128) :: u8)"
    have b: "unat b = n mod 128 + 128" by (simp add: b_def unat_of_nat take_bit_nat_eq_self del: of_nat_add)
    have ne: "leb_enc (n div 128) \<noteq> []" by (simp add: leb_enc.simps [of "n div 128"])
    have "leb_enc n = b # leb_enc (n div 128)" using False by (simp add: leb_enc.simps [of n] b_def)
    then show ?thesis using 1 False b ne by (simp add: bit_7_u8)
  qed
qed

lemma leb_enc_len: "n < 128 ^ Suc m \<Longrightarrow> length (leb_enc n) \<le> Suc m"
proof (induction m arbitrary: n)
  case (Suc m)
  then have "n div 128 < 128 ^ Suc m" by (simp add: div_less_iff_less_mult mult.commute)
  then show ?case using Suc.IH [of "n div 128"] by (simp add: leb_enc.simps [of n])
qed (simp add: leb_enc.simps)

lemma leb_at_enc:
  assumes "dat = pre @ leb_enc (unat (v :: u64)) @ post"
  shows "leb_at dat (length pre) (leb_enc (unat v))" "length (leb_enc (unat v)) \<le> 10"
proof -
  have "unat v < 128 ^ Suc 9" using unat_u64_less [of v] by simp
  from leb_enc_len [OF this] show "length (leb_enc (unat v)) \<le> 10" by simp
  show "leb_at dat (length pre) (leb_enc (unat v))" using leb_enc_facts assms by (simp add: leb_at_def)
qed

end
