(* ===== verification/Example_Trace.thy ===== *)
theory Example_Trace
  imports Decoder_Api
begin

text \<open>
  A small trace: no packet header, one data stream class with a packet context of one content
  length, and one event class whose payload is a structure with an 8-bit member. The theorems of
  the development are applied to it, to show that their premises can be met.
\<close>

definition ex_int_cls :: int_fld_cls where
  "ex_int_cls = \<lparr>ic_pref_display_base = ACTF_BASE_DECIMAL, ic_maps = \<lparr>am_signed = False, am_ivt = \<lparr>rb_root = 0, rb_mem = [unlinked (mk_ival [] 0 0)], rb_cb_set = False\<rparr>, am_names = []\<rparr>\<rparr>"

definition ex_bits :: bit_arr_cls where
  "ex_bits = \<lparr>ba_len = 8, ba_bo = ACTF_LIL_ENDIAN, ba_bito = ACTF_FIRST_TO_LAST, ba_align = 8\<rparr>"

definition ex_payload :: actf_fld_cls where
  "ex_payload = ACTF_FLD_CLS_STRUCT [Member ''v'' (ACTF_FLD_CLS_FXD_LEN_UINT ex_int_cls ex_bits {})] 1 8"

definition ex_ctx :: actf_fld_cls where
  "ex_ctx = ACTF_FLD_CLS_STRUCT
     [Member ''len'' (ACTF_FLD_CLS_FXD_LEN_UINT ex_int_cls ex_bits {ACTF_ROLE_PKT_CONTENT_LEN})] 1 8"

definition ex_evc :: actf_event_cls where
  "ex_evc = \<lparr>ec_id = 0, ec_dsc_id = 0, ec_dsc = 0, ec_namespace = None, ec_name = None, ec_uid = None,
     ec_spec_ctx = ACTF_FLD_CLS_NIL, ec_payload = ex_payload\<rparr>"

definition ex_hmap :: "'v \<Rightarrow> (u64, 'v) hmap" where
  "ex_hmap v = \<lparr>hm_slots = [Some (0, 0, v), None], hm_len = 1, hm_cap = 2, hm_grow_limit = 1\<rparr>"

definition ex_dsc :: actf_dstream_cls where
  "ex_dsc = \<lparr>dc_id = 0, dc_name = None, dc_namespace = None, dc_uid = None, dc_def_clkc_id = None,
     dc_def_clkc = None, dc_pkt_ctx = ex_ctx, dc_event_hdr = ACTF_FLD_CLS_NIL,
     dc_event_common_ctx = ACTF_FLD_CLS_NIL, dc_idtoevc = ex_hmap ex_evc\<rparr>"

definition ex_metadata :: actf_metadata where
  "ex_metadata = \<lparr>md_preamble = \<lparr>pa_version = 2, pa_uuid = [], pa_has_uuid = False\<rparr>,
     md_preamble_is_set = True, md_fld_cls_aliases = [],
     md_trace_cls = \<lparr>tc_namespace = None, tc_name = None, tc_uid = None, tc_pkt_hdr = ACTF_FLD_CLS_NIL\<rparr>,
     md_trace_cls_is_set = False, md_clk_clses = [], md_dscs = [ex_dsc],
     md_idtodsc = ex_hmap 0\<rparr>"

definition ex_pkt_state :: pkt_state where
  "ex_pkt_state = \<lparr>ps_bit_off = 0, ps_def_clk_val = 0, ps_begin_def_clk_val = 0, ps_disc_er_snap = 0,
     ps_dsc_cls = None, ps_dsc_id = 0, ps_ds_id = 0, ps_last_bo = ACTF_LIL_ENDIAN,
     ps_content_len = UINT64_MAX, ps_end_def_clk_val = 0, ps_seq_num = 0, ps_tot_len = UINT64_MAX,
     ps_opt_flags = {}\<rparr>"

definition ex_event :: actf_event where
  "ex_event = \<lparr>ev_s = event_state_init, ev_props = replicate 4 zero_fld\<rparr>"

text \<open>A decoder over the given bytes with room for \<open>cap\<close> events; every allocation succeeds.\<close>

definition ex_decoder :: "nat \<Rightarrow> u8 list \<Rightarrow> actf_decoder" where
  "ex_decoder cap dat =
     \<lparr>d_state = {}, d_err_rc = ACTF_ERROR, d_seek_evs_off = 0, d_seek_evs_len = 0,
      d_metadata = ex_metadata, d_br = breader_init dat ACTF_LIL_ENDIAN,
      d_evs = replicate cap ex_event, d_evs_cap = cap, d_evs_len = 0,
      d_s = \<lparr>ds_pkt_arena = [], ds_ev_arena = [],
             ds_pkt = \<lparr>pk_s = ex_pkt_state, pk_props = replicate 2 zero_fld\<rparr>,
             ds_ev = None, ds_ctx = DEC_CTX_PKT_HEADER\<rparr>,
      d_oom = (\<lambda>n sz. False), d_allocs = 0, d_depth = 4\<rparr>"

lemma ex_view [simp]:
  "d_br (ex_decoder cap dat) = breader_init dat ACTF_LIL_ENDIAN" "pkt_s (ex_decoder cap dat) = ex_pkt_state"
  "d_state (ex_decoder cap dat) = {}" "d_evs_cap (ex_decoder cap dat) = cap"
  "ps_bit_off ex_pkt_state = 0" "ps_content_len ex_pkt_state = UINT64_MAX" "ps_opt_flags ex_pkt_state = {}"
  "ba_len ex_bits = 8" "ba_bo ex_bits = ACTF_LIL_ENDIAN" "ba_align ex_bits = 8" "ba_bito ex_bits = ACTF_FIRST_TO_LAST"
  by (simp_all add: ex_decoder_def ex_pkt_state_def ex_bits_def)

text \<open>The premises of the theorems on bit arrays, at the start of the data.\<close>

lemma ex_ready:
  assumes "length dat < 2 ^ 60"
  shows "br_at dat ACTF_LIL_ENDIAN 0 (d_br (ex_decoder cap dat))"
    "unat (ps_bit_off (pkt_s (ex_decoder cap dat))) \<le> 0" "ACTF_LIL_ENDIAN = ba_bo ex_bits \<or> 8 dvd (0 :: nat)"
    "0 < unat (ba_len ex_bits)" "unat (ba_len ex_bits) \<le> 64" "ba_align ex_bits = 2 ^ 3" "(3 :: nat) < 64"
  using assms by (simp_all add: br_at_init)

end
