(* ===== verification/Value_Theorems.thy ===== *)
theory Value_Theorems
  imports Clock Var_Len Example_Trace
begin

text \<open>
  Properties of the values that the decoder computes: variable-length integers, clock updates and
  timestamps.
\<close>

unbundle bit_operations_syntax

section \<open>Variable-length integers\<close>

text \<open>
  C10. Decoding a variable-length unsigned integer of at most ten bytes stores the number that its
  bytes encode in LEB128, if the reader is in little-endian order already or stands at a byte
  boundary: from the next byte boundary on, the bytes up to the first one without the continuation
  bit are consumed, the field gets their value, modulo two to the power of 64, and their number of
  payload bits, at most 64, and no other field is touched. (More than ten bytes make the code shift
  by 64 or more, which is undefined; a big-endian reader within a byte is excluded because the code
  swaps the lookahead before it aligns.)
\<close>

theorem var_len_uint_field_decoded:
  assumes "br_at dat bo p (d_br d)" "unat (ps_bit_off (pkt_s d)) \<le> p" "bo = ACTF_LIL_ENDIAN \<or> 8 dvd p"
    and "align_up 8 p = 8 * k" "leb_at dat k bs" "length bs \<le> 10" "8 * (k + length bs) \<le> pkt_end d"
    and "load_fld ptr d = Some f"
  shows "\<exists>d'. fld_cls_decode (ACTF_FLD_CLS_VAR_LEN_UINT i r) ptr d = (Ok (), d') \<and>
    load_fld ptr d' = Some (f\<lparr>f_cls := Some (ACTF_FLD_CLS_VAR_LEN_UINT i r), f_type := ACTF_FLD_TYPE_UINT,
      f_d := D_uint (of_nat (leb_val bs)) (of_nat (min (7 * length bs) 64))\<rparr>) \<and>
    (\<forall>q. q \<noteq> ptr \<longrightarrow> load_fld q d' = load_fld q d) \<and>
    br_at dat ACTF_LIL_ENDIAN (8 * (k + length bs)) (d_br d')"
proof -
  let ?cls = "ACTF_FLD_CLS_VAR_LEN_UINT i r"
  let ?d1 = "store_fld ptr (f\<lparr>f_cls := Some ?cls\<rparr>) d"
  have at: "dec_at True dat bo p ?d1" using assms(1,2) by (simp add: dec_at_def)
  have fits: "8 * (k + length bs) \<le> pkt_end ?d1" using assms(7) by (simp add: pkt_end_def)
  obtain br where br: "fld_cls_var_len_int_decode ?cls ?d1 =
      (Ok (of_nat (leb_val bs), min (7 * length bs) 64), ?d1\<lparr>d_br := br\<rparr>)"
    "br_at dat ACTF_LIL_ENDIAN (8 * (k + length bs)) br"
    using var_len_int_decode_leb [OF at assms(3) _ assms(4-6) fits, of ?cls] by auto
  have "\<exists>d'. fld_cls_decode ?cls ptr d = (Ok (), d') \<and>
    load_fld ptr d' = Some (f\<lparr>f_cls := Some ?cls, f_type := ACTF_FLD_TYPE_UINT,
      f_d := D_uint (of_nat (leb_val bs)) (of_nat (min (7 * length bs) 64))\<rparr>) \<and>
    (\<forall>q. q \<noteq> ptr \<longrightarrow> load_fld q d' = load_fld q d) \<and> d_br d' = d_br (?d1\<lparr>d_br := br\<rparr>)"
    by (rule decoded_field_spec [where m = "fld_cls_var_len_int_decode ?cls" and cls = ?cls and d = d and f = f,
          OF assms(8) _ br(1), where fin = "\<lambda>(u, n). set_val ptr ACTF_FLD_TYPE_UINT (D_uint u (of_nat n))"])
      (simp_all add: fld_cls_decode.simps fld_cls_var_len_uint_decode_def del: load_fld.simps)
  then show ?thesis using br(2) by auto
qed

theorem var_len_uint_field_decoded_witness:
  "\<exists>d'. fld_cls_decode (ACTF_FLD_CLS_VAR_LEN_UINT ex_int_cls {}) (PktProp 0) (ex_decoder 1 [0xE5, 0x8E, 0x26]) = (Ok (), d') \<and>
    actf_fld_uint64 (the (load_fld (PktProp 0) d')) = 624485"
proof -
  let ?bs = "[0xE5, 0x8E, 0x26] :: u8 list"
  have v: "leb_val ?bs = 624485" by simp
  have l: "leb_at ?bs 0 ?bs" by code_simp
  have z: "load_fld (PktProp 0) (ex_decoder 1 ?bs) = Some zero_fld" by (simp add: ex_decoder_def)
  have r: "br_at ?bs ACTF_LIL_ENDIAN 0 (d_br (ex_decoder 1 ?bs))" by (rule ex_ready) simp
  have w: "8 * (0 + length ?bs) \<le> pkt_end (ex_decoder 1 ?bs)" "align_up 8 0 = 8 * 0"
    by (simp_all add: pkt_end_def align_up_def)
  obtain d' where d': "fld_cls_decode (ACTF_FLD_CLS_VAR_LEN_UINT ex_int_cls {}) (PktProp 0) (ex_decoder 1 ?bs) = (Ok (), d')"
    "load_fld (PktProp 0) d' = Some (zero_fld\<lparr>f_cls := Some (ACTF_FLD_CLS_VAR_LEN_UINT ex_int_cls {}),
      f_type := ACTF_FLD_TYPE_UINT, f_d := D_uint (of_nat (leb_val ?bs)) (of_nat (min (7 * length ?bs) 64))\<rparr>)"
    using var_len_uint_field_decoded [where i = ex_int_cls and r = "{}", OF r _ _ w(2) l _ w(1) z] by auto
  show ?thesis using d' unfolding v by (simp add: actf_fld_uint64_def del: load_fld.simps)
qed

text \<open>
  C11. Every 64-bit number survives the round trip: written in LEB128 at a byte boundary and read
  back by the decoder it is the same number, and the reader stands behind its last byte.
\<close>

theorem var_len_round_trip:
  assumes "dat = pre @ leb_enc (unat (v :: u64)) @ post"
    and "br_at dat bo (8 * length pre) (d_br d)" "unat (ps_bit_off (pkt_s d)) \<le> 8 * length pre"
    and "8 * (length pre + length (leb_enc (unat v))) \<le> pkt_end d"
  shows "\<exists>n br. fld_cls_var_len_int_decode (ACTF_FLD_CLS_VAR_LEN_UINT i r) d = (Ok (v, n), d\<lparr>d_br := br\<rparr>) \<and>
    br_at dat ACTF_LIL_ENDIAN (8 * length (pre @ leb_enc (unat v))) br"
proof -
  have at: "dec_at True dat bo (8 * length pre) d" using assms(2,3) by (simp add: dec_at_def)
  show ?thesis
    using var_len_int_decode_leb [OF at _ _ _ leb_at_enc(1) [OF assms(1)] leb_at_enc(2) [OF assms(1)] assms(4), of "ACTF_FLD_CLS_VAR_LEN_UINT i r"]
    by (auto simp: leb_enc_facts align_up_def algebra_simps)
qed

theorem var_len_round_trip_witness:
  "\<exists>n br. fld_cls_var_len_int_decode (ACTF_FLD_CLS_VAR_LEN_UINT ex_int_cls {})
      (ex_decoder 1 (leb_enc 300 @ [7])) = (Ok (300, n), (ex_decoder 1 (leb_enc 300 @ [7]))\<lparr>d_br := br\<rparr>)"
proof -
  let ?bs = "leb_enc 300 @ [7] :: u8 list"
  have e: "leb_enc 300 = [0xAC, 2]" by code_simp
  have r: "br_at ?bs ACTF_LIL_ENDIAN 0 (d_br (ex_decoder 1 ?bs))" by (rule ex_ready) (simp add: e)
  show ?thesis
    using var_len_round_trip [of ?bs "[]" 300 "[7]" ACTF_LIL_ENDIAN "ex_decoder 1 ?bs" ex_int_cls "{}"] r
    by (auto simp: pkt_end_def e)
qed

section \<open>The clock\<close>

text \<open>
  C12. A clock update with an \<open>l\<close>-bit snapshot \<open>v\<close> yields the least clock value that is not
  before the current one and agrees with the snapshot in its low \<open>l\<close> bits, as long as that value
  fits into 64 bits; the clock never runs backwards.
\<close>

theorem clock_update_is_least_next:
  assumes "0 < l" "l \<le> 64" "unat v < 2 ^ l" "\<exists>x < 2 ^ 64. unat c \<le> x \<and> x mod 2 ^ l = unat v"
  shows "\<exists>c'. update_clk l v c = Ok c' \<and> unat c \<le> unat c' \<and> unat c' mod 2 ^ l = unat v \<and>
    (\<forall>x. unat c \<le> x \<longrightarrow> x mod 2 ^ l = unat v \<longrightarrow> unat c' \<le> x)"
proof -
  let ?n = "next_clk l (unat v) (unat c)"
  obtain x where x: "x < 2 ^ 64" "unat c \<le> x" "x mod 2 ^ l = unat v" using assms(4) by blast
  have "?n < 2 ^ 64" using next_clk_least [OF assms(3) x(2,3)] x(1) by simp
  then have "unat (of_nat ?n :: u64) = ?n" by (simp add: unat_of_nat take_bit_nat_eq_self)
  then show ?thesis
    using update_clk_next [OF assms(1,2), of v c] next_clk_facts [OF assms(3)] next_clk_least [OF assms(3)] by auto
qed

theorem clock_update_is_least_next_witness:
  "\<exists>c'. update_clk 8 3 0x1F0 = Ok c' \<and> unat c' mod 256 = 3 \<and> 0x1F0 \<le> unat c'"
proof -
  have "\<exists>x < 2 ^ 64. unat (0x1F0 :: u64) \<le> x \<and> x mod 2 ^ 8 = unat (3 :: u64)" by (rule exI [of _ 515]) simp
  then show ?thesis using clock_update_is_least_next [where l = 8 and v = 3 and c = "0x1F0"] by auto
qed

text \<open>
  C13. The conversion of a clock value to nanoseconds is exact: where the sum of the cycles does
  not wrap, the frequency leaves room for the product of a remainder, and the result is
  representable, it is the offset in seconds plus the cycles scaled to nanoseconds and rounded
  down.
\<close>

theorem cycles_to_ns_exact:
  assumes "0 < uint (ck_freq clkc)" "uint (ck_freq clkc) * 1000000000 \<le> 2 ^ 64"
    and "uint cc + uint (ck_off_cycles clkc) < 2 ^ 64"
      "(uint cc + uint (ck_off_cycles clkc)) div uint (ck_freq clkc) < 2 ^ 63"
    and "in_i64 (sint (ck_off_seconds clkc) + (uint cc + uint (ck_off_cycles clkc)) div uint (ck_freq clkc))"
      "in_i64 ((sint (ck_off_seconds clkc) +
        (uint cc + uint (ck_off_cycles clkc)) div uint (ck_freq clkc)) * 1000000000)"
    and "in_i64 (exact_ns clkc cc)"
  shows "\<exists>r. actf_clk_cls_cc_to_ns_from_origin clkc cc = Ok r \<and> sint r =
    sint (ck_off_seconds clkc) * 1000000000 + ((uint cc + uint (ck_off_cycles clkc)) * 1000000000) div uint (ck_freq clkc)"
  using cc_to_ns_exact [OF assms] unfolding exact_ns_def by metis

definition ex_clk :: actf_clk_cls where
  "ex_clk = \<lparr>ck_id = ''c'', ck_namespace = None, ck_name = None, ck_uid = None, ck_freq = 3,
     ck_origin = ACTF_CLK_ORIGIN_TYPE_UNIX_EPOCH, ck_off_seconds = - 1, ck_off_cycles = 1, ck_precision = None, ck_accuracy = None,
     ck_desc = None\<rparr>"

theorem cycles_to_ns_exact_witness:
  "\<exists>r. actf_clk_cls_cc_to_ns_from_origin ex_clk 4 = Ok r \<and> sint r = 666666666"
  using cycles_to_ns_exact [of ex_clk 4] by (simp add: ex_clk_def in_i64_def exact_ns_def)

end
