(* ===== verification/Hash_Map_Spec.thy ===== *)
theory Hash_Map_Spec
  imports Hash_Map "HOL-Library.Multiset"
begin

text \<open>
  The hash map refines a finite map: the invariant of the slots, lookups and insertions in terms
  of the entries, and the interface through which the metadata uses it.
\<close>

unbundle bit_operations_syntax

section \<open>Entries and probe paths\<close>

fun entries :: "('k, 'v) slot list \<Rightarrow> ('k \<times> 'v) list" where
  "entries [] = []"
| "entries (None # ss) = entries ss"
| "entries (Some (h, k, v) # ss) = (k, v) # entries ss"

lemma set_entries: "(k, v) \<in> set (entries ss) \<longleftrightarrow> (\<exists>h. Some (h, k, v) \<in> set ss)"
  by (induction ss rule: entries.induct) auto

lemma mset_entries_update:
  "i < length ss \<Longrightarrow> ss ! i = None \<Longrightarrow>
   mset (entries (ss[i := Some (h, k, v)])) = add_mset (k, v) (mset (entries ss))"
proof (induction ss arbitrary: i rule: entries.induct)
  case (2 ss)
  then show ?case by (cases i) simp_all
next
  case (3 h' k' v' ss)
  then show ?case by (cases i) (simp_all add: add_mset_commute)
qed simp

lemma entries_full: "None \<notin> set ss \<Longrightarrow> length (entries ss) = length ss"
  by (induction ss rule: entries.induct) auto

lemma entries_replicate [simp]: "entries (replicate n None) = []"
  by (induction n) simp_all

text \<open>The slots from the home position on, up to a distance \<open>d\<close>, are taken.\<close>

definition on_path :: "('k, 'v) slot list \<Rightarrow> nat \<Rightarrow> nat \<Rightarrow> bool" where
  "on_path ss s d \<longleftrightarrow> (\<forall>j < d. ss ! ((s + j) mod length ss) \<noteq> None)"

lemma wrap_mod: "hm_wrap (2 ^ k) i = i mod 2 ^ k"
proof -
  have "(2 :: nat) ^ k - 1 = mask k" by (simp add: mask_eq_exp_minus_1)
  then show ?thesis unfolding hm_wrap_def by (metis take_bit_eq_mask take_bit_eq_mod)
qed

lemma wrap_step: "length ss = 2 ^ k \<Longrightarrow> hm_wrap (length ss) (s mod length ss + 1) = Suc s mod length ss"
  by (simp add: wrap_mod mod_Suc_eq)

lemma mod_reach: "i < c \<Longrightarrow> \<exists>d < c. (s + d) mod c = i" for i c s :: nat
proof (intro exI conjI)
  assume i: "i < c"
  let ?d = "(i + (c - s mod c)) mod c"
  show "?d < c" using i by simp
  have "(s + ?d) mod c = (s mod c + (i + (c - s mod c))) mod c"
    by (metis mod_add_left_eq mod_add_right_eq)
  also have "s mod c + (i + (c - s mod c)) = i + c" using i mod_less_divisor [of c s] by linarith
  finally show "(s + ?d) mod c = i" using i by simp
qed

lemma free_slot_first:
  assumes "length ss = 2 ^ k"
  shows "d < n \<Longrightarrow> ss ! ((s + d) mod length ss) = None \<Longrightarrow> on_path ss s d \<Longrightarrow>
    hm_free_slot ss (s mod length ss) n = Some ((s + d) mod length ss)"
proof (induction d arbitrary: s n)
  case 0
  then show ?case by (cases n) simp_all
next
  case (Suc d)
  then obtain n' where n: "n = Suc n'" "d < n'" by (cases n) auto
  have p: "on_path ss (Suc s) d" "ss ! (s mod length ss) \<noteq> None"
    using Suc.prems(3) by (fastforce simp: on_path_def)+
  show ?case using Suc.IH [of n' "Suc s"] Suc.prems(2) n p wrap_step [OF assms, of s] by auto
qed

lemma free_slot_spec:
  assumes l: "length ss = 2 ^ k" and free: "None \<in> set ss"
  obtains d where "d < length ss" "hm_free_slot ss (s mod length ss) (length ss) = Some ((s + d) mod length ss)"
    "ss ! ((s + d) mod length ss) = None" "on_path ss s d"
proof -
  let ?P = "\<lambda>d. d < length ss \<and> ss ! ((s + d) mod length ss) = None"
  obtain i where "i < length ss" "ss ! i = None" using free by (metis in_set_conv_nth)
  then have "\<exists>d. ?P d" using mod_reach [of i "length ss" s] by metis
  then obtain d where d: "?P d" "\<forall>j < d. \<not> ?P j" using exists_least_iff [of ?P] by blast
  then have "on_path ss s d" by (auto simp: on_path_def)
  then show thesis using d free_slot_first [OF l, of d "length ss" s] that by blast
qed

lemma probe_found:
  assumes "length ss = 2 ^ k"
  shows "d < n \<Longrightarrow> ss ! ((s + d) mod length ss) = Some (h, k', v) \<Longrightarrow> cmp k' key \<Longrightarrow>
    (\<And>j. j < d \<Longrightarrow> \<exists>h k v. ss ! ((s + j) mod length ss) = Some (h, k, v) \<and> \<not> cmp k key) \<Longrightarrow>
    hm_probe cmp ss key (s mod length ss) n = Some ((s + d) mod length ss)"
proof (induction d arbitrary: s n)
  case 0
  then show ?case by (cases n) simp_all
next
  case (Suc d)
  then obtain n' where n: "n = Suc n'" "d < n'" by (cases n) auto
  obtain h0 k0 v0 where s: "ss ! (s mod length ss) = Some (h0, k0, v0)" "\<not> cmp k0 key"
    using Suc.prems(4) [of 0] by auto
  have "hm_probe cmp ss key (Suc s mod length ss) n' = Some ((Suc s + d) mod length ss)"
    using Suc.prems(2,3) Suc.prems(4) [of "Suc j" for j] by (intro Suc.IH n) simp_all
  then show ?case using n s wrap_step [OF assms, of s] by simp
qed

lemma probe_absent:
  assumes "length ss = 2 ^ k" "\<And>h k v. Some (h, k, v) \<in> set ss \<Longrightarrow> \<not> cmp k key"
  shows "hm_probe cmp ss key (s mod length ss) n = None"
proof (induction n arbitrary: s)
  case (Suc n)
  have "s mod length ss < length ss" using assms(1) by simp
  then have "ss ! (s mod length ss) \<in> set ss" by simp
  then show ?case using assms(2) Suc.IH [of "Suc s"] wrap_step [OF assms(1), of s]
    by (auto split: option.split)
qed simp

lemma probe_Some:
  assumes "length ss = 2 ^ k"
  shows "hm_probe cmp ss key (s mod length ss) n = Some i \<Longrightarrow>
    i < length ss \<and> (\<exists>h k' v. ss ! i = Some (h, k', v) \<and> cmp k' key)"
proof (induction n arbitrary: s)
  case (Suc n)
  have "s mod length ss < length ss" using assms by simp
  then show ?case using Suc wrap_step [OF assms, of s] by (auto split: option.splits if_splits)
qed simp

lemma probe_not_None:
  assumes "length ss = 2 ^ k"
  shows "d < n \<Longrightarrow> on_path ss s d \<Longrightarrow> ss ! ((s + d) mod length ss) = Some (h, k', v) \<Longrightarrow> cmp k' key \<Longrightarrow>
    hm_probe cmp ss key (s mod length ss) n \<noteq> None"
proof (induction d arbitrary: s n)
  case 0
  then show ?case by (cases n) simp_all
next
  case (Suc d)
  then obtain n' where n: "n = Suc n'" "d < n'" by (cases n) auto
  have p: "on_path ss (Suc s) d"
  proof (unfold on_path_def, intro allI impI)
    fix j assume "j < d"
    then show "ss ! ((Suc s + j) mod length ss) \<noteq> None"
      using Suc.prems(2) unfolding on_path_def by (metis Suc_less_eq add_Suc_shift)
  qed
  have "hm_probe cmp ss key (Suc s mod length ss) n' \<noteq> None"
    using Suc.prems by (intro Suc.IH [OF n(2) p]) simp_all
  moreover have "ss ! (s mod length ss) \<noteq> None" using Suc.prems(2) unfolding on_path_def by (metis add_0_right zero_less_Suc)
  ultimately show ?case using n wrap_step [OF assms, of s] by (auto split: option.splits)
qed

section \<open>The invariant\<close>

definition hm_ok :: "('k \<Rightarrow> u64) \<Rightarrow> ('k, 'v) hmap \<Rightarrow> bool" where
  "hm_ok hash m \<longleftrightarrow>
     (\<exists>k. 0 < k \<and> k < 64 \<and> hm_cap m = 2 ^ k) \<and> length (hm_slots m) = hm_cap m \<and>
     hm_len m = length (entries (hm_slots m)) \<and> hm_grow_limit m = hm_cap m div 2 \<and>
     distinct (map fst (entries (hm_slots m))) \<and>
     (\<forall>i h k v. i < hm_cap m \<longrightarrow> hm_slots m ! i = Some (h, k, v) \<longrightarrow>
        h = hm_hash hash k \<and>
        (\<exists>d < hm_cap m. i = (unat h + d) mod hm_cap m \<and> on_path (hm_slots m) (unat h) d))"

definition hm_abs :: "('k, 'v) hmap \<Rightarrow> 'k \<Rightarrow> 'v option" where
  "hm_abs m = map_of (entries (hm_slots m))"

lemma hm_okD:
  assumes "hm_ok hash m"
  obtains k where "0 < k" "k < 64" "hm_cap m = 2 ^ k" "length (hm_slots m) = 2 ^ k"
    "hm_len m = length (entries (hm_slots m))" "hm_grow_limit m = hm_cap m div 2" "hm_grow_limit m < hm_cap m"
    "distinct (map fst (entries (hm_slots m)))"
  using assms by (auto simp: hm_ok_def)

lemma hm_ok_bounds:
  assumes "hm_ok hash m"
  shows "hm_grow_limit m < hm_cap m" "hm_len m = length (entries (hm_slots m))" "hm_grow_limit m = hm_cap m div 2"
  using assms by (auto elim: hm_okD)

lemma hm_ok_slot:
  assumes "hm_ok hash m" "i < length (hm_slots m)" "hm_slots m ! i = Some (h, k, v)"
  obtains d where "h = hm_hash hash k" "d < length (hm_slots m)" "i = (unat h + d) mod length (hm_slots m)"
    "on_path (hm_slots m) (unat h) d"
  using assms unfolding hm_ok_def by metis

lemma hm_init_cap_ok:
  assumes "hm_init_cap alloc (2 ^ k) = Some m" "0 < k" "k < 64"
  shows "hm_ok hash m" "entries (hm_slots m) = []" "hm_cap m = 2 ^ k"
  using assms by (auto simp: hm_init_cap_def hm_ok_def split: if_splits)

lemma pow2_ok: "map_is_pow2 (2 ^ k)"
  using wrap_mod [of k "2 ^ k"] by (simp add: map_is_pow2_def hm_wrap_def)

section \<open>Lookup\<close>

text \<open>Whatever the comparison, a lookup returns an entry, and a key without a match has no entry.\<close>

lemma find_in_entries:
  assumes "hm_ok hash m" "hm_find hash cmp m key = Some v"
  shows "\<exists>k. (k, v) \<in> set (entries (hm_slots m)) \<and> cmp k key"
proof -
  obtain n where l: "hm_cap m = 2 ^ n" "length (hm_slots m) = 2 ^ n" using hm_okD [OF assms(1)] by metis
  obtain i where i: "hm_index hash cmp m key = Some i" "v = snd (snd (the (hm_slots m ! i)))"
    using assms(2) by (auto simp: hm_find_def)
  have "hm_probe cmp (hm_slots m) key (unat (hm_hash hash key) mod length (hm_slots m)) (hm_cap m) = Some i"
    using i(1) l by (simp add: hm_index_def wrap_mod)
  from probe_Some [OF l(2) this] obtain h k where "i < length (hm_slots m)" "hm_slots m ! i = Some (h, k, v)" "cmp k key"
    using i(2) by auto
  then show ?thesis by (metis nth_mem set_entries)
qed

lemma not_contained_fresh:
  assumes "hm_ok hash m" "\<not> hm_contains hash cmp m key" "cmp key key"
  shows "key \<notin> fst ` set (entries (hm_slots m))"
proof
  assume "key \<in> fst ` set (entries (hm_slots m))"
  then obtain v where "(key, v) \<in> set (entries (hm_slots m))" by auto
  then obtain h i where i: "i < length (hm_slots m)" "hm_slots m ! i = Some (h, key, v)"
    unfolding set_entries by (metis in_set_conv_nth)
  obtain n where l: "hm_cap m = 2 ^ n" "length (hm_slots m) = 2 ^ n" using hm_okD [OF assms(1)] by metis
  obtain d where d: "h = hm_hash hash key" "d < length (hm_slots m)" "i = (unat h + d) mod length (hm_slots m)"
    "on_path (hm_slots m) (unat h) d" using hm_ok_slot [OF assms(1) i] .
  have "hm_probe cmp (hm_slots m) key (unat h mod length (hm_slots m)) (hm_cap m) \<noteq> None"
    using d i l assms(3) by (intro probe_not_None [OF l(2) _ d(4)]) auto
  then show False using assms(2) d(1) l by (simp add: hm_contains_def hm_find_def hm_index_def wrap_mod)
qed

text \<open>
  The keys for which the comparison of the C code is equality; the comparison of 64-bit keys is
  equality only within a block of \<open>2 ^ 32\<close> keys.
\<close>

locale hash_keys =
  fixes hash :: "'k \<Rightarrow> u64"
    and cmp :: "'k \<Rightarrow> 'k \<Rightarrow> bool"
    and K :: "'k set"
  assumes cmp_iff: "k \<in> K \<Longrightarrow> k' \<in> K \<Longrightarrow> cmp k k' \<longleftrightarrow> k = k'"
begin

lemma find_entry:
  assumes ok: "hm_ok hash m" and K: "fst ` set (entries (hm_slots m)) \<subseteq> K" "key \<in> K"
    and e: "(key, v) \<in> set (entries (hm_slots m))"
  shows "hm_find hash cmp m key = Some v"
proof -
  obtain k where l: "hm_cap m = 2 ^ k" "length (hm_slots m) = 2 ^ k"
    "distinct (map fst (entries (hm_slots m)))" using hm_okD [OF ok] by metis
  obtain i h where i: "i < length (hm_slots m)" "hm_slots m ! i = Some (h, key, v)"
    using e by (metis in_set_conv_nth set_entries)
  obtain d where h: "h = hm_hash hash key" and d: "d < length (hm_slots m)"
    "i = (unat h + d) mod length (hm_slots m)" "on_path (hm_slots m) (unat h) d"
    using hm_ok_slot [OF ok i] .
  define dm where "dm = (LEAST j. \<exists>h' v'. hm_slots m ! ((unat h + j) mod length (hm_slots m)) = Some (h', key, v'))"
  have ex: "\<exists>h' v'. hm_slots m ! ((unat h + d) mod length (hm_slots m)) = Some (h', key, v')" using i d(2) by blast
  obtain h' v' where dm: "hm_slots m ! ((unat h + dm) mod length (hm_slots m)) = Some (h', key, v')"
    unfolding dm_def using LeastI [where P = "\<lambda>j. \<exists>h' v'. hm_slots m ! ((unat h + j) mod length (hm_slots m)) = Some (h', key, v')", OF ex] by blast
  have le: "dm \<le> d" unfolding dm_def using ex by (rule Least_le)
  have "(unat h + dm) mod length (hm_slots m) < length (hm_slots m)" using l by simp
  then have "Some (h', key, v') \<in> set (hm_slots m)" using dm by (metis nth_mem)
  then have "(key, v') \<in> set (entries (hm_slots m))" by (auto simp: set_entries)
  then have v: "v' = v" using e l(3) by (metis map_of_is_SomeI option.inject)
  have "hm_probe cmp (hm_slots m) key (unat h mod length (hm_slots m)) (hm_cap m) =
      Some ((unat h + dm) mod length (hm_slots m))"
  proof (rule probe_found [OF l(2) _ dm])
    show "dm < hm_cap m" using le d(1) l by simp
    show "cmp key key" using cmp_iff K(2) by simp
    fix j assume j: "j < dm"
    then obtain h0 k0 v0 where s: "hm_slots m ! ((unat h + j) mod length (hm_slots m)) = Some (h0, k0, v0)"
      using d(3) le less_le_trans [OF j le] unfolding on_path_def by (metis not_None_eq prod_cases3)
    moreover have "(unat h + j) mod length (hm_slots m) < length (hm_slots m)" using l by simp
    ultimately have "Some (h0, k0, v0) \<in> set (hm_slots m)" by (metis nth_mem)
    then have "k0 \<in> K" using K(1) set_entries by fastforce
    moreover have "k0 \<noteq> key" using s not_less_Least [OF j [unfolded dm_def]] by blast
    ultimately show "\<exists>h1 k1 v1. hm_slots m ! ((unat h + j) mod length (hm_slots m)) = Some (h1, k1, v1) \<and> \<not> cmp k1 key"
      using s cmp_iff K(2) by blast
  qed
  then show ?thesis using dm v h l by (simp add: hm_find_def hm_index_def wrap_mod)
qed

text \<open>A lookup returns the entry of the key, if it has one.\<close>

lemma find_abs:
  assumes ok: "hm_ok hash m" and K: "fst ` set (entries (hm_slots m)) \<subseteq> K" "key \<in> K"
  shows "hm_find hash cmp m key = hm_abs m key"
proof (cases "hm_abs m key")
  case None
  obtain k where l: "hm_cap m = 2 ^ k" "length (hm_slots m) = 2 ^ k" using hm_okD [OF ok] by metis
  have "\<not> cmp k key" if "Some (h, k, v) \<in> set (hm_slots m)" for h k v
  proof -
    have "k \<in> K" using that K(1) set_entries by fastforce
    moreover have "k \<noteq> key" using that None set_entries by (force simp: hm_abs_def map_of_eq_None_iff)
    ultimately show ?thesis using cmp_iff K(2) by simp
  qed
  then have "hm_probe cmp (hm_slots m) key (s mod length (hm_slots m)) n = None" for s n
    by (intro probe_absent [where cmp = cmp and key = key, OF l(2)])
  then show ?thesis using None l by (simp add: hm_find_def hm_index_def wrap_mod)
next
  case (Some v)
  then have "(key, v) \<in> set (entries (hm_slots m))" by (simp add: hm_abs_def map_of_SomeD)
  with Some find_entry [OF assms] show ?thesis by simp
qed

end

section \<open>Insertion\<close>

text \<open>Placing an entry for a new key at the first free slot of its probe path.\<close>

definition placed :: "('k, 'v) hmap \<Rightarrow> nat \<Rightarrow> u64 \<Rightarrow> 'k \<Rightarrow> 'v \<Rightarrow> ('k, 'v) hmap" where
  "placed m i h k v = m\<lparr>hm_slots := (hm_slots m)[i := Some (h, k, v)], hm_len := hm_len m + 1\<rparr>"

lemma placed_view [simp]:
  "hm_slots (placed m i h k v) = (hm_slots m)[i := Some (h, k, v)]" "hm_len (placed m i h k v) = hm_len m + 1"
  "hm_cap (placed m i h k v) = hm_cap m" "hm_grow_limit (placed m i h k v) = hm_grow_limit m"
  by (simp_all add: placed_def)

lemma fst_entries_mset: "set (map fst (entries ss)) = fst ` set_mset (mset (entries ss))"
  by simp

lemma place_ok:
  assumes ok: "hm_ok hash m" and room: "hm_len m < hm_cap m" and new: "k \<notin> fst ` set (entries (hm_slots m))"
  obtains i where
    "hm_free_slot (hm_slots m) (hm_wrap (hm_cap m) (unat (hm_hash hash k))) (hm_cap m) = Some i"
    "hm_ok hash (placed m i (hm_hash hash k) k v)"
    "mset (entries (hm_slots (placed m i (hm_hash hash k) k v))) = add_mset (k, v) (mset (entries (hm_slots m)))"
proof -
  let ?h = "hm_hash hash k" and ?ss = "hm_slots m"
  obtain n where n: "0 < n" "n < 64" "hm_cap m = 2 ^ n" "length ?ss = 2 ^ n" "hm_len m = length (entries ?ss)"
    "hm_grow_limit m = hm_cap m div 2" "distinct (map fst (entries ?ss))"
    using hm_okD [OF ok] by metis
  have "None \<in> set ?ss" using entries_full [of ?ss] room n by auto
  then obtain d where d: "d < length ?ss"
    "hm_free_slot ?ss (unat ?h mod length ?ss) (length ?ss) = Some ((unat ?h + d) mod length ?ss)"
    "?ss ! ((unat ?h + d) mod length ?ss) = None" "on_path ?ss (unat ?h) d"
    using free_slot_spec [OF n(4)] by metis
  define i where "i = (unat ?h + d) mod length ?ss"
  let ?m = "placed m i ?h k v"
  have i: "i < length ?ss" "?ss ! i = None" using n d by (auto simp: i_def)
  have e: "mset (entries (hm_slots ?m)) = add_mset (k, v) (mset (entries ?ss))"
    using mset_entries_update [OF i] by simp
  have len: "length (entries (hm_slots ?m)) = Suc (hm_len m)" using arg_cong [OF e, of size] n(5) by simp
  have "mset (map fst (entries (hm_slots ?m))) = add_mset k (mset (map fst (entries ?ss)))"
    using arg_cong [OF e, of "image_mset fst"] by simp
  then have dist: "distinct (map fst (entries (hm_slots ?m)))"
    using n(7) new by (metis distinct.simps(2) mset.simps(2) mset_eq_imp_distinct_iff set_map)
  have path: "on_path (hm_slots ?m) s c" if "on_path ?ss s c" for s c
    using that n(4) i(1) by (auto simp: on_path_def nth_list_update)
  have slot: "h = hm_hash hash k' \<and> (\<exists>c < hm_cap m. j = (unat h + c) mod hm_cap m \<and> on_path (hm_slots ?m) (unat h) c)"
    if j: "j < hm_cap m" "hm_slots ?m ! j = Some (h, k', v')" for j h k' v'
  proof (cases "j = i")
    case True
    then have "h = ?h" "k' = k" using j(2) i by auto
    then show ?thesis using True d(1,4) path i_def n(3,4) by auto
  next
    case False
    then have "?ss ! j = Some (h, k', v')" using j by simp
    then obtain c where "h = hm_hash hash k'" "c < length ?ss" "j = (unat h + c) mod length ?ss" "on_path ?ss (unat h) c"
      using hm_ok_slot [OF ok, of j h k' v'] j(1) n(3,4) by auto
    then show ?thesis using path n(3,4) by auto
  qed
  have "hm_ok hash ?m" unfolding hm_ok_def using n len dist slot by auto
  moreover have "hm_free_slot ?ss (hm_wrap (hm_cap m) (unat ?h)) (hm_cap m) = Some i"
    using d(2) n(3,4) by (simp add: wrap_mod i_def)
  ultimately show thesis using that [of i] e by blast
qed

text \<open>An insertion that keeps the entries, adds one, and never shrinks the map.\<close>

definition inserted :: "('k \<Rightarrow> u64) \<Rightarrow> ('k, 'v) hmap \<Rightarrow> 'k \<Rightarrow> 'v \<Rightarrow> ('k, 'v) hmap res \<Rightarrow> bool" where
  "inserted hash m k v r \<longleftrightarrow> (\<exists>m'. r = Ok m' \<and> hm_ok hash m' \<and> hm_cap m \<le> hm_cap m' \<and>
     mset (entries (hm_slots m')) = add_mset (k, v) (mset (entries (hm_slots m))))"

abbreviation reinsert ::
  "nat \<Rightarrow> (nat \<Rightarrow> bool) \<Rightarrow> ('k, 'v) hmap res \<Rightarrow> ('k, 'v) slot \<Rightarrow> ('k, 'v) hmap res" where
  "reinsert fuel alloc acc s \<equiv> (case (acc, s) of
     (Ok nm, Some (h, k, v)) \<Rightarrow> hm_insert_hash_unchk fuel alloc nm h k v | _ \<Rightarrow> acc)"

lemma rehash_ok:
  fixes nm :: "('k, 'v) hmap"
  assumes step: "\<And>(nm :: ('k, 'v) hmap) k v. hm_ok hash nm \<Longrightarrow> C \<le> hm_grow_limit nm \<Longrightarrow> hm_len nm < B \<Longrightarrow>
      k \<notin> fst ` set (entries (hm_slots nm)) \<Longrightarrow>
      inserted hash nm k v (hm_insert_hash_unchk fuel alloc nm (hm_hash hash k) k v)"
  shows "hm_ok hash nm \<Longrightarrow> C \<le> hm_grow_limit nm \<Longrightarrow> hm_len nm + length (entries ss) \<le> B \<Longrightarrow>
    (\<And>h k v. Some (h, k, v) \<in> set ss \<Longrightarrow> h = hm_hash hash k) \<Longrightarrow>
    distinct (map fst (entries ss)) \<Longrightarrow> fst ` set (entries (hm_slots nm)) \<inter> fst ` set (entries ss) = {} \<Longrightarrow>
    \<exists>m'. foldl (reinsert fuel alloc) (Ok nm) ss = Ok m' \<and> hm_ok hash m' \<and> hm_cap nm \<le> hm_cap m' \<and>
      mset (entries (hm_slots m')) = mset (entries (hm_slots nm)) + mset (entries ss)"
proof (induction ss arbitrary: nm rule: entries.induct)
  case (3 h k v ss)
  have h: "h = hm_hash hash k" using "3.prems"(4) [of h k v] by simp
  have new: "k \<notin> fst ` set (entries (hm_slots nm))" "hm_len nm < B" using "3.prems"(3,6) by auto
  obtain m1 where m1: "hm_insert_hash_unchk fuel alloc nm h k v = Ok m1" "hm_ok hash m1" "hm_cap nm \<le> hm_cap m1"
    "mset (entries (hm_slots m1)) = add_mset (k, v) (mset (entries (hm_slots nm)))"
    using step [OF "3.prems"(1,2) new(2,1), of v] unfolding h inserted_def by blast
  have len: "hm_len m1 = Suc (hm_len nm)"
    using m1(4) hm_ok_bounds(2) [OF m1(2)] hm_ok_bounds(2) [OF "3.prems"(1)] by (metis size_add_mset size_mset)
  have lim: "hm_grow_limit nm \<le> hm_grow_limit m1"
    using m1(3) hm_ok_bounds(3) [OF m1(2)] hm_ok_bounds(3) [OF "3.prems"(1)] by (simp add: div_le_mono)
  have keys: "fst ` set (entries (hm_slots m1)) = insert k (fst ` set (entries (hm_slots nm)))"
    using arg_cong [OF m1(4), of "\<lambda>M. fst ` set_mset M"] by simp
  have "\<exists>m'. foldl (reinsert fuel alloc) (Ok m1) ss = Ok m' \<and> hm_ok hash m' \<and> hm_cap m1 \<le> hm_cap m' \<and>
      mset (entries (hm_slots m')) = mset (entries (hm_slots m1)) + mset (entries ss)"
    using "3.prems"(2-) len lim keys by (intro "3.IH" m1(2)) auto
  then show ?case using m1 by auto
qed auto

text \<open>
  How deep growth can recurse: not at all below the limit; once when the limit is reached, since
  the doubled map has room; and once more only in a map that failed to grow before.
\<close>

definition fits :: "nat \<Rightarrow> ('k, 'v) hmap \<Rightarrow> bool" where
  "fits n m \<longleftrightarrow> (if n = 0 then hm_len m + 1 < hm_grow_limit m
     else if n = 1 then hm_len m < hm_grow_limit m else hm_len m < hm_cap m)"

definition grown :: "nat \<Rightarrow> (nat \<Rightarrow> bool) \<Rightarrow> ('k, 'v) hmap \<Rightarrow> ('k, 'v) hmap res" where
  "grown fuel alloc m =
     (let next_cap = (hm_cap m * 2) mod 2 ^ 64 in
      if next_cap < hm_cap m then Ok m
      else case hm_init_cap alloc next_cap of
          None \<Rightarrow> Ok m
        | Some next_m \<Rightarrow> foldl (reinsert fuel alloc) (Ok next_m) (hm_slots m))"

lemma insert_unfold:
  assumes "hm_free_slot (hm_slots m) (hm_wrap (hm_cap m) (unat h)) (hm_cap m) = Some i"
  shows "hm_insert_hash_unchk (Suc fuel) alloc m h k v =
    (if hm_grow_limit m \<le> hm_len m + 1 then grown fuel alloc (placed m i h k v) else Ok (placed m i h k v))"
  using assms by (simp add: grown_def placed_def Let_def)

lemma grown_ok:
  fixes m :: "('k, 'v) hmap"
  assumes ok: "hm_ok hash m"
    and step: "\<And>(nm :: ('k, 'v) hmap) k v. hm_ok hash nm \<Longrightarrow> hm_cap m \<le> hm_grow_limit nm \<Longrightarrow> hm_len nm < hm_len m \<Longrightarrow>
      k \<notin> fst ` set (entries (hm_slots nm)) \<Longrightarrow>
      inserted hash nm k v (hm_insert_hash_unchk fuel alloc nm (hm_hash hash k) k v)"
  shows "\<exists>m'. grown fuel alloc m = Ok m' \<and> hm_ok hash m' \<and> hm_cap m \<le> hm_cap m' \<and>
    mset (entries (hm_slots m')) = mset (entries (hm_slots m)) \<and>
    ((\<forall>c. alloc c) \<and> hm_cap m < 2 ^ 63 \<longrightarrow> 2 * hm_cap m \<le> hm_cap m')"
proof -
  obtain n where n: "0 < n" "n < 64" "hm_cap m = 2 ^ n" "hm_len m = length (entries (hm_slots m))"
    "distinct (map fst (entries (hm_slots m)))" using hm_okD [OF ok] by metis
  define nc where "nc = (hm_cap m * 2) mod 2 ^ 64"
  have g: "grown fuel alloc m = (if nc < hm_cap m then Ok m else case hm_init_cap alloc nc of
      None \<Rightarrow> Ok m | Some nm \<Rightarrow> foldl (reinsert fuel alloc) (Ok nm) (hm_slots m))"
    unfolding grown_def Let_def nc_def ..
  show ?thesis
  proof (cases "nc < hm_cap m \<or> hm_init_cap alloc nc = (None :: ('k, 'v) hmap option)")
    case True
    have big: "nc = 2 ^ Suc n" if "n < 63"
    proof -
      have "(2 :: nat) ^ Suc n < 2 ^ 64" using that by (intro power_strict_increasing) simp_all
      then show ?thesis using n(3) by (simp add: nc_def)
    qed
    have "n < 63" if "hm_cap m < 2 ^ 63" using that unfolding n(3) by (rule power_less_imp_less_exp [rotated]) simp
    then have "\<not> ((\<forall>c. alloc c) \<and> hm_cap m < 2 ^ 63)"
      using True big n(3) pow2_ok [of "Suc n"] by (auto simp: hm_init_cap_def split: if_splits)
    moreover have "grown fuel alloc m = Ok m" using True unfolding g by auto
    ultimately show ?thesis using ok by auto
  next
    case False
    then obtain nm :: "('k, 'v) hmap" where nm: "hm_init_cap alloc nc = Some nm" "\<not> nc < hm_cap m" by auto
    have n63: "n < 63"
    proof (rule ccontr)
      assume "\<not> n < 63"
      then have "n = 63" using n(2) by simp
      then have "nc = 0" using n(3) by (simp add: nc_def)
      then show False using nm(2) n(3) by simp
    qed
    then have "(2 :: nat) ^ Suc n < 2 ^ 64" by (intro power_strict_increasing) simp_all
    then have nx: "nc = 2 ^ Suc n" using n(3) by (simp add: nc_def)
    have z: "hm_ok hash nm" "entries (hm_slots nm) = []" "hm_cap nm = 2 * hm_cap m"
      using hm_init_cap_ok [OF nm(1) [unfolded nx]] n63 n(3) by auto
    have l: "hm_cap m \<le> hm_grow_limit nm" "hm_len nm = 0" using z hm_ok_bounds(2,3) [OF z(1)] by auto
    have hashes: "h = hm_hash hash k" if "Some (h, k, v) \<in> set (hm_slots m)" for h k v
      using that hm_ok_slot [OF ok] by (metis in_set_conv_nth)
    have "\<exists>m'. foldl (reinsert fuel alloc) (Ok nm) (hm_slots m) = Ok m' \<and> hm_ok hash m' \<and> hm_cap nm \<le> hm_cap m' \<and>
      mset (entries (hm_slots m')) = mset (entries (hm_slots nm)) + mset (entries (hm_slots m))"
      using l z n hashes by (intro rehash_ok [where C = "hm_cap m" and B = "hm_len m", OF step]) auto
    moreover have "grown fuel alloc m = foldl (reinsert fuel alloc) (Ok nm) (hm_slots m)" using nm unfolding g by simp
    ultimately show ?thesis using z by auto
  qed
qed

lemma insert_level:
  fixes m :: "('k, 'v) hmap"
  assumes "hm_ok hash m" "fits n m" "k \<notin> fst ` set (entries (hm_slots m))"
  shows "inserted hash m k v (hm_insert_hash_unchk (Suc n) alloc m (hm_hash hash k) k v) \<and>
    ((\<forall>c. alloc c) \<and> hm_cap m < 2 ^ 63 \<and> hm_len m < hm_grow_limit m \<longrightarrow>
      (\<forall>m'. hm_insert_hash_unchk (Suc n) alloc m (hm_hash hash k) k v = Ok m' \<longrightarrow> hm_len m' < hm_grow_limit m'))"
  using assms
proof (induction n arbitrary: m k v)
  case (0 m k v)
  then have c: "hm_len m < hm_cap m" "\<not> hm_grow_limit m \<le> hm_len m + 1" using hm_ok_bounds(1) [OF 0(1)] by (auto simp: fits_def)
  obtain i where i: "hm_free_slot (hm_slots m) (hm_wrap (hm_cap m) (unat (hm_hash hash k))) (hm_cap m) = Some i"
    "hm_ok hash (placed m i (hm_hash hash k) k v)"
    "mset (entries (hm_slots (placed m i (hm_hash hash k) k v))) = add_mset (k, v) (mset (entries (hm_slots m)))"
    using place_ok [OF 0(1) c(1) 0(3)] .
  then show ?case using c by (auto simp: insert_unfold inserted_def simp del: hm_insert_hash_unchk.simps)
next
  case (Suc n m k v)
  have c: "hm_len m < hm_cap m" using Suc.prems(2) hm_ok_bounds(1) [OF Suc.prems(1)] by (auto simp: fits_def split: if_splits)
  obtain i where i: "hm_free_slot (hm_slots m) (hm_wrap (hm_cap m) (unat (hm_hash hash k))) (hm_cap m) = Some i"
    "hm_ok hash (placed m i (hm_hash hash k) k v)"
    "mset (entries (hm_slots (placed m i (hm_hash hash k) k v))) = add_mset (k, v) (mset (entries (hm_slots m)))"
    using place_ok [OF Suc.prems(1) c Suc.prems(3)] .
  let ?m = "placed m i (hm_hash hash k) k v"
  have step: "inserted hash nm k v (hm_insert_hash_unchk (Suc n) alloc nm (hm_hash hash k) k v)"
    if "hm_ok hash nm" "hm_cap ?m \<le> hm_grow_limit nm" "hm_len nm < hm_len ?m" "k \<notin> fst ` set (entries (hm_slots nm))"
    for nm :: "('k, 'v) hmap" and k v
  proof -
    have "hm_grow_limit m < hm_cap m" using hm_ok_bounds(1) [OF Suc.prems(1)] .
    moreover have "hm_grow_limit nm < hm_cap nm" using hm_ok_bounds(1) [OF that(1)] .
    ultimately have "fits n nm" using Suc.prems(2) that(2,3) by (auto simp: fits_def split: if_splits)
    then show ?thesis using Suc.IH [OF that(1) _ that(4)] by blast
  qed
  obtain m' where m': "grown (Suc n) alloc ?m = Ok m'" "hm_ok hash m'" "hm_cap ?m \<le> hm_cap m'"
    "mset (entries (hm_slots m')) = mset (entries (hm_slots ?m))"
    "(\<forall>c. alloc c) \<and> hm_cap ?m < 2 ^ 63 \<longrightarrow> 2 * hm_cap ?m \<le> hm_cap m'"
    using grown_ok [OF i(2) step] by blast
  have len: "hm_len m' = hm_len m + 1"
    using m'(4) hm_ok_bounds(2) [OF m'(2)] hm_ok_bounds(2) [OF i(2)] by (metis placed_view(2) size_mset)
  have "hm_len m' < hm_grow_limit m'" if "2 * hm_cap m \<le> hm_cap m'" "hm_len m < hm_grow_limit m"
    using len that hm_ok_bounds(1,3) [OF m'(2)] hm_ok_bounds(1) [OF Suc.prems(1)] by linarith
  moreover have run: "hm_insert_hash_unchk (Suc (Suc n)) alloc m (hm_hash hash k) k v =
      Ok (if hm_grow_limit m \<le> hm_len m + 1 then m' else ?m)"
    using insert_unfold [OF i(1)] m'(1) by simp
  ultimately show ?case unfolding run inserted_def using m'(2-) i by auto
qed

lemma hm_insert_ok:
  assumes "hm_ok hash m" "hm_len m < hm_cap m" "k \<notin> fst ` set (entries (hm_slots m))" "3 \<le> fuel"
  shows "inserted hash m k v (hm_insert fuel alloc hash m k v)"
proof -
  obtain n where n: "fuel = Suc n" "1 < n" using assms(4) by (cases fuel) auto
  then have "fits n m" using assms(2) by (simp add: fits_def)
  from insert_level [OF assms(1) this assms(3)] show ?thesis
    using assms(2) n by (simp add: hm_insert_def)
qed

section \<open>The interface\<close>

text \<open>What the metadata relies on: a lookup after insertions of new keys.\<close>

fun register :: "('m \<Rightarrow> 'k \<Rightarrow> 'v \<Rightarrow> 'm res) \<Rightarrow> ('k \<times> 'v) list \<Rightarrow> 'm \<Rightarrow> 'm res" where
  "register ins [] m = Ok m"
| "register ins ((k, v) # kvs) m =
     (case ins m k v of Ok m' \<Rightarrow> register ins kvs m' | Err e \<Rightarrow> Err e | Undef \<Rightarrow> Undef | Loop \<Rightarrow> Loop)"

locale keyed_map =
  fixes ok :: "'m \<Rightarrow> bool"
    and abs :: "'m \<Rightarrow> 'k \<Rightarrow> 'v option"
    and K :: "'k set"
    and room :: "'m \<Rightarrow> bool"
    and find :: "'m \<Rightarrow> 'k \<Rightarrow> 'v option"
    and ins :: "'m \<Rightarrow> 'k \<Rightarrow> 'v \<Rightarrow> 'm res"
  assumes find_law: "ok m \<Longrightarrow> k \<in> K \<Longrightarrow> find m k = abs m k"
    and ins_law: "ok m \<Longrightarrow> room m \<Longrightarrow> k \<in> K \<Longrightarrow> abs m k = None \<Longrightarrow>
      \<exists>m'. ins m k v = Ok m' \<and> ok m' \<and> abs m' = (abs m)(k \<mapsto> v)"
    and full_law: "ok m \<Longrightarrow> \<not> room m \<Longrightarrow> ins m k v = Err ACTF_OOM"
begin

lemma register_abs:
  assumes "ok m" "fst ` set kvs \<subseteq> K" "distinct (map fst kvs)" "\<And>k. k \<in> fst ` set kvs \<Longrightarrow> abs m k = None"
  shows "register ins kvs m = Err ACTF_OOM \<or>
    (\<exists>m'. register ins kvs m = Ok m' \<and> ok m' \<and> abs m' = abs m ++ map_of kvs)"
  using assms
proof (induction kvs arbitrary: m)
  case (Cons kv kvs)
  obtain k v where kv: "kv = (k, v)" by fastforce
  show ?case
  proof (cases "room m")
    case True
    obtain m1 where m1: "ins m k v = Ok m1" "ok m1" "abs m1 = (abs m)(k \<mapsto> v)"
      using ins_law [OF Cons.prems(1) True, of k v] Cons.prems(2,4) kv by auto
    have "register ins kvs m1 = Err ACTF_OOM \<or>
      (\<exists>m'. register ins kvs m1 = Ok m' \<and> ok m' \<and> abs m' = abs m1 ++ map_of kvs)"
      using Cons.prems(2-) m1(3) kv by (intro Cons.IH m1(2)) auto
    moreover have "abs m1 ++ map_of kvs = abs m ++ map_of (kv # kvs)"
    proof -
      have "k \<notin> dom (map_of kvs)" using Cons.prems(3) kv by (simp add: dom_map_of_conv_image_fst)
      then show ?thesis using m1(3) kv by (auto simp: map_add_def fun_eq_iff split: option.splits)
    qed
    moreover have "register ins (kv # kvs) m = register ins kvs m1" using m1(1) kv by simp
    ultimately show ?thesis by metis
  next
    case False
    then show ?thesis using full_law [OF Cons.prems(1)] kv by simp
  qed
qed simp

lemma register_find:
  assumes "ok m" "abs m = Map.empty" "fst ` set kvs \<subseteq> K" "distinct (map fst kvs)" "register ins kvs m = Ok m'" "k \<in> K"
  shows "find m' k = map_of kvs k"
  using register_abs [OF assms(1,3,4)] assms(2,5,6) find_law by auto

lemma register_ok:
  assumes "ok m" "abs m = Map.empty" "fst ` set kvs \<subseteq> K" "distinct (map fst kvs)" "register ins kvs m = Ok m'"
  shows "ok m'"
  using register_abs [OF assms(1,3,4)] assms(2,5) by auto

end

section \<open>Maps of identifiers\<close>

text \<open>The maps of data stream classes and of event record classes are keyed by 64-bit identifiers.\<close>

lemma uint64cmp_iff: "uint64cmp k k' \<longleftrightarrow> uint k mod 2 ^ 32 = uint k' mod 2 ^ 32"
proof -
  have "uint (ucast (k' - k) :: u32) = (uint k' - uint k) mod 2 ^ 32"
    by (simp add: unsigned_ucast_eq uint_word_arith_bintrs take_bit_eq_mod mod_mod_cancel)
  then have "uint64cmp k k' \<longleftrightarrow> (uint k' - uint k) mod 2 ^ 32 = 0"
    unfolding uint64cmp_def by (metis unsigned_eq_0_iff)
  then show ?thesis by (metis mod_eq_dvd_iff mod_0_imp_dvd dvd_imp_mod_0)
qed

definition ids :: "u64 set" where
  "ids = {k. uint k < 2 ^ 32}"

interpretation id_keys: hash_keys hash_uint64 uint64cmp ids
  by unfold_locales (auto simp: uint64cmp_iff ids_def word_uint_eq_iff)

definition id_map_ok :: "(u64, 'v) hmap \<Rightarrow> bool" where
  "id_map_ok m \<longleftrightarrow> hm_ok hash_uint64 m \<and> fst ` set (entries (hm_slots m)) \<subseteq> ids"

interpretation id_map: keyed_map id_map_ok hm_abs ids "\<lambda>m. hm_len m < hm_cap m"
  "hm_find hash_uint64 uint64cmp" "hm_insert (Suc (Suc (Suc n))) alloc hash_uint64" for n alloc
proof
  fix m :: "(u64, 'v) hmap" and k :: u64 and v :: 'v
  show "hm_find hash_uint64 uint64cmp m k = hm_abs m k" if "id_map_ok m" "k \<in> ids"
    using that id_keys.find_abs [of m k] by (simp add: id_map_ok_def)
  show "hm_insert (Suc (Suc (Suc n))) alloc hash_uint64 m k v = Err ACTF_OOM" if "\<not> hm_len m < hm_cap m"
    using that by (simp add: hm_insert_def)
  assume m: "id_map_ok m" "hm_len m < hm_cap m" "k \<in> ids" "hm_abs m k = None"
  then have "k \<notin> fst ` set (entries (hm_slots m))" by (simp add: hm_abs_def map_of_eq_None_iff)
  then obtain m' where m': "hm_insert (Suc (Suc (Suc n))) alloc hash_uint64 m k v = Ok m'" "hm_ok hash_uint64 m'"
    "mset (entries (hm_slots m')) = add_mset (k, v) (mset (entries (hm_slots m)))"
    using hm_insert_ok [of hash_uint64 m k "Suc (Suc (Suc n))" v alloc] m by (auto simp: inserted_def id_map_ok_def)
  then have "set (entries (hm_slots m')) = set ((k, v) # entries (hm_slots m))" by (metis mset.simps(2) set_mset_mset)
  moreover have "distinct (map fst (entries (hm_slots m')))" "distinct (map fst ((k, v) # entries (hm_slots m)))"
    using m' m \<open>k \<notin> _\<close> by (auto simp: hm_ok_def id_map_ok_def)
  ultimately have "hm_abs m' = map_of ((k, v) # entries (hm_slots m))"
    unfolding hm_abs_def by (metis map_of_inject_set)
  then have "hm_abs m' = (hm_abs m)(k \<mapsto> v)" by (auto simp: hm_abs_def)
  moreover have "id_map_ok m'"
    using m m'(2) \<open>set (entries (hm_slots m')) = _\<close> by (auto simp: id_map_ok_def)
  ultimately show "\<exists>m'. hm_insert (Suc (Suc (Suc n))) alloc hash_uint64 m k v = Ok m' \<and> id_map_ok m' \<and>
      hm_abs m' = (hm_abs m)(k \<mapsto> v)" using m'(1) by blast
qed

lemma hm_init_ok:
  assumes "hm_init alloc = Some m"
  shows "id_map_ok m" "hm_abs m = Map.empty"
  using hm_init_cap_ok [of alloc 3 m] assms by (simp_all add: hm_init_def id_map_ok_def hm_abs_def)

text \<open>A key is looked up by what the comparison and the hash make of it.\<close>

lemma probe_same_key:
  assumes "\<And>k. cmp k key = cmp k key'"
  shows "hm_probe cmp slots key index n = hm_probe cmp slots key' index n"
  by (induction n arbitrary: index) (simp_all add: assms split: option.splits)

definition low_id :: "u64 \<Rightarrow> u64" where
  "low_id k = word_of_int (uint k mod 2 ^ 32)"

lemma uint_low_id: "uint (low_id k) = uint k mod 2 ^ 32"
proof -
  have "0 \<le> uint k mod 2 ^ 32" "uint k mod 2 ^ 32 < (2 :: int) ^ 32" by simp_all
  then show ?thesis unfolding low_id_def by (simp add: uint_word_of_int_eq take_bit_int_eq_self)
qed

lemma find_low_id:
  assumes "id_map_ok m" "hm_cap m \<le> 2 ^ 32" "k \<noteq> UINT64_MAX"
  shows "hm_find hash_uint64 uint64cmp m k = hm_find hash_uint64 uint64cmp m (low_id k)"
proof -
  obtain c where c: "hm_cap m = 2 ^ c" using assms(1) by (auto simp: id_map_ok_def hm_ok_def)
  then have "c \<le> 32" using assms(2) by (metis nat_1_add_1 one_less_numeral_iff power_le_imp_le_exp semiring_norm(76))
  then have dvd: "(2 :: nat) ^ c dvd 2 ^ 32" by (rule le_imp_power_dvd)
  have "int (unat (low_id k)) = int (unat k mod 2 ^ 32)" using uint_low_id [of k] by (simp add: zmod_int)
  then have "unat (low_id k) = unat k mod 2 ^ 32" by (simp only: of_nat_eq_iff)
  then have start: "unat (low_id k) mod 2 ^ c = unat k mod 2 ^ c" using dvd by (simp add: mod_mod_cancel)
  have "low_id k \<noteq> UINT64_MAX"
  proof
    assume "low_id k = UINT64_MAX"
    then have "uint k mod 2 ^ 32 = uint (UINT64_MAX :: u64)" using uint_low_id [of k] by simp
    moreover have "uint k mod 2 ^ 32 < (2 :: int) ^ 32" by simp
    moreover have "uint (UINT64_MAX :: u64) = 2 ^ 64 - 1" by code_simp
    ultimately show False by simp
  qed
  then have "hm_hash hash_uint64 k = k" "hm_hash hash_uint64 (low_id k) = low_id k"
    using assms(3) by (simp_all add: hm_hash_def hash_uint64_def MAP_NOENT_def)
  moreover have "hm_probe uint64cmp (hm_slots m) k i n = hm_probe uint64cmp (hm_slots m) (low_id k) i n" for i n
    by (rule probe_same_key) (simp add: uint64cmp_iff uint_low_id)
  ultimately show ?thesis using start unfolding hm_find_def hm_index_def c wrap_mod by simp
qed

end
