(* ===== verification/Prio_Queue.thy ===== *)
theory Prio_Queue
  imports Prelude "HOL-Library.Multiset"
begin

text \<open>
  The priority queue of prio_queue.h, a binary heap in an array. The array up to \<open>len\<close> is the
  list \<open>pq_nodes\<close>. The locale \<open>min_queue\<close> is the contract the muxer relies on, and the heap is
  shown to meet it.
\<close>

section \<open>Definitions\<close>

record node =
  n_key :: i64
  n_value :: nat

record prio_queue =
  pq_nodes :: "node list"
  pq_cap :: nat

definition nkey :: "node \<Rightarrow> int" where
  "nkey n = sint (n_key n)"

text \<open>\<open>None\<close> is a failed allocation.\<close>

definition prio_queue_init :: "bool \<Rightarrow> nat \<Rightarrow> prio_queue option" where
  "prio_queue_init alloc sz = (if alloc then Some \<lparr>pq_nodes = [], pq_cap = sz\<rparr> else None)"

definition prio_queue_clear :: "prio_queue \<Rightarrow> prio_queue" where
  "prio_queue_clear pq = pq\<lparr>pq_nodes := []\<rparr>"

definition swap :: "'a list \<Rightarrow> nat \<Rightarrow> nat \<Rightarrow> 'a list" where
  "swap xs i j = xs[i := xs ! j, j := xs ! i]"

function bottomup_fix_heap :: "node list \<Rightarrow> nat \<Rightarrow> node list" where
  "bottomup_fix_heap ns cur_i =
     (if cur_i = 0 then ns
      else let par_i = (cur_i - 1) div 2 in
        if nkey (ns ! par_i) \<le> nkey (ns ! cur_i) then ns
        else bottomup_fix_heap (swap ns cur_i par_i) par_i)"
  by pat_completeness auto
termination by (relation "measure (\<lambda>(ns, i). i)") auto

text \<open>The smallest of a node and its children.\<close>

definition smallest_child :: "node list \<Rightarrow> nat \<Rightarrow> nat" where
  "smallest_child ns cur_i =
     (let left_i = 2 * cur_i + 1;
          right_i = 2 * cur_i + 2;
          s1 = (if left_i < length ns \<and> nkey (ns ! left_i) < nkey (ns ! cur_i) then left_i else cur_i)
      in if right_i < length ns \<and> nkey (ns ! right_i) < nkey (ns ! s1) then right_i else s1)"

function topdown_fix_heap :: "node list \<Rightarrow> nat \<Rightarrow> node list" where
  "topdown_fix_heap ns cur_i =
     (let smallest_i = smallest_child ns cur_i in
      if smallest_i = cur_i then ns else topdown_fix_heap (swap ns cur_i smallest_i) smallest_i)"
  by pat_completeness auto
termination
  by (relation "measure (\<lambda>(ns, i). length ns - i)")
    (auto simp: smallest_child_def swap_def Let_def split: if_splits)

declare bottomup_fix_heap.simps [simp del] topdown_fix_heap.simps [simp del]

definition prio_queue_push_unchecked :: "prio_queue \<Rightarrow> node \<Rightarrow> prio_queue res" where
  "prio_queue_push_unchecked pq n =
     (if pq_cap pq \<le> length (pq_nodes pq) then Undef
      else Ok (pq\<lparr>pq_nodes := bottomup_fix_heap (pq_nodes pq @ [n]) (length (pq_nodes pq))\<rparr>))"

definition prio_queue_pop_unchecked :: "prio_queue \<Rightarrow> (node \<times> prio_queue) res" where
  "prio_queue_pop_unchecked pq =
     (let ns = pq_nodes pq in
      if ns = [] then Undef
      else Ok (ns ! 0,
        pq\<lparr>pq_nodes := topdown_fix_heap (butlast (ns[0 := last ns])) 0\<rparr>))"

definition prio_queue_peek_unchecked :: "prio_queue \<Rightarrow> node res" where
  "prio_queue_peek_unchecked pq =
     (if pq_nodes pq = [] then Undef else Ok (pq_nodes pq ! 0))"

section \<open>The contract\<close>

locale min_queue =
  fixes inv :: "'q \<Rightarrow> bool"
    and bag :: "'q \<Rightarrow> node multiset"
    and cap :: "'q \<Rightarrow> nat"
    and push :: "'q \<Rightarrow> node \<Rightarrow> 'q res"
    and pop :: "'q \<Rightarrow> (node \<times> 'q) res"
  assumes push_law: "inv q \<Longrightarrow> size (bag q) < cap q \<Longrightarrow>
      \<exists>r. push q n = Ok r \<and> inv r \<and> bag r = add_mset n (bag q) \<and> cap r = cap q"
    and pop_law: "inv q \<Longrightarrow> bag q \<noteq> {#} \<Longrightarrow>
      \<exists>n r. pop q = Ok (n, r) \<and> inv r \<and> n \<in># bag q \<and> bag r = bag q - {#n#} \<and> cap r = cap q \<and>
        (\<forall>m \<in># bag q. nkey n \<le> nkey m)"
begin

text \<open>Popping until the queue is empty yields the nodes in the order of their keys.\<close>

fun drain :: "nat \<Rightarrow> 'q \<Rightarrow> node list res" where
  "drain 0 q = Ok []"
| "drain (Suc n) q =
     (case pop q of
        Ok (m, r) \<Rightarrow> (case drain n r of Ok ms \<Rightarrow> Ok (m # ms) | e \<Rightarrow> e)
      | Err e \<Rightarrow> Err e | Undef \<Rightarrow> Undef | Loop \<Rightarrow> Loop)"

lemma drain_sorted:
  "inv q \<Longrightarrow> \<exists>ms. drain (size (bag q)) q = Ok ms \<and> mset ms = bag q \<and> sorted (map nkey ms)"
proof (induction "size (bag q)" arbitrary: q)
  case (Suc n)
  then have "bag q \<noteq> {#}" by auto
  then obtain m r where p: "pop q = Ok (m, r)" "inv r" "m \<in># bag q" "bag r = bag q - {#m#}"
    "\<forall>k \<in># bag q. nkey m \<le> nkey k"
    using pop_law [OF Suc.prems] by blast
  have n: "n = size (bag r)" using Suc.hyps(2) p(3,4) by (simp add: size_Diff_singleton)
  obtain ms where ms: "drain n r = Ok ms" "mset ms = bag r" "sorted (map nkey ms)"
    using Suc.hyps(1) [OF n p(2)] n by auto
  have "\<forall>k \<in> set ms. nkey m \<le> nkey k"
    using p(4,5) ms(2) by (metis in_diffD set_mset_mset)
  moreover have "mset (m # ms) = bag q" using ms(2) p(3,4) by simp
  ultimately show ?case using ms p(1) by (simp flip: Suc.hyps(2))
qed simp

end

section \<open>The heap order\<close>

definition parent :: "nat \<Rightarrow> nat" where
  "parent i = (i - 1) div 2"

lemma parent_less: "0 < i \<Longrightarrow> parent i < i"
  by (auto simp: parent_def)

definition heap :: "node list \<Rightarrow> bool" where
  "heap ns \<longleftrightarrow> (\<forall>i. 0 < i \<and> i < length ns \<longrightarrow> nkey (ns ! parent i) \<le> nkey (ns ! i))"

text \<open>Heap order everywhere but between \<open>i\<close> and its parent.\<close>

definition heap_up :: "node list \<Rightarrow> nat \<Rightarrow> bool" where
  "heap_up ns i \<longleftrightarrow>
     (\<forall>j. 0 < j \<and> j < length ns \<and> j \<noteq> i \<longrightarrow> nkey (ns ! parent j) \<le> nkey (ns ! j)) \<and>
     (\<forall>j. 0 < i \<and> 0 < j \<and> j < length ns \<and> parent j = i \<longrightarrow> nkey (ns ! parent i) \<le> nkey (ns ! j))"

text \<open>Heap order everywhere but between \<open>i\<close> and its children.\<close>

definition heap_down :: "node list \<Rightarrow> nat \<Rightarrow> bool" where
  "heap_down ns i \<longleftrightarrow>
     (\<forall>j. 0 < j \<and> j < length ns \<and> parent j \<noteq> i \<longrightarrow> nkey (ns ! parent j) \<le> nkey (ns ! j)) \<and>
     (\<forall>j. 0 < i \<and> 0 < j \<and> j < length ns \<and> parent j = i \<longrightarrow> nkey (ns ! parent i) \<le> nkey (ns ! j))"

lemma swap_facts:
  "length (swap xs i j) = length xs"
  "i < length xs \<Longrightarrow> j < length xs \<Longrightarrow> mset (swap xs i j) = mset xs"
  "i < length xs \<Longrightarrow> j < length xs \<Longrightarrow> k < length xs \<Longrightarrow>
   swap xs i j ! k = (if k = i then xs ! j else if k = j then xs ! i else xs ! k)"
proof -
  show "mset (swap xs i j) = mset xs" if "i < length xs" "j < length xs"
    using mset_swap [OF that(2) that(1)] by (simp add: swap_def)
qed (auto simp: swap_def nth_list_update)

lemma bottomup_facts:
  "i < length ns \<Longrightarrow> length (bottomup_fix_heap ns i) = length ns"
  "i < length ns \<Longrightarrow> mset (bottomup_fix_heap ns i) = mset ns"
proof (induction ns i rule: bottomup_fix_heap.induct)
  case (1 ns i)
  { case 1
    then show ?case using "1.IH"(1)
      by (simp add: bottomup_fix_heap.simps [of ns i] Let_def swap_facts) }
  { case 2
    then show ?case using "1.IH"(2)
      by (simp add: bottomup_fix_heap.simps [of ns i] Let_def swap_facts) }
qed

lemma heap_up_swap:
  assumes up: "heap_up ns i" and i: "i < length ns" "0 < i"
    and gt: "nkey (ns ! i) < nkey (ns ! parent i)"
  shows "heap_up (swap ns i (parent i)) (parent i)"
proof -
  define p s where "p = parent i" and "s = swap ns i p"
  have p: "p < i" "p < length ns" using i parent_less [of i] by (auto simp: p_def)
  have s: "k < length ns \<Longrightarrow> s ! k = (if k = i then ns ! p else if k = p then ns ! i else ns ! k)" for k
    using i p by (simp add: s_def swap_facts)
  have a: "0 < j \<Longrightarrow> j < length ns \<Longrightarrow> j \<noteq> i \<Longrightarrow> nkey (ns ! parent j) \<le> nkey (ns ! j)"
    and b: "0 < j \<Longrightarrow> j < length ns \<Longrightarrow> parent j = i \<Longrightarrow> nkey (ns ! p) \<le> nkey (ns ! j)" for j
    using up i by (auto simp: heap_up_def p_def)
  have l: "0 < j \<Longrightarrow> j < length ns \<Longrightarrow> parent j < length ns" for j using parent_less [of j] by simp
  have one: "nkey (s ! parent j) \<le> nkey (s ! j)" if "0 < j" "j < length ns" "j \<noteq> p" for j
    using a [of j] b [of j] gt s [of j] s [of "parent j"] l [of j] that p parent_less [of j]
    by (cases "j = i") (auto simp flip: p_def)
  have two: "nkey (s ! parent p) \<le> nkey (s ! j)" if "0 < p" "0 < j" "j < length ns" "parent j = p" for j
  proof -
    have pp: "parent p < p" using parent_less that(1) .
    have "s ! parent p = ns ! parent p" using s [of "parent p"] pp p by simp
    moreover have "nkey (ns ! parent p) \<le> nkey (ns ! p)" using a [of p] that(1) p by simp
    moreover have "nkey (ns ! p) \<le> nkey (s ! j)"
      using a [of j] s [OF that(3)] that parent_less [of j] by (cases "j = i") simp_all
    ultimately show ?thesis by simp
  qed
  have "length s = length ns" by (simp add: s_def swap_facts)
  with one two have "heap_up s p" unfolding heap_up_def by simp
  then show ?thesis by (simp add: s_def p_def)
qed

lemma bottomup_heap:
  "i < length ns \<Longrightarrow> heap_up ns i \<Longrightarrow> heap (bottomup_fix_heap ns i)"
proof (induction ns i rule: bottomup_fix_heap.induct)
  case (1 ns i)
  show ?case
  proof (cases "i = 0 \<or> nkey (ns ! parent i) \<le> nkey (ns ! i)")
    case True
    then have "bottomup_fix_heap ns i = ns"
      by (auto simp: bottomup_fix_heap.simps [of ns i] Let_def parent_def)
    moreover have "nkey (ns ! parent j) \<le> nkey (ns ! j)" if "0 < j" "j < length ns" for j
      using True "1.prems" that unfolding heap_up_def by (cases "j = i") auto
    ultimately show ?thesis by (simp add: heap_def)
  next
    case False
    have "heap_up (swap ns i (parent i)) (parent i)" "parent i < length ns"
      using heap_up_swap "1.prems" False parent_less [of i] by auto
    then have "heap (bottomup_fix_heap (swap ns i (parent i)) (parent i))"
      using "1.IH" False by (auto simp: parent_def swap_facts)
    then show ?thesis using False by (simp add: bottomup_fix_heap.simps [of ns i] Let_def parent_def)
  qed
qed

lemma smallest_child_cases:
  assumes "i < length ns"
  shows "smallest_child ns i < length ns"
    and "smallest_child ns i = i \<or> parent (smallest_child ns i) = i \<and> 0 < smallest_child ns i \<and>
      nkey (ns ! smallest_child ns i) < nkey (ns ! i)"
    and "0 < j \<Longrightarrow> j < length ns \<Longrightarrow> parent j = i \<Longrightarrow> nkey (ns ! smallest_child ns i) \<le> nkey (ns ! j)"
proof -
  have c: "0 < j \<Longrightarrow> parent j = i \<longleftrightarrow> j = 2 * i + 1 \<or> j = 2 * i + 2" for j
    by (auto simp: parent_def)
  show "smallest_child ns i < length ns" "smallest_child ns i = i \<or> parent (smallest_child ns i) = i \<and>
      0 < smallest_child ns i \<and> nkey (ns ! smallest_child ns i) < nkey (ns ! i)"
    using assms c by (auto simp: smallest_child_def Let_def parent_def)
  show "nkey (ns ! smallest_child ns i) \<le> nkey (ns ! j)" if "0 < j" "j < length ns" "parent j = i"
    using that c [of j] by (auto simp: smallest_child_def Let_def)
qed

lemma heap_down_swap:
  assumes down: "heap_down ns i" and i: "i < length ns" and m: "smallest_child ns i \<noteq> i"
  shows "heap_down (swap ns i (smallest_child ns i)) (smallest_child ns i)"
proof -
  define c s where "c = smallest_child ns i" and "s = swap ns i c"
  have c: "c < length ns" "parent c = i" "0 < c" "nkey (ns ! c) < nkey (ns ! i)"
    using smallest_child_cases(1,2) [OF i] m by (auto simp: c_def)
  have ic: "i < c" using parent_less [OF c(3)] c(2) by simp
  have s: "k < length ns \<Longrightarrow> s ! k = (if k = i then ns ! c else if k = c then ns ! i else ns ! k)" for k
    using i c by (simp add: s_def swap_facts)
  have a: "0 < j \<Longrightarrow> j < length ns \<Longrightarrow> parent j \<noteq> i \<Longrightarrow> nkey (ns ! parent j) \<le> nkey (ns ! j)"
    and b: "0 < i \<Longrightarrow> 0 < j \<Longrightarrow> j < length ns \<Longrightarrow> parent j = i \<Longrightarrow> nkey (ns ! parent i) \<le> nkey (ns ! j)" for j
    using down by (auto simp: heap_down_def)
  have sm: "0 < j \<Longrightarrow> j < length ns \<Longrightarrow> parent j = i \<Longrightarrow> nkey (ns ! c) \<le> nkey (ns ! j)" for j
    using smallest_child_cases(3) [OF i] by (simp add: c_def)
  have l: "0 < j \<Longrightarrow> j < length ns \<Longrightarrow> parent j < length ns" for j using parent_less [of j] by simp
  have one: "nkey (s ! parent j) \<le> nkey (s ! j)" if j: "0 < j" "j < length ns" "parent j \<noteq> c" for j
  proof -
    consider "j = c" | "j = i" | "parent j = i" "j \<noteq> c" | "j \<noteq> c" "j \<noteq> i" "parent j \<noteq> i" by blast
    then show ?thesis
    proof cases
      case 1
      then show ?thesis using s [of c] s [of i] c i ic by simp
    next
      case 2
      then show ?thesis using b [of c] s [of i] s [of "parent i"] j c i ic parent_less [of i] by auto
    next
      case 3
      then show ?thesis using sm [of j] s [of i] s [of j] j i parent_less [of j] by auto
    next
      case 4
      then show ?thesis using a [of j] s [of j] s [of "parent j"] l [of j] j by auto
    qed
  qed
  have two: "nkey (s ! parent c) \<le> nkey (s ! j)" if "0 < j" "j < length ns" "parent j = c" for j
    using a [of j] s [of j] s [of i] that c i ic parent_less [of j] by auto
  have "length s = length ns" by (simp add: s_def swap_facts)
  with one two have "heap_down s c" unfolding heap_down_def by simp
  then show ?thesis by (simp add: s_def c_def)
qed

lemma topdown_facts:
  assumes "i < length ns"
  shows "length (topdown_fix_heap ns i) = length ns \<and> mset (topdown_fix_heap ns i) = mset ns \<and>
    (heap_down ns i \<longrightarrow> heap (topdown_fix_heap ns i))"
  using assms
proof (induction ns i rule: topdown_fix_heap.induct)
  case (1 ns i)
  show ?case
  proof (cases "smallest_child ns i = i")
    case True
    then have "topdown_fix_heap ns i = ns" by (simp add: topdown_fix_heap.simps [of ns i] Let_def)
    moreover have "heap ns" if "heap_down ns i"
      unfolding heap_def
    proof (intro allI impI)
      fix j
      assume j: "0 < j \<and> j < length ns"
      show "nkey (ns ! parent j) \<le> nkey (ns ! j)"
        using that smallest_child_cases(3) [OF "1.prems", of j] True j unfolding heap_down_def
        by (cases "parent j = i") simp_all
    qed
    ultimately show ?thesis by simp
  next
    case False
    define c where "c = smallest_child ns i"
    have c: "c < length ns" using smallest_child_cases(1) [OF "1.prems"] by (simp add: c_def)
    have eq: "topdown_fix_heap ns i = topdown_fix_heap (swap ns i c) c"
      using False by (simp add: topdown_fix_heap.simps [of ns i] Let_def c_def)
    have "length (topdown_fix_heap (swap ns i c) c) = length ns \<and>
        mset (topdown_fix_heap (swap ns i c) c) = mset ns \<and>
        (heap_down (swap ns i c) c \<longrightarrow> heap (topdown_fix_heap (swap ns i c) c))"
      using "1.IH" [OF c_def] False c "1.prems" by (simp add: swap_facts flip: c_def)
    moreover have "heap_down ns i \<Longrightarrow> heap_down (swap ns i c) c"
      using heap_down_swap [OF _ "1.prems" False] by (simp add: c_def)
    ultimately show ?thesis unfolding eq by blast
  qed
qed

lemma topdown_empty: "topdown_fix_heap [] 0 = []"
  by (simp add: topdown_fix_heap.simps [of "[]"] smallest_child_def)

lemma heap_root_min: "heap ns \<Longrightarrow> i < length ns \<Longrightarrow> nkey (ns ! 0) \<le> nkey (ns ! i)"
proof (induction i rule: less_induct)
  case (less i)
  show ?case
  proof (cases "i = 0")
    case False
    then have "nkey (ns ! 0) \<le> nkey (ns ! parent i)" "nkey (ns ! parent i) \<le> nkey (ns ! i)"
      using less parent_less [of i] by (auto simp: heap_def)
    then show ?thesis by simp
  qed simp
qed

section \<open>The heap is a queue\<close>

lemma push_spec:
  assumes "heap (pq_nodes q)" "length (pq_nodes q) < pq_cap q"
  obtains r where "prio_queue_push_unchecked q n = Ok r" "heap (pq_nodes r)"
    "mset (pq_nodes r) = add_mset n (mset (pq_nodes q))" "pq_cap r = pq_cap q"
proof -
  have "heap_up (pq_nodes q @ [n]) (length (pq_nodes q))"
    unfolding heap_up_def
  proof (intro conjI allI impI, goal_cases)
    case (1 j)
    then have "j < length (pq_nodes q)" "parent j < length (pq_nodes q)"
      using parent_less [of j] by auto
    then show ?case using assms(1) 1 by (simp add: heap_def nth_append)
  next
    case (2 j)
    then show ?case using parent_less [of j] by simp
  qed
  then have "heap (bottomup_fix_heap (pq_nodes q @ [n]) (length (pq_nodes q)))"
    by (intro bottomup_heap) simp
  then show thesis using assms(2) that bottomup_facts(2) [of "length (pq_nodes q)" "pq_nodes q @ [n]"]
    by (simp add: prio_queue_push_unchecked_def)
qed

lemma pop_spec:
  assumes h: "heap (pq_nodes q)" and ne: "pq_nodes q \<noteq> []"
  obtains r where "prio_queue_pop_unchecked q = Ok (pq_nodes q ! 0, r)" "heap (pq_nodes r)"
    "mset (pq_nodes r) = mset (pq_nodes q) - {#pq_nodes q ! 0#}" "pq_cap r = pq_cap q"
proof -
  define ns ms where "ns = pq_nodes q" and "ms = butlast (ns[0 := last ns])"
  have len: "length ms = length ns - 1" by (simp add: ms_def)
  have nth: "ms ! k = (if k = 0 then last ns else ns ! k)" if "k < length ms" for k
    using that ne by (simp add: ms_def nth_butlast nth_list_update ns_def)
  have bag: "mset ms = mset ns - {#ns ! 0#}"
  proof (cases ns rule: rev_cases)
    case (snoc as a)
    then show ?thesis by (cases as) (simp_all add: ms_def)
  qed (simp add: ms_def)
  have "heap (topdown_fix_heap ms 0) \<and> mset (topdown_fix_heap ms 0) = mset ms"
  proof (cases "ms = []")
    case False
    have "heap_down ms 0"
      using h unfolding heap_down_def heap_def ns_def [symmetric]
      by (auto simp: nth len parent_less [THEN less_trans])
    then show ?thesis using topdown_facts [of 0 ms] False by simp
  qed (simp add: topdown_empty heap_def)
  then show thesis using that ne bag
    by (simp add: prio_queue_pop_unchecked_def Let_def ns_def ms_def)
qed

interpretation heap_pq: min_queue "\<lambda>q. heap (pq_nodes q)" "\<lambda>q. mset (pq_nodes q)" pq_cap
  prio_queue_push_unchecked prio_queue_pop_unchecked
proof
  show "\<exists>r. prio_queue_push_unchecked q n = Ok r \<and> heap (pq_nodes r) \<and>
      mset (pq_nodes r) = add_mset n (mset (pq_nodes q)) \<and> pq_cap r = pq_cap q"
    if "heap (pq_nodes q)" "size (mset (pq_nodes q)) < pq_cap q" for q n
    using push_spec [of q n] that by (metis size_mset)
  show "\<exists>n r. prio_queue_pop_unchecked q = Ok (n, r) \<and> heap (pq_nodes r) \<and> n \<in># mset (pq_nodes q) \<and>
      mset (pq_nodes r) = mset (pq_nodes q) - {#n#} \<and> pq_cap r = pq_cap q \<and>
      (\<forall>m \<in># mset (pq_nodes q). nkey n \<le> nkey m)"
    if h: "heap (pq_nodes q)" and ne: "mset (pq_nodes q) \<noteq> {#}" for q
  proof -
    have ne': "pq_nodes q \<noteq> []" using ne by auto
    obtain r where "prio_queue_pop_unchecked q = Ok (pq_nodes q ! 0, r)" "heap (pq_nodes r)"
      "mset (pq_nodes r) = mset (pq_nodes q) - {#pq_nodes q ! 0#}" "pq_cap r = pq_cap q"
      using pop_spec [OF h ne'] by blast
    moreover have "nkey (pq_nodes q ! 0) \<le> nkey m" if "m \<in># mset (pq_nodes q)" for m
      using heap_root_min [OF h] that by (metis in_set_conv_nth set_mset_mset)
    ultimately show ?thesis using ne' by auto
  qed
qed

end
