(* ===== verification/Data_Theorems.thy ===== *)
theory Data_Theorems
  imports Hash_Map_Spec Decoder_Cls Prio_Queue
begin

text \<open>Properties of the data structures and of the selections that the decoder makes with them.\<close>

unbundle bit_operations_syntax

section \<open>Maps of identifiers\<close>

text \<open>
  C16. The map from identifiers to classes: after registering any classes under distinct
  identifiers below \<open>2 ^ 32\<close> in a new map, through all its growth, a lookup returns exactly the
  class that was registered under the identifier, and nothing for an identifier that was not.
  Three levels of recursion between insertion and growth are enough.
\<close>

theorem registered_ids_found:
  assumes "hm_init alloc = Some m" "distinct (map fst kvs)" "fst ` set kvs \<subseteq> ids"
    and "register (hm_insert fuel alloc hash_uint64) kvs m = Ok m'" "k \<in> ids" "3 \<le> fuel"
  shows "hm_find hash_uint64 uint64cmp m' k = map_of kvs k"
proof -
  obtain n where "fuel = Suc (Suc (Suc n))" using assms(6) by (metis add.commute add_Suc_right le_Suc_ex numeral_3_eq_3)
  then show ?thesis using id_map.register_find [OF hm_init_ok [OF assms(1)] assms(3,2)] assms(4,5) by blast
qed

theorem registered_ids_found_witness:
  "\<exists>m m'. hm_init (\<lambda>c. True) = Some m \<and>
    register (hm_insert 3 (\<lambda>c. True) hash_uint64) [(0, ''a''), (8, ''b''), (16, ''c'')] m = Ok m' \<and>
    hm_find hash_uint64 uint64cmp m' 16 = Some ''c'' \<and> hm_find hash_uint64 uint64cmp m' 24 = None"
proof -
  let ?kvs = "[(0, ''a''), (8, ''b''), (16, ''c'')] :: (u64 \<times> string) list"
  let ?m = "\<lparr>hm_slots = replicate 8 None, hm_len = 0, hm_cap = 8, hm_grow_limit = 4\<rparr> :: (u64, string) hmap"
  have i: "hm_init (\<lambda>c. True) = Some ?m" by code_simp
  have "case register (hm_insert 3 (\<lambda>c. True) hash_uint64) ?kvs ?m of Ok m' \<Rightarrow> True | Err e \<Rightarrow> False | Undef \<Rightarrow> False | Loop \<Rightarrow> False"
    by code_simp
  from ok_case [OF this] obtain m' where m': "register (hm_insert 3 (\<lambda>c. True) hash_uint64) ?kvs ?m = Ok m'" by blast
  have k: "distinct (map fst ?kvs)" "fst ` set ?kvs \<subseteq> ids" by (simp_all add: ids_def)
  have "hm_find hash_uint64 uint64cmp m' k = map_of ?kvs k" if "k \<in> ids" for k
    using registered_ids_found [OF i k m' that] by simp
  from this [of 16] this [of 24] show ?thesis using i m' by (auto simp: ids_def)
qed

text \<open>
  C28. The map looks at the low 32 bits of an identifier only: after registering any classes under
  distinct identifiers below \<open>2 ^ 32\<close> in a new map that has not grown beyond \<open>2 ^ 32\<close> slots, a lookup
  of any 64-bit identifier other than the largest one returns the class that was registered under
  the low 32 bits of it. Identifiers that differ by a multiple of \<open>2 ^ 32\<close> are the same key.
\<close>

theorem identifiers_collide:
  assumes "hm_init alloc = Some m" "distinct (map fst kvs)" "fst ` set kvs \<subseteq> ids"
    and "register (hm_insert fuel alloc hash_uint64) kvs m = Ok m'" "3 \<le> fuel"
    and "hm_cap m' \<le> 2 ^ 32" "k \<noteq> UINT64_MAX"
  shows "hm_find hash_uint64 uint64cmp m' k = map_of kvs (word_of_int (uint k mod 2 ^ 32))"
proof -
  obtain n where n: "fuel = Suc (Suc (Suc n))" using assms(5) by (metis add.commute add_Suc_right le_Suc_ex numeral_3_eq_3)
  have "id_map_ok m'" using id_map.register_ok [OF hm_init_ok [OF assms(1)] assms(3,2)] assms(4) n by blast
  moreover have "low_id k \<in> ids" by (simp add: ids_def uint_low_id)
  ultimately have "hm_find hash_uint64 uint64cmp m' k = map_of kvs (low_id k)"
    using find_low_id [OF _ assms(6,7)] id_map.register_find [OF hm_init_ok [OF assms(1)] assms(3,2)] assms(4) n by metis
  then show ?thesis by (simp add: low_id_def)
qed

theorem identifiers_collide_witness:
  "\<exists>m m'. hm_init (\<lambda>c. True) = Some m \<and> register (hm_insert 3 (\<lambda>c. True) hash_uint64) [(1, ''one'')] m = Ok m' \<and>
    hm_find hash_uint64 uint64cmp m' (2 ^ 32 + 1) = Some ''one''"
proof -
  let ?m = "\<lparr>hm_slots = replicate 8 None, hm_len = 0, hm_cap = 8, hm_grow_limit = 4\<rparr> :: (u64, string) hmap"
  let ?m' = "?m\<lparr>hm_slots := [None, Some (1, 1, ''one''), None, None, None, None, None, None], hm_len := 1\<rparr>"
  have i: "hm_init (\<lambda>c. True) = Some ?m" by code_simp
  have r: "register (hm_insert 3 (\<lambda>c. True) hash_uint64) [(1, ''one'')] ?m = Ok ?m'" by code_simp
  have k: "distinct (map fst [(1 :: u64, ''one'')])" "fst ` set [(1 :: u64, ''one'')] \<subseteq> ids" by (simp_all add: ids_def)
  have "hm_find hash_uint64 uint64cmp ?m' (2 ^ 32 + 1) = map_of [(1 :: u64, ''one'')] (word_of_int (uint (2 ^ 32 + 1 :: u64) mod 2 ^ 32))"
    by (rule identifiers_collide [OF i k r]) (simp, simp, code_simp)
  then show ?thesis using i r by auto
qed

text \<open>
  Deleting a key can lose another one: with 0, 1 and 8 in a map of eight slots, 8 is stored behind
  1; after the deletion of 0 the entry of 1 stays at its home, the entry of 8 stays behind it, and
  a lookup of 8 stops at the slot that became empty. The decoder does not delete.
\<close>

lemma deletion_loses_entry:
  "\<exists>m m' m''. hm_init (\<lambda>c. True) = Some m \<and>
    register (hm_insert 3 (\<lambda>c. True) hash_uint64) [(0, ''a''), (1, ''b''), (8, ''c'')] m = Ok m' \<and>
    hm_find hash_uint64 uint64cmp m' 8 = Some ''c'' \<and>
    hm_delete hash_uint64 uint64cmp m' 0 = Some m'' \<and> hm_find hash_uint64 uint64cmp m'' 8 = None"
proof -
  let ?m = "\<lparr>hm_slots = replicate 8 None, hm_len = 0, hm_cap = 8, hm_grow_limit = 4\<rparr> :: (u64, string) hmap"
  have i: "hm_init (\<lambda>c. True) = Some ?m" by code_simp
  have "case register (hm_insert 3 (\<lambda>c. True) hash_uint64) [(0, ''a''), (1, ''b''), (8, ''c'')] ?m of
      Ok m' \<Rightarrow> hm_find hash_uint64 uint64cmp m' 8 = Some ''c'' \<and>
        (case hm_delete hash_uint64 uint64cmp m' 0 of
           Some m'' \<Rightarrow> hm_find hash_uint64 uint64cmp m'' 8 = None | None \<Rightarrow> False)
    | Err e \<Rightarrow> False | Undef \<Rightarrow> False | Loop \<Rightarrow> False"
    by code_simp
  from ok_case [OF this] obtain m' where "register (hm_insert 3 (\<lambda>c. True) hash_uint64) [(0, ''a''), (1, ''b''), (8, ''c'')] ?m = Ok m'"
    "hm_find hash_uint64 uint64cmp m' 8 = Some ''c''"
    "case hm_delete hash_uint64 uint64cmp m' 0 of Some m'' \<Rightarrow> hm_find hash_uint64 uint64cmp m'' 8 = None | None \<Rightarrow> False"
    by blast
  then show ?thesis using i by (cases "hm_delete hash_uint64 uint64cmp m' 0") (simp, force)
qed

section \<open>Ranges\<close>

text \<open>
  C23. The test whether two range sets intersect, for every combination of signed and unsigned
  sets, tells whether they have an integer in common.
\<close>

theorem range_sets_intersect_iff:
  assumes "rng_set_wf a" "rng_set_wf b"
  shows "actf_rng_set_intersect_rng_set a b \<longleftrightarrow> rng_set_ints a \<inter> rng_set_ints b \<noteq> {}"
  using assms by (rule rng_set_intersect_iff)

theorem range_sets_intersect_iff_witness:
  "actf_rng_set_intersect_rng_set (RNG_SINT [\<lparr>s_lower = - 5, s_upper = 3\<rparr>]) (RNG_UINT [\<lparr>u_lower = 3, u_upper = 9\<rparr>]) \<and>
   \<not> actf_rng_set_intersect_rng_set (RNG_SINT [\<lparr>s_lower = - 5, s_upper = - 1\<rparr>]) (RNG_UINT [\<lparr>u_lower = 3, u_upper = - 1\<rparr>])"
  using range_sets_intersect_iff [of "RNG_SINT [\<lparr>s_lower = - 5, s_upper = 3\<rparr>]" "RNG_UINT [\<lparr>u_lower = 3, u_upper = 9\<rparr>]"]
    range_sets_intersect_iff [of "RNG_SINT [\<lparr>s_lower = - 5, s_upper = - 1\<rparr>]" "RNG_UINT [\<lparr>u_lower = 3, u_upper = - 1\<rparr>]"]
  by (auto simp: rng_set_wf_def rng_set_ints_def srng_ints_def urng_ints_def word_le_nat_alt)

section \<open>Selections of the decoder\<close>

text \<open>The integer that a selector field holds.\<close>

definition sel_int :: "actf_fld \<Rightarrow> int" where
  "sel_int f = (if f_type f = ACTF_FLD_TYPE_SINT then sint (d_int (f_d f)) else uint (d_uint (f_d f)))"

lemma last_match_filter:
  "last_match hit os =
     (case filter (\<lambda>i. hit (o_rng_set (os ! i))) [0..<length os] of [] \<Rightarrow> None | is \<Rightarrow> Some (last is))"
proof (induction hit os rule: last_match.induct)
  case (2 hit fc rs name os)
  let ?f = "filter (\<lambda>i. hit (o_rng_set (os ! i))) [0..<length os]"
  have "[0..<length (Opt fc rs name # os)] = 0 # map Suc [0..<length os]" by (simp add: map_Suc_upt upt_conv_Cons del: upt_Suc)
  then have "filter (\<lambda>i. hit (o_rng_set ((Opt fc rs name # os) ! i))) [0..<length (Opt fc rs name # os)] =
    (if hit rs then [0] else []) @ map Suc ?f"
    by (simp add: filter_map comp_def)
  then show ?case using 2 by (cases ?f) (auto simp: last_map split: list.splits)
qed simp

lemma variant_select_filter:
  "variant_select opts f d =
    (if f_type f \<notin> {ACTF_FLD_TYPE_SINT, ACTF_FLD_TYPE_UINT} then (Err ACTF_WRONG_FLD_TYPE, d)
     else case filter (\<lambda>i. sel_int f \<in> rng_set_ints (o_rng_set (opts ! i))) [0..<length opts] of
         [] \<Rightarrow> (Err ACTF_NO_SELECTOR_FLD, d)
       | is \<Rightarrow> (Ok (last is), d))"
proof (cases "f_type f")
  case ACTF_FLD_TYPE_SINT
  then show ?thesis
    by (auto simp: variant_select_def cm_defs last_match_filter rng_set_intersect_sint_iff sel_int_def split: list.splits)
next
  case ACTF_FLD_TYPE_UINT
  then show ?thesis
    by (auto simp: variant_select_def cm_defs last_match_filter rng_set_intersect_uint_iff sel_int_def split: list.splits)
qed (simp_all add: variant_select_def cm_defs)

text \<open>
  C24. A variant takes the last option whose ranges contain the value of the selector field, and
  fails with \<open>ACTF_NO_SELECTOR_FLD\<close> when there is none and with \<open>ACTF_WRONG_FLD_TYPE\<close> when the
  selector is not an integer.
\<close>

theorem variant_selects_last_match:
  "variant_select opts f d =
    (if f_type f \<notin> {ACTF_FLD_TYPE_SINT, ACTF_FLD_TYPE_UINT} then (Err ACTF_WRONG_FLD_TYPE, d)
     else case filter (\<lambda>i. sel_int f \<in> rng_set_ints (o_rng_set (opts ! i))) [0..<length opts] of
         [] \<Rightarrow> (Err ACTF_NO_SELECTOR_FLD, d)
       | is \<Rightarrow> (Ok (last is), d))"
  by (rule variant_select_filter)

section \<open>The priority queue\<close>

fun push_all :: "node list \<Rightarrow> prio_queue \<Rightarrow> prio_queue res" where
  "push_all [] q = Ok q"
| "push_all (n # ns) q =
     (case prio_queue_push_unchecked q n of
        Ok r \<Rightarrow> push_all ns r | Err e \<Rightarrow> Err e | Undef \<Rightarrow> Undef | Loop \<Rightarrow> Loop)"

lemma push_all_ok:
  "heap (pq_nodes q) \<Longrightarrow> length (pq_nodes q) + length ns \<le> pq_cap q \<Longrightarrow>
   \<exists>r. push_all ns q = Ok r \<and> heap (pq_nodes r) \<and> mset (pq_nodes r) = mset (pq_nodes q) + mset ns"
proof (induction ns arbitrary: q)
  case (Cons n ns)
  have "size (mset (pq_nodes q)) < pq_cap q" using Cons.prems(2) by simp
  then obtain r where r: "prio_queue_push_unchecked q n = Ok r" "heap (pq_nodes r)"
    "mset (pq_nodes r) = add_mset n (mset (pq_nodes q))" "pq_cap r = pq_cap q"
    using heap_pq.push_law [OF Cons.prems(1)] by blast
  have "length (pq_nodes r) = Suc (length (pq_nodes q))" using arg_cong [OF r(3), of size] by simp
  then show ?case using Cons.IH [OF r(2)] Cons.prems(2) r by auto
qed simp

text \<open>
  C17. The priority queue sorts: any nodes that fit, pushed into a new queue in any order, come
  out by popping in the order of their signed keys, each exactly once.
\<close>

theorem prio_queue_sorts:
  assumes "prio_queue_init alloc cap = Some q" "length ns \<le> cap"
  shows "\<exists>r ms. push_all ns q = Ok r \<and> heap_pq.drain (length ns) r = Ok ms \<and> mset ms = mset ns \<and>
    sorted (map nkey ms)"
proof -
  have q: "pq_nodes q = []" "pq_cap q = cap" using assms(1) by (auto simp: prio_queue_init_def split: if_splits)
  then obtain r where r: "push_all ns q = Ok r" "heap (pq_nodes r)" "mset (pq_nodes r) = mset ns"
    using push_all_ok [of q ns] assms(2) by (auto simp: heap_def)
  then show ?thesis using heap_pq.drain_sorted [OF r(2)] by (metis size_mset)
qed

theorem prio_queue_sorts_witness:
  "\<exists>q r ms. prio_queue_init True 3 = Some q \<and>
    push_all [\<lparr>n_key = 5, n_value = 0\<rparr>, \<lparr>n_key = - 1, n_value = 1\<rparr>, \<lparr>n_key = 3, n_value = 2\<rparr>] q = Ok r \<and>
    heap_pq.drain 3 r = Ok ms \<and> sorted (map nkey ms)"
proof -
  obtain q where "prio_queue_init True 3 = Some q" by (simp add: prio_queue_init_def)
  then show ?thesis
    using prio_queue_sorts [of True 3 q "[\<lparr>n_key = 5, n_value = 0\<rparr>, \<lparr>n_key = - 1, n_value = 1\<rparr>, \<lparr>n_key = 3, n_value = 2\<rparr>]"]
    by (auto simp: numeral_3_eq_3 simp del: push_all.simps)
qed

section \<open>Names of values\<close>

text \<open>
  C25. Iterating the search of mappings for an unsigned value yields the names of all mappings
  whose ranges contain the value, in their order, for signed and for unsigned mappings.
\<close>

theorem mappings_iterate_all:
  "find_all (Suc (mappings_len maps)) (\<lambda>it. Ok (mappings_find_uint maps val it)) 0 =
    (case maps of
       UMAPS us \<Rightarrow> Ok (map snd (filter (\<lambda>m. uint val \<in> rng_set_ints (RNG_UINT (fst m))) us))
     | SMAPS ss \<Rightarrow> Ok (map snd (filter (\<lambda>m. uint val \<in> rng_set_ints (RNG_SINT (fst m))) ss)))"
proof (cases maps)
  case (UMAPS us)
  then show ?thesis
    using find_all_linear [where search = "mappings_find_uint maps val" and hit = "\<lambda>m. urng_set_intersect (fst m) val" and xs = us
        and name = snd and n = "Suc (length us)"]
    by (simp add: mappings_find_uint_def umappings_find_def mappings_len_def set_intersect_pt)
next
  case (SMAPS ss)
  have "find_all (Suc (mappings_len maps)) (\<lambda>it. Ok (mappings_find_uint maps val it)) 0 =
      Ok (map snd (filter (\<lambda>m. actf_rng_set_intersect_uint (RNG_SINT (fst m)) val) ss))"
  proof (cases "INT64_MAX < val")
    case True
    then show ?thesis using SMAPS by (simp add: mappings_find_uint_def actf_rng_set_intersect_uint_def)
  next
    case False
    then show ?thesis
      using SMAPS find_all_linear [where search = "mappings_find_uint maps val" and hit = "\<lambda>m. srng_set_intersect (fst m) val" and xs = ss
        and name = snd and n = "Suc (length ss)"]
      by (simp add: mappings_find_uint_def smappings_find_def mappings_len_def actf_rng_set_intersect_uint_def)
  qed
  then show ?thesis using SMAPS by (simp add: rng_set_intersect_uint_iff)
qed

text \<open>
  C26. The flags of a bit map: iterating the search yields the names of all flags one of whose
  bit positions is set in the value; the precomputed masks say the same as the ranges.
\<close>

theorem flags_iterate_all:
  assumes "actf_flags_init alloc maps = Some f"
  shows "find_all (Suc (length maps)) (\<lambda>it. Ok (actf_flags_find f val it)) 0 =
    Ok (map snd (filter (\<lambda>m. \<exists>i < 64. bit val i \<and> urng_set_intersect (fst m) (of_nat i)) maps))"
proof -
  let ?n = "length maps" and ?hit = "\<lambda>i. flags_masks f ! i AND val \<noteq> 0"
  have f: "flags_maps f = maps" "flags_masks f = map (\<lambda>m. make_bit_mask (fst m)) maps"
    using assms by (auto simp: actf_flags_init_def split: if_splits)
  have eq: "actf_flags_find f val it = (case next_hit ?hit [0..<?n] it of
      Some i \<Rightarrow> (Some (snd (maps ! ([0..<?n] ! i))), i + 1) | None \<Rightarrow> (None, it))" for it
  proof (cases "next_hit ?hit [0..<?n] it")
    case (Some i)
    then have "i < ?n" by (simp add: next_hit_Some)
    then show ?thesis using Some by (simp add: actf_flags_find_def f(1))
  qed (simp add: actf_flags_find_def f(1))
  have hit: "?hit i \<longleftrightarrow> (\<exists>j < 64. bit val j \<and> urng_set_intersect (fst (maps ! i)) (of_nat j))" if "i < ?n" for i
    using that by (auto simp: f bit_eq_iff bit_and_iff bit_make_bit_mask dest: bit_u64_less)
  have "find_all (Suc ?n) (\<lambda>it. Ok (actf_flags_find f val it)) 0 = Ok (map (\<lambda>i. snd (maps ! i)) (filter ?hit [0..<?n]))"
    using find_all_linear [where search = "actf_flags_find f val" and hit = ?hit and xs = "[0..<?n]" and name = "\<lambda>i. snd (maps ! i)"
        and n = "Suc ?n", OF eq] by simp
  also have "filter ?hit [0..<?n] = filter (\<lambda>i. \<exists>j < 64. bit val j \<and> urng_set_intersect (fst (maps ! i)) (of_nat j)) [0..<?n]"
    using hit by (intro filter_cong) auto
  also have "map (\<lambda>i. snd (maps ! i)) \<dots> = map snd (filter (\<lambda>m. \<exists>j < 64. bit val j \<and> urng_set_intersect (fst m) (of_nat j)) (map ((!) maps) [0..<?n]))"
    by (simp add: filter_map comp_def)
  finally show ?thesis by (simp only: map_nth)
qed

theorem flags_iterate_all_witness:
  "\<exists>f. actf_flags_init True [([\<lparr>u_lower = 0, u_upper = 1\<rparr>], ''low''), ([\<lparr>u_lower = 2, u_upper = 63\<rparr>], ''high'')] = Some f \<and>
    find_all 3 (\<lambda>it. Ok (actf_flags_find f 2 it)) 0 = Ok [''low'']"
proof -
  let ?maps = "[([\<lparr>u_lower = 0, u_upper = 1\<rparr>], ''low''), ([\<lparr>u_lower = 2, u_upper = 63\<rparr>], ''high'')] :: umappings"
  obtain f where f: "actf_flags_init True ?maps = Some f" by (simp add: actf_flags_init_def)
  have b: "bit (2 :: u64) i \<longleftrightarrow> i = 1" for i using bit_exp_iff [of 1 i, where 'a = "64 word"] by auto
  have e: "(\<exists>i < 64. bit (2 :: u64) i \<and> P i) \<longleftrightarrow> P 1" for P using b by auto
  have "find_all (Suc (length ?maps)) (\<lambda>it. Ok (actf_flags_find f 2 it)) 0 = Ok [''low'']"
    unfolding flags_iterate_all [OF f] e by (simp add: word_le_nat_alt)
  then show ?thesis using f by (auto simp: eval_nat_numeral simp del: find_all.simps)
qed

end
