(* ===== verification/Event_Generator.thy ===== *)
theory Event_Generator
  imports Prelude
begin

text \<open>
  Event generators (event_generator.h): a function that returns a run of events or an error, and
  a function that seeks. The header demands that a call does not return both events and an
  error, which the type of the result expresses. The consumers of a generator (muxer.c, filter.c)
  take an empty run for the end of the stream.
\<close>

type_synonym ('s, 'e) generate = "'s \<Rightarrow> 'e list res \<times> 's"
type_synonym 's gen_seek = "i64 \<Rightarrow> 's \<Rightarrow> unit res \<times> 's"

section \<open>What a generator emits\<close>

text \<open>
  The events of a generator up to its end or its first error. At the end the generator stays
  where it is.
\<close>

inductive emits :: "('s, 'e) generate \<Rightarrow> 's \<Rightarrow> 'e list \<Rightarrow> bool" for gen where
  emits_end: "gen s = (Ok [], t) \<Longrightarrow> gen t = (Ok [], t) \<Longrightarrow> emits gen s []"
| emits_err: "gen s = (Err e, t) \<Longrightarrow> emits gen s []"
| emits_run: "gen s = (Ok es, t) \<Longrightarrow> es \<noteq> [] \<Longrightarrow> emits gen t rest \<Longrightarrow> emits gen s (es @ rest)"

inductive_cases emits_cases: "emits gen s str"

lemma emits_det: "emits gen s x \<Longrightarrow> emits gen s y \<Longrightarrow> x = y"
proof (induction arbitrary: y rule: emits.induct)
  case (emits_run s es t rest)
  from emits_run.prems obtain r where "y = es @ r" "emits gen t r"
    by (rule emits_cases) (use emits_run.hyps(1,2) in auto)
  then show ?case using emits_run.IH by simp
next
  case (emits_end s t)
  from emits_end.prems show ?case by (rule emits_cases) (use emits_end.hyps in auto)
next
  case (emits_err s e t)
  from emits_err.prems show ?case by (rule emits_cases) (use emits_err.hyps in auto)
qed

lemma emits_cong: "gen s = gen s' \<Longrightarrow> emits gen s' str \<Longrightarrow> emits gen s str"
  by (erule emits_cases) (auto intro: emits.intros)

definition stream_of :: "('s, 'e) generate \<Rightarrow> 's \<Rightarrow> 'e list" where
  "stream_of gen s = (THE str. emits gen s str)"

lemma stream_of_eq: "emits gen s str \<Longrightarrow> stream_of gen s = str"
  unfolding stream_of_def using emits_det by (metis (mono_tags, lifting) the_equality)

text \<open>A generator whose events are finitely many and in the order of their timestamps.\<close>

definition in_order :: "('s, 'e) generate \<Rightarrow> ('e \<Rightarrow> int) \<Rightarrow> 's \<Rightarrow> bool" where
  "in_order gen ts s \<longleftrightarrow> (\<exists>str. emits gen s str \<and> sorted (map ts str))"

text \<open>The same without an error: all events up to the end.\<close>

inductive emits_all :: "('s, 'e) generate \<Rightarrow> 's \<Rightarrow> 'e list \<Rightarrow> bool" for gen where
  all_end: "gen s = (Ok [], t) \<Longrightarrow> gen t = (Ok [], t) \<Longrightarrow> emits_all gen s []"
| all_run: "gen s = (Ok es, t) \<Longrightarrow> es \<noteq> [] \<Longrightarrow> emits_all gen t rest \<Longrightarrow> emits_all gen s (es @ rest)"

inductive_cases emits_all_cases: "emits_all gen s str"

lemma emits_all_emits: "emits_all gen s str \<Longrightarrow> emits gen s str"
  by (induction rule: emits_all.induct) (auto intro: emits.intros)

definition complete :: "('s, 'e) generate \<Rightarrow> ('e \<Rightarrow> int) \<Rightarrow> 's \<Rightarrow> bool" where
  "complete gen ts s \<longleftrightarrow> (\<exists>str. emits_all gen s str \<and> sorted (map ts str))"

lemma complete_in_order: "complete gen ts s \<Longrightarrow> in_order gen ts s"
  by (auto simp: complete_def in_order_def dest: emits_all_emits)

lemma complete_no_error: "complete gen ts s \<Longrightarrow> gen s \<noteq> (Err e, t)"
  by (auto simp: complete_def elim: emits_all_cases)

lemma complete_step:
  assumes "complete gen ts s" and g: "gen s = (Ok es, t)"
  shows "complete gen ts t"
proof -
  from assms(1) obtain str where str: "emits_all gen s str" "sorted (map ts str)" by (auto simp: complete_def)
  from str(1) show ?thesis
  proof cases
    case (all_end u)
    then have "emits_all gen t []" using g emits_all.all_end by fastforce
    then show ?thesis by (auto simp: complete_def)
  next
    case (all_run as u rest)
    then have "t = u" "sorted (map ts rest)" using g str(2) by (auto simp: sorted_append)
    then show ?thesis using all_run by (auto simp: complete_def)
  qed
qed

section \<open>The contract of a generator\<close>

locale event_source =
  fixes inv :: "'s \<Rightarrow> bool"
    and stream :: "'s \<Rightarrow> 'e list"
    and gen :: "('s, 'e) generate"
    and ts :: "'e \<Rightarrow> int"
  assumes gen_returns: "inv s \<Longrightarrow> \<exists>t. (\<exists>es. gen s = (Ok es, t)) \<or> (\<exists>e. gen s = (Err e, t))"
    and gen_events: "inv s \<Longrightarrow> gen s = (Ok es, t) \<Longrightarrow>
      inv t \<and> stream s = es @ stream t \<and> (es = [] \<longrightarrow> stream s = [])"
    and stream_sorted: "inv s \<Longrightarrow> sorted (map ts (stream s))"
begin

text \<open>The next event, where there is one, is the earliest that is left.\<close>

lemma head_least:
  assumes "inv s" "gen s = (Ok (e # es), t)" "x \<in> set (es @ stream t)"
  shows "ts e \<le> ts x"
  using gen_events [OF assms(1,2)] stream_sorted [OF assms(1)] assms(3) by auto

end

text \<open>Every generator meets the contract from the states in which it emits in order.\<close>

lemma event_source_emits:
  "event_source (in_order gen ts) (stream_of gen) gen ts"
proof
  fix s es t
  show "\<exists>t. (\<exists>es. gen s = (Ok es, t)) \<or> (\<exists>e. gen s = (Err e, t))" if "in_order gen ts s"
  proof -
    from that obtain str where "emits gen s str" by (auto simp: in_order_def)
    then show ?thesis by (rule emits_cases) blast+
  qed
  show "sorted (map ts (stream_of gen s))" if "in_order gen ts s"
    using that by (auto simp: in_order_def stream_of_eq)
  assume i: "in_order gen ts s" and g: "gen s = (Ok es, t)"
  then obtain str where str: "emits gen s str" "sorted (map ts str)" by (auto simp: in_order_def)
  from str(1) g show "in_order gen ts t \<and> stream_of gen s = es @ stream_of gen t \<and>
      (es = [] \<longrightarrow> stream_of gen s = [])"
  proof cases
    case (emits_end u)
    then have "emits gen t []" using g emits.emits_end by fastforce
    then show ?thesis using emits_end g str stream_of_eq by (fastforce simp: in_order_def)
  next
    case (emits_run as u rest)
    then have "es = as" "t = u" using g by auto
    then show ?thesis using emits_run str stream_of_eq [OF str(1)] stream_of_eq [of gen t rest]
      by (auto simp: in_order_def sorted_append)
  qed (use g in simp)
qed

lemma event_source_complete:
  "event_source (complete gen ts) (stream_of gen) gen ts"
proof
  note src = event_source_emits [of gen ts]
  fix s es t
  assume c: "complete gen ts s"
  show "\<exists>t. (\<exists>es. gen s = (Ok es, t)) \<or> (\<exists>e. gen s = (Err e, t))"
    using event_source.gen_returns [OF src complete_in_order [OF c]] .
  show "sorted (map ts (stream_of gen s))" using event_source.stream_sorted [OF src complete_in_order [OF c]] .
  show "complete gen ts t \<and> stream_of gen s = es @ stream_of gen t \<and> (es = [] \<longrightarrow> stream_of gen s = [])" if "gen s = (Ok es, t)"
    using event_source.gen_events [OF src complete_in_order [OF c] that] complete_step [OF c that] by blast
qed

end
