(* ===== verification/Muxer.thy ===== *)
theory Muxer
  imports Event_Generator Prio_Queue
begin

text \<open>
  The muxer of muxer.c merges the runs of several generators into one stream. It is modelled over
  an arbitrary generator function \<open>gen\<close> with the state of each generator in \<open>mx_gens\<close>, and over
  an arbitrary timestamp function \<open>ts\<close>. A buffer of events is the list the generator returned;
  the events handed out are the result of the call.
\<close>

section \<open>State and operations\<close>

datatype muxer_state =
  MUXER_STATE_FRESH | MUXER_STATE_ONGOING | MUXER_STATE_DONE | MUXER_STATE_ERROR

record ('s, 'e) actf_muxer =
  mx_gens :: "'s list"
  mx_in_evs :: "'e list list"
  mx_cur_is :: "nat list"
  mx_evs_cap :: nat
  mx_pq :: prio_queue
  mx_state :: muxer_state
  mx_pending :: nat

type_synonym ('s, 'e, 'a) mux_op = "(('s, 'e) actf_muxer, 'a) cm"

definition MUX_DEFAULT_EVS_CAP :: nat where
  "MUX_DEFAULT_EVS_CAP = 64"

text \<open>\<open>alloc\<close> says whether the allocations succeed.\<close>

definition actf_muxer_init :: "bool \<Rightarrow> 's list \<Rightarrow> nat \<Rightarrow> ('s, 'e) actf_muxer option" where
  "actf_muxer_init alloc gens evs_cap =
     (case prio_queue_init alloc (length gens) of
        None \<Rightarrow> None
      | Some pq \<Rightarrow> Some
          \<lparr>mx_gens = gens, mx_in_evs = replicate (length gens) [],
           mx_cur_is = replicate (length gens) 0,
           mx_evs_cap = (if evs_cap = 0 then MUX_DEFAULT_EVS_CAP else evs_cap),
           mx_pq = pq, mx_state = MUXER_STATE_FRESH, mx_pending = length gens\<rparr>)"

definition has_pending_gen :: "('s, 'e) actf_muxer \<Rightarrow> bool" where
  "has_pending_gen m \<longleftrightarrow> mx_pending m < length (mx_gens m)"

definition set_no_pending_gen :: "('s, 'e) actf_muxer \<Rightarrow> ('s, 'e) actf_muxer" where
  "set_no_pending_gen m = m\<lparr>mx_pending := length (mx_gens m)\<rparr>"

definition pq_node :: "('e \<Rightarrow> i64) \<Rightarrow> 'e \<Rightarrow> nat \<Rightarrow> node" where
  "pq_node ts e i = \<lparr>n_key = ts e, n_value = i\<rparr>"

definition push_fresh_evs_to_pq ::
  "('s, 'e) generate \<Rightarrow> ('e \<Rightarrow> i64) \<Rightarrow> nat \<Rightarrow> ('s, 'e, unit) mux_op" where
  "push_fresh_evs_to_pq gen ts i m =
     (if length (mx_gens m) \<le> i then (Undef, m)
      else let m0 = m\<lparr>mx_cur_is := (mx_cur_is m)[i := 0]\<rparr> in
        case gen (mx_gens m ! i) of
          (Err rc, g) \<Rightarrow> (Err rc, m0\<lparr>mx_gens := (mx_gens m)[i := g], mx_state := MUXER_STATE_ERROR\<rparr>)
        | (Undef, g) \<Rightarrow> (Undef, m0)
        | (Loop, g) \<Rightarrow> (Loop, m0)
        | (Ok es, g) \<Rightarrow>
            (let m1 = m0\<lparr>mx_gens := (mx_gens m)[i := g], mx_in_evs := (mx_in_evs m)[i := es]\<rparr> in
             if es = [] then (Ok (), m1)
             else case prio_queue_push_unchecked (mx_pq m1) (pq_node ts (es ! 0) i) of
                 Ok q \<Rightarrow> (Ok (), m1\<lparr>mx_pq := q\<rparr>)
               | r \<Rightarrow> (Undef, m1)))"

fun mux_bootstrap :: "('s, 'e) generate \<Rightarrow> ('e \<Rightarrow> i64) \<Rightarrow> nat list \<Rightarrow> ('s, 'e, unit) mux_op" where
  "mux_bootstrap gen ts [] = ret ()"
| "mux_bootstrap gen ts (i # is) = thenc (push_fresh_evs_to_pq gen ts i) (mux_bootstrap gen ts is)"

text \<open>The loop that fills the output buffer; the first argument is the room left in it.\<close>

fun mux_pop :: "('e \<Rightarrow> i64) \<Rightarrow> nat \<Rightarrow> ('s, 'e, 'e list) mux_op" where
  "mux_pop ts 0 m = (Ok [], m)"
| "mux_pop ts (Suc room) m =
     (if pq_nodes (mx_pq m) = [] then (Ok [], m)
      else case prio_queue_pop_unchecked (mx_pq m) of
          Ok (n, q) \<Rightarrow>
            (let i = n_value n; es = mx_in_evs m ! i; c = mx_cur_is m ! i in
             if length (mx_in_evs m) \<le> i \<or> length es \<le> c then (Undef, m)
             else
               let m1 = m\<lparr>mx_cur_is := (mx_cur_is m)[i := c + 1], mx_pq := q\<rparr> in
               if c + 1 < length es then
                 (case prio_queue_push_unchecked q (pq_node ts (es ! (c + 1)) i) of
                    Ok q2 \<Rightarrow>
                      (case mux_pop ts room (m1\<lparr>mx_pq := q2\<rparr>) of
                         (Ok out, m2) \<Rightarrow> (Ok (es ! c # out), m2)
                       | r \<Rightarrow> r)
                  | r \<Rightarrow> (Undef, m1))
               else (Ok [es ! c], m1\<lparr>mx_pending := i\<rparr>))
        | r \<Rightarrow> (Undef, m))"

definition mux_ongoing :: "('s, 'e) generate \<Rightarrow> ('e \<Rightarrow> i64) \<Rightarrow> ('s, 'e, 'e list) mux_op" where
  "mux_ongoing gen ts =
     thenc (bindc (gets (\<lambda>m. m)) (\<lambda>m.
        if has_pending_gen m
        then thenc (push_fresh_evs_to_pq gen ts (mx_pending m)) (modify set_no_pending_gen)
        else ret ()))
    (bindc (gets mx_evs_cap) (\<lambda>cap.
     bindc (mux_pop ts cap) (\<lambda>out.
     thenc (if out = [] \<and> 0 < cap then modify (\<lambda>m. m\<lparr>mx_state := MUXER_STATE_DONE\<rparr>) else ret ())
           (ret out))))"

definition actf_muxer_mux :: "('s, 'e) generate \<Rightarrow> ('e \<Rightarrow> i64) \<Rightarrow> ('s, 'e, 'e list) mux_op" where
  "actf_muxer_mux gen ts m =
     (case mx_state m of
        MUXER_STATE_FRESH \<Rightarrow>
          thenc (mux_bootstrap gen ts [0..<length (mx_gens m)])
         (thenc (modify (\<lambda>m. m\<lparr>mx_state := MUXER_STATE_ONGOING\<rparr>)) (mux_ongoing gen ts)) m
      | MUXER_STATE_ONGOING \<Rightarrow> mux_ongoing gen ts m
      | MUXER_STATE_DONE \<Rightarrow> (Ok [], m)
      | MUXER_STATE_ERROR \<Rightarrow> (Err ACTF_ERROR, m))"

definition muxer_reset :: "('s, 'e) actf_muxer \<Rightarrow> ('s, 'e) actf_muxer" where
  "muxer_reset m =
     m\<lparr>mx_pending := length (mx_gens m), mx_pq := prio_queue_clear (mx_pq m),
       mx_state := MUXER_STATE_FRESH,
       mx_in_evs := replicate (length (mx_gens m)) [],
       mx_cur_is := replicate (length (mx_gens m)) 0\<rparr>"

fun mux_seek_gens :: "'s gen_seek \<Rightarrow> i64 \<Rightarrow> nat list \<Rightarrow> ('s, 'e, unit) mux_op" where
  "mux_seek_gens seek t [] m = (Ok (), m)"
| "mux_seek_gens seek t (i # is) m =
     (case seek t (mx_gens m ! i) of
        (Ok u, g) \<Rightarrow> mux_seek_gens seek t is (m\<lparr>mx_gens := (mx_gens m)[i := g]\<rparr>)
      | (Err rc, g) \<Rightarrow> (Err rc, m\<lparr>mx_gens := (mx_gens m)[i := g], mx_state := MUXER_STATE_ERROR\<rparr>)
      | (Undef, g) \<Rightarrow> (Undef, m)
      | (Loop, g) \<Rightarrow> (Loop, m))"

definition actf_muxer_seek_ns_from_origin :: "'s gen_seek \<Rightarrow> i64 \<Rightarrow> ('s, 'e, unit) mux_op" where
  "actf_muxer_seek_ns_from_origin seek t =
     bindc (gets (\<lambda>m. [0..<length (mx_gens m)])) (\<lambda>is.
     thenc (mux_seek_gens seek t is) (modify muxer_reset))"

text \<open>A seek that every generator follows.\<close>

lemma mux_seek_gens_Ok:
  assumes "\<forall>g \<in> set (drop k (mx_gens m)). \<exists>u. fst (seek t g) = Ok u" "k \<le> length (mx_gens m)"
  shows "mux_seek_gens seek t [k..<length (mx_gens m)] m =
    (Ok (), m\<lparr>mx_gens := take k (mx_gens m) @ map (\<lambda>g. snd (seek t g)) (drop k (mx_gens m))\<rparr>)"
  using assms
proof (induction "length (mx_gens m) - k" arbitrary: k m)
  case (Suc n)
  let ?gs = "mx_gens m"
  have k: "k < length ?gs" using Suc.hyps(2) by simp
  then have d: "drop k ?gs = ?gs ! k # drop (Suc k) ?gs" "[k..<length ?gs] = k # [Suc k..<length ?gs]"
    by (simp_all add: Cons_nth_drop_Suc upt_conv_Cons)
  then obtain u where "fst (seek t (?gs ! k)) = Ok u" using Suc.prems(1) by auto
  then obtain g where g: "seek t (?gs ! k) = (Ok u, g)" by (metis prod.collapse)
  let ?m = "m\<lparr>mx_gens := ?gs[k := g]\<rparr>"
  from g have "mux_seek_gens seek t [k..<length ?gs] m = mux_seek_gens seek t [Suc k..<length (mx_gens ?m)] ?m"
    using d by simp
  also have "\<dots> = (Ok (), m\<lparr>mx_gens := take k ?gs @ map (\<lambda>g. snd (seek t g)) (drop k ?gs)\<rparr>)"
    using Suc.hyps(1) [of ?m "Suc k"] Suc.hyps(2) Suc.prems(1) k d g by (simp add: take_Suc_conv_app_nth)
  finally show ?case .
qed simp

lemma muxer_seek_Ok:
  assumes "\<forall>g \<in> set (mx_gens m). \<exists>u. fst (seek t g) = Ok u"
  shows "actf_muxer_seek_ns_from_origin seek t m =
    (Ok (), muxer_reset (m\<lparr>mx_gens := map (\<lambda>g. snd (seek t g)) (mx_gens m)\<rparr>))"
  using assms mux_seek_gens_Ok [of 0 m seek t] by (simp add: actf_muxer_seek_ns_from_origin_def cm_defs)

section \<open>Merging in order\<close>

text \<open>The unread events of a buffer.\<close>

definition rest :: "('s, 'e) actf_muxer \<Rightarrow> nat \<Rightarrow> 'e list" where
  "rest m i = drop (mx_cur_is m ! i) (mx_in_evs m ! i)"

definition nodes_of :: "('e \<Rightarrow> i64) \<Rightarrow> ('s, 'e) actf_muxer \<Rightarrow> nat \<Rightarrow> node multiset" where
  "nodes_of ts m i = (if rest m i = [] then {#} else {#pq_node ts (hd (rest m i)) i#})"

text \<open>What a generator has still to deliver: its unread buffer and its stream.\<close>

definition mux_left :: "('s \<Rightarrow> 'e list) \<Rightarrow> ('s, 'e) actf_muxer \<Rightarrow> nat \<Rightarrow> 'e list" where
  "mux_left stream m i = rest m i @ stream (mx_gens m ! i)"

definition mux_total :: "('s \<Rightarrow> 'e list) \<Rightarrow> ('s, 'e) actf_muxer \<Rightarrow> 'e multiset" where
  "mux_total stream m = (\<Sum>i < length (mx_gens m). mset (mux_left stream m i))"

text \<open>
  The invariant of the muxer. \<open>U\<close> holds the generators that are still to be asked; the buffers of
  the others are empty only at the end of their stream.
\<close>

definition mux_inv ::
  "('s \<Rightarrow> bool) \<Rightarrow> ('s \<Rightarrow> 'e list) \<Rightarrow> ('e \<Rightarrow> i64) \<Rightarrow> nat set \<Rightarrow> ('s, 'e) actf_muxer \<Rightarrow> bool" where
  "mux_inv ok stream ts U m \<longleftrightarrow>
     length (mx_in_evs m) = length (mx_gens m) \<and> length (mx_cur_is m) = length (mx_gens m) \<and>
     pq_cap (mx_pq m) = length (mx_gens m) \<and> heap (pq_nodes (mx_pq m)) \<and>
     mset (pq_nodes (mx_pq m)) = (\<Sum>i < length (mx_gens m). nodes_of ts m i) \<and>
     (\<forall>i < length (mx_gens m). ok (mx_gens m ! i) \<and> sorted (map (\<lambda>e. sint (ts e)) (mux_left stream m i)) \<and>
        (i \<in> U \<longrightarrow> rest m i = []) \<and>
        (i \<notin> U \<and> rest m i = [] \<longrightarrow> stream (mx_gens m ! i) = []))"

text \<open>The state word and the pending index are not part of what is left.\<close>

lemma mux_view [simp]:
  "rest (m\<lparr>mx_state := s\<rparr>) = rest m" "rest (m\<lparr>mx_pending := k\<rparr>) = rest m"
  "mux_left stream (m\<lparr>mx_state := s\<rparr>) = mux_left stream m"
  "mux_left stream (m\<lparr>mx_pending := k\<rparr>) = mux_left stream m"
  "nodes_of ts (m\<lparr>mx_state := s\<rparr>) = nodes_of ts m" "nodes_of ts (m\<lparr>mx_pending := k\<rparr>) = nodes_of ts m"
  "mux_total stream (m\<lparr>mx_state := s\<rparr>) = mux_total stream m"
  "mux_total stream (m\<lparr>mx_pending := k\<rparr>) = mux_total stream m"
  by (simp_all add: rest_def mux_left_def nodes_of_def mux_total_def fun_eq_iff)

lemma mux_inv_view [simp]:
  "mux_inv ok stream ts U (m\<lparr>mx_state := s\<rparr>) = mux_inv ok stream ts U m"
  "mux_inv ok stream ts U (m\<lparr>mx_pending := k\<rparr>) = mux_inv ok stream ts U m"
  by (simp_all add: mux_inv_def)

lemma sum_update:
  fixes f g :: "nat \<Rightarrow> 'a multiset"
  assumes "i < n" "\<And>j. j < n \<Longrightarrow> j \<noteq> i \<Longrightarrow> f j = g j"
  shows "(\<Sum>j<n. f j) + g i = (\<Sum>j<n. g j) + f i"
proof -
  have "(\<Sum>j \<in> {..<n} - {i}. f j) = (\<Sum>j \<in> {..<n} - {i}. g j)" using assms(2) by (intro sum.cong) auto
  then show ?thesis using assms(1) by (simp add: sum.remove [of "{..<n}" i])
qed

lemma nkey_pq_node [simp]: "nkey (pq_node ts e i) = sint (ts e)" "n_value (pq_node ts e i) = i"
  by (simp_all add: nkey_def pq_node_def)

lemma size_nodes:
  assumes "i < n" "rest m i = []"
  shows "size (\<Sum>j<n. nodes_of ts m j) < n"
proof -
  have "(\<Sum>j<n. size (nodes_of ts m j)) < (\<Sum>j<n. 1)"
    using assms by (intro sum_strict_mono_ex1) (auto simp: nodes_of_def)
  then show ?thesis by simp
qed

text \<open>The queue holds one node for every generator with unread events.\<close>

lemma nodes_member:
  "n \<in># (\<Sum>j<k. nodes_of ts m j) \<longleftrightarrow> (\<exists>j<k. rest m j \<noteq> [] \<and> n = pq_node ts (hd (rest m j)) j)"
  by (auto simp: set_mset_sum nodes_of_def split: if_splits)

section \<open>Asking a generator\<close>

context event_source
begin

lemma push_fresh_spec:
  assumes I: "mux_inv inv stream key U m" and i: "i < length (mx_gens m)" "i \<in> U"
    and key: "\<And>e. ts e = sint (key e)"
    and run: "push_fresh_evs_to_pq gen key i m = (r, m')"
  shows "(\<exists>e. r = Err e \<and> mx_state m' = MUXER_STATE_ERROR \<and> (\<exists>t. gen (mx_gens m ! i) = (Err e, t))) \<or>
    r = Ok () \<and> mux_inv inv stream key (U - {i}) m' \<and> (\<forall>j. j \<noteq> i \<longrightarrow> mx_gens m' ! j = mx_gens m ! j) \<and>
    mux_total stream m' = mux_total stream m \<and> mx_state m' = mx_state m \<and> mx_pending m' = mx_pending m \<and>
    mx_evs_cap m' = mx_evs_cap m \<and> length (mx_gens m') = length (mx_gens m)"
proof (cases "\<exists>e. r = Err e")
  case False
  let ?n = "length (mx_gens m)"
  have gi: "inv (mx_gens m ! i)" and re: "rest m i = []" using I i by (auto simp: mux_inv_def)
  obtain es g where g: "gen (mx_gens m ! i) = (Ok es, g)"
    using gen_returns [OF gi] False run i by (auto simp: push_fresh_evs_to_pq_def Let_def)
  have ev: "inv g" "stream (mx_gens m ! i) = es @ stream g" "es = [] \<Longrightarrow> stream g = []"
    using gen_events [OF gi g] by auto
  define m1 where "m1 = m\<lparr>mx_cur_is := (mx_cur_is m)[i := 0], mx_gens := (mx_gens m)[i := g],
    mx_in_evs := (mx_in_evs m)[i := es]\<rparr>"
  have lens: "length (mx_in_evs m) = ?n" "length (mx_cur_is m) = ?n" "pq_cap (mx_pq m) = ?n"
    and hp: "heap (pq_nodes (mx_pq m))" and bag: "mset (pq_nodes (mx_pq m)) = (\<Sum>j<?n. nodes_of key m j)"
    using I by (auto simp: mux_inv_def)
  have rest1: "rest m1 j = (if j = i then es else rest m j)" if "j < ?n" for j
    using that lens i by (simp add: rest_def m1_def)
  have left1: "mux_left stream m1 j = mux_left stream m j" if "j < ?n" for j
    using rest1 [OF that] re ev(2) i by (auto simp: mux_left_def m1_def nth_list_update)
  have tot: "mux_total stream m1 = mux_total stream m" using left1 by (simp add: mux_total_def m1_def)
  have nodes: "(\<Sum>j<?n. nodes_of key m1 j) = (\<Sum>j<?n. nodes_of key m j) + nodes_of key m1 i"
    using sum_update [of i ?n "nodes_of key m1" "nodes_of key m"] i rest1 re by (simp add: nodes_of_def)
  have each: "inv (mx_gens m1 ! j) \<and> sorted (map (\<lambda>e. sint (key e)) (mux_left stream m1 j)) \<and>
      (j \<in> U - {i} \<longrightarrow> rest m1 j = []) \<and> (j \<notin> U - {i} \<and> rest m1 j = [] \<longrightarrow> stream (mx_gens m1 ! j) = [])"
    if "j < ?n" for j
    using I that ev rest1 [OF that] left1 [OF that] i unfolding mux_inv_def
    by (auto simp: m1_def nth_list_update)
  show ?thesis
  proof (cases "es = []")
    case True
    then have "(r, m') = (Ok (), m1)" using run g i by (simp add: push_fresh_evs_to_pq_def m1_def Let_def)
    moreover have "nodes_of key m1 i = {#}" using True rest1 [of i] i by (simp add: nodes_of_def)
    ultimately show ?thesis using lens hp bag nodes each tot
      by (simp add: mux_inv_def) (simp add: m1_def)
  next
    case ne: False
    have "size (mset (pq_nodes (mx_pq m))) < pq_cap (mx_pq m)"
      using size_nodes [OF i(1) re] bag lens by simp
    then obtain q where q: "prio_queue_push_unchecked (mx_pq m) (pq_node key (es ! 0) i) = Ok q"
      "heap (pq_nodes q)" "mset (pq_nodes q) = add_mset (pq_node key (es ! 0) i) (mset (pq_nodes (mx_pq m)))"
      "pq_cap q = pq_cap (mx_pq m)"
      using heap_pq.push_law [OF hp] by blast
    have m': "r = Ok ()" "m' = m1\<lparr>mx_pq := q\<rparr>"
      using run g i ne q(1) by (simp_all add: push_fresh_evs_to_pq_def m1_def Let_def)
    have same: "rest m' = rest m1" "mux_left stream m' = mux_left stream m1" "nodes_of key m' = nodes_of key m1"
      "mx_gens m' = mx_gens m1"
      by (auto simp: m'(2) rest_def mux_left_def nodes_of_def fun_eq_iff)
    have "nodes_of key m1 i = {#pq_node key (es ! 0) i#}"
      using ne rest1 [of i] i by (simp add: nodes_of_def hd_conv_nth)
    then have "mset (pq_nodes q) = (\<Sum>j<?n. nodes_of key m1 j)" using q(3) bag nodes by simp
    then have "mux_inv inv stream key (U - {i}) m'"
      using each lens q unfolding mux_inv_def same by (simp add: m'(2)) (simp add: m1_def)
    moreover have "mux_total stream m' = mux_total stream m" using tot by (simp add: mux_total_def same)
    ultimately show ?thesis using m' by (simp add: m1_def)
  qed
next
  case True
  then obtain e where r: "r = Err e" by blast
  have "inv (mx_gens m ! i)" using I i by (simp add: mux_inv_def)
  from gen_returns [OF this] show ?thesis
    using run i r by (auto simp: push_fresh_evs_to_pq_def Let_def split: if_splits res.splits)
qed

end

section \<open>Filling the output\<close>

abbreviation at_most :: "('e \<Rightarrow> i64) \<Rightarrow> 'e \<Rightarrow> 'e \<Rightarrow> bool" where
  "at_most ts e x \<equiv> sint (ts e) \<le> sint (ts x)"

lemma least_event:
  assumes I: "mux_inv ok stream ts {} m" and i: "i < length (mx_gens m)" "rest m i \<noteq> []"
    and min: "\<forall>n \<in># mset (pq_nodes (mx_pq m)). sint (ts (hd (rest m i))) \<le> nkey n"
    and x: "x \<in># mux_total stream m"
  shows "at_most ts (hd (rest m i)) x"
proof -
  from x obtain j where j: "j < length (mx_gens m)" "x \<in> set (mux_left stream m j)"
    by (auto simp: mux_total_def set_mset_sum)
  have srt: "sorted (map (\<lambda>e. sint (ts e)) (mux_left stream m j))"
    and ne: "rest m j = [] \<Longrightarrow> mux_left stream m j = []"
    using I j(1) by (auto simp: mux_inv_def mux_left_def)
  then have r: "rest m j \<noteq> []" using j(2) by auto
  have "pq_node ts (hd (rest m j)) j \<in># mset (pq_nodes (mx_pq m))"
    using I j(1) r unfolding mux_inv_def nodes_member [symmetric] by (auto simp: nodes_member)
  then have "at_most ts (hd (rest m i)) (hd (rest m j))" using min by fastforce
  moreover have "at_most ts (hd (rest m j)) x"
    using srt j(2) r by (cases "rest m j") (auto simp: mux_left_def)
  ultimately show ?thesis by simp
qed

text \<open>One step of the loop: the event of a popped node leaves its buffer.\<close>

lemma pop_step:
  assumes I: "mux_inv ok stream ts {} m" and ne: "pq_nodes (mx_pq m) \<noteq> []"
  obtains i e q where "prio_queue_pop_unchecked (mx_pq m) = Ok (pq_node ts e i, q)"
    "i < length (mx_gens m)" "mx_cur_is m ! i < length (mx_in_evs m ! i)" "e = mx_in_evs m ! i ! (mx_cur_is m ! i)"
    "rest m i = e # drop (mx_cur_is m ! i + 1) (mx_in_evs m ! i)"
    "heap (pq_nodes q)" "pq_cap q = length (mx_gens m)"
    "add_mset (pq_node ts e i) (mset (pq_nodes q)) = (\<Sum>j < length (mx_gens m). nodes_of ts m j)"
    "\<And>x. x \<in># mux_total stream m \<Longrightarrow> at_most ts e x"
proof -
  have hp: "heap (pq_nodes (mx_pq m))" "mset (pq_nodes (mx_pq m)) \<noteq> {#}" using I ne by (auto simp: mux_inv_def)
  obtain n q where q: "prio_queue_pop_unchecked (mx_pq m) = Ok (n, q)" "heap (pq_nodes q)"
    "n \<in># mset (pq_nodes (mx_pq m))" "mset (pq_nodes q) = mset (pq_nodes (mx_pq m)) - {#n#}"
    "pq_cap q = pq_cap (mx_pq m)" "\<forall>k \<in># mset (pq_nodes (mx_pq m)). nkey n \<le> nkey k"
    using heap_pq.pop_law [OF hp] by blast
  have bag: "mset (pq_nodes (mx_pq m)) = (\<Sum>j < length (mx_gens m). nodes_of ts m j)"
    "pq_cap (mx_pq m) = length (mx_gens m)"
    using I by (auto simp: mux_inv_def)
  from q(3) obtain i where i: "i < length (mx_gens m)" "rest m i \<noteq> []" "n = pq_node ts (hd (rest m i)) i"
    unfolding bag(1) nodes_member by blast
  have c: "mx_cur_is m ! i < length (mx_in_evs m ! i)" using i(2) by (simp add: rest_def)
  then have r: "rest m i = mx_in_evs m ! i ! (mx_cur_is m ! i) # drop (mx_cur_is m ! i + 1) (mx_in_evs m ! i)"
    by (simp add: rest_def Cons_nth_drop_Suc)
  have n: "n = pq_node ts (mx_in_evs m ! i ! (mx_cur_is m ! i)) i" using i(3) r by simp
  have "at_most ts (hd (rest m i)) x" if "x \<in># mux_total stream m" for x
    using least_event [OF I i(1,2) _ that] q(6) i(3) by simp
  then have "at_most ts (mx_in_evs m ! i ! (mx_cur_is m ! i)) x" if "x \<in># mux_total stream m" for x
    using that r by simp
  moreover have "add_mset n (mset (pq_nodes q)) = (\<Sum>j < length (mx_gens m). nodes_of ts m j)"
    using q(3,4) bag(1) by simp
  ultimately show thesis using that [of _ i q] q(1,2,5) i(1) c r n bag(2) by simp
qed

text \<open>The state after the event of generator \<open>i\<close> is taken and the queue is \<open>q\<close>.\<close>

definition taken :: "('s, 'e) actf_muxer \<Rightarrow> nat \<Rightarrow> prio_queue \<Rightarrow> ('s, 'e) actf_muxer" where
  "taken m i q = m\<lparr>mx_cur_is := (mx_cur_is m)[i := mx_cur_is m ! i + 1], mx_pq := q\<rparr>"

lemma taken_spec:
  assumes I: "mux_inv ok stream ts {} m" and i: "i < length (mx_gens m)"
    and e: "rest m i = e # drop (mx_cur_is m ! i + 1) (mx_in_evs m ! i)"
  shows "rest (taken m i q) i = drop (mx_cur_is m ! i + 1) (mx_in_evs m ! i)"
    and "mux_total stream m = add_mset e (mux_total stream (taken m i q))"
    and "add_mset (pq_node ts e i) (\<Sum>j < length (mx_gens m). nodes_of ts (taken m i q) j) =
      (\<Sum>j < length (mx_gens m). nodes_of ts m j) + nodes_of ts (taken m i q) i"
    and "\<And>j. j < length (mx_gens m) \<Longrightarrow>
      ok (mx_gens m ! j) \<and> sorted (map (\<lambda>e. sint (ts e)) (mux_left stream (taken m i q) j)) \<and>
      (j \<noteq> i \<and> rest (taken m i q) j = [] \<longrightarrow> stream (mx_gens m ! j) = [])"
proof -
  let ?n = "length (mx_gens m)" and ?m1 = "taken m i q"
  have lens: "length (mx_in_evs m) = ?n" "length (mx_cur_is m) = ?n" using I by (auto simp: mux_inv_def)
  have r: "rest ?m1 j = (if j = i then drop (mx_cur_is m ! i + 1) (mx_in_evs m ! i) else rest m j)"
    if "j < ?n" for j using that lens by (simp add: rest_def taken_def)
  then show "rest ?m1 i = drop (mx_cur_is m ! i + 1) (mx_in_evs m ! i)" using i by simp
  have li: "mux_left stream m i = e # mux_left stream ?m1 i" using i e r [of i] by (simp add: mux_left_def taken_def)
  have lj: "mux_left stream ?m1 j = mux_left stream m j" if "j < ?n" "j \<noteq> i" for j
    using r [OF that(1)] that(2) by (simp add: mux_left_def taken_def)
  show "mux_total stream m = add_mset e (mux_total stream ?m1)"
    using sum_update [of i ?n "\<lambda>j. mset (mux_left stream ?m1 j)" "\<lambda>j. mset (mux_left stream m j)"] i lj li
    by (simp add: mux_total_def taken_def)
  have nj: "nodes_of ts ?m1 j = nodes_of ts m j" if "j < ?n" "j \<noteq> i" for j
    using r [OF that(1)] that(2) by (simp add: nodes_of_def)
  have ni: "nodes_of ts m i = {#pq_node ts e i#}" using e by (simp add: nodes_of_def)
  show "add_mset (pq_node ts e i) (\<Sum>j < ?n. nodes_of ts ?m1 j) =
      (\<Sum>j < ?n. nodes_of ts m j) + nodes_of ts ?m1 i"
    using sum_update [of i ?n "nodes_of ts ?m1" "nodes_of ts m"] i nj ni by simp
  show "ok (mx_gens m ! j) \<and> sorted (map (\<lambda>e. sint (ts e)) (mux_left stream ?m1 j)) \<and>
      (j \<noteq> i \<and> rest ?m1 j = [] \<longrightarrow> stream (mx_gens m ! j) = [])" if "j < ?n" for j
    using I that li lj [OF that] r [OF that] unfolding mux_inv_def by (cases "j = i") auto
qed

text \<open>The generator goes back into the queue with its next event, or becomes the pending one.\<close>

lemma mux_inv_requeue:
  assumes I: "mux_inv ok stream ts {} m" and i: "i < length (mx_gens m)"
    and e: "rest m i = e # drop (mx_cur_is m ! i + 1) (mx_in_evs m ! i)"
    and q: "heap (pq_nodes q)" "pq_cap q = length (mx_gens m)"
      "add_mset (pq_node ts e i) (mset (pq_nodes q)) = (\<Sum>j < length (mx_gens m). nodes_of ts m j)"
    and more: "mx_cur_is m ! i + 1 < length (mx_in_evs m ! i)"
  obtains q2 where
    "prio_queue_push_unchecked q (pq_node ts (mx_in_evs m ! i ! (mx_cur_is m ! i + 1)) i) = Ok q2"
    "mux_inv ok stream ts {} (taken m i q2)" "mux_total stream m = add_mset e (mux_total stream (taken m i q2))"
proof -
  let ?n = "length (mx_gens m)" and ?x = "pq_node ts (mx_in_evs m ! i ! (mx_cur_is m ! i + 1)) i"
  have "size (\<Sum>j<?n. nodes_of ts m j) \<le> ?n"
    using sum_mono [of "{..<?n}" "\<lambda>j. size (nodes_of ts m j)" "\<lambda>_. 1"] by (simp add: nodes_of_def)
  then have "size (mset (pq_nodes q)) < pq_cap q" unfolding q(3) [symmetric] q(2) by simp
  then obtain q2 where q2: "prio_queue_push_unchecked q ?x = Ok q2" "heap (pq_nodes q2)"
    "mset (pq_nodes q2) = add_mset ?x (mset (pq_nodes q))" "pq_cap q2 = pq_cap q"
    using heap_pq.push_law [OF q(1)] by blast
  note t = taken_spec [OF I i e, where q = q2]
  have r: "rest (taken m i q2) i \<noteq> []" using t(1) more by simp
  have "nodes_of ts (taken m i q2) i = {#?x#}" using t(1) more by (simp add: nodes_of_def hd_drop_conv_nth)
  then have "mset (pq_nodes q2) = (\<Sum>j<?n. nodes_of ts (taken m i q2) j)"
    using t(3) unfolding q2(3) q(3) [symmetric] by simp
  then have "mux_inv ok stream ts {} (taken m i q2)"
    using I t(4) q2 q(2) r unfolding mux_inv_def by (auto simp: taken_def)
  then show thesis using that q2(1) t(2) by blast
qed

lemma mux_inv_pending:
  assumes I: "mux_inv ok stream ts {} m" and i: "i < length (mx_gens m)"
    and e: "rest m i = e # drop (mx_cur_is m ! i + 1) (mx_in_evs m ! i)"
    and q: "heap (pq_nodes q)" "pq_cap q = length (mx_gens m)"
      "add_mset (pq_node ts e i) (mset (pq_nodes q)) = (\<Sum>j < length (mx_gens m). nodes_of ts m j)"
    and last: "\<not> mx_cur_is m ! i + 1 < length (mx_in_evs m ! i)"
  shows "mux_inv ok stream ts {i} ((taken m i q)\<lparr>mx_pending := i\<rparr>)"
    and "mux_total stream m = add_mset e (mux_total stream ((taken m i q)\<lparr>mx_pending := i\<rparr>))"
proof -
  let ?m2 = "(taken m i q)\<lparr>mx_pending := i\<rparr>"
  note t = taken_spec [OF I i e, where q = q]
  have same: "rest ?m2 = rest (taken m i q)" "mux_left stream ?m2 = mux_left stream (taken m i q)"
    "nodes_of ts ?m2 = nodes_of ts (taken m i q)"
    by (auto simp: rest_def mux_left_def nodes_of_def fun_eq_iff)
  show "mux_total stream m = add_mset e (mux_total stream ?m2)" using t(2) unfolding mux_total_def same by simp
  have r: "rest (taken m i q) i = []" using t(1) last by simp
  then have "nodes_of ts (taken m i q) i = {#}" by (simp add: nodes_of_def)
  then have "mset (pq_nodes q) = (\<Sum>j < length (mx_gens m). nodes_of ts (taken m i q) j)"
    using t(3) unfolding q(3) [symmetric] by simp
  then show "mux_inv ok stream ts {i} ?m2"
    unfolding mux_view unfolding mux_inv_def using I t(4) q r by (auto simp: taken_def mux_inv_def)
qed

text \<open>
  What a run of the muxer must satisfy: it is in order, nothing that is left is earlier, and
  nothing is lost or made up.
\<close>

definition mux_out_ok ::
  "('s \<Rightarrow> bool) \<Rightarrow> ('s \<Rightarrow> 'e list) \<Rightarrow> ('e \<Rightarrow> i64) \<Rightarrow> ('s, 'e) actf_muxer \<Rightarrow> 'e list \<Rightarrow> ('s, 'e) actf_muxer \<Rightarrow> bool" where
  "mux_out_ok ok stream ts m out m' \<longleftrightarrow>
     mux_inv ok stream ts {mx_pending m'} m' \<and> sorted (map (\<lambda>e. sint (ts e)) out) \<and>
     (\<forall>e \<in> set out. \<forall>x \<in># mux_total stream m'. at_most ts e x) \<and>
     mset out + mux_total stream m' = mux_total stream m \<and>
     mx_evs_cap m' = mx_evs_cap m \<and> length (mx_gens m') = length (mx_gens m)"

lemma mux_inv_no_pending:
  "mux_inv ok stream ts {} m \<Longrightarrow> length (mx_gens m) \<le> k \<Longrightarrow> mux_inv ok stream ts {k} m"
  by (auto simp: mux_inv_def)

lemma mux_inv_empty_queue:
  assumes "mux_inv ok stream ts {} m" "pq_nodes (mx_pq m) = []"
  shows "mux_total stream m = {#}"
proof -
  have "\<not> (\<exists>j < length (mx_gens m). rest m j \<noteq> [])"
    using assms nodes_member unfolding mux_inv_def by (metis empty_iff list.set(1) set_mset_mset)
  then have "mux_left stream m j = []" if "j < length (mx_gens m)" for j
    using assms(1) that by (auto simp: mux_inv_def mux_left_def)
  then show ?thesis by (simp add: mux_total_def)
qed

lemma mux_pop_spec:
  assumes "mux_inv ok stream ts {} m" "length (mx_gens m) \<le> mx_pending m"
  shows "\<exists>out m'. mux_pop ts room m = (Ok out, m') \<and> mux_out_ok ok stream ts m out m' \<and>
    mx_state m' = mx_state m \<and> (out = [] \<longrightarrow> room = 0 \<or> mux_total stream m = {#})"
  using assms
proof (induction room arbitrary: m)
  case 0
  then show ?case using mux_inv_no_pending by (auto simp: mux_out_ok_def)
next
  case (Suc room)
  note I = Suc.prems(1)
  show ?case
  proof (cases "pq_nodes (mx_pq m) = []")
    case True
    then show ?thesis using Suc.prems mux_inv_no_pending mux_inv_empty_queue by (auto simp: mux_out_ok_def)
  next
    case False
    obtain i e q where p: "prio_queue_pop_unchecked (mx_pq m) = Ok (pq_node ts e i, q)"
      "i < length (mx_gens m)" "mx_cur_is m ! i < length (mx_in_evs m ! i)"
      "e = mx_in_evs m ! i ! (mx_cur_is m ! i)"
      and e: "rest m i = e # drop (mx_cur_is m ! i + 1) (mx_in_evs m ! i)"
      and q: "heap (pq_nodes q)" "pq_cap q = length (mx_gens m)"
        "add_mset (pq_node ts e i) (mset (pq_nodes q)) = (\<Sum>j < length (mx_gens m). nodes_of ts m j)"
      and least: "\<And>x. x \<in># mux_total stream m \<Longrightarrow> at_most ts e x"
      using pop_step [OF I False] by metis
    have lens: "length (mx_in_evs m) = length (mx_gens m)" using I by (simp add: mux_inv_def)
    show ?thesis
    proof (cases "mx_cur_is m ! i + 1 < length (mx_in_evs m ! i)")
      case True
      obtain q2 where q2:
        "prio_queue_push_unchecked q (pq_node ts (mx_in_evs m ! i ! (mx_cur_is m ! i + 1)) i) = Ok q2"
        "mux_inv ok stream ts {} (taken m i q2)" "mux_total stream m = add_mset e (mux_total stream (taken m i q2))"
        using mux_inv_requeue [OF I p(2) e q True] by blast
      obtain out m' where out: "mux_pop ts room (taken m i q2) = (Ok out, m')"
        "mux_out_ok ok stream ts (taken m i q2) out m'" "mx_state m' = mx_state m"
        using Suc.IH [OF q2(2)] Suc.prems(2) by (auto simp: taken_def)
      have "mux_pop ts (Suc room) m = (Ok (e # out), m')"
        using False p True lens out(1) q2(1) by (simp add: taken_def)
      moreover have "\<forall>x \<in># mset out + mux_total stream m'. at_most ts e x"
        using out(2) least q2(3) by (simp add: mux_out_ok_def)
      ultimately show ?thesis using out q2(3) by (auto simp: mux_out_ok_def taken_def)
    next
      case last: False
      have "mux_pop ts (Suc room) m = (Ok [e], (taken m i q)\<lparr>mx_pending := i\<rparr>)"
        using False p last lens by (simp add: Let_def taken_def)
      then show ?thesis using mux_inv_pending [OF I p(2) e q last] least
        by (auto simp: mux_out_ok_def taken_def)
    qed
  qed
qed

section \<open>A call of the muxer\<close>

definition gen_failed :: "('s, 'e) generate \<Rightarrow> ('s, 'e) actf_muxer \<Rightarrow> actf_err \<Rightarrow> bool" where
  "gen_failed gen m e \<longleftrightarrow> (\<exists>g \<in> set (mx_gens m). \<exists>t. gen g = (Err e, t))"

lemma gen_failedI: "i < length (mx_gens m) \<Longrightarrow> gen (mx_gens m ! i) = (Err e, t) \<Longrightarrow> gen_failed gen m e"
  using nth_mem unfolding gen_failed_def by blast

text \<open>The invariant, by the state the muxer is in.\<close>

definition mux_ready ::
  "('s \<Rightarrow> bool) \<Rightarrow> ('s \<Rightarrow> 'e list) \<Rightarrow> ('e \<Rightarrow> i64) \<Rightarrow> ('s, 'e) actf_muxer \<Rightarrow> bool" where
  "mux_ready ok stream ts m \<longleftrightarrow>
     (case mx_state m of
        MUXER_STATE_FRESH \<Rightarrow>
          mux_inv ok stream ts {..<length (mx_gens m)} m \<and> mx_pending m = length (mx_gens m)
      | MUXER_STATE_ONGOING \<Rightarrow> mux_inv ok stream ts {mx_pending m} m
      | MUXER_STATE_DONE \<Rightarrow> mux_inv ok stream ts {mx_pending m} m \<and> mux_total stream m = {#}
      | MUXER_STATE_ERROR \<Rightarrow> True)"

context event_source
begin

lemma mux_ongoing_spec:
  assumes I: "mux_inv inv stream key {mx_pending m} m" and key: "\<And>e. ts e = sint (key e)"
    and run: "mux_ongoing gen key m = (r, m')"
  shows "(\<exists>e. r = Err e \<and> mx_state m' = MUXER_STATE_ERROR \<and> has_pending_gen m \<and> gen_failed gen m e) \<or>
    (\<exists>out. r = Ok out \<and> mux_out_ok inv stream key m out m' \<and>
      (if out = [] \<and> 0 < mx_evs_cap m then mux_total stream m = {#} \<and> mx_state m' = MUXER_STATE_DONE
       else mx_state m' = mx_state m))"
proof -
  have pop: "\<exists>out. r = Ok out \<and> mux_out_ok inv stream key m1 out m' \<and>
      (if out = [] \<and> 0 < mx_evs_cap m1 then mux_total stream m1 = {#} \<and> mx_state m' = MUXER_STATE_DONE
       else mx_state m' = mx_state m1)"
    if m1: "mux_inv inv stream key {} m1" "length (mx_gens m1) \<le> mx_pending m1"
      "bindc (gets mx_evs_cap) (\<lambda>cap. bindc (mux_pop key cap) (\<lambda>out.
         thenc (if out = [] \<and> 0 < cap then modify (\<lambda>m. m\<lparr>mx_state := MUXER_STATE_DONE\<rparr>) else ret ())
           (ret out))) m1 = (r, m')" for m1
  proof -
    obtain out m2 where p: "mux_pop key (mx_evs_cap m1) m1 = (Ok out, m2)" "mux_out_ok inv stream key m1 out m2"
      "mx_state m2 = mx_state m1" "out = [] \<longrightarrow> mx_evs_cap m1 = 0 \<or> mux_total stream m1 = {#}"
      using mux_pop_spec [OF m1(1,2)] by blast
    have st: "mux_out_ok inv stream key m1 out (m2\<lparr>mx_state := MUXER_STATE_DONE\<rparr>)"
      using p(2) by (simp add: mux_out_ok_def)
    have "r = Ok out \<and> m' = (if out = [] \<and> 0 < mx_evs_cap m1 then m2\<lparr>mx_state := MUXER_STATE_DONE\<rparr> else m2)"
      using m1(3) p(1) by (auto simp: bindc_def thenc_def gets_def modify_def ret_def)
    then show ?thesis using p(2,3,4) st by (cases "out = [] \<and> 0 < mx_evs_cap m1") auto
  qed
  show ?thesis
  proof (cases "has_pending_gen m")
    case True
    then have i: "mx_pending m < length (mx_gens m)" by (simp add: has_pending_gen_def)
    obtain r1 m1 where f: "push_fresh_evs_to_pq gen key (mx_pending m) m = (r1, m1)" by fastforce
    show ?thesis
    proof (cases "\<exists>e. r1 = Err e")
      case True
      then obtain e t where e: "r1 = Err e" "mx_state m1 = MUXER_STATE_ERROR"
        "gen (mx_gens m ! mx_pending m) = (Err e, t)"
        using push_fresh_spec [OF I i _ key f] by auto
      then have "r = Err e" "m' = m1"
        using run f \<open>has_pending_gen m\<close> by (simp_all add: mux_ongoing_def thenc_def bindc_def gets_def)
      then show ?thesis using e i \<open>has_pending_gen m\<close> gen_failedI [OF i] by auto
    next
      case False
      then have g: "r1 = Ok ()" "mux_inv inv stream key {} m1" "mux_total stream m1 = mux_total stream m"
        "mx_evs_cap m1 = mx_evs_cap m" "length (mx_gens m1) = length (mx_gens m)" "mx_state m1 = mx_state m"
        using push_fresh_spec [OF I i _ key f] by auto
      define m2 where "m2 = set_no_pending_gen m1"
      have e: "mux_inv inv stream key {} m2" "length (mx_gens m2) \<le> mx_pending m2"
        "mux_total stream m2 = mux_total stream m1" "mx_evs_cap m2 = mx_evs_cap m" "length (mx_gens m2) = length (mx_gens m)"
        "mx_state m2 = mx_state m"
        using g by (simp_all add: m2_def set_no_pending_gen_def)
      have "\<exists>out. r = Ok out \<and> mux_out_ok inv stream key m2 out m' \<and>
          (if out = [] \<and> 0 < mx_evs_cap m2 then mux_total stream m2 = {#} \<and> mx_state m' = MUXER_STATE_DONE
           else mx_state m' = mx_state m2)"
        using pop [OF e(1,2)] run f g(1) \<open>has_pending_gen m\<close>
        by (simp add: mux_ongoing_def thenc_def bindc_def gets_def modify_def flip: m2_def)
      then show ?thesis using e g by (auto simp: mux_out_ok_def)
    qed
  next
    case False
    then have n: "length (mx_gens m) \<le> mx_pending m" by (simp add: has_pending_gen_def)
    then have "mux_inv inv stream key {} m" using I by (auto simp: mux_inv_def)
    then show ?thesis using pop [OF _ n] run False
      by (simp add: mux_ongoing_def thenc_def bindc_def gets_def ret_def)
  qed
qed

lemma mux_bootstrap_spec:
  assumes "mux_inv inv stream key (set is) m" "set is \<subseteq> {..<length (mx_gens m)}" "distinct is"
    and "\<And>e. ts e = sint (key e)"
    and "mux_bootstrap gen key is m = (r, m')"
  shows "(\<exists>e. r = Err e \<and> mx_state m' = MUXER_STATE_ERROR \<and> (\<exists>i \<in> set is. \<exists>t. gen (mx_gens m ! i) = (Err e, t))) \<or>
    r = Ok () \<and> mux_inv inv stream key {} m' \<and> mux_total stream m' = mux_total stream m \<and>
    mx_pending m' = mx_pending m \<and> mx_evs_cap m' = mx_evs_cap m \<and> length (mx_gens m') = length (mx_gens m)"
  using assms
proof (induction "is" arbitrary: m)
  case (Cons i "is")
  obtain r1 m1 where f: "push_fresh_evs_to_pq gen key i m = (r1, m1)" by fastforce
  have i: "i < length (mx_gens m)" using Cons.prems by auto
  from push_fresh_spec [OF Cons.prems(1) i list.set_intros(1) Cons.prems(4) f] show ?case
  proof (elim disjE conjE exE)
    assume a: "r1 = Ok ()" "mux_inv inv stream key (set (i # is) - {i}) m1"
      "mux_total stream m1 = mux_total stream m" "\<forall>j. j \<noteq> i \<longrightarrow> mx_gens m1 ! j = mx_gens m ! j"
      "mx_pending m1 = mx_pending m" "mx_evs_cap m1 = mx_evs_cap m" "length (mx_gens m1) = length (mx_gens m)"
    have "set (i # is) - {i} = set is" "\<And>j. j \<in> set is \<Longrightarrow> j \<noteq> i" using Cons.prems(3) by auto
    then show ?thesis
      using Cons.IH [of m1] Cons.prems f a by (auto simp: thenc_def bindc_def)
  qed (use Cons.prems f in \<open>auto simp: thenc_def bindc_def\<close>)
qed (auto simp: ret_def)

text \<open>
  One call of the muxer, whatever its state: it fails only if a generator does, and then stays
  failed; otherwise it hands out the earliest events, and no event only when none is left.
\<close>

lemma muxer_mux_spec:
  assumes I: "mux_ready inv stream key m" and key: "\<And>e. ts e = sint (key e)" and cap: "0 < mx_evs_cap m"
    and run: "actf_muxer_mux gen key m = (r, m')"
  shows "(\<exists>e. r = Err e \<and> mx_state m' = MUXER_STATE_ERROR \<and>
      (mx_state m = MUXER_STATE_ERROR \<or> gen_failed gen m e)) \<or>
    (\<exists>out. r = Ok out \<and> mux_ready inv stream key m' \<and> mx_state m' \<noteq> MUXER_STATE_ERROR \<and> mux_out_ok inv stream key m out m' \<and>
      (out = [] \<longrightarrow> mux_total stream m = {#} \<and> mx_state m' = MUXER_STATE_DONE))"
proof -
  have going: ?thesis
    if "mux_inv inv stream key {mx_pending m1} m1" "mx_state m1 = MUXER_STATE_ONGOING"
      "mux_ongoing gen key m1 = (r, m')" "mx_evs_cap m1 = mx_evs_cap m"
      "mux_total stream m1 = mux_total stream m" "length (mx_gens m1) = length (mx_gens m)"
      "\<And>e. has_pending_gen m1 \<Longrightarrow> gen_failed gen m1 e \<Longrightarrow> gen_failed gen m e" for m1
    using mux_ongoing_spec [OF that(1) key that(3)] that cap
    by (auto simp: mux_ready_def mux_out_ok_def split: if_splits)
  show ?thesis
  proof (cases "mx_state m")
    case MUXER_STATE_FRESH
    then have I0: "mux_inv inv stream key (set [0..<length (mx_gens m)]) m"
      and p: "mx_pending m = length (mx_gens m)"
      using I by (simp_all add: mux_ready_def atLeast0LessThan)
    obtain r1 m1 where b: "mux_bootstrap gen key [0..<length (mx_gens m)] m = (r1, m1)" by fastforce
    have "set [0..<length (mx_gens m)] \<subseteq> {..<length (mx_gens m)}" "distinct [0..<length (mx_gens m)]" by auto
    from mux_bootstrap_spec [OF I0 this key b] show ?thesis
    proof (elim disjE conjE exE)
      assume a: "r1 = Ok ()" "mux_inv inv stream key {} m1" "mux_total stream m1 = mux_total stream m"
        "mx_pending m1 = mx_pending m" "mx_evs_cap m1 = mx_evs_cap m" "length (mx_gens m1) = length (mx_gens m)"
      define m2 where "m2 = m1\<lparr>mx_state := MUXER_STATE_ONGOING\<rparr>"
      have "mux_ongoing gen key m2 = (r, m')"
        using run b a(1) MUXER_STATE_FRESH by (simp add: actf_muxer_mux_def m2_def thenc_def bindc_def modify_def)
      moreover have "mux_inv inv stream key {mx_pending m2} m2" "mx_state m2 = MUXER_STATE_ONGOING"
        "\<not> has_pending_gen m2" "mx_evs_cap m2 = mx_evs_cap m" "mux_total stream m2 = mux_total stream m"
        using a p mux_inv_no_pending [OF a(2)] by (simp_all add: m2_def has_pending_gen_def)
      ultimately show ?thesis using going [of m2] a(6) by (simp add: m2_def)
    qed (use run b MUXER_STATE_FRESH in \<open>auto simp: actf_muxer_mux_def thenc_def bindc_def intro: gen_failedI\<close>)
  next
    case MUXER_STATE_ONGOING
    then show ?thesis using going [of m] I run by (auto simp: mux_ready_def actf_muxer_mux_def)
  qed (use I run in \<open>auto simp: mux_ready_def mux_out_ok_def actf_muxer_mux_def\<close>)
qed

text \<open>
  The muxer as a generator: called until it returns no events, it emits the events of all its
  generators in the order of their timestamps, or a part of them if a generator fails.
\<close>

lemma muxer_emits:
  assumes "mux_ready inv stream key m" "\<And>e. ts e = sint (key e)" "0 < mx_evs_cap m"
    "mx_state m \<noteq> MUXER_STATE_ERROR"
  shows "\<exists>str. emits (actf_muxer_mux gen key) m str \<and> sorted (map ts str) \<and> mset str \<subseteq># mux_total stream m \<and>
    ((\<forall>s t e. inv s \<longrightarrow> gen s \<noteq> (Err e, t)) \<longrightarrow>
      mset str = mux_total stream m \<and> emits_all (actf_muxer_mux gen key) m str)"
  using assms
proof (induction "size (mux_total stream m)" arbitrary: m rule: less_induct)
  case less
  note key = less.prems(2)
  have tsd: "ts = (\<lambda>e. sint (key e))" using key by blast
  obtain r m' where run: "actf_muxer_mux gen key m = (r, m')" by fastforce
  from muxer_mux_spec [OF less.prems(1-3) run] show ?case
  proof (elim disjE exE conjE)
    fix e
    assume "r = Err e" "gen_failed gen m e"
    moreover from this have "\<exists>s t. inv s \<and> gen s = (Err e, t)"
      using less.prems(1,4) by (fastforce simp: gen_failed_def mux_ready_def mux_inv_def in_set_conv_nth split: muxer_state.splits)
    ultimately show ?thesis using run emits_err by (intro exI [of _ "[]"]) fastforce
  next
    fix out
    assume out: "r = Ok out" "mux_ready inv stream key m'" "mux_out_ok inv stream key m out m'"
      "out = [] \<longrightarrow> mux_total stream m = {#} \<and> mx_state m' = MUXER_STATE_DONE" "mx_state m' \<noteq> MUXER_STATE_ERROR"
    show ?thesis
    proof (cases "out = []")
      case True
      then have "actf_muxer_mux gen key m' = (Ok [], m')" using out(4) by (simp add: actf_muxer_mux_def)
      then have "emits_all (actf_muxer_mux gen key) m []" using all_end run out(1) True by metis
      moreover from this have "emits (actf_muxer_mux gen key) m []" by (rule emits_all_emits)
      ultimately show ?thesis using out(4) True by (intro exI [of _ "[]"]) simp
    next
      case False
      have o: "mset out + mux_total stream m' = mux_total stream m" "0 < mx_evs_cap m'"
        "sorted (map ts out)" "\<forall>e \<in> set out. \<forall>x \<in># mux_total stream m'. ts e \<le> ts x"
        using out(3) less.prems(3) unfolding mux_out_ok_def tsd by auto
      have "size (mux_total stream m') < size (mux_total stream m)" using False o(1) [symmetric] by simp
      then obtain str where str: "emits (actf_muxer_mux gen key) m' str" "sorted (map ts str)"
        "mset str \<subseteq># mux_total stream m'"
        "(\<forall>s t e. inv s \<longrightarrow> gen s \<noteq> (Err e, t)) \<longrightarrow>
          mset str = mux_total stream m' \<and> emits_all (actf_muxer_mux gen key) m' str"
        using less.hyps [OF _ out(2) key o(2) out(5)] by blast
      have "emits (actf_muxer_mux gen key) m (out @ str)" using emits_run run out(1) False str(1) by metis
      moreover have "emits_all (actf_muxer_mux gen key) m' str \<Longrightarrow> emits_all (actf_muxer_mux gen key) m (out @ str)"
        using all_run run out(1) False by metis
      moreover have "sorted (map ts (out @ str))"
        using o str(2,3) by (auto simp: sorted_append dest: mset_subset_eqD)
      moreover have "mset (out @ str) \<subseteq># mux_total stream m" using str(3) o(1) by (simp flip: o(1))
      ultimately show ?thesis using str(4) o(1) by (intro exI [of _ "out @ str"]) auto
    qed
  qed (use less.prems(4) in simp)
qed

end

end
