(* ===== verification/Time_Filter.thy ===== *)
theory Time_Filter
  imports Event_Generator "HOL-Library.Signed_Division"
begin

text \<open>
  The time range filter of filter.c over an arbitrary generator: \<open>gen\<close> and \<open>seek\<close> are the
  functions of the generator, \<open>ts\<close> is the timestamp of an event. The state of the generator is
  \<open>f_gen\<close>. Signed arithmetic that overflows is undefined.
\<close>

section \<open>State and operations\<close>

datatype filter_state =
  FILTER_STATE_FRESH | FILTER_STATE_ONGOING | FILTER_STATE_DONE | FILTER_STATE_ERROR

record actf_filter_time_range =
  fr_begin :: i64
  fr_begin_has_date :: bool
  fr_end :: i64
  fr_end_has_date :: bool

record 's actf_filter =
  f_gen :: 's
  f_range :: actf_filter_time_range
  f_state :: filter_state

text \<open>\<open>alloc\<close> says whether the allocation succeeds.\<close>

definition actf_filter_init :: "bool \<Rightarrow> 's \<Rightarrow> actf_filter_time_range \<Rightarrow> 's actf_filter option" where
  "actf_filter_init alloc gen rng =
     (if alloc then Some \<lparr>f_gen = gen, f_range = rng, f_state = FILTER_STATE_FRESH\<rparr> else None)"

definition hhmmss_ns :: int where
  "hhmmss_ns = 24 * 60 * 60 * 1000000000"

definition date_off :: "i64 \<Rightarrow> int" where
  "date_off ns_from_origin = sint ns_from_origin - sint ns_from_origin smod hhmmss_ns"

definition i64_range :: "int \<Rightarrow> bool" where
  "i64_range x \<longleftrightarrow> - (2 ^ 63) \<le> x \<and> x < 2 ^ 63"

text \<open>The bounds without a date get the date of the event; the begin comes first.\<close>

definition range_add_dates :: "i64 \<Rightarrow> actf_filter_time_range \<Rightarrow> actf_filter_time_range res" where
  "range_add_dates ns r =
     (let off = date_off ns;
          b = sint (fr_begin r) + off;
          e = sint (fr_end r) + off
      in if \<not> fr_begin_has_date r \<and> \<not> i64_range b then Undef
         else if \<not> fr_end_has_date r \<and> \<not> i64_range e then Undef
         else Ok (r\<lparr>fr_begin := (if fr_begin_has_date r then fr_begin r else word_of_int b),
                    fr_begin_has_date := True,
                    fr_end := (if fr_end_has_date r then fr_end r else word_of_int e),
                    fr_end_has_date := True\<rparr>))"

definition ensure_range_has_dates ::
  "('s, 'e) generate \<Rightarrow> ('e \<Rightarrow> i64) \<Rightarrow> ('s actf_filter, unit) cm" where
  "ensure_range_has_dates gen ts f =
     (if fr_begin_has_date (f_range f) \<and> fr_end_has_date (f_range f) then (Ok (), f)
      else case gen (f_gen f) of
          (Err rc, g) \<Rightarrow> (Err rc, f\<lparr>f_gen := g, f_state := FILTER_STATE_ERROR\<rparr>)
        | (Ok evs, g) \<Rightarrow>
            if evs = [] then (Ok (), f\<lparr>f_gen := g\<rparr>)
            else (case range_add_dates (ts (evs ! 0)) (f_range f) of
                Ok r \<Rightarrow> (Ok (), f\<lparr>f_gen := g, f_range := r\<rparr>)
              | r \<Rightarrow> (Undef, f\<lparr>f_gen := g\<rparr>))
        | (Undef, g) \<Rightarrow> (Undef, f\<lparr>f_gen := g\<rparr>)
        | (Loop, g) \<Rightarrow> (Loop, f\<lparr>f_gen := g\<rparr>))"

definition actf_filter_seek_ns_from_origin ::
  "('s, 'e) generate \<Rightarrow> 's gen_seek \<Rightarrow> ('e \<Rightarrow> i64) \<Rightarrow> i64 \<Rightarrow> ('s actf_filter, unit) cm" where
  "actf_filter_seek_ns_from_origin gen seek ts tstamp =
     thenc (ensure_range_has_dates gen ts)
       (\<lambda>f.
          if sint (fr_end (f_range f)) < sint tstamp \<and> \<not> sint tstamp < sint (fr_begin (f_range f))
          then (Ok (), f\<lparr>f_state := FILTER_STATE_DONE\<rparr>)
          else
            let t = (if sint tstamp < sint (fr_begin (f_range f)) then fr_begin (f_range f) else tstamp) in
            case seek t (f_gen f) of
              (Ok u, g) \<Rightarrow> (Ok (), f\<lparr>f_gen := g, f_state := FILTER_STATE_ONGOING\<rparr>)
            | (Err rc, g) \<Rightarrow> (Err rc, f\<lparr>f_gen := g, f_state := FILTER_STATE_ERROR\<rparr>)
            | (Undef, g) \<Rightarrow> (Undef, f\<lparr>f_gen := g\<rparr>)
            | (Loop, g) \<Rightarrow> (Loop, f\<lparr>f_gen := g\<rparr>))"

text \<open>The loop that finds the end cutoff: how many events from index \<open>i\<close> on are kept.\<close>

fun cut_len :: "('e \<Rightarrow> i64) \<Rightarrow> i64 \<Rightarrow> 'e list \<Rightarrow> nat" where
  "cut_len ts bound [] = 0"
| "cut_len ts bound (e # es) = (if sint (ts e) \<le> sint bound then Suc (cut_len ts bound es) else 0)"

definition filter_ongoing :: "('s, 'e) generate \<Rightarrow> ('e \<Rightarrow> i64) \<Rightarrow> ('s actf_filter, 'e list) cm" where
  "filter_ongoing gen ts f =
     (case gen (f_gen f) of
        (Err rc, g) \<Rightarrow> (Err rc, f\<lparr>f_gen := g, f_state := FILTER_STATE_ERROR\<rparr>)
      | (Undef, g) \<Rightarrow> (Undef, f\<lparr>f_gen := g\<rparr>)
      | (Loop, g) \<Rightarrow> (Loop, f\<lparr>f_gen := g\<rparr>)
      | (Ok evs, g) \<Rightarrow>
          let out = (if fr_end (f_range f) \<noteq> INT64_MAX
                     then take (cut_len ts (fr_end (f_range f)) evs) evs else evs) in
          (Ok out, f\<lparr>f_gen := g, f_state := (if out = [] then FILTER_STATE_DONE else f_state f)\<rparr>))"

definition actf_filter_filter ::
  "('s, 'e) generate \<Rightarrow> 's gen_seek \<Rightarrow> ('e \<Rightarrow> i64) \<Rightarrow> ('s actf_filter, 'e list) cm" where
  "actf_filter_filter gen seek ts =
     thenc (bindc (gets (\<lambda>f. f)) (\<lambda>f.
        if f_state f = FILTER_STATE_FRESH
        then thenc (ensure_range_has_dates gen ts)
               (bindc (gets (\<lambda>f. fr_begin (f_range f)))
                 (actf_filter_seek_ns_from_origin gen seek ts))
        else ret ()))
     (\<lambda>f. case f_state f of
        FILTER_STATE_ONGOING \<Rightarrow> filter_ongoing gen ts f
      | FILTER_STATE_DONE \<Rightarrow> (Ok [], f)
      | FILTER_STATE_ERROR \<Rightarrow> (Err ACTF_ERROR, f)
      | FILTER_STATE_FRESH \<Rightarrow> (Err ACTF_INTERNAL, f))"

section \<open>What passes the filter\<close>

definition in_time :: "('e \<Rightarrow> i64) \<Rightarrow> i64 \<Rightarrow> 'e \<Rightarrow> bool" where
  "in_time ts bound e \<longleftrightarrow> sint (ts e) \<le> sint bound"

lemma take_cut_len: "take (cut_len ts bound es) es = takeWhile (in_time ts bound) es"
  by (induction es) (auto simp: in_time_def)

lemma takeWhile_all: "(\<And>x. x \<in> set xs \<Longrightarrow> p x) \<Longrightarrow> takeWhile p xs = xs"
  by (simp add: takeWhile_eq_all_conv)

lemma sint_INT64_MAX: "sint INT64_MAX = 2 ^ 63 - 1"
  by (simp add: INT64_MAX_def)

lemma in_time_max: "in_time ts INT64_MAX e"
  using sint_lt [of "ts e"] by (simp add: in_time_def sint_INT64_MAX)

text \<open>One call in the running state, without the special case for an unset end.\<close>

lemma filter_ongoing_Ok:
  assumes "gen (f_gen f) = (Ok evs, g)"
  shows "filter_ongoing gen ts f =
    (let out = takeWhile (in_time ts (fr_end (f_range f))) evs in
     (Ok out, f\<lparr>f_gen := g, f_state := (if out = [] then FILTER_STATE_DONE else f_state f)\<rparr>))"
proof -
  have all: "takeWhile (in_time ts INT64_MAX) evs = evs" by (rule takeWhile_all) (rule in_time_max)
  show ?thesis using assms
    by (cases "fr_end (f_range f) = INT64_MAX") (simp_all add: all filter_ongoing_def take_cut_len Let_def)
qed

lemma filter_state_simps:
  "f_state f = FILTER_STATE_ONGOING \<Longrightarrow> actf_filter_filter gen seek ts f = filter_ongoing gen ts f"
  "f_state f = FILTER_STATE_DONE \<Longrightarrow> actf_filter_filter gen seek ts f = (Ok [], f)"
  "f_state f = FILTER_STATE_ERROR \<Longrightarrow> actf_filter_filter gen seek ts f = (Err ACTF_ERROR, f)"
  by (simp_all add: actf_filter_filter_def thenc_def bindc_def gets_def ret_def)

text \<open>After the cut nothing of an ordered stream passes.\<close>

lemma takeWhile_sorted_append:
  assumes "sorted (map k (xs @ ys))" "\<And>x. p x \<longleftrightarrow> k x \<le> (c :: int)"
  shows "takeWhile p (xs @ ys) = takeWhile p xs @ takeWhile p ys"
proof (cases "\<forall>x \<in> set xs. p x")
  case False
  then obtain x where x: "x \<in> set xs" "\<not> p x" by blast
  have "\<not> p y" if "y \<in> set ys" for y
    using assms x that by (force simp: sorted_append)
  then have "takeWhile p ys = []" by (cases ys) auto
  then show ?thesis using takeWhile_append1 [of x xs p ys] x by simp
qed (simp add: takeWhile_append2 takeWhile_eq_all_conv [THEN iffD2])

lemma takeWhile_in_time_filter:
  "sorted (map (\<lambda>e. sint (ts e)) str) \<Longrightarrow>
    takeWhile (in_time ts bound) str = filter (\<lambda>e. sint (ts e) \<le> sint bound) str"
proof (induction str)
  case (Cons e es)
  then show ?case by (cases "sint (ts e) \<le> sint bound") (force simp: in_time_def intro!: filter_False [symmetric])+
qed simp

lemma filter_emits:
  assumes "emits gen g str" "sorted (map (\<lambda>e. sint (ts e)) str)"
    "f_gen f = g" "f_state f = FILTER_STATE_ONGOING"
  shows "emits (actf_filter_filter gen seek ts) f (takeWhile (in_time ts (fr_end (f_range f))) str)"
  using assms
proof (induction arbitrary: f rule: emits.induct)
  case (emits_end s t)
  then show ?case by (auto intro!: emits.emits_end simp: filter_state_simps filter_ongoing_Ok)
next
  case (emits_err s e t)
  then show ?case by (auto intro!: emits.emits_err simp: filter_state_simps filter_ongoing_def)
next
  case (emits_run s es t rest)
  let ?p = "in_time ts (fr_end (f_range f))"
  have split: "takeWhile ?p (es @ rest) = takeWhile ?p es @ takeWhile ?p rest"
    using takeWhile_sorted_append [OF emits_run.prems(1)] by (simp add: in_time_def)
  have step: "actf_filter_filter gen seek ts f = (let out = takeWhile ?p es in
     (Ok out, f\<lparr>f_gen := t, f_state := (if out = [] then FILTER_STATE_DONE else f_state f)\<rparr>))"
    using emits_run by (simp add: filter_state_simps filter_ongoing_Ok)
  show ?case
  proof (cases "takeWhile ?p es = []")
    case True
    then have "takeWhile ?p (es @ rest) = []" using emits_run.hyps(2) by (cases es) (auto split: if_splits)
    then show ?thesis using step True
      by (auto intro!: emits.emits_end simp: Let_def filter_state_simps)
  next
    case False
    let ?f = "f\<lparr>f_gen := t, f_state := FILTER_STATE_ONGOING\<rparr>"
    have "emits (actf_filter_filter gen seek ts) ?f (takeWhile ?p rest)"
      using emits_run.IH [of ?f] emits_run.prems(1) by (simp add: sorted_append)
    then show ?thesis unfolding split
      using False step emits_run.prems(3) by (auto intro!: emits.emits_run simp: Let_def)
  qed
qed

text \<open>The first call of a filter whose bounds have dates seeks to the begin of the range.\<close>

lemma filter_fresh_emits:
  assumes r: "fr_begin_has_date (f_range f)" "fr_end_has_date (f_range f)"
      "sint (fr_begin (f_range f)) \<le> sint (fr_end (f_range f))"
    and s: "f_state f = FILTER_STATE_FRESH" "seek (fr_begin (f_range f)) (f_gen f) = (Ok u, g)"
    and e: "emits gen g str" "sorted (map (\<lambda>e. sint (ts e)) str)"
  shows "emits (actf_filter_filter gen seek ts) f (takeWhile (in_time ts (fr_end (f_range f))) str)"
proof (rule emits_cong)
  let ?f = "f\<lparr>f_gen := g, f_state := FILTER_STATE_ONGOING\<rparr>"
  show "actf_filter_filter gen seek ts f = actf_filter_filter gen seek ts ?f"
    using r s by (simp add: actf_filter_filter_def actf_filter_seek_ns_from_origin_def
        ensure_range_has_dates_def cm_defs Let_def)
  show "emits (actf_filter_filter gen seek ts) ?f (takeWhile (in_time ts (fr_end (f_range f))) str)"
    using filter_emits [OF e, of ?f] by simp
qed

text \<open>An empty range ends the stream at once.\<close>

lemma filter_empty_range:
  assumes "fr_begin_has_date (f_range f)" "fr_end_has_date (f_range f)"
      "sint (fr_end (f_range f)) < sint (fr_begin (f_range f))" "f_state f = FILTER_STATE_FRESH"
  shows "emits (actf_filter_filter gen seek ts) f []"
  using assms by (auto intro!: emits.emits_end simp: filter_state_simps actf_filter_filter_def
      actf_filter_seek_ns_from_origin_def ensure_range_has_dates_def cm_defs Let_def)

end
