(* ===== verification/Pipeline.thy ===== *)
theory Pipeline
  imports Decoder_Safety Muxer Time_Filter
begin

text \<open>
  The components put together: the decoder, the muxer and the filter as generators
  (the functions \<open>*_to_generator\<close>), and what a chain of them emits.
\<close>

section \<open>The decoder as a generator\<close>

text \<open>The returned pointer and length denote a run of the event array.\<close>

definition decoder_decode :: "(actf_decoder, actf_event) generate" where
  "decoder_decode d =
     (case actf_decoder_decode d of
        (Ok (off, len), d') \<Rightarrow> (Ok (take len (drop off (d_evs d'))), d')
      | (Err e, d') \<Rightarrow> (Err e, d')
      | (Undef, d') \<Rightarrow> (Undef, d')
      | (Loop, d') \<Rightarrow> (Loop, d'))"

text \<open>The timestamp that the muxer and the filter ask an event for.\<close>

definition event_ts :: "actf_metadata \<Rightarrow> actf_event \<Rightarrow> i64" where
  "event_ts md ev = (case actf_event_tstamp_ns_from_origin md ev of Ok t \<Rightarrow> t | _ \<Rightarrow> 0)"

interpretation dec_src: event_source
  "in_order decoder_decode (\<lambda>e. sint (event_ts md e))" "stream_of decoder_decode" decoder_decode
  "\<lambda>e. sint (event_ts md e)" for md
  by (rule event_source_emits)

text \<open>Any generator whose events are finitely many and in order.\<close>

interpretation ord_src: event_source "in_order gen ts" "stream_of gen" gen ts for gen ts
  by (rule event_source_emits)

section \<open>A new muxer and a muxer after a seek\<close>

lemma mux_ready_reset:
  assumes "\<forall>g \<in> set (mx_gens m). ok g \<and> sorted (map (\<lambda>e. sint (ts e)) (stream g))"
    and "pq_cap (mx_pq m) = length (mx_gens m)"
  shows "mux_ready ok stream ts (muxer_reset m)" "mx_state (muxer_reset m) = MUXER_STATE_FRESH"
    "mux_total stream (muxer_reset m) = (\<Sum>i < length (mx_gens m). mset (stream (mx_gens m ! i)))"
  using assms nth_mem [of _ "mx_gens m"]
  by (auto simp: mux_ready_def muxer_reset_def mux_inv_def prio_queue_clear_def heap_def nodes_of_def rest_def
      mux_left_def mux_total_def)

lemma mux_ready_init:
  assumes i: "actf_muxer_init alloc gens cap = Some m"
    and g: "\<forall>g \<in> set gens. ok g \<and> sorted (map (\<lambda>e. sint (ts e)) (stream g))"
  shows "mux_ready ok stream ts m" "mx_state m = MUXER_STATE_FRESH" "0 < mx_evs_cap m"
    "mux_total stream m = (\<Sum>i < length gens. mset (stream (gens ! i)))"
proof -
  have m: "mx_gens m = gens" "muxer_reset m = m" "pq_cap (mx_pq m) = length gens" "0 < mx_evs_cap m"
    using i by (auto simp: actf_muxer_init_def prio_queue_init_def muxer_reset_def prio_queue_clear_def
        MUX_DEFAULT_EVS_CAP_def split: if_splits)
  show "mux_ready ok stream ts m" "mx_state m = MUXER_STATE_FRESH" "0 < mx_evs_cap m"
    "mux_total stream m = (\<Sum>i < length gens. mset (stream (gens ! i)))"
    using mux_ready_reset [of m ok ts stream] m g by simp_all
qed

lemma ready_merges:
  assumes "mux_ready (in_order gen (\<lambda>e. sint (ts e))) (stream_of gen) ts m" "mx_state m = MUXER_STATE_FRESH"
    and "0 < mx_evs_cap m"
  shows "\<exists>str. emits (actf_muxer_mux gen ts) m str \<and> sorted (map (\<lambda>e. sint (ts e)) str) \<and>
    mset str \<subseteq># mux_total (stream_of gen) m \<and>
    ((\<forall>s t e. gen s \<noteq> (Err e, t)) \<longrightarrow> mset str = mux_total (stream_of gen) m)"
proof -
  have "\<exists>str. emits (actf_muxer_mux gen ts) m str \<and> sorted (map (\<lambda>e. sint (ts e)) str) \<and>
    mset str \<subseteq># mux_total (stream_of gen) m \<and>
    ((\<forall>s t e. in_order gen (\<lambda>e. sint (ts e)) s \<longrightarrow> gen s \<noteq> (Err e, t)) \<longrightarrow>
      mset str = mux_total (stream_of gen) m \<and> emits_all (actf_muxer_mux gen ts) m str)"
    using assms(2,3) by (intro ord_src.muxer_emits [OF assms(1)]) simp_all
  then show ?thesis by blast
qed

lemma in_order_sorted:
  assumes "\<forall>g \<in> set gens. in_order gen (\<lambda>e. sint (ts e)) g"
  shows "\<forall>g \<in> set gens. in_order gen (\<lambda>e. sint (ts e)) g \<and> sorted (map (\<lambda>e. sint (ts e)) (stream_of gen g))"
  using assms ord_src.stream_sorted [of gen "\<lambda>e. sint (ts e)"] by simp

lemma muxer_merges:
  assumes "actf_muxer_init alloc gens cap = Some m"
    and "\<forall>g \<in> set gens. in_order gen (\<lambda>e. sint (ts e)) g"
  shows "\<exists>str. emits (actf_muxer_mux gen ts) m str \<and> sorted (map (\<lambda>e. sint (ts e)) str) \<and>
    mset str \<subseteq># (\<Sum>i < length gens. mset (stream_of gen (gens ! i))) \<and>
    ((\<forall>s t e. gen s \<noteq> (Err e, t)) \<longrightarrow> mset str = (\<Sum>i < length gens. mset (stream_of gen (gens ! i))))"
proof -
  note r = mux_ready_init [OF assms(1) in_order_sorted [OF assms(2)]]
  show ?thesis using ready_merges [OF r(1-3)] unfolding r(4) .
qed

text \<open>If no generator fails, then the muxer does not, and emits everything.\<close>

interpretation com_src: event_source "complete gen ts" "stream_of gen" gen ts for gen ts
  by (rule event_source_complete)

lemma complete_merges:
  assumes "actf_muxer_init alloc gens cap = Some m" "\<forall>g \<in> set gens. complete gen (\<lambda>e. sint (ts e)) g"
  shows "\<exists>str. emits_all (actf_muxer_mux gen ts) m str \<and> sorted (map (\<lambda>e. sint (ts e)) str) \<and>
    mset str = (\<Sum>i < length gens. mset (stream_of gen (gens ! i)))"
proof -
  have g: "\<forall>g \<in> set gens. complete gen (\<lambda>e. sint (ts e)) g \<and> sorted (map (\<lambda>e. sint (ts e)) (stream_of gen g))"
    using assms(2) com_src.stream_sorted [of gen "\<lambda>e. sint (ts e)"] by simp
  note r = mux_ready_init [OF assms(1) g]
  have "\<forall>s t e. complete gen (\<lambda>e. sint (ts e)) s \<longrightarrow> gen s \<noteq> (Err e, t)" using complete_no_error by metis
  moreover have "\<exists>str. emits (actf_muxer_mux gen ts) m str \<and> sorted (map (\<lambda>e. sint (ts e)) str) \<and>
    mset str \<subseteq># mux_total (stream_of gen) m \<and>
    ((\<forall>s t e. complete gen (\<lambda>e. sint (ts e)) s \<longrightarrow> gen s \<noteq> (Err e, t)) \<longrightarrow>
      mset str = mux_total (stream_of gen) m \<and> emits_all (actf_muxer_mux gen ts) m str)"
    using r(2,3) by (intro com_src.muxer_emits [OF r(1)]) simp_all
  ultimately show ?thesis unfolding r(4) by blast
qed

text \<open>A muxer whose generators all follow a seek merges what they emit from there.\<close>

lemma sought_muxer_merges:
  assumes "actf_muxer_init alloc gens cap = Some m"
    and "\<forall>g \<in> set gens. \<exists>u. fst (seek t g) = Ok u"
    and "\<forall>g \<in> set gens. in_order gen (\<lambda>e. sint (ts e)) (snd (seek t g))"
  shows "\<exists>m' str. actf_muxer_seek_ns_from_origin seek t m = (Ok (), m') \<and>
    emits (actf_muxer_mux gen ts) m' str \<and> sorted (map (\<lambda>e. sint (ts e)) str) \<and>
    mset str \<subseteq># (\<Sum>i < length gens. mset (stream_of gen (snd (seek t (gens ! i))))) \<and>
    ((\<forall>s t e. gen s \<noteq> (Err e, t)) \<longrightarrow>
      mset str = (\<Sum>i < length gens. mset (stream_of gen (snd (seek t (gens ! i))))))"
proof -
  let ?gs = "map (\<lambda>g. snd (seek t g)) gens"
  let ?m = "m\<lparr>mx_gens := ?gs\<rparr>"
  have m: "mx_gens m = gens" "pq_cap (mx_pq m) = length gens" "0 < mx_evs_cap m"
    using assms(1) by (auto simp: actf_muxer_init_def prio_queue_init_def MUX_DEFAULT_EVS_CAP_def split: if_splits)
  have o: "\<forall>g \<in> set (mx_gens ?m). in_order gen (\<lambda>e. sint (ts e)) g \<and> sorted (map (\<lambda>e. sint (ts e)) (stream_of gen g))"
    using in_order_sorted [of ?gs gen ts] assms(3) by simp
  have c: "pq_cap (mx_pq ?m) = length (mx_gens ?m)" "0 < mx_evs_cap (muxer_reset ?m)"
    using m by (simp_all add: muxer_reset_def)
  note r = mux_ready_reset [OF o c(1)]
  have "actf_muxer_seek_ns_from_origin seek t m = (Ok (), muxer_reset ?m)"
    using muxer_seek_Ok [of m seek t] assms(2) m(1) by simp
  moreover have "mux_total (stream_of gen) (muxer_reset ?m) = (\<Sum>i < length gens. mset (stream_of gen (snd (seek t (gens ! i)))))"
    using r(3) by simp
  ultimately show ?thesis using ready_merges [OF r(1,2) c(2)] by (metis (no_types, lifting))
qed

section \<open>The filter over the muxer\<close>

lemma filtered_merge:
  assumes "actf_muxer_init alloc gens cap = Some m"
    and "\<forall>g \<in> set gens. \<exists>u. fst (seek (fr_begin (f_range f)) g) = Ok u"
    and "\<forall>g \<in> set gens. in_order gen (\<lambda>e. sint (ts e)) (snd (seek (fr_begin (f_range f)) g))"
    and "f_gen f = m" "f_state f = FILTER_STATE_FRESH"
    and "fr_begin_has_date (f_range f)" "fr_end_has_date (f_range f)"
      "sint (fr_begin (f_range f)) \<le> sint (fr_end (f_range f))"
  shows "\<exists>str. sorted (map (\<lambda>e. sint (ts e)) str) \<and>
    mset str \<subseteq># (\<Sum>i < length gens. mset (stream_of gen (snd (seek (fr_begin (f_range f)) (gens ! i))))) \<and>
    ((\<forall>s t e. gen s \<noteq> (Err e, t)) \<longrightarrow>
      mset str = (\<Sum>i < length gens. mset (stream_of gen (snd (seek (fr_begin (f_range f)) (gens ! i)))))) \<and>
    emits (actf_filter_filter (actf_muxer_mux gen ts) (actf_muxer_seek_ns_from_origin seek) ts) f
      (takeWhile (in_time ts (fr_end (f_range f))) str)"
proof -
  obtain m' str where s: "actf_muxer_seek_ns_from_origin seek (fr_begin (f_range f)) (f_gen f) = (Ok (), m')"
    and e: "emits (actf_muxer_mux gen ts) m' str" "sorted (map (\<lambda>e. sint (ts e)) str)"
    and t: "mset str \<subseteq># (\<Sum>i < length gens. mset (stream_of gen (snd (seek (fr_begin (f_range f)) (gens ! i)))))"
      "(\<forall>s t e. gen s \<noteq> (Err e, t)) \<longrightarrow>
        mset str = (\<Sum>i < length gens. mset (stream_of gen (snd (seek (fr_begin (f_range f)) (gens ! i)))))"
    using sought_muxer_merges [where t = "fr_begin (f_range f)" and seek = seek and gen = gen and ts = ts, OF assms(1-3)] unfolding assms(4) by blast
  show ?thesis using filter_fresh_emits [where seek = "actf_muxer_seek_ns_from_origin seek" and ts = ts, OF assms(6-8,5) s e] e(2) t by blast
qed

end
