(* ===== verification/Stream_Theorems.thy ===== *)
theory Stream_Theorems
  imports Pipeline
begin

text \<open>
  The properties of the generators put together: the merge of the muxer, the cut of the filter,
  and the chain of both. They are applied to a generator that plays back a list of runs.
\<close>

fun play :: "i64 list list \<Rightarrow> i64 list res \<times> i64 list list" where
  "play [] = (Ok [], [])"
| "play (r # rs) = (Ok r, rs)"

definition rewind :: "i64 \<Rightarrow> i64 list list \<Rightarrow> unit res \<times> i64 list list" where
  "rewind t rs = (Ok (), [filter (\<lambda>e. sint t \<le> sint e) (concat rs)])"

lemma play_emits: "[] \<notin> set rs \<Longrightarrow> emits play rs (concat rs)"
proof (induction rs)
  case Nil
  show ?case using emits.emits_end [of play "[]" "[]"] by simp
next
  case (Cons r rs)
  then show ?case using emits.emits_run [of play "r # rs" r rs "concat rs"] by auto
qed

lemma play_never_fails: "play rs \<noteq> (Err e, t)"
  by (cases rs) simp_all

section \<open>The muxer\<close>

text \<open>
  C3. A new muxer over generators that each emit a finite stream in timestamp order emits a
  finite stream in timestamp order. Nothing is invented or duplicated: the events are among those
  of the generators, counted with multiplicity, and when no generator fails they are all of them.
\<close>

theorem muxer_merges_in_order:
  assumes "actf_muxer_init alloc gens cap = Some m"
    and "\<forall>g \<in> set gens. in_order gen (\<lambda>e. sint (ts e)) g"
  shows "\<exists>str. emits (actf_muxer_mux gen ts) m str \<and> sorted (map (\<lambda>e. sint (ts e)) str) \<and>
    mset str \<subseteq># (\<Sum>i < length gens. mset (stream_of gen (gens ! i))) \<and>
    ((\<forall>s t e. gen s \<noteq> (Err e, t)) \<longrightarrow> mset str = (\<Sum>i < length gens. mset (stream_of gen (gens ! i))))"
  using assms by (rule muxer_merges)

theorem muxer_merges_in_order_witness:
  "\<exists>m str. actf_muxer_init True [[[1, 4], [6]], [[2, 3, 5]]] 2 = Some m \<and>
    emits (actf_muxer_mux play (\<lambda>e. e)) m str \<and> mset str = {# 1, 2, 3, 4, 5, 6 #}"
proof -
  let ?gens = "[[[1, 4], [6]], [[2, 3, 5]]] :: i64 list list list"
  obtain m :: "(i64 list list, i64) actf_muxer" where m: "actf_muxer_init True ?gens 2 = Some m"
    by (simp add: actf_muxer_init_def prio_queue_init_def)
  have "emits play [[1, 4], [6]] [1, 4, 6]" "emits play [[2, 3, 5]] [2, 3, 5]"
    using play_emits [of "[[1, 4], [6]]"] play_emits [of "[[2, 3, 5]]"] by simp_all
  then have s: "\<forall>g \<in> set ?gens. in_order play (\<lambda>e. sint e) g"
    "stream_of play [[1, 4], [6]] = [1, 4, 6]" "stream_of play [[2, 3, 5]] = [2, 3, 5]"
    by (auto simp: in_order_def stream_of_eq)
  obtain str where "emits (actf_muxer_mux play (\<lambda>e. e)) m str"
    "mset str = (\<Sum>i < length ?gens. mset (stream_of play (?gens ! i)))"
    using muxer_merges_in_order [OF m s(1)] play_never_fails by blast
  moreover have "(\<Sum>i < length ?gens. mset (stream_of play (?gens ! i))) = {# 1, 2, 3, 4, 5, 6 #}"
    using s(2,3) by (simp add: lessThan_Suc)
  ultimately show ?thesis using m by auto
qed

section \<open>The filter\<close>

text \<open>
  C14. A new filter whose bounds have dates seeks its generator to the begin of the range and lets
  pass exactly the events up to the end of the range; behind the first event that is too late the
  stream has ended.
\<close>

theorem filter_passes_range:
  assumes "fr_begin_has_date (f_range f)" "fr_end_has_date (f_range f)"
      "sint (fr_begin (f_range f)) \<le> sint (fr_end (f_range f))"
    and "f_state f = FILTER_STATE_FRESH" "seek (fr_begin (f_range f)) (f_gen f) = (Ok u, g)"
    and "emits gen g str" "sorted (map (\<lambda>e. sint (ts e)) str)"
  shows "emits (actf_filter_filter gen seek ts) f (filter (\<lambda>e. sint (ts e) \<le> sint (fr_end (f_range f))) str)"
proof -
  have "takeWhile (in_time ts (fr_end (f_range f))) str = filter (\<lambda>e. sint (ts e) \<le> sint (fr_end (f_range f))) str"
    using assms(7) by (rule takeWhile_in_time_filter)
  then show ?thesis using filter_fresh_emits [OF assms(1-4), of seek u g gen str ts] assms(5-) by simp
qed

definition ex_filter :: "'s \<Rightarrow> 's actf_filter" where
  "ex_filter g = \<lparr>f_gen = g,
     f_range = \<lparr>fr_begin = 2, fr_begin_has_date = True, fr_end = 4, fr_end_has_date = True\<rparr>,
     f_state = FILTER_STATE_FRESH\<rparr>"

theorem filter_passes_range_witness:
  "emits (actf_filter_filter play rewind (\<lambda>e. e)) (ex_filter [[1, 2, 3], [4, 5]]) [2, 3, 4]"
proof -
  let ?g = "[[1, 2, 3], [4, 5]] :: i64 list list"
  have "emits play [[2, 3, 4, 5]] [2, 3, 4, 5]" using play_emits [of "[[2, 3, 4, 5]]"] by simp
  moreover have "rewind 2 ?g = (Ok (), [[2, 3, 4, 5]])" by (simp add: rewind_def)
  ultimately show ?thesis
    using filter_passes_range [of "ex_filter ?g" rewind "()" "[[2, 3, 4, 5]]" play "[2, 3, 4, 5]" "\<lambda>e. e"]
    by (simp add: ex_filter_def)
qed

text \<open>
  C15. The chain of the command line tool, a filter over a muxer over seekable generators: the
  events that pass are, in timestamp order, those of the generators after the seek that are not
  later than the end of the range, all of them when no generator fails.
\<close>

theorem filter_over_muxer:
  assumes "actf_muxer_init alloc gens cap = Some m"
    and "\<forall>g \<in> set gens. \<exists>u. fst (seek (fr_begin (f_range f)) g) = Ok u"
    and "\<forall>g \<in> set gens. in_order gen (\<lambda>e. sint (ts e)) (snd (seek (fr_begin (f_range f)) g))"
    and "f_gen f = m" "f_state f = FILTER_STATE_FRESH"
    and "fr_begin_has_date (f_range f)" "fr_end_has_date (f_range f)"
      "sint (fr_begin (f_range f)) \<le> sint (fr_end (f_range f))"
  shows "\<exists>str. sorted (map (\<lambda>e. sint (ts e)) str) \<and>
    mset str \<subseteq># (\<Sum>i < length gens. mset (stream_of gen (snd (seek (fr_begin (f_range f)) (gens ! i))))) \<and>
    ((\<forall>s t e. gen s \<noteq> (Err e, t)) \<longrightarrow>
      mset str = (\<Sum>i < length gens. mset (stream_of gen (snd (seek (fr_begin (f_range f)) (gens ! i)))))) \<and>
    emits (actf_filter_filter (actf_muxer_mux gen ts) (actf_muxer_seek_ns_from_origin seek) ts) f
      (filter (\<lambda>e. sint (ts e) \<le> sint (fr_end (f_range f))) str)"
  using filtered_merge [where gen = gen and seek = seek and ts = ts, OF assms]
    takeWhile_in_time_filter [of ts _ "fr_end (f_range f)"] by metis

theorem filter_over_muxer_witness:
  "\<exists>m str. actf_muxer_init True [[[1, 4], [6]], [[2, 3, 5]]] 2 = Some m \<and> mset str = {# 2, 3, 4, 5, 6 #} \<and>
    emits (actf_filter_filter (actf_muxer_mux play (\<lambda>e. e)) (actf_muxer_seek_ns_from_origin rewind) (\<lambda>e. e))
      (ex_filter m) (filter (\<lambda>e. sint e \<le> 4) str)"
proof -
  let ?gens = "[[[1, 4], [6]], [[2, 3, 5]]] :: i64 list list list"
  obtain m :: "(i64 list list, i64) actf_muxer" where m: "actf_muxer_init True ?gens 2 = Some m"
    by (simp add: actf_muxer_init_def prio_queue_init_def)
  have s: "rewind 2 [[1, 4], [6]] = (Ok (), [[4, 6]])" "rewind 2 [[2, 3, 5]] = (Ok (), [[2, 3, 5]])"
    by (simp_all add: rewind_def)
  have "emits play [[4, 6]] [4, 6]" "emits play [[2, 3, 5]] [2, 3, 5]"
    using play_emits [of "[[4, 6]]"] play_emits [of "[[2, 3, 5]]"] by simp_all
  then have o: "in_order play (\<lambda>e. sint e) [[4, 6]]" "in_order play (\<lambda>e. sint e) [[2, 3, 5]]"
    "stream_of play [[4, 6]] = [4, 6]" "stream_of play [[2, 3, 5]] = [2, 3, 5]"
    by (auto simp: in_order_def stream_of_eq)
  let ?f = "ex_filter m"
  have f: "fr_begin (f_range ?f) = 2" "fr_end (f_range ?f) = 4" "f_gen ?f = m" "f_state ?f = FILTER_STATE_FRESH"
    "fr_begin_has_date (f_range ?f)" "fr_end_has_date (f_range ?f)" by (simp_all add: ex_filter_def)
  obtain str where "mset str = (\<Sum>i < length ?gens. mset (stream_of play (snd (rewind 2 (?gens ! i)))))"
    "emits (actf_filter_filter (actf_muxer_mux play (\<lambda>e. e)) (actf_muxer_seek_ns_from_origin rewind) (\<lambda>e. e))
      ?f (filter (\<lambda>e. sint e \<le> 4) str)"
    using filter_over_muxer [of True ?gens 2 m rewind ?f play "\<lambda>e. e"] m s o f play_never_fails by auto
  moreover have "(\<Sum>i < length ?gens. mset (stream_of play (snd (rewind 2 (?gens ! i))))) = {# 2, 3, 4, 5, 6 #}"
    using s o(3,4) by (simp add: lessThan_Suc)
  ultimately show ?thesis using m by auto
qed

end
