(* ===== verification/Decoder_Seek.thy ===== *)
theory Decoder_Seek
  imports Decoder_Safety
begin

text \<open>
  Seeking: what a successful \<open>actf_decoder_seek_ns_from_origin\<close> passes over, and what it leaves
  behind for the next call of \<open>actf_decoder_decode\<close>.
\<close>

lemma first_at_or_after_Some:
  "first_at_or_after d off i n t = Ok (Some j) \<Longrightarrow>
   i \<le> j \<and> j < n \<and> off + j < length (d_evs d) \<and>
   (\<exists>ts. actf_event_tstamp_ns_from_origin (d_metadata d) (d_evs d ! (off + j)) = Ok ts \<and> sint t \<le> sint ts) \<and>
   (\<forall>k. i \<le> k \<and> k < j \<longrightarrow>
      (\<exists>ts. actf_event_tstamp_ns_from_origin (d_metadata d) (d_evs d ! (off + k)) = Ok ts \<and> sint ts < sint t))"
proof (induction d off i n t rule: first_at_or_after.induct)
  case (1 d off i n t)
  from "1.prems" have b: "i < n" "off + i < length (d_evs d)"
    by (auto simp: first_at_or_after.simps [of d off i] split: if_splits)
  then obtain ts where ts: "actf_event_tstamp_ns_from_origin (d_metadata d) (d_evs d ! (off + i)) = Ok ts"
    using "1.prems" by (auto simp: first_at_or_after.simps [of d off i] split: if_splits res.splits)
  show ?case
  proof (cases "sint t \<le> sint ts")
    case True
    then show ?thesis using "1.prems" b ts by (auto simp: first_at_or_after.simps [of d off i])
  next
    case False
    then have "first_at_or_after d off (i + 1) n t = Ok (Some j)"
      using "1.prems" b ts by (simp add: first_at_or_after.simps [of d off i])
    then have ih: "i + 1 \<le> j \<and> j < n \<and> off + j < length (d_evs d) \<and>
       (\<exists>ts. actf_event_tstamp_ns_from_origin (d_metadata d) (d_evs d ! (off + j)) = Ok ts \<and> sint t \<le> sint ts) \<and>
       (\<forall>k. i + 1 \<le> k \<and> k < j \<longrightarrow>
          (\<exists>ts. actf_event_tstamp_ns_from_origin (d_metadata d) (d_evs d ! (off + k)) = Ok ts \<and> sint ts < sint t))"
      using "1.IH" b ts False by simp
    then show ?thesis using ts False by (metis Suc_eq_plus1 Suc_leD le_antisym not_le not_less_eq_eq)
  qed
qed

lemma first_at_or_after_None:
  "first_at_or_after d off i n t = Ok None \<Longrightarrow> i \<le> k \<Longrightarrow> k < n \<Longrightarrow>
   \<exists>ts. actf_event_tstamp_ns_from_origin (d_metadata d) (d_evs d ! (off + k)) = Ok ts \<and> sint ts < sint t"
proof (induction d off i n t rule: first_at_or_after.induct)
  case (1 d off i n t)
  have b: "i < n" "\<not> length (d_evs d) \<le> off + i"
    using "1.prems" by (auto simp: first_at_or_after.simps [of d off i] split: if_splits)
  then obtain ts where ts: "actf_event_tstamp_ns_from_origin (d_metadata d) (d_evs d ! (off + i)) = Ok ts"
    using "1.prems" by (auto simp: first_at_or_after.simps [of d off i] split: if_splits res.splits)
  have late: "\<not> sint t \<le> sint ts" and rest: "first_at_or_after d off (i + 1) n t = Ok None"
    using "1.prems"(1) b ts by (auto simp: first_at_or_after.simps [of d off i] split: if_splits)
  show ?case
  proof (cases "k = i")
    case True
    then show ?thesis using ts late by auto
  next
    case False
    then have "i + 1 \<le> k" using "1.prems"(2) by simp
    then show ?thesis using "1.IH" b ts late rest "1.prems"(3) by simp
  qed
qed

section \<open>The path of a seek\<close>

text \<open>
  The timestamp at which a packet ends, where its class has a clock and its context the timestamp;
  the first byte behind the packet.
\<close>

definition pkt_end_ns :: "actf_decoder \<Rightarrow> i64 option" where
  "pkt_end_ns d =
     (case dsc_clk_cls (d_metadata d) (ps_dsc_cls (pkt_s d)) of
        Ok (Some clkc) \<Rightarrow>
          if PKT_END_DEF_CLK_VAL \<in> ps_opt_flags (pkt_s d) then
            (case actf_clk_cls_cc_to_ns_from_origin clkc (ps_end_def_clk_val (pkt_s d)) of Ok ns \<Rightarrow> Some ns | _ \<Rightarrow> None)
          else None
      | _ \<Rightarrow> None)"

definition behind_pkt :: "actf_decoder \<Rightarrow> actf_decoder" where
  "behind_pkt d =
     snd (with_br (breader_seek (unat (sataddu64 (ps_bit_off (pkt_s d)) (ps_tot_len (pkt_s d)) div 8)) BREADER_SEEK_SET) d)"

text \<open>
  What a decoder can pass over: a packet, of which only the header and context are decoded and
  which ends at a time, or a run of decoded events with their times. \<open>seek_path d ps d'\<close> says that
  the decoder gets from \<open>d\<close> to \<open>d'\<close> passing over \<open>ps\<close> and nothing else.
\<close>

datatype passed = Skipped i64 | Decoded "i64 list"

inductive seek_path :: "actf_decoder \<Rightarrow> passed list \<Rightarrow> actf_decoder \<Rightarrow> bool" where
  path_end: "seek_path d [] d"
| path_skip: "actf_decoder_pkt_hdrctx_decode d = (Ok u, d1) \<Longrightarrow> pkt_end_ns d1 = Some ns \<Longrightarrow>
    seek_path (behind_pkt d1) ps d' \<Longrightarrow> seek_path d (Skipped ns # ps) d'"
| path_enter: "actf_decoder_pkt_hdrctx_decode d = (Ok u, d1) \<Longrightarrow>
    seek_path (d1\<lparr>d_state := insert DECODING_STATE_RESUME_PKT (d_state d1)\<rparr>) ps d' \<Longrightarrow> seek_path d ps d'"
| path_run: "actf_decoder_decode d = (Ok (0, length ts), d1) \<Longrightarrow>
    (\<forall>k < length ts. actf_event_tstamp_ns_from_origin (d_metadata d1) (d_evs d1 ! k) = Ok (ts ! k)) \<Longrightarrow>
    seek_path d1 ps d' \<Longrightarrow> seek_path d (Decoded ts # ps) d'"
| path_fail: "actf_decoder_decode d = (Err e, d1) \<Longrightarrow> seek_path d1 ps d' \<Longrightarrow> seek_path d ps d'"

lemma seek_path_trans: "seek_path a ps b \<Longrightarrow> seek_path b qs c \<Longrightarrow> seek_path a (ps @ qs) c"
  by (induction rule: seek_path.induct) (auto intro: seek_path.intros)

fun earlier :: "i64 \<Rightarrow> passed \<Rightarrow> bool" where
  "earlier t (Skipped ns) \<longleftrightarrow> sint ns < sint t"
| "earlier t (Decoded ts) \<longleftrightarrow> list_all (\<lambda>x. sint x < sint t) ts"

text \<open>Getting from one decoder to another over nothing but earlier packets and events.\<close>

definition passes :: "i64 \<Rightarrow> actf_decoder \<Rightarrow> actf_decoder \<Rightarrow> bool" where
  "passes t a b \<longleftrightarrow> (\<exists>ps. seek_path a ps b \<and> list_all (earlier t) ps)"

lemma passes_refl [simp]: "passes t d d"
  unfolding passes_def using path_end by fastforce

lemma passes_trans: "passes t a b \<Longrightarrow> passes t b c \<Longrightarrow> passes t a c"
  unfolding passes_def using seek_path_trans by fastforce

lemma passes_skip:
  assumes "actf_decoder_pkt_hdrctx_decode d = (Ok u, d1)" "pkt_ends_before t d1 = Ok True"
  shows "passes t d (behind_pkt d1)"
proof -
  obtain ns where ns: "pkt_end_ns d1 = Some ns" "sint ns < sint t"
    using assms(2) by (auto simp: pkt_ends_before_def pkt_end_ns_def split: res.splits option.splits if_splits)
  then have "seek_path d [Skipped ns] (behind_pkt d1)" using path_skip [OF assms(1) ns(1) path_end] by simp
  then show ?thesis unfolding passes_def using ns(2) by (intro exI [of _ "[Skipped ns]"]) simp
qed

lemma passes_enter:
  assumes "actf_decoder_pkt_hdrctx_decode d = (Ok u, d1)"
  shows "passes t d (d1\<lparr>d_state := insert DECODING_STATE_RESUME_PKT (d_state d1)\<rparr>)"
  using path_enter [OF assms path_end] unfolding passes_def by (intro exI [of _ "[]"]) simp

lemma passes_fail: "actf_decoder_decode d = (Err e, d1) \<Longrightarrow> passes t d d1"
  using path_fail [OF _ path_end] unfolding passes_def by (intro exI [of _ "[]"]) simp

lemma passes_run:
  assumes "actf_decoder_decode d = (Ok (0, len), d1)" "len = 0 \<or> first_at_or_after d1 0 0 len t = Ok None"
  shows "passes t d d1"
proof -
  define ts where "ts = map (\<lambda>k. case actf_event_tstamp_ns_from_origin (d_metadata d1) (d_evs d1 ! k) of Ok x \<Rightarrow> x | _ \<Rightarrow> 0) [0..<len]"
  have ev: "\<exists>x. actf_event_tstamp_ns_from_origin (d_metadata d1) (d_evs d1 ! k) = Ok x \<and> sint x < sint t" if "k < len" for k
    using first_at_or_after_None [of d1 0 0 len t k] assms(2) that by auto
  have l: "length ts = len" by (simp add: ts_def)
  have "actf_event_tstamp_ns_from_origin (d_metadata d1) (d_evs d1 ! k) = Ok (ts ! k) \<and> sint (ts ! k) < sint t" if "k < len" for k
    using ev [OF that] that by (auto simp: ts_def)
  then have "seek_path d [Decoded ts] d1" "list_all (earlier t) [Decoded ts]"
    using path_run [of d ts d1, OF _ _ path_end] assms(1) l by (auto simp: list_all_length)
  then show ?thesis unfolding passes_def by blast
qed

text \<open>The decoder at the beginning of its data.\<close>

definition rewound :: "actf_decoder \<Rightarrow> actf_decoder" where
  "rewound d = snd (with_br (breader_seek 0 BREADER_SEEK_SET) (d\<lparr>d_state := {}\<rparr>))"

text \<open>
  The run of events that a call returned begins, from \<open>off\<close> on, with the first one that is late
  enough, and the seek has set it aside.
\<close>

definition found :: "i64 \<Rightarrow> actf_decoder \<Rightarrow> actf_decoder \<Rightarrow> bool" where
  "found t d d' \<longleftrightarrow>
     (\<exists>off len d1 ts. actf_decoder_decode d = (Ok (0, len), d1) \<and> off < len \<and> len \<le> d_evs_cap d \<and>
        actf_event_tstamp_ns_from_origin (d_metadata d1) (d_evs d1 ! off) = Ok ts \<and> sint t \<le> sint ts \<and>
        (\<forall>k < off. \<exists>ts. actf_event_tstamp_ns_from_origin (d_metadata d1) (d_evs d1 ! k) = Ok ts \<and> sint ts < sint t) \<and>
        d' = d1\<lparr>d_state := insert DECODING_STATE_RESUME_SEEK (d_state d1), d_seek_evs_off := off, d_seek_evs_len := len - off\<rparr>)"

lemma decode_no_seek:
  assumes "DECODING_STATE_RESUME_SEEK \<notin> d_state d" "actf_decoder_decode d = (r, d')"
  shows "DECODING_STATE_RESUME_SEEK \<notin> d_state d'"
proof -
  obtain r1 d1 where p: "actf_decoder_pkt_decode (d\<lparr>d_evs_len := 0\<rparr>) = (r1, d1)" by fastforce
  have "d_state d1 \<subseteq> insert DECODING_STATE_RESUME_PKT (d_state d)" using pkt_decode_frame [OF p] by simp
  then have "DECODING_STATE_RESUME_SEEK \<notin> d_state d1" using assms(1) by auto
  then show ?thesis using assms p
    by (auto simp: actf_decoder_decode_def Let_def split: if_splits res.splits)
qed

lemma seek_in_pkt_spec:
  "DECODING_STATE_RESUME_SEEK \<notin> d_state d \<Longrightarrow> seek_in_pkt n t d = (Ok (s, r), d') \<Longrightarrow>
   (case s of
      Found \<Rightarrow> \<exists>d0. passes t d d0 \<and> found t d0 d'
    | Next_pkt \<Rightarrow> passes t d d' \<and> DECODING_STATE_RESUME_SEEK \<notin> d_state d')"
proof (induction n arbitrary: d)
  case (Suc n)
  obtain r1 d1 where run: "actf_decoder_decode d = (r1, d1)" by fastforce
  note no = decode_no_seek [OF Suc.prems(1) run]
  show ?case
  proof (cases r1)
    case (Ok ol)
    obtain len where o: "ol = (0, len)" "len \<le> d_evs_cap d"
      using decoder_decode_frame [OF Suc.prems(1) run] Ok by (cases ol) auto
    note call = run [unfolded Ok o(1)]
    show ?thesis
    proof (cases "len = 0")
      case True
      then show ?thesis using Suc.prems(2) call no passes_run [OF call] by auto
    next
      case False
      then obtain f where f: "first_at_or_after d1 0 0 len t = Ok f"
        using Suc.prems(2) call by (auto split: res.splits)
      show ?thesis
      proof (cases f)
        case None
        then have p: "passes t d d1" using passes_run [OF call] f by simp
        consider "s = Next_pkt" "d' = d1" | "seek_in_pkt n t d1 = (Ok (s, r), d')"
          using Suc.prems(2) call False f None by (auto split: if_splits)
        then show ?thesis
        proof cases
          case 2
          show ?thesis using Suc.IH [OF no 2] passes_trans [OF p] by (auto split: seek_step.splits)
        qed (use p no in simp)
      next
        case (Some i)
        have "s = Found" "d' = d1\<lparr>d_state := insert DECODING_STATE_RESUME_SEEK (d_state d1),
            d_seek_evs_off := i, d_seek_evs_len := len - i\<rparr>"
          using Suc.prems(2) call False f Some by auto
        moreover have "found t d (d1\<lparr>d_state := insert DECODING_STATE_RESUME_SEEK (d_state d1),
            d_seek_evs_off := i, d_seek_evs_len := len - i\<rparr>)"
          using first_at_or_after_Some [OF f [unfolded Some]] call o(2) unfolding found_def by auto
        ultimately show ?thesis by (auto intro: exI [of _ d])
      qed
    qed
  next
    case (Err e)
    then show ?thesis using Suc.prems(2) run no passes_fail [of d e d1] by auto
  qed (use Suc.prems(2) run in auto)
qed simp

lemma seek_pkts_spec:
  "DECODING_STATE_RESUME_SEEK \<notin> d_state d \<Longrightarrow> seek_pkts n t rc d = (Ok (), d') \<Longrightarrow>
   (\<exists>d0. passes t d d0 \<and> found t d0 d') \<or>
   passes t d d' \<and> DECODING_STATE_RESUME_SEEK \<notin> d_state d' \<and> \<not> breader_has_bits_remaining (d_br d')"
proof (induction n arbitrary: d rc)
  case (Suc n)
  obtain r1 d1 where run: "actf_decoder_pkt_hdrctx_decode d = (r1, d1)" by fastforce
  have no: "DECODING_STATE_RESUME_SEEK \<notin> d_state d1"
    using frameD [OF frame.keeps_hdrctx run] Suc.prems(1) by (auto simp: dec_ctl_def)
  show ?case
  proof (cases "breader_has_bits_remaining (d_br d)")
    case True
    then obtain u b where ok: "r1 = Ok u" "pkt_ends_before t d1 = Ok b"
      using Suc.prems(2) run by (auto split: res.splits)
    note run = run [unfolded ok(1)]
    show ?thesis
    proof (cases b)
      case b: True
      have "d_state (behind_pkt d1) = d_state d1" by (simp add: behind_pkt_def snd_with_br)
      moreover have "seek_pkts n t (Ok ()) (behind_pkt d1) = (Ok (), d')"
        using Suc.prems(2) True run ok b by (simp add: Let_def behind_pkt_def)
      ultimately show ?thesis using Suc.IH [of "behind_pkt d1" "Ok ()"] no passes_trans [OF passes_skip [OF run ok(2) [unfolded b [THEN eqTrueI]]]]
        by auto
    next
      case b: False
      let ?d = "d1\<lparr>d_state := insert DECODING_STATE_RESUME_PKT (d_state d1)\<rparr>"
      obtain s r d2 where s: "seek_in_pkt n t ?d = (Ok (s, r), d2)"
        and e: "case s of Found \<Rightarrow> d' = d2 | Next_pkt \<Rightarrow> seek_pkts n t r d2 = (Ok (), d')"
        using Suc.prems(2) True run ok b by (auto split: res.splits prod.splits seek_step.splits)
      have "DECODING_STATE_RESUME_SEEK \<notin> d_state ?d" using no by simp
      note sp = seek_in_pkt_spec [OF this s] and en = passes_trans [OF passes_enter [OF run]]
      show ?thesis
      proof (cases s)
        case Found
        then show ?thesis using sp e en by auto
      next
        case Next_pkt
        then have p: "passes t d d2" and n2: "DECODING_STATE_RESUME_SEEK \<notin> d_state d2" using sp en by auto
        show ?thesis using Suc.IH [OF n2, of r] e Next_pkt passes_trans [OF p] by auto
      qed
    qed
  next
    case False
    then show ?thesis using Suc.prems by auto
  qed
qed simp

end
