(* ===== verification/Metadata_Theorems.thy ===== *)
theory Metadata_Theorems
  imports Metadata
begin

text \<open>
  Properties of the metadata stream (fragments and packets) and of the role checks on the classes
  it describes.
\<close>

section \<open>Fragments\<close>

text \<open>
  C20. Splitting a metadata stream into fragments loses and invents nothing: the fragments are
  non-empty, contain no record separator, and put together are the stream without its separators.
\<close>

theorem fragments_of_stream:
  "concat (split_frags b) = filter (\<lambda>c. c \<noteq> 0x1e) b \<and> list_all (\<lambda>f. f \<noteq> [] \<and> 0x1e \<notin> set f) (split_frags b)"
proof (induction b rule: split_frags.induct)
  case (2 c b)
  have t: "0x1e \<notin> set (takeWhile (\<lambda>x. x \<noteq> 0x1e) b)" by (auto dest: set_takeWhileD)
  have "filter (\<lambda>c. c \<noteq> 0x1e) b = takeWhile (\<lambda>x. x \<noteq> 0x1e) b @ filter (\<lambda>c. c \<noteq> 0x1e) (dropWhile (\<lambda>x. x \<noteq> 0x1e) b)"
    by (induction b) auto
  then show ?case using 2 t by auto
qed simp

text \<open>
  C19. Fragments written each behind a record separator are read back as they are, whatever
  non-empty texts without separators they are.
\<close>

theorem fragments_round_trip:
  "list_all (\<lambda>f. f \<noteq> [] \<and> 0x1e \<notin> set f) fs \<Longrightarrow> split_frags (concat (map (\<lambda>f. 0x1e # f) fs)) = fs"
proof (induction fs)
  case (Cons f fs)
  let ?r = "concat (map (\<lambda>f. 0x1e # f) fs)"
  obtain c f' where f: "f = c # f'" "c \<noteq> 0x1e" "0x1e \<notin> set f'" using Cons.prems by (cases f) auto
  have r: "?r = [] \<or> (\<exists>t. ?r = 0x1e # t)" by (cases fs) auto
  then have "takeWhile (\<lambda>x. x \<noteq> 0x1e) (f' @ ?r) = f'" "dropWhile (\<lambda>x. x \<noteq> 0x1e) (f' @ ?r) = ?r"
    using f(3) by (auto simp: takeWhile_append dropWhile_append)
  then show ?case using f Cons by simp
qed simp

theorem fragments_round_trip_witness:
  "split_frags [0x1e, 0x7b, 0x7d, 0x1e, 0x5b, 0x5d] = [[0x7b, 0x7d], [0x5b, 0x5d]]"
  using fragments_round_trip [of "[[0x7b, 0x7d], [0x5b, 0x5d]]"] by simp

section \<open>Roles\<close>

text \<open>
  The classes that the role checks look at: those below structures, with the path of member
  indices that leads to them.
\<close>

fun leaves :: "actf_fld_cls \<Rightarrow> (nat list \<times> actf_fld_cls) list"
  and leaves_members :: "nat \<Rightarrow> struct_fld_member_cls list \<Rightarrow> (nat list \<times> actf_fld_cls) list" where
  "leaves fc =
     (case fc of
        ACTF_FLD_CLS_STRUCT ms min_align align \<Rightarrow> leaves_members 0 ms
      | _ \<Rightarrow> [([], fc)])"
| "leaves_members i [] = []"
| "leaves_members i (Member name c # ms) = map (\<lambda>(p, x). (i # p, x)) (leaves c) @ leaves_members (Suc i) ms"

declare leaves.simps [simp del]

lemma leaves_cases:
  "leaves (ACTF_FLD_CLS_STRUCT ms a b) = leaves_members 0 ms"
  "\<not> is_struct fc \<Longrightarrow> leaves fc = [([], fc)]"
  by (simp add: leaves.simps) (cases fc; simp add: leaves.simps)

lemma leaves_members_Cons:
  "(\<forall>(p, x) \<in> set (leaves_members i (Member name c # ms)). P x) \<longleftrightarrow>
    (\<forall>(p, x) \<in> set (leaves c). P x) \<and> (\<forall>(p, x) \<in> set (leaves_members (Suc i) ms). P x)"
  "(\<exists>(p, x) \<in> set (leaves_members i (Member name c # ms)). P x) \<longleftrightarrow>
    (\<exists>(p, x) \<in> set (leaves c). P x) \<or> (\<exists>(p, x) \<in> set (leaves_members (Suc i) ms). P x)"
  by (simp_all add: ball_Un bex_Un split_beta)

lemma leaves_members_path: "(p, c) \<in> set (leaves_members i ms) \<Longrightarrow> \<exists>j q. p = j # q \<and> i \<le> j"
proof (induction ms arbitrary: i)
  case (Cons m ms)
  then show ?case by (cases m) (fastforce dest: Suc_leD)
qed simp

definition has_magic :: "actf_fld_cls \<Rightarrow> bool" where
  "has_magic c \<longleftrightarrow> ACTF_ROLE_PKT_MAGIC_NUM \<in> actf_fld_cls_roles c"

lemma int_verify_cases:
  "int_verify_pkt_magic_num_role (ACTF_FLD_CLS_STRUCT ms a b) outer first = int_verify_pkt_magic_num_role_members ms outer True"
  "\<not> is_struct fc \<Longrightarrow> int_verify_pkt_magic_num_role fc outer first =
    (if has_magic fc \<and> (\<not> outer \<or> \<not> first) then Err ACTF_INVALID_MAGIC_ROLE else Ok ())"
  by simp (cases fc; simp add: has_magic_def)

lemma is_structE: "is_struct fc \<Longrightarrow> \<exists>ms a b. fc = ACTF_FLD_CLS_STRUCT ms a b"
  by (cases fc) simp_all

lemma int_verify_nested:
  "\<And>first. int_verify_pkt_magic_num_role fc False first = Ok () \<longleftrightarrow> (\<forall>(p, c) \<in> set (leaves fc). \<not> has_magic c)"
  "\<And>first. int_verify_pkt_magic_num_role_members ms False first = Ok () \<longleftrightarrow>
    (\<forall>(p, c) \<in> set (leaves_members i ms). \<not> has_magic c)"
proof (induction fc and i ms rule: leaves_leaves_members.induct)
  case (1 fc first)
  show ?case
  proof (cases "is_struct fc")
    case True
    then obtain ms a b where fc: "fc = ACTF_FLD_CLS_STRUCT ms a b" using is_structE by blast
    show ?thesis using 1 [OF fc] unfolding fc int_verify_cases(1) leaves_cases(1) .
  next
    case False
    then show ?thesis by (simp add: int_verify_cases leaves_cases del: int_verify_pkt_magic_num_role.simps)
  qed
next
  case (3 i name c ms)
  then show ?case unfolding leaves_members_Cons(1) by (simp add: Let_def del: int_verify_pkt_magic_num_role.simps) blast
qed simp

lemma int_verify_top:
  "int_verify_pkt_magic_num_role_members ms True (i = 0) = Ok () \<longleftrightarrow>
    (\<forall>(p, c) \<in> set (leaves_members i ms). has_magic c \<longrightarrow> p = [0])"
proof (induction ms arbitrary: i)
  case (Cons m ms)
  obtain name c where m: "m = Member name c" by (cases m)
  have rest: "int_verify_pkt_magic_num_role_members ms True False = Ok () \<longleftrightarrow>
      (\<forall>(p, c) \<in> set (leaves_members (Suc i) ms). has_magic c \<longrightarrow> p = [0])"
    using Cons.IH [of "Suc i"] by simp
  show ?case
  proof (cases "is_struct c")
    case True
    then obtain ms' a b where c: "c = ACTF_FLD_CLS_STRUCT ms' a b" using is_structE by blast
    have ne: "p \<noteq> []" if "(p, x) \<in> set (leaves c)" for p x
      using that leaves_members_path [of p x 0 ms'] by (auto simp: c leaves_cases)
    have "(\<forall>(p, x) \<in> set (map (\<lambda>(p, x). (i # p, x)) (leaves c)). has_magic x \<longrightarrow> p = [0]) \<longleftrightarrow>
        (\<forall>(p, x) \<in> set (leaves c). \<not> has_magic x)" using ne by fastforce
    then show ?thesis using rest m True int_verify_nested(1) [of c "i = 0"]
      by (simp add: Let_def ball_Un del: int_verify_pkt_magic_num_role.simps) blast
  next
    case False
    then show ?thesis using rest m
      by (auto simp: Let_def int_verify_cases leaves_cases simp del: int_verify_pkt_magic_num_role.simps)
  qed
qed simp

lemma int_verify_outcomes:
  fixes i :: nat
  shows "int_verify_pkt_magic_num_role fc outer first \<in> {Ok (), Err ACTF_INVALID_MAGIC_ROLE}"
  "int_verify_pkt_magic_num_role_members ms outer first \<in> {Ok (), Err ACTF_INVALID_MAGIC_ROLE}"
proof (induction fc and i ms arbitrary: outer first and outer first rule: leaves_leaves_members.induct)
  case (1 fc)
  show ?case
  proof (cases "is_struct fc")
    case True
    then obtain ms a b where fc: "fc = ACTF_FLD_CLS_STRUCT ms a b" using is_structE by blast
    show ?thesis using 1 [OF fc] unfolding fc int_verify_cases(1) .
  qed (simp add: int_verify_cases del: int_verify_pkt_magic_num_role.simps)
next
  case (3 i name c ms)
  show ?case using 3(1) [of "outer \<and> \<not> is_struct c" first] 3(2) [of outer False]
    by (auto simp: Let_def simp del: int_verify_pkt_magic_num_role.simps)
qed simp

text \<open>
  C21. The check of the magic number role looks at the classes that are reached from the packet
  header through structures only. It accepts the header exactly when each of these with the role is
  the first member of the top-level structure, neither deeper nor later, and otherwise reports
  \<open>ACTF_INVALID_MAGIC_ROLE\<close>. It does not look into optionals, variants and arrays: a class
  inside of one may have the role and is accepted.
\<close>

theorem magic_role_only_first:
  "verify_pkt_magic_num_role fc =
    (if list_all (\<lambda>(p, c). ACTF_ROLE_PKT_MAGIC_NUM \<in> actf_fld_cls_roles c \<longrightarrow> p = [0]) (leaves fc)
     then Ok () else Err ACTF_INVALID_MAGIC_ROLE)"
proof -
  have "verify_pkt_magic_num_role fc = Ok () \<longleftrightarrow>
    list_all (\<lambda>(p, c). ACTF_ROLE_PKT_MAGIC_NUM \<in> actf_fld_cls_roles c \<longrightarrow> p = [0]) (leaves fc)"
  proof (cases "is_struct fc")
    case True
    then obtain ms a b where fc: "fc = ACTF_FLD_CLS_STRUCT ms a b" using is_structE by blast
    show ?thesis using int_verify_top [of ms 0]
      unfolding verify_pkt_magic_num_role_def fc int_verify_cases(1) leaves_cases(1) list_all_iff has_magic_def by simp
  next
    case False
    then show ?thesis
      by (simp add: verify_pkt_magic_num_role_def int_verify_cases leaves_cases has_magic_def del: int_verify_pkt_magic_num_role.simps)
  qed
  moreover have "verify_pkt_magic_num_role fc \<in> {Ok (), Err ACTF_INVALID_MAGIC_ROLE}"
    unfolding verify_pkt_magic_num_role_def by (rule int_verify_outcomes)
  ultimately show ?thesis by auto
qed

definition ex_magic_cls :: "roles \<Rightarrow> struct_fld_member_cls" where
  "ex_magic_cls r = Member ''m'' (ACTF_FLD_CLS_FXD_LEN_UINT \<lparr>ic_pref_display_base = ACTF_BASE_DECIMAL, 
       ic_maps = \<lparr>am_signed = False, am_ivt = \<lparr>rb_root = 0, rb_mem = [], rb_cb_set = False\<rparr>, am_names = []\<rparr>\<rparr>
     \<lparr>ba_len = 32, ba_bo = ACTF_LIL_ENDIAN, ba_bito = ACTF_FIRST_TO_LAST, ba_align = 8\<rparr> r)"

theorem magic_role_only_first_witness:
  "verify_pkt_magic_num_role (ACTF_FLD_CLS_STRUCT [ex_magic_cls {ACTF_ROLE_PKT_MAGIC_NUM}, ex_magic_cls {}] 1 8) = Ok () \<and>
   verify_pkt_magic_num_role (ACTF_FLD_CLS_STRUCT [ex_magic_cls {}, ex_magic_cls {ACTF_ROLE_PKT_MAGIC_NUM}] 1 8) = Err ACTF_INVALID_MAGIC_ROLE"
  unfolding magic_role_only_first by code_simp

definition clk_roles :: "roles" where
  "clk_roles = {ACTF_ROLE_DEF_CLK_TSTAMP, ACTF_ROLE_PKT_END_DEF_CLK_TSTAMP}"

lemma first_err_cases:
  "(\<forall>r \<in> set rs. r = Ok () \<or> r = Err e) \<Longrightarrow>
   first_err rs = (if \<forall>r \<in> set rs. r = Ok () then Ok () else Err e)"
  by (induction rs) auto

lemma verify_clk_cases:
  "verify_clk_roles dsc (ACTF_FLD_CLS_STRUCT ms a b) = first_err (map (verify_clk_roles_member dsc) ms)"
  "\<not> is_struct fc \<Longrightarrow> verify_clk_roles dsc fc =
    (if dc_def_clkc_id dsc = None \<and> actf_fld_cls_roles fc \<inter> clk_roles \<noteq> {} then Err ACTF_NO_DEFAULT_CLOCK else Ok ())"
  by simp (cases fc; auto simp: clk_roles_def Let_def)

lemma verify_clk_leaves:
  "verify_clk_roles dsc fc = (if dc_def_clkc_id dsc = None \<and> (\<exists>(p, c) \<in> set (leaves fc). actf_fld_cls_roles c \<inter> clk_roles \<noteq> {})
     then Err ACTF_NO_DEFAULT_CLOCK else Ok ())"
  "first_err (map (verify_clk_roles_member dsc) ms) =
     (if dc_def_clkc_id dsc = None \<and> (\<exists>(p, c) \<in> set (leaves_members i ms). actf_fld_cls_roles c \<inter> clk_roles \<noteq> {})
      then Err ACTF_NO_DEFAULT_CLOCK else Ok ())"
proof (induction fc and i ms rule: leaves_leaves_members.induct)
  case (1 fc)
  show ?case
  proof (cases "is_struct fc")
    case True
    then obtain ms a b where fc: "fc = ACTF_FLD_CLS_STRUCT ms a b" using is_structE by blast
    show ?thesis using 1 [OF fc] unfolding fc verify_clk_cases(1) leaves_cases(1) .
  next
    case False
    then show ?thesis by (simp add: verify_clk_cases leaves_cases del: verify_clk_roles.simps)
  qed
next
  case (3 i name c ms)
  then show ?case unfolding leaves_members_Cons(2) by (simp del: verify_clk_roles.simps)
qed simp

text \<open>
  C22. The check of the clock roles: a data stream class without a default clock is rejected,
  with \<open>ACTF_NO_DEFAULT_CLOCK\<close>, exactly when some class below its structures has a timestamp
  role; one with a default clock is always accepted.
\<close>

theorem clock_roles_need_clock:
  "verify_clk_roles dsc fc =
    (if dc_def_clkc_id dsc = None \<and>
        list_ex (\<lambda>(p, c). actf_fld_cls_roles c \<inter> {ACTF_ROLE_DEF_CLK_TSTAMP, ACTF_ROLE_PKT_END_DEF_CLK_TSTAMP} \<noteq> {}) (leaves fc)
     then Err ACTF_NO_DEFAULT_CLOCK else Ok ())"
  unfolding verify_clk_leaves(1) by (simp add: list_ex_iff clk_roles_def del: verify_clk_roles.simps)

section \<open>Packets of metadata\<close>

text \<open>
  A writer of packetised metadata: the header in either byte order, any UUID and checksum, the
  payload, and padding behind it.
\<close>

record mpkt =
  mp_be :: bool
  mp_uuid :: "u8 list"
  mp_checksum :: "u8 list"
  mp_payload :: "u8 list"
  mp_padding :: "u8 list"

definition le32 :: "u32 \<Rightarrow> u8 list" where
  "le32 w = map (\<lambda>k. ucast (drop_bit (8 * k) w)) [0..<4]"

definition put32 :: "bool \<Rightarrow> u32 \<Rightarrow> u8 list" where
  "put32 be w = le32 (if be then bswap32 w else w)"

definition mp_content_sz :: "mpkt \<Rightarrow> nat" where
  "mp_content_sz p = 44 + length (mp_payload p)"

definition mp_total_sz :: "mpkt \<Rightarrow> nat" where
  "mp_total_sz p = mp_content_sz p + length (mp_padding p)"

definition mp_bytes :: "mpkt \<Rightarrow> u8 list" where
  "mp_bytes p = put32 (mp_be p) METADATA_PKT_HDR_MAGIC @ mp_uuid p @ mp_checksum p @
     put32 (mp_be p) (of_nat (8 * mp_content_sz p)) @ put32 (mp_be p) (of_nat (8 * mp_total_sz p)) @
     [0, 0, 0, 2, 0] @ [0, 0, 0] @ put32 (mp_be p) METADATA_PKT_HDR_SZ_BITS @ mp_payload p @ mp_padding p"

definition mp_ok :: "mpkt \<Rightarrow> bool" where
  "mp_ok p \<longleftrightarrow> length (mp_uuid p) = 16 \<and> length (mp_checksum p) = 4 \<and> mp_total_sz p < 2 ^ 29"

lemma length_le32 [simp]: "length (le32 w) = 4"
  by (simp add: le32_def)

lemma length_put32 [simp]: "length (put32 be w) = 4"
  by (simp add: put32_def)

lemma load32_le32: "length pre = i \<Longrightarrow> load32 (pre @ le32 w @ post) i = w"
proof -
  assume i: "length pre = i"
  have n: "(pre @ le32 w @ post) ! (i + k) = ucast (drop_bit (8 * k) w)" if "k < 4" for k
  proof -
    have "(pre @ le32 w @ post) ! (i + k) = le32 w ! k" using i that by (simp add: nth_append)
    then show ?thesis using that by (simp add: le32_def)
  qed
  have "bit (load32 (pre @ le32 w @ post) i) j = bit w j" if j: "j < 32" for j
  proof -
    consider "j < 8" | "8 \<le> j" "j < 16" | "16 \<le> j" "j < 24" | "24 \<le> j" "j < 32" using j by linarith
    then show ?thesis unfolding load32_def using n [of 0] n [of 1] n [of 2] n [of 3]
      by cases (auto simp: bit_or_iff bit_push_bit_iff bit_ucast_iff bit_drop_bit_eq)
  qed
  then show ?thesis by (intro bit_word_eqI) simp
qed

lemma load32_put32: "length pre = i \<Longrightarrow> load32 (pre @ put32 be w @ post) i = (if be then bswap32 w else w)"
  unfolding put32_def by (rule load32_le32)

lemma read_hdr_bytes:
  assumes "mp_ok p"
  shows "\<exists>hdr. read_metadata_pkt_hdr (mp_bytes p @ rest) = Ok hdr \<and> unat (mh_hdr_sz_bits hdr) div 8 = 44 \<and>
    unat (mh_content_sz_bits hdr) div 8 = mp_content_sz p \<and> unat (mh_total_sz_bits hdr) div 8 = mp_total_sz p"
proof -
  let ?b = "mp_bytes p @ rest" and ?be = "mp_be p"
  let ?c = "of_nat (8 * mp_content_sz p) :: u32" and ?t = "of_nat (8 * mp_total_sz p) :: u32"
  let ?m = "put32 ?be METADATA_PKT_HDR_MAGIC" and ?s = "put32 ?be METADATA_PKT_HDR_SZ_BITS"
  have l: "length (mp_uuid p) = 16" "length (mp_checksum p) = 4" using assms by (simp_all add: mp_ok_def)
  have magic: "load32 ?b 0 = (if ?be then bswap32 METADATA_PKT_HDR_MAGIC else METADATA_PKT_HDR_MAGIC)"
    using load32_put32 [of "[]" 0] by (simp add: mp_bytes_def)
  have content: "load32 ?b 24 = (if ?be then bswap32 ?c else ?c)"
    using load32_put32 [of "?m @ mp_uuid p @ mp_checksum p" 24] l by (simp add: mp_bytes_def)
  have total: "load32 ?b 28 = (if ?be then bswap32 ?t else ?t)"
    using load32_put32 [of "?m @ mp_uuid p @ mp_checksum p @ put32 ?be ?c" 28] l by (simp add: mp_bytes_def)
  have hsz: "load32 ?b 40 = (if ?be then bswap32 METADATA_PKT_HDR_SZ_BITS else METADATA_PKT_HDR_SZ_BITS)"
    using load32_put32 [of "?m @ mp_uuid p @ mp_checksum p @ put32 ?be ?c @ put32 ?be ?t @ [0, 0, 0, 2, 0] @ [0, 0, 0]" 40] l
    by (simp add: mp_bytes_def)
  let ?h = "?m @ mp_uuid p @ mp_checksum p @ put32 ?be ?c @ put32 ?be ?t"
  have "?b = ?h @ [0, 0, 0, 2, 0] @ [0, 0, 0] @ ?s @ mp_payload p @ mp_padding p @ rest" "length ?h = 32"
    using l by (simp_all add: mp_bytes_def)
  then have bytes: "?b ! 32 = 0" "?b ! 33 = 0" "?b ! 34 = 0" "?b ! 35 = 2" "?b ! 36 = 0"
    by (simp_all add: nth_append del: append_assoc)
  have len: "44 \<le> length ?b" using l by (simp add: mp_bytes_def)
  have sz: "unat ?c = 8 * mp_content_sz p" "unat ?t = 8 * mp_total_sz p"
    using assms by (simp_all add: mp_ok_def mp_total_sz_def unat_of_nat take_bit_nat_eq_self del: of_nat_mult of_nat_add)
  have ne: "METADATA_PKT_HDR_MAGIC \<noteq> bswap32 METADATA_PKT_HDR_MAGIC"
    by code_simp
  have dv: "?c mod 8 = 0" "?t mod 8 = 0"
    using sz by (simp_all add: word_unat_eq_iff unat_mod del: of_nat_mult)
  have le: "\<not> ?c < METADATA_PKT_HDR_SZ_BITS" "\<not> ?t < ?c"
    using sz by (simp_all add: word_less_nat_alt METADATA_PKT_HDR_SZ_BITS_def mp_content_sz_def mp_total_sz_def del: of_nat_mult)
  let ?hdr = "hdr_host_order (load_hdr ?b)"
  have h: "mh_content_sz_bits ?hdr = ?c" "mh_total_sz_bits ?hdr = ?t" "mh_hdr_sz_bits ?hdr = METADATA_PKT_HDR_SZ_BITS"
    "is_metadata_stream_magic_valid (mh_magic (load_hdr ?b))" "mh_major ?hdr = 2" "mh_minor ?hdr = 0"
    "mh_compression_scheme ?hdr = 0" "mh_encryption_scheme ?hdr = 0" "mh_content_checksum ?hdr = 0"
    using ne by (simp_all add: hdr_host_order_def load_hdr_def magic content total hsz bytes bswap32_bswap32
        is_metadata_stream_magic_valid_def del: of_nat_mult)
  have "read_metadata_pkt_hdr ?b = Ok ?hdr"
    using len dv le h(4) unfolding read_metadata_pkt_hdr_def Let_def h(1-3,5-) by simp
  then show ?thesis using h(1-3) sz by (auto simp: METADATA_PKT_HDR_SZ_BITS_def simp del: of_nat_mult)
qed

text \<open>The payloads are parsed in order; a text may be cut by the end of a packet.\<close>

fun run_payloads ::
  "('t \<Rightarrow> u8 list \<Rightarrow> unit res \<times> 't) \<Rightarrow> ('t \<Rightarrow> bool) \<Rightarrow> 't \<Rightarrow> unit res \<Rightarrow> u8 list list \<Rightarrow> unit res \<times> 't" where
  "run_payloads frag continues t rc [] = (rc, t)"
| "run_payloads frag continues t rc (p # ps) =
     (case parse_json_frags frag t (split_frags p) of
        (r, u) \<Rightarrow> if r \<noteq> Ok () \<and> \<not> continues u then (r, u) else run_payloads frag continues u r ps)"

lemma unpack_packets:
  "list_all mp_ok ps \<Longrightarrow>
   unpack_packetized_metadata_stream frag continues t rc (pre @ concat (map mp_bytes ps)) (length pre) =
   run_payloads frag continues t rc (map mp_payload ps)"
proof (induction ps arbitrary: pre t rc)
  case Nil
  then show ?case by (simp add: unpack_packetized_metadata_stream.simps)
next
  case (Cons p ps)
  let ?rest = "concat (map mp_bytes ps)" and ?b = "pre @ concat (map mp_bytes (p # ps))"
  obtain hdr where h: "read_metadata_pkt_hdr (mp_bytes p @ ?rest) = Ok hdr" "unat (mh_hdr_sz_bits hdr) div 8 = 44"
    "unat (mh_content_sz_bits hdr) div 8 = mp_content_sz p" "unat (mh_total_sz_bits hdr) div 8 = mp_total_sz p"
    using read_hdr_bytes [of p ?rest] Cons.prems by auto
  have l: "length (mp_bytes p) = mp_total_sz p"
    using Cons.prems by (simp add: mp_ok_def mp_bytes_def mp_total_sz_def mp_content_sz_def)
  have "44 \<le> mp_total_sz p" "mp_content_sz p \<le> mp_total_sz p" by (simp_all add: mp_total_sz_def mp_content_sz_def)
  then have big: "\<not> length ?b \<le> length pre" "\<not> length ?b < length pre + mp_content_sz p" using l by auto
  have pl: "take (mp_content_sz p - 44) (drop (length pre + 44) ?b) = mp_payload p"
    using Cons.prems by (simp add: mp_ok_def mp_bytes_def mp_content_sz_def)
  have next_pkt: "length pre + mp_total_sz p = length (pre @ mp_bytes p)" using l by simp
  have "unpack_packetized_metadata_stream frag continues u r ?b (length pre + mp_total_sz p) =
      run_payloads frag continues u r (map mp_payload ps)" for u r
    unfolding next_pkt using Cons.IH [where pre = "pre @ mp_bytes p" and t = u and rc = r] Cons.prems by simp
  moreover have "unpack_packetized_metadata_stream frag continues t rc b (length pre) =
      (case parse_json_frags frag t (split_frags (mp_payload p)) of (r, u) \<Rightarrow>
         if r \<noteq> Ok () \<and> \<not> continues u then (r, u)
         else unpack_packetized_metadata_stream frag continues u r b (length pre + mp_total_sz p))"
    if "b = ?b" for b
  proof -
    have "drop (length pre) b = mp_bytes p @ ?rest" using that by simp
    then show ?thesis using big pl h unfolding that [symmetric]
      by (subst unpack_packetized_metadata_stream.simps) (simp add: Let_def)
  qed
  ultimately show ?case by (simp split: prod.split)
qed

text \<open>
  C18. Unpacking undoes packing: a metadata stream written as packets, in either byte order, with
  any UUIDs and checksums and any padding, is parsed as its payloads one after the other. A
  payload that fails to parse ends the stream with its error, unless the parser asks for more
  input, in which case it goes on with the next packet.
\<close>

theorem metadata_packets_unpacked:
  assumes "list_all mp_ok ps"
  shows "unpack_packetized_metadata_stream frag continues t rc (concat (map mp_bytes ps)) 0 =
    run_payloads frag continues t rc (map mp_payload ps)"
  using unpack_packets [OF assms, of frag continues t rc "[]"] by simp

theorem metadata_packets_unpacked_witness:
  "fst (unpack_packetized_metadata_stream (\<lambda>n f. (Ok (), n + length f)) (\<lambda>n. False) (0 :: nat) (Ok ())
     (mp_bytes \<lparr>mp_be = True, mp_uuid = replicate 16 7, mp_checksum = replicate 4 0, mp_payload = [0x1e, 0x7b, 0x7d], mp_padding = [0]\<rparr>) 0)
   = Ok ()"
proof -
  let ?p = "\<lparr>mp_be = True, mp_uuid = replicate 16 7, mp_checksum = replicate 4 0, mp_payload = [0x1e, 0x7b, 0x7d], mp_padding = [0]\<rparr> :: mpkt"
  have "list_all mp_ok [?p]" by (simp add: mp_ok_def mp_total_sz_def mp_content_sz_def)
  from metadata_packets_unpacked [OF this, of "\<lambda>n f. (Ok (), n + length f)" "\<lambda>n. False" 0 "Ok ()"]
  have run: "unpack_packetized_metadata_stream (\<lambda>n f. (Ok (), n + length f)) (\<lambda>n. False) 0 (Ok ()) (mp_bytes ?p) 0 =
    run_payloads (\<lambda>n f. (Ok (), n + length f)) (\<lambda>n. False) 0 (Ok ()) [[0x1e, 0x7b, 0x7d]]"
    by (simp only: list.map concat.simps append_Nil2 mpkt.select_convs)
  have ok: "fst (run_payloads (\<lambda>n f. (Ok (), n + length f)) (\<lambda>n. False) (0 :: nat) (Ok ()) [[0x1e, 0x7b, 0x7d]]) = Ok ()"
    by code_simp
  show ?thesis unfolding run by (fact ok)
qed

end
