(* ===== verification/Json_Utils.thy ===== *)
theory Json_Utils
  imports Fld
begin

text \<open>
  The typed lookups of json_utils.c. The JSON library json-c is a parameter: a record of the
  accessors that the program calls, over any type \<open>'j\<close> of JSON values. An array is given by
  the list of its elements (\<open>json_object_array_length\<close>, \<open>json_object_array_get_idx\<close>) and an
  object by the list of its members in the order of the iteration; \<open>json_object_is_type\<close>
  compares \<open>json_object_get_type\<close>. \<open>malloc_ok n\<close> tells whether an allocation of \<open>n\<close> elements
  succeeds. Messages to the error buffer are left out; the copies of strings succeed.
\<close>

section \<open>The library\<close>

datatype json_type =
    json_type_null | json_type_boolean | json_type_double | json_type_int | json_type_object
  | json_type_array | json_type_string

record 'j json_c =
  json_object_get_type :: "'j \<Rightarrow> json_type"
  json_object_object_get_ex :: "'j \<Rightarrow> string \<Rightarrow> 'j option"
  json_object_get_string :: "'j \<Rightarrow> string"
  json_object_get_boolean :: "'j \<Rightarrow> bool"
  json_object_get_double :: "'j \<Rightarrow> u64"
  json_object_get_int :: "'j \<Rightarrow> u32"
  json_object_get_int64 :: "'j \<Rightarrow> i64"
  json_object_get_uint64 :: "'j \<Rightarrow> u64"
  json_object_elems :: "'j \<Rightarrow> 'j list"
  json_object_members :: "'j \<Rightarrow> (string \<times> 'j) list"
  malloc_ok :: "nat \<Rightarrow> bool"

abbreviation json_object_is_type :: "'j json_c \<Rightarrow> 'j \<Rightarrow> json_type \<Rightarrow> bool" where
  "json_object_is_type J j ty \<equiv> json_object_get_type J j = ty"

section \<open>Outcomes of a lookup\<close>

text \<open>A key that is not there leaves the default value; a required one is reported as missing.\<close>

definition optional_key :: "'a \<Rightarrow> 'a res \<Rightarrow> 'a res" where
  "optional_key dflt r = (case r of Err e \<Rightarrow> if e = ACTF_NOT_FOUND then Ok dflt else Err e | _ \<Rightarrow> r)"

definition required_key :: "'a res \<Rightarrow> 'a res" where
  "required_key r = (case r of Err e \<Rightarrow> Err (if e = ACTF_NOT_FOUND then ACTF_MISSING_PROPERTY else e) | _ \<Rightarrow> r)"

definition json_get :: "'j json_c \<Rightarrow> 'j \<Rightarrow> string \<Rightarrow> 'j res" where
  "json_get J jobj key =
     (case json_object_object_get_ex J jobj key of Some v \<Rightarrow> Ok v | None \<Rightarrow> Err ACTF_NOT_FOUND)"

definition json_get_typed :: "'j json_c \<Rightarrow> 'j \<Rightarrow> string \<Rightarrow> json_type \<Rightarrow> 'j res" where
  "json_get_typed J jobj key ty =
     bindr (json_get J jobj key) (\<lambda>v. ensurer (json_object_is_type J v ty) ACTF_JSON_WRONG_TYPE (Ok v))"

section \<open>Scalars\<close>

definition json_object_key_get_string :: "'j json_c \<Rightarrow> 'j \<Rightarrow> string \<Rightarrow> string res" where
  "json_object_key_get_string J jobj key =
     bindr (json_get_typed J jobj key json_type_string) (\<lambda>v. Ok (json_object_get_string J v))"

definition align_is_valid :: "u64 \<Rightarrow> bool" where
  "align_is_valid n \<longleftrightarrow> and n (n - 1) = 0"

definition json_object_key_get_alignment :: "'j json_c \<Rightarrow> 'j \<Rightarrow> string \<Rightarrow> u64 res" where
  "json_object_key_get_alignment J jobj key =
     bindr (json_get_typed J jobj key json_type_int) (\<lambda>v.
       let jalign = json_object_get_uint64 J v in
       ensurer (align_is_valid jalign) ACTF_INVALID_ALIGNMENT (Ok jalign))"

definition json_object_key_get_bo :: "'j json_c \<Rightarrow> 'j \<Rightarrow> string \<Rightarrow> actf_byte_order res" where
  "json_object_key_get_bo J jobj key =
     bindr (json_get_typed J jobj key json_type_string) (\<lambda>v.
       let bo_str = json_object_get_string J v in
       if bo_str = ''big-endian'' then Ok ACTF_BIG_ENDIAN
       else if bo_str = ''little-endian'' then Ok ACTF_LIL_ENDIAN
       else Err ACTF_INVALID_BYTE_ORDER)"

definition json_object_key_get_bito :: "'j json_c \<Rightarrow> 'j \<Rightarrow> string \<Rightarrow> actf_bit_order res" where
  "json_object_key_get_bito J jobj key =
     bindr (json_get_typed J jobj key json_type_string) (\<lambda>v.
       let bito_str = json_object_get_string J v in
       if bito_str = ''first-to-last'' then Ok ACTF_FIRST_TO_LAST
       else if bito_str = ''last-to-first'' then Ok ACTF_LAST_TO_FIRST
       else Err ACTF_INVALID_BIT_ORDER)"

definition ACTF_UUID_N_BYTES :: nat where
  "ACTF_UUID_N_BYTES = 16"

definition json_object_key_get_uuid :: "'j json_c \<Rightarrow> 'j \<Rightarrow> string \<Rightarrow> u8 list res" where
  "json_object_key_get_uuid J jobj key =
     bindr (json_get_typed J jobj key json_type_array) (\<lambda>v.
       ensurer (length (json_object_elems J v) = ACTF_UUID_N_BYTES) ACTF_INVALID_UUID
         (mapr (\<lambda>b. ensurer (json_object_is_type J b json_type_int) ACTF_INVALID_UUID
                  (Ok (ucast (json_object_get_uint64 J b)))) (json_object_elems J v)))"

definition json_object_key_get_gtez_uint64 :: "'j json_c \<Rightarrow> 'j \<Rightarrow> string \<Rightarrow> u64 res" where
  "json_object_key_get_gtez_uint64 J jobj key =
     bindr (json_get_typed J jobj key json_type_int) (\<lambda>v.
       ensurer (0 \<le> sint (json_object_get_int64 J v)) ACTF_JSON_NOT_GTEZ (Ok (json_object_get_uint64 J v)))"

definition json_object_key_get_gtz_uint64 :: "'j json_c \<Rightarrow> 'j \<Rightarrow> string \<Rightarrow> u64 res" where
  "json_object_key_get_gtz_uint64 J jobj key =
     (case json_object_key_get_gtez_uint64 J jobj key of
        Err e \<Rightarrow> if e \<noteq> ACTF_JSON_NOT_GTEZ then Err e else Err ACTF_JSON_NOT_GTZ
      | Ok jval \<Rightarrow> if jval = 0 then Err ACTF_JSON_NOT_GTZ else Ok jval
      | r \<Rightarrow> r)"

definition json_object_key_get_int64 :: "'j json_c \<Rightarrow> 'j \<Rightarrow> string \<Rightarrow> i64 res" where
  "json_object_key_get_int64 J jobj key =
     bindr (json_get_typed J jobj key json_type_int) (\<lambda>v. Ok (json_object_get_int64 J v))"

section \<open>Range sets\<close>

datatype rng = SRng srng | URng urng

definition rng_parse :: "'j json_c \<Rightarrow> bool \<Rightarrow> 'j \<Rightarrow> rng res" where
  "rng_parse J force_unsigned rng_jobj =
     ensurer (json_object_is_type J rng_jobj json_type_array) ACTF_JSON_WRONG_TYPE
       (case json_object_elems J rng_jobj of
          [lower_jobj, upper_jobj] \<Rightarrow>
            ensurer (json_object_is_type J lower_jobj json_type_int) ACTF_INVALID_RANGE
           (ensurer (json_object_is_type J upper_jobj json_type_int) ACTF_INVALID_RANGE
             (let slower = json_object_get_int64 J lower_jobj in
              if sint slower < 0 \<and> \<not> force_unsigned then
                let supper = json_object_get_int64 J upper_jobj in
                ensurer (\<not> sint supper < sint slower) ACTF_INVALID_RANGE
                  (Ok (SRng \<lparr>s_lower = slower, s_upper = supper\<rparr>))
              else
                let ulower = json_object_get_uint64 J lower_jobj;
                    uupper = json_object_get_uint64 J upper_jobj in
                ensurer (\<not> uupper < ulower) ACTF_INVALID_RANGE
                  (Ok (URng \<lparr>u_lower = ulower, u_upper = uupper\<rparr>))))
        | _ \<Rightarrow> Err ACTF_INVALID_RANGE)"

fun srng_of :: "rng \<Rightarrow> srng" where
  "srng_of (SRng s) = s"
| "srng_of (URng u) = \<lparr>s_lower = u_lower u, s_upper = u_upper u\<rparr>"

fun urng_of :: "rng \<Rightarrow> urng" where
  "urng_of (SRng s) = \<lparr>u_lower = s_lower s, u_upper = s_upper s\<rparr>"
| "urng_of (URng u) = u"

definition rngs_to_rng_set :: "'j json_c \<Rightarrow> rng list \<Rightarrow> bool \<Rightarrow> actf_rng_set res" where
  "rngs_to_rng_set J rngs is_signed =
     ensurer (malloc_ok J (length rngs)) ACTF_OOM
       (Ok (if is_signed then RNG_SINT (map srng_of rngs) else RNG_UINT (map urng_of rngs)))"

definition rng_is_negative :: "rng \<Rightarrow> bool" where
  "rng_is_negative r = (case r of SRng s \<Rightarrow> sint (s_lower s) < 0 | URng u \<Rightarrow> False)"

definition rng_larger_than_int64 :: "rng \<Rightarrow> bool" where
  "rng_larger_than_int64 r = (case r of SRng s \<Rightarrow> False | URng u \<Rightarrow> INT64_MAX < u_upper u)"

definition json_object_key_get_rng_set :: "'j json_c \<Rightarrow> 'j \<Rightarrow> string \<Rightarrow> actf_rng_set res" where
  "json_object_key_get_rng_set J jobj key =
     bindr (json_get_typed J jobj key json_type_array) (\<lambda>rs_jobj.
       let n_rngs = length (json_object_elems J rs_jobj) in
       ensurer (n_rngs \<noteq> 0) ACTF_INVALID_RANGE_SET
      (ensurer (malloc_ok J n_rngs) ACTF_OOM
      (bindr (mapr (rng_parse J False) (json_object_elems J rs_jobj)) (\<lambda>rngs.
       let contains_negative = list_ex rng_is_negative rngs;
           contains_larger_than_int64 = list_ex rng_larger_than_int64 rngs in
       ensurer (\<not> (contains_negative \<and> contains_larger_than_int64)) ACTF_INVALID_RANGE_SET
         (rngs_to_rng_set J rngs contains_negative)))))"

section \<open>Mappings\<close>

definition rng_to_srng :: "rng \<Rightarrow> srng option" where
  "rng_to_srng r =
     (case r of
        SRng s \<Rightarrow> Some s
      | URng u \<Rightarrow>
          if INT64_MAX < u_lower u then None
          else Some \<lparr>s_lower = u_lower u, s_upper = (if INT64_MAX < u_upper u then INT64_MAX else u_upper u)\<rparr>)"

definition rng_to_urng :: "rng \<Rightarrow> urng option" where
  "rng_to_urng r =
     (case r of
        SRng s \<Rightarrow>
          if sint (s_upper s) < 0 then None
          else Some \<lparr>u_lower = (if sint (s_lower s) < 0 then 0 else s_lower s), u_upper = s_upper s\<rparr>
      | URng u \<Rightarrow> Some u)"

text \<open>
  The valid ranges stay at their index and are counted; the set is as long as the count. A range
  that is not valid leaves memory uninitialised, and a set that contains such memory is
  undefined.
\<close>

definition counted_rngs :: "'r option list \<Rightarrow> 'r list res" where
  "counted_rngs rs =
     (let kept = take (length (filter (\<lambda>r. r \<noteq> None) rs)) rs in
      if None \<in> set kept then Undef else Ok (map the kept))"

definition map_parse :: "'j json_c \<Rightarrow> bool \<Rightarrow> (rng \<Rightarrow> 'r option) \<Rightarrow> string \<times> 'j \<Rightarrow> ('r list \<times> string) res" where
  "map_parse J force_unsigned conv m =
     (case m of (name, rs_jobj) \<Rightarrow>
        ensurer (json_object_is_type J rs_jobj json_type_array) ACTF_JSON_WRONG_TYPE
          (let rngs_len = length (json_object_elems J rs_jobj) in
           ensurer (rngs_len \<noteq> 0) ACTF_INVALID_RANGE_SET
          (ensurer (malloc_ok J rngs_len) ACTF_OOM
          (bindr (mapr (rng_parse J force_unsigned) (json_object_elems J rs_jobj)) (\<lambda>rngs.
           bindr (counted_rngs (map conv rngs)) (\<lambda>rs. Ok (rs, name)))))))"

definition smaps_parse :: "'j json_c \<Rightarrow> 'j \<Rightarrow> smappings res" where
  "smaps_parse J maps_jobj = mapr (map_parse J False rng_to_srng) (json_object_members J maps_jobj)"

definition umaps_parse :: "'j json_c \<Rightarrow> 'j \<Rightarrow> umappings res" where
  "umaps_parse J maps_jobj = mapr (map_parse J True rng_to_urng) (json_object_members J maps_jobj)"

definition json_object_key_get_mappings :: "'j json_c \<Rightarrow> 'j \<Rightarrow> string \<Rightarrow> bool \<Rightarrow> mappings res" where
  "json_object_key_get_mappings J jobj key is_signed =
     bindr (json_get_typed J jobj key json_type_object) (\<lambda>maps_jobj.
       ensurer (malloc_ok J (length (json_object_members J maps_jobj))) ACTF_OOM
         (if is_signed then bindr (smaps_parse J maps_jobj) (\<lambda>s. Ok (SMAPS s))
          else bindr (umaps_parse J maps_jobj) (\<lambda>u. Ok (UMAPS u))))"

section \<open>Field locations\<close>

definition path_elem :: "'j json_c \<Rightarrow> 'j \<Rightarrow> string option res" where
  "path_elem J j =
     (case json_object_get_type J j of
        json_type_string \<Rightarrow> Ok (Some (json_object_get_string J j))
      | json_type_null \<Rightarrow> Ok None
      | _ \<Rightarrow> Err ACTF_INVALID_FLD_LOC)"

definition fld_loc_origin_parse :: "'j json_c \<Rightarrow> 'j \<Rightarrow> actf_fld_loc_origin res" where
  "fld_loc_origin_parse J fld_loc_jobj =
     (case json_object_key_get_string J fld_loc_jobj ''origin'' of
        Ok origin_name \<Rightarrow>
          (let origin = actf_fld_loc_origin_name_to_type origin_name in
           ensurer (origin \<noteq> ACTF_FLD_LOC_ORIGIN_NONE) ACTF_INVALID_FLD_LOC (Ok origin))
      | Err e \<Rightarrow> if e = ACTF_NOT_FOUND then Ok ACTF_FLD_LOC_ORIGIN_NONE else Err ACTF_INVALID_FLD_LOC
      | Undef \<Rightarrow> Undef
      | Loop \<Rightarrow> Loop)"

definition actf_fld_loc_parse :: "'j json_c \<Rightarrow> 'j \<Rightarrow> actf_fld_loc res" where
  "actf_fld_loc_parse J fld_loc_jobj =
     ensurer (json_object_is_type J fld_loc_jobj json_type_object) ACTF_JSON_WRONG_TYPE
    (bindr (fld_loc_origin_parse J fld_loc_jobj) (\<lambda>origin.
       case json_object_object_get_ex J fld_loc_jobj ''path'' of
         None \<Rightarrow> Err ACTF_INVALID_FLD_LOC
       | Some path_jobj \<Rightarrow>
           ensurer (json_object_is_type J path_jobj json_type_array) ACTF_INVALID_FLD_LOC
             (let elems = json_object_elems J path_jobj in
              ensurer (elems \<noteq> []) ACTF_INVALID_FLD_LOC
             (ensurer (malloc_ok J (length elems)) ACTF_OOM
             (bindr (mapr (path_elem J) elems) (\<lambda>path.
              ensurer (last path \<noteq> None) ACTF_INVALID_FLD_LOC
                (Ok \<lparr>fl_origin = origin, fl_path = path\<rparr>)))))))"

definition json_object_key_get_fld_loc :: "'j json_c \<Rightarrow> 'j \<Rightarrow> string \<Rightarrow> actf_fld_loc res" where
  "json_object_key_get_fld_loc J jobj key = bindr (json_get J jobj key) (actf_fld_loc_parse J)"

end
