(* ===== verification/Ctf_Json.thy ===== *)
theory Ctf_Json
  imports Json_Utils
begin

text \<open>
  The conversion of JSON values to fields (ctfjson.c), which holds the attributes, extensions and
  environments of the metadata: first a field class is made for the value, then a field of that
  class. The fields form a tree whose arrays of members are the lists below; the bookkeeping of
  allocated strings and arrays for the release is left out. The recursion on nested values is
  bounded by fuel.
\<close>

section \<open>Classes\<close>

text \<open>
  The format string is the length modifier and conversion \<open>PRIu64\<close> without a percent sign, so
  that \<open>snprintf\<close> copies it.
\<close>

definition PRIu64 :: string where
  "PRIu64 = ''lu''"

definition uitoa :: "nat \<Rightarrow> string" where
  "uitoa i = PRIu64"

definition zero_mappings :: actf_mappings where
  "zero_mappings = \<lparr>am_signed = True, am_ivt = \<lparr>rb_root = 0, rb_mem = [], rb_cb_set = False\<rparr>, am_names = []\<rparr>"

definition json_bit_arr :: "u64 \<Rightarrow> bit_arr_cls" where
  "json_bit_arr len = \<lparr>ba_len = len, ba_bo = ACTF_LIL_ENDIAN, ba_bito = ACTF_FIRST_TO_LAST, ba_align = DEFAULT_ALIGNMENT\<rparr>"

definition json_int_cls :: int_fld_cls where
  "json_int_cls = \<lparr>ic_pref_display_base = ACTF_BASE_DECIMAL, ic_maps = zero_mappings\<rparr>"

fun fld_cls_from_json :: "nat \<Rightarrow> 'j json_c \<Rightarrow> 'j \<Rightarrow> actf_fld_cls res" where
  "fld_cls_from_json 0 J jobj = Loop"
| "fld_cls_from_json (Suc n) J jobj =
     (case json_object_get_type J jobj of
        json_type_null \<Rightarrow> Ok ACTF_FLD_CLS_NIL
      | json_type_boolean \<Rightarrow> Ok (ACTF_FLD_CLS_FXD_LEN_BOOL (json_bit_arr 1))
      | json_type_double \<Rightarrow> Ok (ACTF_FLD_CLS_FXD_LEN_FLOAT (json_bit_arr 64))
      | json_type_int \<Rightarrow>
          if sint (json_object_get_int64 J jobj) < 0
          then Ok (ACTF_FLD_CLS_FXD_LEN_SINT json_int_cls (json_bit_arr 64) {})
          else Ok (ACTF_FLD_CLS_FXD_LEN_UINT json_int_cls (json_bit_arr 64) {})
      | json_type_object \<Rightarrow>
          (let ms = json_object_members J jobj in
           ensurer (malloc_ok J (length ms)) ACTF_OOM
             (bindr (mapr (\<lambda>(name, m_jobj).
                bindr (fld_cls_from_json n J m_jobj) (\<lambda>c. Ok (Member name c))) ms) (\<lambda>clses.
              Ok (ACTF_FLD_CLS_STRUCT clses DEFAULT_ALIGNMENT 0))))
      | json_type_array \<Rightarrow>
          (let es = json_object_elems J jobj in
           ensurer (malloc_ok J (length es)) ACTF_OOM
             (bindr (mapr (\<lambda>(i, m_jobj).
                bindr (fld_cls_from_json n J m_jobj) (\<lambda>c. Ok (Member (uitoa i) c))) (enumerate 0 es)) (\<lambda>clses.
              Ok (ACTF_FLD_CLS_STRUCT clses DEFAULT_ALIGNMENT 0))))
      | json_type_string \<Rightarrow> Ok (ACTF_FLD_CLS_NULL_TERM_STR ACTF_ENCODING_UTF8))"

section \<open>Fields\<close>

datatype jfld = JFld (jf_cls: actf_fld_cls) (jf_type: actf_fld_type) (jf_d: jfld_data)
and jfld_data =
    J_zero | J_bool bool | J_f64 u64 | J_int i64 | J_uint u64 | J_vals "jfld list" | J_str string nat

definition is_struct_cls :: "actf_fld_cls \<Rightarrow> bool" where
  "is_struct_cls fc = (case fc of ACTF_FLD_CLS_STRUCT ms a b \<Rightarrow> True | _ \<Rightarrow> False)"

fun fld_from_json :: "nat \<Rightarrow> 'j json_c \<Rightarrow> 'j \<Rightarrow> actf_fld_cls \<Rightarrow> jfld res" where
  "fld_from_json 0 J jobj fc = Loop"
| "fld_from_json (Suc n) J jobj fc =
     (case json_object_get_type J jobj of
        json_type_null \<Rightarrow>
          ensurer (fc = ACTF_FLD_CLS_NIL) ACTF_INTERNAL (Ok (JFld fc ACTF_FLD_TYPE_NIL J_zero))
      | json_type_boolean \<Rightarrow>
          (case fc of
             ACTF_FLD_CLS_FXD_LEN_BOOL b \<Rightarrow> Ok (JFld fc ACTF_FLD_TYPE_BOOL (J_bool (json_object_get_boolean J jobj)))
           | _ \<Rightarrow> Err ACTF_INTERNAL)
      | json_type_double \<Rightarrow>
          (case fc of
             ACTF_FLD_CLS_FXD_LEN_FLOAT b \<Rightarrow> Ok (JFld fc ACTF_FLD_TYPE_REAL (J_f64 (json_object_get_double J jobj)))
           | _ \<Rightarrow> Err ACTF_INTERNAL)
      | json_type_int \<Rightarrow>
          (case fc of
             ACTF_FLD_CLS_FXD_LEN_SINT i b r \<Rightarrow> Ok (JFld fc ACTF_FLD_TYPE_SINT (J_int (json_object_get_int64 J jobj)))
           | ACTF_FLD_CLS_VAR_LEN_SINT i r \<Rightarrow> Ok (JFld fc ACTF_FLD_TYPE_SINT (J_int (json_object_get_int64 J jobj)))
           | ACTF_FLD_CLS_FXD_LEN_UINT i b r \<Rightarrow> Ok (JFld fc ACTF_FLD_TYPE_UINT (J_uint (json_object_get_uint64 J jobj)))
           | ACTF_FLD_CLS_VAR_LEN_UINT i r \<Rightarrow> Ok (JFld fc ACTF_FLD_TYPE_UINT (J_uint (json_object_get_uint64 J jobj)))
           | _ \<Rightarrow> Err ACTF_INTERNAL)
      | json_type_object \<Rightarrow>
          ensurer (is_struct_cls fc) ACTF_INTERNAL
            (let ms = json_object_members J jobj in
             ensurer (length ms = length (cls_members fc)) ACTF_INTERNAL
            (ensurer (malloc_ok J (length ms)) ACTF_OOM
            (bindr (mapr (\<lambda>((name, m_jobj), mfc).
               ensurer (name = m_name mfc) ACTF_INTERNAL (fld_from_json n J m_jobj (m_cls mfc)))
                 (zip ms (cls_members fc))) (\<lambda>vals.
             Ok (JFld fc ACTF_FLD_TYPE_STRUCT (J_vals vals))))))
      | json_type_array \<Rightarrow>
          ensurer (is_struct_cls fc) ACTF_INTERNAL
            (let es = json_object_elems J jobj in
             ensurer (length es = length (cls_members fc)) ACTF_INTERNAL
            (ensurer (malloc_ok J (length es)) ACTF_OOM
            (bindr (mapr (\<lambda>(m_jobj, mfc). fld_from_json n J m_jobj (m_cls mfc))
                 (zip es (cls_members fc))) (\<lambda>vals.
             Ok (JFld fc ACTF_FLD_TYPE_STRUCT (J_vals vals))))))
      | json_type_string \<Rightarrow>
          (let js = json_object_get_string J jobj;
               str = ensurer (malloc_ok J (length js + 1)) ACTF_OOM
                       (Ok (JFld fc ACTF_FLD_TYPE_STR (J_str js (length js + 1))))
           in case fc of
                ACTF_FLD_CLS_NULL_TERM_STR e \<Rightarrow> str
              | ACTF_FLD_CLS_STATIC_LEN_STR e l \<Rightarrow> str
              | ACTF_FLD_CLS_DYN_LEN_STR e l \<Rightarrow> str
              | _ \<Rightarrow> Err ACTF_INTERNAL))"

text \<open>The converted value: its class is the class of its field.\<close>

definition ctfjson_init :: "nat \<Rightarrow> 'j json_c \<Rightarrow> 'j \<Rightarrow> jfld res" where
  "ctfjson_init n J jobj =
     ensurer (malloc_ok J 1) ACTF_OOM
       (bindr (fld_cls_from_json n J jobj) (\<lambda>fc. fld_from_json n J jobj fc))"

definition json_object_key_get_ctfjson :: "nat \<Rightarrow> 'j json_c \<Rightarrow> 'j \<Rightarrow> string \<Rightarrow> jfld res" where
  "json_object_key_get_ctfjson n J jobj key =
     bindr (json_get_typed J jobj key json_type_object) (ctfjson_init n J)"

section \<open>Members of a converted value\<close>

definition jfld_struct_len :: "jfld \<Rightarrow> nat" where
  "jfld_struct_len f =
     (if jf_type f = ACTF_FLD_TYPE_STRUCT then length (cls_members (jf_cls f)) else 0)"

definition jfld_vals :: "jfld \<Rightarrow> jfld list" where
  "jfld_vals f = (case jf_d f of J_vals vs \<Rightarrow> vs | _ \<Rightarrow> [])"

section \<open>Lemmas\<close>

text \<open>
  Converting a value with the class that was made for it cannot meet an incompatible class: the
  only errors are failed allocations.
\<close>

definition only_oom :: "'j json_c \<Rightarrow> 'a res \<Rightarrow> bool" where
  "only_oom J r \<longleftrightarrow> (\<forall>e. r = Err e \<longrightarrow> e = ACTF_OOM \<and> (\<exists>k. \<not> malloc_ok J k)) \<and> r \<noteq> Undef"

lemma only_oom_simps [simp]:
  "only_oom J (Ok x)" "only_oom J Loop" "\<not> only_oom J Undef"
  "only_oom J (Err e) \<longleftrightarrow> e = ACTF_OOM \<and> (\<exists>k. \<not> malloc_ok J k)"
  by (auto simp: only_oom_def)

lemma only_oom_bindr: "only_oom J r \<Longrightarrow> (\<And>x. r = Ok x \<Longrightarrow> only_oom J (f x)) \<Longrightarrow> only_oom J (bindr r f)"
  by (cases r) auto

lemma only_oom_ensurer: "(b \<Longrightarrow> only_oom J r) \<Longrightarrow> b \<or> e = ACTF_OOM \<and> (\<exists>k. \<not> malloc_ok J k) \<Longrightarrow> only_oom J (ensurer b e r)"
  by (auto simp: ensurer_def)

lemma only_oom_mapr: "(\<And>x. x \<in> set xs \<Longrightarrow> only_oom J (f x)) \<Longrightarrow> only_oom J (mapr f xs)"
  by (induction xs) (auto intro!: only_oom_bindr)

lemma fld_cls_from_json_oom: "only_oom J (fld_cls_from_json n J jobj)"
  by (induction n J jobj rule: fld_cls_from_json.induct)
    (auto split: json_type.split prod.split simp: Let_def
      intro!: only_oom_ensurer only_oom_bindr only_oom_mapr)


lemma members_of_object:
  assumes "mapr (\<lambda>(name, m_jobj). bindr (g m_jobj) (\<lambda>c. Ok (Member name c))) ms = Ok clses"
  shows "length clses = length ms"
    "((name, m), mfc) \<in> set (zip ms clses) \<Longrightarrow> m_name mfc = name \<and> g m = Ok (m_cls mfc)"
  using assms by (auto simp: mapr_Ok list_all2_iff bindr_Ok_iff dest!: bspec)

lemma members_of_array:
  assumes "mapr (\<lambda>(i, m_jobj). bindr (g m_jobj) (\<lambda>c. Ok (Member (uitoa i) c))) (enumerate k es) = Ok clses"
  shows "length clses = length es \<and> (\<forall>(m, mfc) \<in> set (zip es clses). g m = Ok (m_cls mfc))"
  using assms
proof (induction es arbitrary: k clses)
  case (Cons e es)
  from Cons.prems obtain c cs where c: "clses = Member (uitoa k) c # cs" "g e = Ok c"
    "mapr (\<lambda>(i, m_jobj). bindr (g m_jobj) (\<lambda>c. Ok (Member (uitoa i) c))) (enumerate (Suc k) es) = Ok cs"
    by (auto simp: bindr_Ok_iff)
  then show ?case using Cons.IH [OF c(3)] by auto
qed simp

lemma fld_from_json_oom: "fld_cls_from_json n J jobj = Ok fc \<Longrightarrow> only_oom J (fld_from_json n J jobj fc)"
proof (induction n arbitrary: jobj fc)
  case (Suc n)
  show ?case
  proof (cases "json_object_get_type J jobj")
    case json_type_object
    with Suc.prems obtain clses where c: "fc = ACTF_FLD_CLS_STRUCT clses DEFAULT_ALIGNMENT 0"
      "mapr (\<lambda>(name, m_jobj). bindr (fld_cls_from_json n J m_jobj) (\<lambda>c. Ok (Member name c)))
         (json_object_members J jobj) = Ok clses"
      by (auto simp: Let_def ensurer_Ok_iff bindr_Ok_iff)
    show ?thesis using json_type_object c(1) members_of_object [OF c(2)]
      by (auto simp: Let_def is_struct_cls_def intro!: only_oom_ensurer only_oom_bindr only_oom_mapr Suc.IH)
  next
    case json_type_array
    with Suc.prems obtain clses where c: "fc = ACTF_FLD_CLS_STRUCT clses DEFAULT_ALIGNMENT 0"
      "mapr (\<lambda>(i, m_jobj). bindr (fld_cls_from_json n J m_jobj) (\<lambda>c. Ok (Member (uitoa i) c)))
         (enumerate 0 (json_object_elems J jobj)) = Ok clses"
      by (auto simp: Let_def ensurer_Ok_iff bindr_Ok_iff)
    show ?thesis using json_type_array c(1) members_of_array [OF c(2)]
      by (auto simp: Let_def is_struct_cls_def intro!: only_oom_ensurer only_oom_bindr only_oom_mapr Suc.IH)
  qed (use Suc.prems in \<open>auto simp: Let_def ensurer_def split: if_splits\<close>)
qed simp

lemma ctfjson_init_oom: "only_oom J (ctfjson_init n J jobj)"
  unfolding ctfjson_init_def
  by (intro only_oom_ensurer only_oom_bindr fld_cls_from_json_oom fld_from_json_oom) auto

text \<open>Fuel: nested deeper than any value, the conversion returns.\<close>

definition json_rank :: "'j json_c \<Rightarrow> ('j \<Rightarrow> nat) \<Rightarrow> bool" where
  "json_rank J r \<longleftrightarrow>
     (\<forall>j m. m \<in> set (json_object_elems J j) \<longrightarrow> r m < r j) \<and>
     (\<forall>j k m. (k, m) \<in> set (json_object_members J j) \<longrightarrow> r m < r j) \<and>
     (\<forall>j k m. json_object_object_get_ex J j k = Some m \<longrightarrow> r m < r j)"

lemma json_rankD:
  assumes "json_rank J r"
  shows "m \<in> set (json_object_elems J j) \<Longrightarrow> r m < r j"
    "(k, m) \<in> set (json_object_members J j) \<Longrightarrow> r m < r j"
    "json_object_object_get_ex J j k = Some m \<Longrightarrow> r m < r j"
  using assms by (auto simp: json_rank_def)

lemma fld_cls_from_json_returns: "json_rank J r \<Longrightarrow> r jobj < n \<Longrightarrow> returns (fld_cls_from_json n J jobj)"
proof (induction n arbitrary: jobj)
  case (Suc n)
  have elem: "returns (fld_cls_from_json n J m)" if "m \<in> set (json_object_elems J jobj)" for m
    using Suc that json_rankD(1) [OF Suc.prems(1) that] by simp
  have member: "returns (fld_cls_from_json n J m)" if "(k, m) \<in> set (json_object_members J jobj)" for k m
    using Suc that json_rankD(2) [OF Suc.prems(1) that] by simp
  show ?case
    by (auto split: json_type.split simp: Let_def in_set_enumerate_eq
      intro!: returns_bindr returns_ensurer returns_mapr intro: elem member nth_mem)
qed simp

lemma fld_from_json_returns: "json_rank J r \<Longrightarrow> r jobj < n \<Longrightarrow> returns (fld_from_json n J jobj fc)"
proof (induction n arbitrary: jobj fc)
  case (Suc n)
  have elem: "returns (fld_from_json n J m c)" if "m \<in> set (json_object_elems J jobj)" for m c
    using Suc that json_rankD(1) [OF Suc.prems(1) that] by simp
  have member: "returns (fld_from_json n J m c)" if "(k, m) \<in> set (json_object_members J jobj)" for k m c
    using Suc that json_rankD(2) [OF Suc.prems(1) that] by simp
  show ?case
    by (auto split: json_type.split actf_fld_cls.split simp: Let_def
      intro!: returns_bindr returns_ensurer returns_mapr intro: elem member dest: set_zip_leftD)
qed simp

lemma ctfjson_init_returns: "json_rank J r \<Longrightarrow> r jobj < n \<Longrightarrow> returns (ctfjson_init n J jobj)"
  unfolding ctfjson_init_def
  by (intro returns_intros fld_cls_from_json_returns fld_from_json_returns)

text \<open>
  What the field of a converted value holds: its content, and its class. \<open>nm i\<close> is the name of
  the member for element \<open>i\<close> of an array.
\<close>

inductive mirrors :: "'j json_c \<Rightarrow> (nat \<Rightarrow> string) \<Rightarrow> 'j \<Rightarrow> jfld \<Rightarrow> bool" for J nm where
  mirrors_null: "json_object_get_type J j = json_type_null \<Longrightarrow>
    mirrors J nm j (JFld ACTF_FLD_CLS_NIL ACTF_FLD_TYPE_NIL J_zero)"
| mirrors_bool: "json_object_get_type J j = json_type_boolean \<Longrightarrow>
    mirrors J nm j (JFld (ACTF_FLD_CLS_FXD_LEN_BOOL (json_bit_arr 1)) ACTF_FLD_TYPE_BOOL (J_bool (json_object_get_boolean J j)))"
| mirrors_double: "json_object_get_type J j = json_type_double \<Longrightarrow>
    mirrors J nm j (JFld (ACTF_FLD_CLS_FXD_LEN_FLOAT (json_bit_arr 64)) ACTF_FLD_TYPE_REAL (J_f64 (json_object_get_double J j)))"
| mirrors_sint: "json_object_get_type J j = json_type_int \<Longrightarrow> sint (json_object_get_int64 J j) < 0 \<Longrightarrow>
    mirrors J nm j (JFld (ACTF_FLD_CLS_FXD_LEN_SINT json_int_cls (json_bit_arr 64) {}) ACTF_FLD_TYPE_SINT
      (J_int (json_object_get_int64 J j)))"
| mirrors_uint: "json_object_get_type J j = json_type_int \<Longrightarrow> \<not> sint (json_object_get_int64 J j) < 0 \<Longrightarrow>
    mirrors J nm j (JFld (ACTF_FLD_CLS_FXD_LEN_UINT json_int_cls (json_bit_arr 64) {}) ACTF_FLD_TYPE_UINT
      (J_uint (json_object_get_uint64 J j)))"
| mirrors_str: "json_object_get_type J j = json_type_string \<Longrightarrow>
    mirrors J nm j (JFld (ACTF_FLD_CLS_NULL_TERM_STR ACTF_ENCODING_UTF8) ACTF_FLD_TYPE_STR
      (J_str (json_object_get_string J j) (Suc (length (json_object_get_string J j)))))"
| mirrors_object: "json_object_get_type J j = json_type_object \<Longrightarrow>
    length vals = length (json_object_members J j) \<Longrightarrow>
    (\<And>i. i < length vals \<Longrightarrow> mirrors J nm (snd (json_object_members J j ! i)) (vals ! i)) \<Longrightarrow>
    clses = map2 (\<lambda>m v. Member (fst m) (jf_cls v)) (json_object_members J j) vals \<Longrightarrow>
    mirrors J nm j (JFld (ACTF_FLD_CLS_STRUCT clses DEFAULT_ALIGNMENT 0) ACTF_FLD_TYPE_STRUCT (J_vals vals))"
| mirrors_array: "json_object_get_type J j = json_type_array \<Longrightarrow>
    length vals = length (json_object_elems J j) \<Longrightarrow>
    (\<And>i. i < length vals \<Longrightarrow> mirrors J nm (json_object_elems J j ! i) (vals ! i)) \<Longrightarrow>
    clses = map (\<lambda>(i, v). Member (nm i) (jf_cls v)) (enumerate 0 vals) \<Longrightarrow>
    mirrors J nm j (JFld (ACTF_FLD_CLS_STRUCT clses DEFAULT_ALIGNMENT 0) ACTF_FLD_TYPE_STRUCT (J_vals vals))"

lemma mirrors_fld:
  "fld_cls_from_json n J j = Ok fc \<Longrightarrow> fld_from_json n J j fc = Ok f \<Longrightarrow> mirrors J uitoa j f \<and> jf_cls f = fc"
proof (induction n arbitrary: j fc f)
  case (Suc n)
  show ?case
  proof (cases "json_object_get_type J j")
    case json_type_object
    let ?ms = "json_object_members J j"
    from json_type_object Suc.prems(1) obtain clses where c: "fc = ACTF_FLD_CLS_STRUCT clses DEFAULT_ALIGNMENT 0"
      "mapr (\<lambda>(name, m_jobj). bindr (fld_cls_from_json n J m_jobj) (\<lambda>c. Ok (Member name c))) ?ms = Ok clses"
      by (auto simp: Let_def ensurer_Ok_iff bindr_Ok_iff)
    from json_type_object Suc.prems(2) c(1) obtain vals where v:
      "f = JFld fc ACTF_FLD_TYPE_STRUCT (J_vals vals)" "length ?ms = length clses"
      "mapr (\<lambda>((name, m_jobj), mfc). ensurer (name = m_name mfc) ACTF_INTERNAL (fld_from_json n J m_jobj (m_cls mfc)))
         (zip ?ms clses) = Ok vals"
      by (auto simp: Let_def ensurer_Ok_iff bindr_Ok_iff)
    have "mirrors J uitoa (snd (?ms ! i)) (vals ! i) \<and> jf_cls (vals ! i) = m_cls (clses ! i) \<and> m_name (clses ! i) = fst (?ms ! i)"
      if "i < length clses" for i
    proof -
      have "(?ms ! i, clses ! i) \<in> set (zip ?ms clses)" using v(2) that by (auto simp: set_zip)
      then have "m_name (clses ! i) = fst (?ms ! i)" "fld_cls_from_json n J (snd (?ms ! i)) = Ok (m_cls (clses ! i))"
        using members_of_object(2) [OF c(2), of "fst (?ms ! i)" "snd (?ms ! i)"] by simp_all
      moreover from this have "fld_from_json n J (snd (?ms ! i)) (m_cls (clses ! i)) = Ok (vals ! i)"
        using v(2,3) that by (auto simp: mapr_Ok list_all2_conv_all_nth ensurer_Ok_iff split_beta dest!: spec [of _ i])
      ultimately show ?thesis using Suc.IH by blast
    qed
    moreover have "length vals = length clses" using v(2,3) by (auto simp: mapr_Ok dest: list_all2_lengthD)
    ultimately show ?thesis using json_type_object c(1) v(1,2)
      by (auto intro!: mirrors_object nth_equalityI simp: struct_fld_member_cls.expand)
  next
    case json_type_array
    let ?es = "json_object_elems J j"
    from json_type_array Suc.prems(1) obtain clses where c: "fc = ACTF_FLD_CLS_STRUCT clses DEFAULT_ALIGNMENT 0"
      "mapr (\<lambda>(i, m_jobj). bindr (fld_cls_from_json n J m_jobj) (\<lambda>c. Ok (Member (uitoa i) c))) (enumerate 0 ?es) = Ok clses"
      by (auto simp: Let_def ensurer_Ok_iff bindr_Ok_iff)
    from json_type_array Suc.prems(2) c(1) obtain vals where v:
      "f = JFld fc ACTF_FLD_TYPE_STRUCT (J_vals vals)" "length ?es = length clses"
      "mapr (\<lambda>(m_jobj, mfc). fld_from_json n J m_jobj (m_cls mfc)) (zip ?es clses) = Ok vals"
      by (auto simp: Let_def ensurer_Ok_iff bindr_Ok_iff)
    have "mirrors J uitoa (?es ! i) (vals ! i) \<and> jf_cls (vals ! i) = m_cls (clses ! i) \<and> m_name (clses ! i) = uitoa i"
      if "i < length clses" for i
    proof -
      have "(?es ! i, clses ! i) \<in> set (zip ?es clses)" using v(2) that by (auto simp: set_zip)
      then have "fld_cls_from_json n J (?es ! i) = Ok (m_cls (clses ! i))" using members_of_array [OF c(2)] by blast
      moreover have "fld_from_json n J (?es ! i) (m_cls (clses ! i)) = Ok (vals ! i)" "m_name (clses ! i) = uitoa i"
        using c(2) v(2,3) that
        by (auto simp: mapr_Ok list_all2_conv_all_nth bindr_Ok_iff nth_enumerate_eq
          dest!: spec [of _ i] dest: arg_cong [of _ _ m_name])
      ultimately show ?thesis using Suc.IH by blast
    qed
    moreover have "length vals = length clses" using v(2,3) by (auto simp: mapr_Ok dest: list_all2_lengthD)
    ultimately show ?thesis using json_type_array c(1) v(1,2)
      by (auto intro!: mirrors_array nth_equalityI simp: struct_fld_member_cls.expand nth_enumerate_eq)
  qed (use Suc.prems in \<open>auto simp: Let_def ensurer_Ok_iff intro: mirrors.intros split: if_splits\<close>)
qed simp

lemma ctfjson_init_mirrors: "ctfjson_init n J j = Ok f \<Longrightarrow> mirrors J uitoa j f"
  by (auto simp: ctfjson_init_def ensurer_Ok_iff bindr_Ok_iff dest: mirrors_fld [of n J j])

end
