(* ===== verification/Fld_Cls_Parse.thy ===== *)
theory Fld_Cls_Parse
  imports Ctf_Json Metadata
begin

text \<open>
  The parser of field classes (fld_cls.c). Every parser of a class with nested classes takes the
  parser \<open>sub\<close> of these as an argument; \<open>actf_fld_cls_parse\<close> ties the knot, with fuel for the
  depth of the nesting. Attributes and extensions are converted, so that their errors are
  reported, and are not part of the model of a class.
\<close>

section \<open>Names\<close>

datatype actf_fld_cls_type =
    CLS_NIL | CLS_FXD_LEN_BIT_ARR | CLS_FXD_LEN_BIT_MAP | CLS_FXD_LEN_UINT | CLS_FXD_LEN_SINT
  | CLS_FXD_LEN_BOOL | CLS_FXD_LEN_FLOAT | CLS_VAR_LEN_UINT | CLS_VAR_LEN_SINT
  | CLS_NULL_TERM_STR | CLS_STATIC_LEN_STR | CLS_DYN_LEN_STR | CLS_STATIC_LEN_BLOB
  | CLS_DYN_LEN_BLOB | CLS_STRUCT | CLS_STATIC_LEN_ARR | CLS_DYN_LEN_ARR | CLS_OPTIONAL | CLS_VARIANT

fun actf_fld_cls_type_name :: "actf_fld_cls_type \<Rightarrow> string option" where
  "actf_fld_cls_type_name CLS_NIL = None"
| "actf_fld_cls_type_name CLS_FXD_LEN_BIT_ARR = Some ''fixed-length-bit-array''"
| "actf_fld_cls_type_name CLS_FXD_LEN_BIT_MAP = Some ''fixed-length-bit-map''"
| "actf_fld_cls_type_name CLS_FXD_LEN_UINT = Some ''fixed-length-unsigned-integer''"
| "actf_fld_cls_type_name CLS_FXD_LEN_SINT = Some ''fixed-length-signed-integer''"
| "actf_fld_cls_type_name CLS_FXD_LEN_BOOL = Some ''fixed-length-boolean''"
| "actf_fld_cls_type_name CLS_FXD_LEN_FLOAT = Some ''fixed-length-floating-point-number''"
| "actf_fld_cls_type_name CLS_VAR_LEN_UINT = Some ''variable-length-unsigned-integer''"
| "actf_fld_cls_type_name CLS_VAR_LEN_SINT = Some ''variable-length-signed-integer''"
| "actf_fld_cls_type_name CLS_NULL_TERM_STR = Some ''null-terminated-string''"
| "actf_fld_cls_type_name CLS_STATIC_LEN_STR = Some ''static-length-string''"
| "actf_fld_cls_type_name CLS_DYN_LEN_STR = Some ''dynamic-length-string''"
| "actf_fld_cls_type_name CLS_STATIC_LEN_BLOB = Some ''static-length-blob''"
| "actf_fld_cls_type_name CLS_DYN_LEN_BLOB = Some ''dynamic-length-blob''"
| "actf_fld_cls_type_name CLS_STRUCT = Some ''structure''"
| "actf_fld_cls_type_name CLS_STATIC_LEN_ARR = Some ''static-length-array''"
| "actf_fld_cls_type_name CLS_DYN_LEN_ARR = Some ''dynamic-length-array''"
| "actf_fld_cls_type_name CLS_OPTIONAL = Some ''optional''"
| "actf_fld_cls_type_name CLS_VARIANT = Some ''variant''"

definition fld_cls_types :: "actf_fld_cls_type list" where
  "fld_cls_types =
     [CLS_NIL, CLS_FXD_LEN_BIT_ARR, CLS_FXD_LEN_BIT_MAP, CLS_FXD_LEN_UINT, CLS_FXD_LEN_SINT,
      CLS_FXD_LEN_BOOL, CLS_FXD_LEN_FLOAT, CLS_VAR_LEN_UINT, CLS_VAR_LEN_SINT, CLS_NULL_TERM_STR,
      CLS_STATIC_LEN_STR, CLS_DYN_LEN_STR, CLS_STATIC_LEN_BLOB, CLS_DYN_LEN_BLOB, CLS_STRUCT,
      CLS_STATIC_LEN_ARR, CLS_DYN_LEN_ARR, CLS_OPTIONAL, CLS_VARIANT]"

definition actf_fld_cls_type_from_name :: "string \<Rightarrow> actf_fld_cls_type" where
  "actf_fld_cls_type_from_name name =
     (case find (\<lambda>ty. actf_fld_cls_type_name ty = Some name) fld_cls_types of
        Some ty \<Rightarrow> ty
      | None \<Rightarrow> CLS_NIL)"

fun actf_role_name :: "actf_role \<Rightarrow> string" where
  "actf_role_name ACTF_ROLE_DSTREAM_CLS_ID = ''data-stream-class-id''"
| "actf_role_name ACTF_ROLE_DSTREAM_ID = ''data-stream-id''"
| "actf_role_name ACTF_ROLE_PKT_MAGIC_NUM = ''packet-magic-number''"
| "actf_role_name ACTF_ROLE_METADATA_STREAM_UUID = ''metadata-stream-uuid''"
| "actf_role_name ACTF_ROLE_DEF_CLK_TSTAMP = ''default-clock-timestamp''"
| "actf_role_name ACTF_ROLE_DISC_EVENT_CNT_SNAPSHOT = ''discarded-event-record-counter-snapshot''"
| "actf_role_name ACTF_ROLE_PKT_CONTENT_LEN = ''packet-content-length''"
| "actf_role_name ACTF_ROLE_PKT_END_DEF_CLK_TSTAMP = ''packet-end-default-clock-timestamp''"
| "actf_role_name ACTF_ROLE_PKT_SEQ_NUM = ''packet-sequence-number''"
| "actf_role_name ACTF_ROLE_PKT_TOT_LEN = ''packet-total-length''"
| "actf_role_name ACTF_ROLE_EVENT_CLS_ID = ''event-record-class-id''"

definition all_roles :: "actf_role list" where
  "all_roles =
     [ACTF_ROLE_DSTREAM_CLS_ID, ACTF_ROLE_DSTREAM_ID, ACTF_ROLE_PKT_MAGIC_NUM,
      ACTF_ROLE_METADATA_STREAM_UUID, ACTF_ROLE_DEF_CLK_TSTAMP, ACTF_ROLE_DISC_EVENT_CNT_SNAPSHOT,
      ACTF_ROLE_PKT_CONTENT_LEN, ACTF_ROLE_PKT_END_DEF_CLK_TSTAMP, ACTF_ROLE_PKT_SEQ_NUM,
      ACTF_ROLE_PKT_TOT_LEN, ACTF_ROLE_EVENT_CLS_ID]"

text \<open>\<open>None\<close> is \<open>ACTF_ROLE_NIL\<close>.\<close>

definition actf_role_name_get_type :: "string \<Rightarrow> actf_role option" where
  "actf_role_name_get_type name = find (\<lambda>r. actf_role_name r = name) all_roles"

definition encodings :: "actf_encoding list" where
  "encodings =
     [ACTF_ENCODING_UTF8, ACTF_ENCODING_UTF16BE, ACTF_ENCODING_UTF16LE, ACTF_ENCODING_UTF32BE,
      ACTF_ENCODING_UTF32LE]"

definition actf_encoding_name_to_type :: "string \<Rightarrow> actf_encoding option" where
  "actf_encoding_name_to_type name = find (\<lambda>e. actf_encoding_to_name e = name) encodings"

section \<open>Fixed-length classes\<close>

definition int_fxd_len_bit_arr_fld_cls_parse :: "'j json_c \<Rightarrow> 'j \<Rightarrow> bit_arr_cls res" where
  "int_fxd_len_bit_arr_fld_cls_parse J fc_jobj =
     bindr (json_object_key_get_gtz_uint64 J fc_jobj ''length'') (\<lambda>len.
     ensurer (len \<le> 64) ACTF_UNSUPPORTED_LENGTH
    (bindr (json_object_key_get_bo J fc_jobj ''byte-order'') (\<lambda>bo.
     bindr (optional_key (if bo = ACTF_LIL_ENDIAN then ACTF_FIRST_TO_LAST else ACTF_LAST_TO_FIRST)
              (json_object_key_get_bito J fc_jobj ''bit-order'')) (\<lambda>bito.
     bindr (optional_key DEFAULT_ALIGNMENT (json_object_key_get_alignment J fc_jobj ''alignment'')) (\<lambda>align.
     Ok \<lparr>ba_len = len, ba_bo = bo, ba_bito = bito, ba_align = align\<rparr>)))))"

definition fxd_len_bit_arr_fld_cls_parse :: "'j json_c \<Rightarrow> 'j \<Rightarrow> actf_fld_cls res" where
  "fxd_len_bit_arr_fld_cls_parse J fc_jobj =
     bindr (int_fxd_len_bit_arr_fld_cls_parse J fc_jobj) (\<lambda>b. Ok (ACTF_FLD_CLS_FXD_LEN_BIT_ARR b))"

definition flags_of :: "'j json_c \<Rightarrow> mappings \<Rightarrow> actf_flags res" where
  "flags_of J maps =
     (case maps of
        UMAPS umaps \<Rightarrow>
          (case actf_flags_init (malloc_ok J (length umaps)) umaps of Some f \<Rightarrow> Ok f | None \<Rightarrow> Err ACTF_OOM)
      | SMAPS smaps \<Rightarrow> Undef)"

definition fxd_len_bit_map_fld_cls_parse :: "'j json_c \<Rightarrow> 'j \<Rightarrow> actf_fld_cls res" where
  "fxd_len_bit_map_fld_cls_parse J fc_jobj =
     bindr (int_fxd_len_bit_arr_fld_cls_parse J fc_jobj) (\<lambda>bit_arr.
     bindr (json_object_key_get_mappings J fc_jobj ''flags'' False) (\<lambda>maps.
     ensurer (mappings_len maps \<noteq> 0) ACTF_INVALID_FLAGS
    (bindr (flags_of J maps) (\<lambda>flags. Ok (ACTF_FLD_CLS_FXD_LEN_BIT_MAP bit_arr flags)))))"

definition json_object_get_roles :: "'j json_c \<Rightarrow> 'j \<Rightarrow> roles res" where
  "json_object_get_roles J jobj =
     (case json_object_object_get_ex J jobj ''roles'' of
        None \<Rightarrow> Ok {}
      | Some roles_jobj \<Rightarrow>
          ensurer (json_object_is_type J roles_jobj json_type_array) ACTF_INVALID_ROLE
            (bindr (mapr (\<lambda>role_jobj.
                 ensurer (json_object_is_type J role_jobj json_type_string) ACTF_INVALID_ROLE
                   (Ok (set_option (actf_role_name_get_type (json_object_get_string J role_jobj)))))
               (json_object_elems J roles_jobj)) (\<lambda>rs. Ok (\<Union> (set rs)))))"

definition json_object_key_get_base :: "'j json_c \<Rightarrow> 'j \<Rightarrow> string \<Rightarrow> actf_base res" where
  "json_object_key_get_base J jobj key =
     bindr (json_object_key_get_gtez_uint64 J jobj key) (\<lambda>ubase.
       if ubase = 2 then Ok ACTF_BASE_BINARY
       else if ubase = 8 then Ok ACTF_BASE_OCTAL
       else if ubase = 10 then Ok ACTF_BASE_DECIMAL
       else if ubase = 16 then Ok ACTF_BASE_HEXADECIMAL
       else Err ACTF_INVALID_BASE)"

text \<open>Without the key the mappings are zeroed: none, and signed.\<close>

definition int_fld_cls_parse :: "'j json_c \<Rightarrow> 'j \<Rightarrow> bool \<Rightarrow> int_fld_cls res" where
  "int_fld_cls_parse J fc_jobj is_signed =
     bindr (optional_key ACTF_BASE_DECIMAL (json_object_key_get_base J fc_jobj ''preferred-display-base'')) (\<lambda>base.
     bindr (optional_key (SMAPS []) (json_object_key_get_mappings J fc_jobj ''mappings'' is_signed)) (\<lambda>raw_maps.
     bindr (actf_mappings_init (malloc_ok J) raw_maps) (\<lambda>maps.
     Ok \<lparr>ic_pref_display_base = base, ic_maps = maps\<rparr>)))"

definition int_roles :: "'j json_c \<Rightarrow> 'j \<Rightarrow> bool \<Rightarrow> roles res" where
  "int_roles J fc_jobj is_signed = (if is_signed then Ok {} else json_object_get_roles J fc_jobj)"

definition int_fxd_len_int_fld_cls_parse :: "'j json_c \<Rightarrow> 'j \<Rightarrow> bool \<Rightarrow> (int_fld_cls \<times> bit_arr_cls \<times> roles) res" where
  "int_fxd_len_int_fld_cls_parse J fc_jobj is_signed =
     bindr (int_fld_cls_parse J fc_jobj is_signed) (\<lambda>base.
     bindr (int_fxd_len_bit_arr_fld_cls_parse J fc_jobj) (\<lambda>bit_arr.
     bindr (int_roles J fc_jobj is_signed) (\<lambda>roles. Ok (base, bit_arr, roles))))"

definition fxd_len_int_fld_cls_parse :: "'j json_c \<Rightarrow> 'j \<Rightarrow> bool \<Rightarrow> actf_fld_cls res" where
  "fxd_len_int_fld_cls_parse J fc_jobj is_signed =
     bindr (int_fxd_len_int_fld_cls_parse J fc_jobj is_signed) (\<lambda>(base, bit_arr, roles).
       Ok (if is_signed then ACTF_FLD_CLS_FXD_LEN_SINT base bit_arr roles
           else ACTF_FLD_CLS_FXD_LEN_UINT base bit_arr roles))"

definition fxd_len_bool_fld_cls_parse :: "'j json_c \<Rightarrow> 'j \<Rightarrow> actf_fld_cls res" where
  "fxd_len_bool_fld_cls_parse J fc_jobj =
     bindr (int_fxd_len_bit_arr_fld_cls_parse J fc_jobj) (\<lambda>b. Ok (ACTF_FLD_CLS_FXD_LEN_BOOL b))"

definition fxd_len_float_fld_cls_parse :: "'j json_c \<Rightarrow> 'j \<Rightarrow> actf_fld_cls res" where
  "fxd_len_float_fld_cls_parse J fc_jobj =
     bindr (int_fxd_len_bit_arr_fld_cls_parse J fc_jobj) (\<lambda>b.
     ensurer (ba_len b = 16 \<or> ba_len b = 32 \<or> ba_len b = 64) ACTF_UNSUPPORTED_LENGTH
       (Ok (ACTF_FLD_CLS_FXD_LEN_FLOAT b)))"

section \<open>Variable-length and string classes\<close>

definition int_var_len_int_fld_cls_parse :: "'j json_c \<Rightarrow> 'j \<Rightarrow> bool \<Rightarrow> (int_fld_cls \<times> roles) res" where
  "int_var_len_int_fld_cls_parse J fc_jobj is_signed =
     bindr (int_fld_cls_parse J fc_jobj is_signed) (\<lambda>base.
     bindr (int_roles J fc_jobj is_signed) (\<lambda>roles. Ok (base, roles)))"

definition var_len_int_fld_cls_parse :: "'j json_c \<Rightarrow> 'j \<Rightarrow> bool \<Rightarrow> actf_fld_cls res" where
  "var_len_int_fld_cls_parse J fc_jobj is_signed =
     bindr (int_var_len_int_fld_cls_parse J fc_jobj is_signed) (\<lambda>(base, roles).
       Ok (if is_signed then ACTF_FLD_CLS_VAR_LEN_SINT base roles else ACTF_FLD_CLS_VAR_LEN_UINT base roles))"

definition str_fld_cls_parse :: "'j json_c \<Rightarrow> 'j \<Rightarrow> actf_encoding res" where
  "str_fld_cls_parse J fc_jobj =
     (case json_object_key_get_string J fc_jobj ''encoding'' of
        Err e \<Rightarrow> if e = ACTF_NOT_FOUND then Ok ACTF_ENCODING_UTF8 else Err e
      | Ok encoding_name \<Rightarrow>
          (case actf_encoding_name_to_type encoding_name of
             Some enc \<Rightarrow> Ok enc
           | None \<Rightarrow> Err ACTF_INVALID_ENCODING)
      | Undef \<Rightarrow> Undef
      | Loop \<Rightarrow> Loop)"

definition null_term_str_fld_cls_parse :: "'j json_c \<Rightarrow> 'j \<Rightarrow> actf_fld_cls res" where
  "null_term_str_fld_cls_parse J fc_jobj =
     bindr (str_fld_cls_parse J fc_jobj) (\<lambda>enc. Ok (ACTF_FLD_CLS_NULL_TERM_STR enc))"

definition static_len_str_fld_cls_parse :: "'j json_c \<Rightarrow> 'j \<Rightarrow> actf_fld_cls res" where
  "static_len_str_fld_cls_parse J fc_jobj =
     bindr (str_fld_cls_parse J fc_jobj) (\<lambda>enc.
     bindr (required_key (json_object_key_get_gtez_uint64 J fc_jobj ''length'')) (\<lambda>len.
     Ok (ACTF_FLD_CLS_STATIC_LEN_STR enc len)))"

definition dyn_len_str_fld_cls_parse :: "'j json_c \<Rightarrow> 'j \<Rightarrow> actf_fld_cls res" where
  "dyn_len_str_fld_cls_parse J fc_jobj =
     bindr (str_fld_cls_parse J fc_jobj) (\<lambda>enc.
     bindr (required_key (json_object_key_get_fld_loc J fc_jobj ''length-field-location'')) (\<lambda>loc.
     Ok (ACTF_FLD_CLS_DYN_LEN_STR enc loc)))"

definition static_len_blob_fld_cls_parse :: "'j json_c \<Rightarrow> 'j \<Rightarrow> actf_fld_cls res" where
  "static_len_blob_fld_cls_parse J fc_jobj =
     bindr (required_key (json_object_key_get_gtez_uint64 J fc_jobj ''length'')) (\<lambda>len.
     bindr (optional_key DEFAULT_MEDIA_TYPE (json_object_key_get_string J fc_jobj ''media-type'')) (\<lambda>media_type.
     bindr (json_object_get_roles J fc_jobj) (\<lambda>roles.
     Ok (ACTF_FLD_CLS_STATIC_LEN_BLOB len media_type roles))))"

definition dyn_len_blob_fld_cls_parse :: "'j json_c \<Rightarrow> 'j \<Rightarrow> actf_fld_cls res" where
  "dyn_len_blob_fld_cls_parse J fc_jobj =
     bindr (optional_key DEFAULT_MEDIA_TYPE (json_object_key_get_string J fc_jobj ''media-type'')) (\<lambda>media_type.
     bindr (required_key (json_object_key_get_fld_loc J fc_jobj ''length-field-location'')) (\<lambda>loc.
     Ok (ACTF_FLD_CLS_DYN_LEN_BLOB loc media_type)))"

section \<open>Classes with nested classes\<close>

text \<open>The attributes and the extensions of an object.\<close>

definition check_user_data :: "nat \<Rightarrow> 'j json_c \<Rightarrow> 'j \<Rightarrow> unit res" where
  "check_user_data n J jobj =
     bindr (optional_key None (bindr (json_object_key_get_ctfjson n J jobj ''attributes'') (\<lambda>f. Ok (Some f)))) (\<lambda>attributes.
     bindr (optional_key None (bindr (json_object_key_get_ctfjson n J jobj ''extensions'') (\<lambda>f. Ok (Some f)))) (\<lambda>extensions.
     Ok ()))"

definition variant_fld_cls_opt_parse :: "nat \<Rightarrow> ('j \<Rightarrow> actf_fld_cls res) \<Rightarrow> 'j json_c \<Rightarrow> 'j \<Rightarrow> variant_fld_cls_opt res" where
  "variant_fld_cls_opt_parse n sub J opt_jobj =
     ensurer (json_object_is_type J opt_jobj json_type_object) ACTF_JSON_WRONG_TYPE
    (bindr (required_key (json_get J opt_jobj ''field-class'')) (\<lambda>fc_jobj.
     bindr (sub fc_jobj) (\<lambda>fc.
     bindr (required_key (json_object_key_get_rng_set J opt_jobj ''selector-field-ranges'')) (\<lambda>rs.
     bindr (optional_key None (bindr (json_object_key_get_string J opt_jobj ''name'') (\<lambda>s. Ok (Some s)))) (\<lambda>name.
     bindr (check_user_data n J opt_jobj) (\<lambda>_.
     Ok (Opt fc rs name)))))))"

definition struct_member_parse :: "nat \<Rightarrow> ('j \<Rightarrow> actf_fld_cls res) \<Rightarrow> 'j json_c \<Rightarrow> 'j \<Rightarrow> struct_fld_member_cls res" where
  "struct_member_parse n sub J member_cls_jobj =
     ensurer (json_object_is_type J member_cls_jobj json_type_object) ACTF_JSON_WRONG_TYPE
    (bindr (required_key (json_object_key_get_string J member_cls_jobj ''name'')) (\<lambda>name.
     bindr (required_key (json_get J member_cls_jobj ''field-class'')) (\<lambda>fc_jobj.
     bindr (sub fc_jobj) (\<lambda>fc.
     bindr (check_user_data n J member_cls_jobj) (\<lambda>_.
     Ok (Member name fc))))))"

definition struct_fld_cls_parse_member_clses :: "nat \<Rightarrow> ('j \<Rightarrow> actf_fld_cls res) \<Rightarrow> 'j json_c \<Rightarrow> 'j \<Rightarrow> struct_fld_member_cls list res" where
  "struct_fld_cls_parse_member_clses n sub J member_clses_jobj =
     ensurer (json_object_is_type J member_clses_jobj json_type_array) ACTF_JSON_WRONG_TYPE
       (let es = json_object_elems J member_clses_jobj in
        ensurer (malloc_ok J (length es)) ACTF_OOM (mapr (struct_member_parse n sub J) es))"

fun max_align_req :: "u64 \<Rightarrow> struct_fld_member_cls list \<Rightarrow> u64 res" where
  "max_align_req align [] = Ok align"
| "max_align_req align (Member name c # ms) =
     bindr (actf_fld_cls_get_align_req c) (\<lambda>member_align. max_align_req (max member_align align) ms)"

definition struct_fld_cls_parse :: "nat \<Rightarrow> ('j \<Rightarrow> actf_fld_cls res) \<Rightarrow> 'j json_c \<Rightarrow> 'j \<Rightarrow> actf_fld_cls res" where
  "struct_fld_cls_parse n sub J struct_fc_jobj =
     bindr (optional_key DEFAULT_ALIGNMENT (json_object_key_get_alignment J struct_fc_jobj ''minimum-alignment'')) (\<lambda>min_align.
     bindr (case json_object_object_get_ex J struct_fc_jobj ''member-classes'' of
              Some member_clses_jobj \<Rightarrow> struct_fld_cls_parse_member_clses n sub J member_clses_jobj
            | None \<Rightarrow> Ok []) (\<lambda>clses.
     bindr (max_align_req min_align clses) (\<lambda>align.
     Ok (ACTF_FLD_CLS_STRUCT clses min_align align))))"

text \<open>The allocation of the element class is not checked before it is written.\<close>

definition arr_fld_cls_parse :: "('j \<Rightarrow> actf_fld_cls res) \<Rightarrow> 'j json_c \<Rightarrow> 'j \<Rightarrow> (actf_fld_cls \<times> u64) res" where
  "arr_fld_cls_parse sub J fc_jobj =
     bindr (optional_key DEFAULT_ALIGNMENT (json_object_key_get_alignment J fc_jobj ''minimum-alignment'')) (\<lambda>min_align.
     bindr (required_key (json_get J fc_jobj ''element-field-class'')) (\<lambda>ele_fc_jobj.
     bindr (sub ele_fc_jobj) (\<lambda>ele_fc.
     if malloc_ok J 1 then Ok (ele_fc, min_align) else Undef)))"

definition static_len_arr_fld_cls_parse :: "('j \<Rightarrow> actf_fld_cls res) \<Rightarrow> 'j json_c \<Rightarrow> 'j \<Rightarrow> actf_fld_cls res" where
  "static_len_arr_fld_cls_parse sub J fc_jobj =
     bindr (arr_fld_cls_parse sub J fc_jobj) (\<lambda>(ele_fc, min_align).
     bindr (json_object_key_get_gtez_uint64 J fc_jobj ''length'') (\<lambda>len.
     Ok (ACTF_FLD_CLS_STATIC_LEN_ARR ele_fc min_align len)))"

definition dyn_len_arr_fld_cls_parse :: "('j \<Rightarrow> actf_fld_cls res) \<Rightarrow> 'j json_c \<Rightarrow> 'j \<Rightarrow> actf_fld_cls res" where
  "dyn_len_arr_fld_cls_parse sub J fc_jobj =
     bindr (arr_fld_cls_parse sub J fc_jobj) (\<lambda>(ele_fc, min_align).
     bindr (required_key (json_object_key_get_fld_loc J fc_jobj ''length-field-location'')) (\<lambda>loc.
     Ok (ACTF_FLD_CLS_DYN_LEN_ARR ele_fc min_align loc)))"

definition optional_fld_cls_parse :: "('j \<Rightarrow> actf_fld_cls res) \<Rightarrow> 'j json_c \<Rightarrow> 'j \<Rightarrow> actf_fld_cls res" where
  "optional_fld_cls_parse sub J fc_jobj =
     bindr (required_key (json_get J fc_jobj ''field-class'')) (\<lambda>opt_fc_jobj.
     bindr (sub opt_fc_jobj) (\<lambda>opt_fc.
     bindr (required_key (json_object_key_get_fld_loc J fc_jobj ''selector-field-location'')) (\<lambda>loc.
     bindr (optional_key (RNG_SINT []) (json_object_key_get_rng_set J fc_jobj ''selector-field-ranges'')) (\<lambda>rs.
     if malloc_ok J 1 then Ok (ACTF_FLD_CLS_OPTIONAL opt_fc loc rs) else Undef))))"

text \<open>Whether the ranges of an option intersect those of an option behind it.\<close>

fun opts_intersect :: "variant_fld_cls_opt list \<Rightarrow> bool" where
  "opts_intersect [] \<longleftrightarrow> False"
| "opts_intersect (a # opts) \<longleftrightarrow>
     list_ex (\<lambda>b. actf_rng_set_intersect_rng_set (o_rng_set a) (o_rng_set b)) opts \<or> opts_intersect opts"

definition variant_fld_cls_parse :: "nat \<Rightarrow> ('j \<Rightarrow> actf_fld_cls res) \<Rightarrow> 'j json_c \<Rightarrow> 'j \<Rightarrow> actf_fld_cls res" where
  "variant_fld_cls_parse n sub J fc_jobj =
     bindr (required_key (json_get J fc_jobj ''options'')) (\<lambda>opts_jobj.
     ensurer (json_object_is_type J opts_jobj json_type_array) ACTF_JSON_WRONG_TYPE
       (let es = json_object_elems J opts_jobj in
        ensurer (es \<noteq> []) ACTF_INVALID_VARIANT
       (ensurer (malloc_ok J (length es)) ACTF_OOM
       (bindr (mapr (variant_fld_cls_opt_parse n sub J) es) (\<lambda>opts.
        ensurer (\<not> opts_intersect opts) ACTF_INVALID_VARIANT
       (bindr (required_key (json_object_key_get_fld_loc J fc_jobj ''selector-field-location'')) (\<lambda>loc.
        Ok (ACTF_FLD_CLS_VARIANT opts loc))))))))"

section \<open>Field classes\<close>

definition actf_fld_cls_resolve_alias :: "'j json_c \<Rightarrow> actf_metadata \<Rightarrow> 'j \<Rightarrow> actf_fld_cls res" where
  "actf_fld_cls_resolve_alias J md fc_jobj =
     (case actf_metadata_find_fld_cls_alias md (json_object_get_string J fc_jobj) of
        Some fc \<Rightarrow> Ok fc
      | None \<Rightarrow> Err ACTF_NO_SUCH_ALIAS)"

definition typed_fld_cls_parse :: "nat \<Rightarrow> ('j \<Rightarrow> actf_fld_cls res) \<Rightarrow> 'j json_c \<Rightarrow> 'j \<Rightarrow> actf_fld_cls_type \<Rightarrow> actf_fld_cls res" where
  "typed_fld_cls_parse n sub J fc_jobj ty =
     (case ty of
        CLS_NIL \<Rightarrow> Err ACTF_INTERNAL
      | CLS_FXD_LEN_BIT_ARR \<Rightarrow> fxd_len_bit_arr_fld_cls_parse J fc_jobj
      | CLS_FXD_LEN_BIT_MAP \<Rightarrow> fxd_len_bit_map_fld_cls_parse J fc_jobj
      | CLS_FXD_LEN_UINT \<Rightarrow> fxd_len_int_fld_cls_parse J fc_jobj False
      | CLS_FXD_LEN_SINT \<Rightarrow> fxd_len_int_fld_cls_parse J fc_jobj True
      | CLS_FXD_LEN_BOOL \<Rightarrow> fxd_len_bool_fld_cls_parse J fc_jobj
      | CLS_FXD_LEN_FLOAT \<Rightarrow> fxd_len_float_fld_cls_parse J fc_jobj
      | CLS_VAR_LEN_UINT \<Rightarrow> var_len_int_fld_cls_parse J fc_jobj False
      | CLS_VAR_LEN_SINT \<Rightarrow> var_len_int_fld_cls_parse J fc_jobj True
      | CLS_NULL_TERM_STR \<Rightarrow> null_term_str_fld_cls_parse J fc_jobj
      | CLS_STATIC_LEN_STR \<Rightarrow> static_len_str_fld_cls_parse J fc_jobj
      | CLS_DYN_LEN_STR \<Rightarrow> dyn_len_str_fld_cls_parse J fc_jobj
      | CLS_STATIC_LEN_BLOB \<Rightarrow> static_len_blob_fld_cls_parse J fc_jobj
      | CLS_DYN_LEN_BLOB \<Rightarrow> dyn_len_blob_fld_cls_parse J fc_jobj
      | CLS_STRUCT \<Rightarrow> struct_fld_cls_parse n sub J fc_jobj
      | CLS_STATIC_LEN_ARR \<Rightarrow> static_len_arr_fld_cls_parse sub J fc_jobj
      | CLS_DYN_LEN_ARR \<Rightarrow> dyn_len_arr_fld_cls_parse sub J fc_jobj
      | CLS_OPTIONAL \<Rightarrow> optional_fld_cls_parse sub J fc_jobj
      | CLS_VARIANT \<Rightarrow> variant_fld_cls_parse n sub J fc_jobj)"

fun actf_fld_cls_parse :: "nat \<Rightarrow> 'j json_c \<Rightarrow> actf_metadata \<Rightarrow> 'j \<Rightarrow> actf_fld_cls res" where
  "actf_fld_cls_parse 0 J md fc_jobj = Loop"
| "actf_fld_cls_parse (Suc n) J md fc_jobj =
     (if json_object_is_type J fc_jobj json_type_object then
        case json_object_key_get_string J fc_jobj ''type'' of
          Ok type_name \<Rightarrow>
            bindr (check_user_data (Suc n) J fc_jobj) (\<lambda>_.
            typed_fld_cls_parse (Suc n) (actf_fld_cls_parse n J md) J fc_jobj (actf_fld_cls_type_from_name type_name))
        | Err e \<Rightarrow> Err ACTF_INVALID_FLD_CLS
        | Undef \<Rightarrow> Undef
        | Loop \<Rightarrow> Loop
      else if json_object_is_type J fc_jobj json_type_string then actf_fld_cls_resolve_alias J md fc_jobj
      else Err ACTF_INVALID_FLD_CLS)"

end
