(* ===== verification/Metadata_Parse.thy ===== *)
theory Metadata_Parse
  imports Fld_Cls_Parse
begin

text \<open>
  The parser of metadata fragments (metadata.c): preambles, aliases, trace, clock, data stream
  and event record classes, and the dispatch that checks and stores them. The metadata is passed
  as a state. Data stream classes are the cells of the list \<open>md_dscs\<close>; a pointer to one is its
  index. \<open>n\<close> is the fuel for nested JSON values.
\<close>

section \<open>Initialisation\<close>

definition zero_preamble :: actf_preamble where
  "zero_preamble = \<lparr>pa_version = 0, pa_uuid = replicate ACTF_UUID_N_BYTES 0, pa_has_uuid = False\<rparr>"

definition zero_trace_cls :: actf_trace_cls where
  "zero_trace_cls = \<lparr>tc_namespace = None, tc_name = None, tc_uid = None, tc_pkt_hdr = ACTF_FLD_CLS_NIL\<rparr>"

definition actf_metadata_init :: "'j json_c \<Rightarrow> actf_metadata option" where
  "actf_metadata_init J =
     (if \<not> malloc_ok J 1 then None
      else case hm_init_cap (malloc_ok J) 4 of
          None \<Rightarrow> None
        | Some m \<Rightarrow> Some \<lparr>md_preamble = zero_preamble, md_preamble_is_set = False, md_fld_cls_aliases = [],
            md_trace_cls = zero_trace_cls, md_trace_cls_is_set = False, md_clk_clses = [],
            md_dscs = [], md_idtodsc = m\<rparr>)"

text \<open>
  The push of crust/vec.h: the capacity is 4, 8, 16 and so on; an element that would need a
  failed reallocation is dropped, and the callers ignore the return code.
\<close>

definition vec_push :: "'j json_c \<Rightarrow> 'a list \<Rightarrow> 'a \<Rightarrow> 'a list" where
  "vec_push J v x =
     (let full = (length v = 0 \<or> 4 \<le> length v \<and> map_is_pow2 (length v));
          new_cap = (if length v = 0 then 4 else 2 * length v)
      in if full \<and> \<not> malloc_ok J new_cap then v else v @ [x])"

section \<open>Parts of a fragment\<close>

definition opt_string :: "'j json_c \<Rightarrow> 'j \<Rightarrow> string \<Rightarrow> string option res" where
  "opt_string J jobj key = optional_key None (bindr (json_object_key_get_string J jobj key) (\<lambda>s. Ok (Some s)))"

definition opt_gtez :: "'j json_c \<Rightarrow> 'j \<Rightarrow> string \<Rightarrow> u64 option res" where
  "opt_gtez J jobj key = optional_key None (bindr (json_object_key_get_gtez_uint64 J jobj key) (\<lambda>v. Ok (Some v)))"

definition opt_ctfjson :: "nat \<Rightarrow> 'j json_c \<Rightarrow> 'j \<Rightarrow> string \<Rightarrow> jfld option res" where
  "opt_ctfjson n J jobj key = optional_key None (bindr (json_object_key_get_ctfjson n J jobj key) (\<lambda>f. Ok (Some f)))"

text \<open>The class that an optional key describes; without the key it is the zeroed class.\<close>

definition opt_fld_cls :: "nat \<Rightarrow> 'j json_c \<Rightarrow> actf_metadata \<Rightarrow> 'j \<Rightarrow> string \<Rightarrow> actf_fld_cls res" where
  "opt_fld_cls n J md jobj key =
     (case json_object_object_get_ex J jobj key of
        Some fc_jobj \<Rightarrow> actf_fld_cls_parse n J md fc_jobj
      | None \<Rightarrow> Ok ACTF_FLD_CLS_NIL)"

definition first_extension_enabled :: "jfld \<Rightarrow> string option" where
  "first_extension_enabled extensions =
     map_option (\<lambda>extension. m_name (cls_members (jf_cls extension) ! 0))
       (find (\<lambda>extension. jf_type extension = ACTF_FLD_TYPE_STRUCT \<and> 0 < jfld_struct_len extension)
         (take (jfld_struct_len extensions) (jfld_vals extensions)))"

definition actf_preamble_parse :: "nat \<Rightarrow> 'j json_c \<Rightarrow> 'j \<Rightarrow> actf_preamble res" where
  "actf_preamble_parse n J preamble_jobj =
     bindr (required_key (json_get_typed J preamble_jobj ''version'' json_type_int)) (\<lambda>version_jobj.
     bindr (optional_key None (bindr (json_object_key_get_uuid J preamble_jobj ''uuid'') (\<lambda>u. Ok (Some u)))) (\<lambda>uuid.
     bindr (opt_ctfjson n J preamble_jobj ''attributes'') (\<lambda>attributes.
     bindr (opt_ctfjson n J preamble_jobj ''extensions'') (\<lambda>extensions.
     ensurer (case extensions of None \<Rightarrow> True | Some e \<Rightarrow> first_extension_enabled e = None) ACTF_UNSUPPORTED_EXTENSION
       (Ok \<lparr>pa_version = json_object_get_int J version_jobj,
            pa_uuid = (case uuid of Some u \<Rightarrow> u | None \<Rightarrow> replicate ACTF_UUID_N_BYTES 0),
            pa_has_uuid = (uuid \<noteq> None)\<rparr>)))))"

definition actf_fld_cls_alias_parse :: "nat \<Rightarrow> 'j json_c \<Rightarrow> actf_metadata \<Rightarrow> 'j \<Rightarrow> (string \<times> actf_fld_cls) res" where
  "actf_fld_cls_alias_parse n J md fc_alias_jobj =
     bindr (required_key (json_object_key_get_string J fc_alias_jobj ''name'')) (\<lambda>name.
     bindr (required_key (json_get J fc_alias_jobj ''field-class'')) (\<lambda>fc_jobj.
     bindr (actf_fld_cls_parse n J md fc_jobj) (\<lambda>fc.
     bindr (check_user_data n J fc_alias_jobj) (\<lambda>_. Ok (name, fc)))))"

definition environment_valid :: "jfld \<Rightarrow> bool" where
  "environment_valid environment \<longleftrightarrow>
     list_all (\<lambda>val. jf_type val \<in> {ACTF_FLD_TYPE_SINT, ACTF_FLD_TYPE_UINT, ACTF_FLD_TYPE_STR})
       (take (jfld_struct_len environment) (jfld_vals environment))"

definition actf_trace_cls_parse :: "nat \<Rightarrow> 'j json_c \<Rightarrow> actf_metadata \<Rightarrow> 'j \<Rightarrow> actf_trace_cls res" where
  "actf_trace_cls_parse n J md tc_jobj =
     bindr (opt_string J tc_jobj ''namespace'') (\<lambda>ns.
     bindr (opt_string J tc_jobj ''name'') (\<lambda>name.
     bindr (opt_string J tc_jobj ''uid'') (\<lambda>uid.
     bindr (opt_fld_cls n J md tc_jobj ''packet-header-field-class'') (\<lambda>pkt_hdr.
     bindr (opt_ctfjson n J tc_jobj ''environment'') (\<lambda>environment.
     ensurer (case environment of None \<Rightarrow> True | Some e \<Rightarrow> environment_valid e) ACTF_INVALID_ENVIRONMENT
    (bindr (check_user_data n J tc_jobj) (\<lambda>_.
     Ok \<lparr>tc_namespace = ns, tc_name = name, tc_uid = uid, tc_pkt_hdr = pkt_hdr\<rparr>)))))))"

definition actf_clk_origin_parse :: "'j json_c \<Rightarrow> 'j \<Rightarrow> actf_clk_origin res" where
  "actf_clk_origin_parse J clk_origin_jobj =
     (case json_object_get_type J clk_origin_jobj of
        json_type_string \<Rightarrow>
          (let ty = actf_clk_origin_name_to_type (json_object_get_string J clk_origin_jobj) in
           ensurer (ty \<noteq> ACTF_CLK_ORIGIN_TYPE_NONE) ACTF_NO_SUCH_ORIGIN (Ok ty))
      | json_type_object \<Rightarrow>
          bindr (opt_string J clk_origin_jobj ''namespace'') (\<lambda>ns.
          bindr (required_key (json_object_key_get_string J clk_origin_jobj ''name'')) (\<lambda>name.
          bindr (required_key (json_object_key_get_string J clk_origin_jobj ''uid'')) (\<lambda>uid.
          Ok (ACTF_CLK_ORIGIN_TYPE_CUSTOM ns name uid))))
      | _ \<Rightarrow> Err ACTF_JSON_WRONG_TYPE)"

definition actf_clk_offset_parse :: "'j json_c \<Rightarrow> 'j \<Rightarrow> (i64 \<times> u64) res" where
  "actf_clk_offset_parse J clk_off_jobj =
     ensurer (json_object_is_type J clk_off_jobj json_type_object) ACTF_JSON_WRONG_TYPE
    (bindr (optional_key 0 (json_object_key_get_int64 J clk_off_jobj ''seconds'')) (\<lambda>seconds.
     bindr (optional_key 0 (json_object_key_get_gtez_uint64 J clk_off_jobj ''cycles'')) (\<lambda>cycles.
     Ok (seconds, cycles))))"

definition actf_clk_cls_parse :: "nat \<Rightarrow> 'j json_c \<Rightarrow> 'j \<Rightarrow> actf_clk_cls res" where
  "actf_clk_cls_parse n J clk_cls_jobj =
     ensurer (malloc_ok J 1) ACTF_OOM
    (bindr (required_key (json_object_key_get_string J clk_cls_jobj ''id'')) (\<lambda>id.
     bindr (opt_string J clk_cls_jobj ''namespace'') (\<lambda>ns.
     bindr (opt_string J clk_cls_jobj ''name'') (\<lambda>name.
     bindr (opt_string J clk_cls_jobj ''uid'') (\<lambda>uid.
     bindr (required_key (json_object_key_get_gtz_uint64 J clk_cls_jobj ''frequency'')) (\<lambda>freq.
     bindr (opt_gtez J clk_cls_jobj ''precision'') (\<lambda>precision.
     bindr (opt_gtez J clk_cls_jobj ''accuracy'') (\<lambda>accuracy.
     bindr (opt_string J clk_cls_jobj ''description'') (\<lambda>desc.
     bindr (case json_object_object_get_ex J clk_cls_jobj ''origin'' of
              Some origin_jobj \<Rightarrow> actf_clk_origin_parse J origin_jobj
            | None \<Rightarrow> Ok ACTF_CLK_ORIGIN_TYPE_NONE) (\<lambda>origin.
     bindr (case json_object_object_get_ex J clk_cls_jobj ''offset-from-origin'' of
              Some off_jobj \<Rightarrow> actf_clk_offset_parse J off_jobj
            | None \<Rightarrow> Ok (0, 0)) (\<lambda>(seconds, cycles).
     bindr (check_user_data n J clk_cls_jobj) (\<lambda>_.
     Ok \<lparr>ck_id = id, ck_namespace = ns, ck_name = name, ck_uid = uid, ck_freq = freq, ck_origin = origin,
          ck_off_seconds = seconds, ck_off_cycles = cycles, ck_precision = precision,
          ck_accuracy = accuracy, ck_desc = desc\<rparr>))))))))))))"

text \<open>The data stream class of an event record class is set when the fragment is stored.\<close>

definition actf_event_cls_parse :: "nat \<Rightarrow> 'j json_c \<Rightarrow> actf_metadata \<Rightarrow> 'j \<Rightarrow> actf_event_cls res" where
  "actf_event_cls_parse n J md evc_jobj =
     ensurer (malloc_ok J 1) ACTF_OOM
    (bindr (optional_key 0 (json_object_key_get_gtez_uint64 J evc_jobj ''id'')) (\<lambda>id.
     bindr (optional_key 0 (json_object_key_get_gtez_uint64 J evc_jobj ''data-stream-class-id'')) (\<lambda>dsc_id.
     bindr (opt_string J evc_jobj ''namespace'') (\<lambda>ns.
     bindr (opt_string J evc_jobj ''name'') (\<lambda>name.
     bindr (opt_string J evc_jobj ''uid'') (\<lambda>uid.
     bindr (opt_fld_cls n J md evc_jobj ''payload-field-class'') (\<lambda>payload.
     bindr (opt_fld_cls n J md evc_jobj ''specific-context-field-class'') (\<lambda>spec_ctx.
     bindr (check_user_data n J evc_jobj) (\<lambda>_.
     Ok \<lparr>ec_id = id, ec_dsc_id = dsc_id, ec_dsc = 0, ec_namespace = ns, ec_name = name, ec_uid = uid,
          ec_spec_ctx = spec_ctx, ec_payload = payload\<rparr>)))))))))"

definition actf_dstream_cls_parse :: "nat \<Rightarrow> 'j json_c \<Rightarrow> actf_metadata \<Rightarrow> 'j \<Rightarrow> actf_dstream_cls res" where
  "actf_dstream_cls_parse n J md ds_cls_jobj =
     ensurer (malloc_ok J 1) ACTF_OOM
    (bindr (optional_key 0 (json_object_key_get_gtez_uint64 J ds_cls_jobj ''id'')) (\<lambda>id.
     bindr (opt_string J ds_cls_jobj ''namespace'') (\<lambda>ns.
     bindr (opt_string J ds_cls_jobj ''name'') (\<lambda>name.
     bindr (opt_string J ds_cls_jobj ''uid'') (\<lambda>uid.
     bindr (opt_string J ds_cls_jobj ''default-clock-class-id'') (\<lambda>def_clkc_id.
     bindr (opt_fld_cls n J md ds_cls_jobj ''packet-context-field-class'') (\<lambda>pkt_ctx.
     bindr (opt_fld_cls n J md ds_cls_jobj ''event-record-header-field-class'') (\<lambda>event_hdr.
     bindr (opt_fld_cls n J md ds_cls_jobj ''event-record-common-context-field-class'') (\<lambda>event_common_ctx.
     bindr (check_user_data n J ds_cls_jobj) (\<lambda>_.
     case hm_init (malloc_ok J) of
       None \<Rightarrow> Err ACTF_ERROR
     | Some idtoevc \<Rightarrow>
         Ok \<lparr>dc_id = id, dc_name = name, dc_namespace = ns, dc_uid = uid, dc_def_clkc_id = def_clkc_id,
              dc_def_clkc = None, dc_pkt_ctx = pkt_ctx, dc_event_hdr = event_hdr,
              dc_event_common_ctx = event_common_ctx, dc_idtoevc = idtoevc\<rparr>))))))))))"

section \<open>Fragments\<close>

definition ACTF_MAJOR_VERSION :: u32 where
  "ACTF_MAJOR_VERSION = 2"

definition nil_or_struct :: "actf_fld_cls \<Rightarrow> bool" where
  "nil_or_struct fc \<longleftrightarrow> fc = ACTF_FLD_CLS_NIL \<or> is_struct fc"

definition preamble_frag :: "nat \<Rightarrow> 'j json_c \<Rightarrow> actf_metadata \<Rightarrow> 'j \<Rightarrow> actf_metadata res" where
  "preamble_frag n J md frag_jobj =
     ensurer (\<not> md_preamble_is_set md) ACTF_DUPLICATE_ERROR
    (bindr (actf_preamble_parse n J frag_jobj) (\<lambda>preamble.
     ensurer (pa_version preamble = ACTF_MAJOR_VERSION) ACTF_UNSUPPORTED_VERSION
       (Ok (md\<lparr>md_preamble := preamble, md_preamble_is_set := True\<rparr>))))"

definition alias_frag :: "nat \<Rightarrow> 'j json_c \<Rightarrow> actf_metadata \<Rightarrow> 'j \<Rightarrow> actf_metadata res" where
  "alias_frag n J md frag_jobj =
     bindr (actf_fld_cls_alias_parse n J md frag_jobj) (\<lambda>alias.
     ensurer (\<not> list_ex (\<lambda>(name, fc). name = fst alias) (md_fld_cls_aliases md)) ACTF_DUPLICATE_ERROR
       (Ok (md\<lparr>md_fld_cls_aliases := vec_push J (md_fld_cls_aliases md) alias\<rparr>)))"

definition trace_frag :: "nat \<Rightarrow> 'j json_c \<Rightarrow> actf_metadata \<Rightarrow> 'j \<Rightarrow> actf_metadata res" where
  "trace_frag n J md frag_jobj =
     ensurer (\<not> md_trace_cls_is_set md) ACTF_DUPLICATE_ERROR
    (bindr (actf_trace_cls_parse n J md frag_jobj) (\<lambda>tc.
     ensurer (nil_or_struct (tc_pkt_hdr tc)) ACTF_NOT_A_STRUCT
    (bindr (verify_pkt_magic_num_role (tc_pkt_hdr tc)) (\<lambda>_.
     bindr (verify_metadata_stream_uuid_role (md_preamble md) (tc_pkt_hdr tc)) (\<lambda>_.
     Ok (md\<lparr>md_trace_cls := tc, md_trace_cls_is_set := True\<rparr>))))))"

definition clock_frag :: "nat \<Rightarrow> 'j json_c \<Rightarrow> actf_metadata \<Rightarrow> 'j \<Rightarrow> actf_metadata res" where
  "clock_frag n J md frag_jobj =
     bindr (actf_clk_cls_parse n J frag_jobj) (\<lambda>clkc.
     ensurer (ck_off_cycles clkc < ck_freq clkc) ACTF_CC_GTE_FREQ_ERROR
    (ensurer (\<not> list_ex (\<lambda>c. ck_id c = ck_id clkc) (md_clk_clses md)) ACTF_DUPLICATE_ERROR
       (Ok (md\<lparr>md_clk_clses := vec_push J (md_clk_clses md) clkc\<rparr>))))"

text \<open>The index of the first clock class with an identifier.\<close>

fun find_clk :: "string \<Rightarrow> actf_clk_cls list \<Rightarrow> nat option" where
  "find_clk cid [] = None"
| "find_clk cid (c # cs) = (if ck_id c = cid then Some 0 else map_option Suc (find_clk cid cs))"

definition resolve_clk :: "actf_metadata \<Rightarrow> actf_dstream_cls \<Rightarrow> actf_dstream_cls res" where
  "resolve_clk md dsc =
     (case dc_def_clkc_id dsc of
        None \<Rightarrow> Ok dsc
      | Some cid \<Rightarrow>
          (case find_clk cid (md_clk_clses md) of
             Some i \<Rightarrow> Ok (dsc\<lparr>dc_def_clkc := Some i\<rparr>)
           | None \<Rightarrow> Err ACTF_NO_SUCH_ID))"

text \<open>An insertion reports a full map as \<open>ACTF_ERROR\<close>.\<close>

definition map_insert :: "'j json_c \<Rightarrow> (u64, 'v) hmap \<Rightarrow> u64 \<Rightarrow> 'v \<Rightarrow> (u64, 'v) hmap res" where
  "map_insert J m key v =
     (case hm_insert 3 (malloc_ok J) hash_uint64 m key v of Err e \<Rightarrow> Err ACTF_ERROR | r \<Rightarrow> r)"

definition dstream_frag :: "nat \<Rightarrow> 'j json_c \<Rightarrow> actf_metadata \<Rightarrow> 'j \<Rightarrow> actf_metadata res" where
  "dstream_frag n J md frag_jobj =
     bindr (actf_dstream_cls_parse n J md frag_jobj) (\<lambda>dsc.
     ensurer (nil_or_struct (dc_pkt_ctx dsc)) ACTF_NOT_A_STRUCT
    (bindr (verify_clk_roles dsc (dc_pkt_ctx dsc)) (\<lambda>_.
     ensurer (nil_or_struct (dc_event_hdr dsc)) ACTF_NOT_A_STRUCT
    (bindr (verify_clk_roles dsc (dc_event_hdr dsc)) (\<lambda>_.
     ensurer (nil_or_struct (dc_event_common_ctx dsc)) ACTF_NOT_A_STRUCT
    (ensurer (\<not> hm_contains hash_uint64 uint64cmp (md_idtodsc md) (dc_id dsc)) ACTF_DUPLICATE_ERROR
    (bindr (resolve_clk md dsc) (\<lambda>dsc.
     bindr (map_insert J (md_idtodsc md) (dc_id dsc) (length (md_dscs md))) (\<lambda>idtodsc.
     Ok (md\<lparr>md_dscs := md_dscs md @ [dsc], md_idtodsc := idtodsc\<rparr>))))))))))"

definition event_frag :: "nat \<Rightarrow> 'j json_c \<Rightarrow> actf_metadata \<Rightarrow> 'j \<Rightarrow> actf_metadata res" where
  "event_frag n J md frag_jobj =
     bindr (actf_event_cls_parse n J md frag_jobj) (\<lambda>evc.
     ensurer (nil_or_struct (ec_payload evc)) ACTF_NOT_A_STRUCT
    (ensurer (nil_or_struct (ec_spec_ctx evc)) ACTF_NOT_A_STRUCT
       (case u64todsc_find (md_idtodsc md) (ec_dsc_id evc) of
          None \<Rightarrow> Err ACTF_NO_SUCH_ID
        | Some i \<Rightarrow>
            if length (md_dscs md) \<le> i then Undef
            else
              let dsc = md_dscs md ! i in
              ensurer (\<not> hm_contains hash_uint64 uint64cmp (dc_idtoevc dsc) (ec_id evc)) ACTF_DUPLICATE_ERROR
             (bindr (map_insert J (dc_idtoevc dsc) (ec_id evc) (evc\<lparr>ec_dsc := i\<rparr>)) (\<lambda>idtoevc.
              Ok (md\<lparr>md_dscs := (md_dscs md)[i := dsc\<lparr>dc_idtoevc := idtoevc\<rparr>]\<rparr>))))))"

definition typed_frag_parse :: "nat \<Rightarrow> 'j json_c \<Rightarrow> actf_metadata \<Rightarrow> 'j \<Rightarrow> string \<Rightarrow> actf_metadata res" where
  "typed_frag_parse n J md frag_jobj ty =
     (if ty = ''preamble'' then preamble_frag n J md frag_jobj
      else if \<not> md_preamble_is_set md then Err ACTF_NO_PREAMBLE
      else if ty = ''field-class-alias'' then alias_frag n J md frag_jobj
      else if ty = ''trace-class'' then trace_frag n J md frag_jobj
      else if ty = ''clock-class'' then clock_frag n J md frag_jobj
      else if ty = ''data-stream-class'' then dstream_frag n J md frag_jobj
      else if ty = ''event-record-class'' then event_frag n J md frag_jobj
      else Err ACTF_JSON_ERROR)"

text \<open>A fragment that is rejected leaves the metadata as it was.\<close>

definition frag_parse :: "nat \<Rightarrow> 'j json_c \<Rightarrow> 'j \<Rightarrow> actf_metadata \<Rightarrow> unit res \<times> actf_metadata" where
  "frag_parse n J frag_jobj md =
     (if \<not> json_object_is_type J frag_jobj json_type_object then (Err ACTF_JSON_WRONG_TYPE, md)
      else case json_object_key_get_string J frag_jobj ''type'' of
          Ok ty \<Rightarrow>
            (case typed_frag_parse n J md frag_jobj ty of
               Ok md' \<Rightarrow> (Ok (), md')
             | Err e \<Rightarrow> (Err e, md)
             | Undef \<Rightarrow> (Undef, md)
             | Loop \<Rightarrow> (Loop, md))
        | Err e \<Rightarrow> (Err ACTF_MISSING_PROPERTY, md)
        | Undef \<Rightarrow> (Undef, md)
        | Loop \<Rightarrow> (Loop, md))"

section \<open>Metadata streams\<close>

text \<open>
  The tokener of json-c is a parameter: \<open>tok_parse\<close> stands for \<open>json_tokener_parse_ex\<close> on the
  state of the tokener, and \<open>tok_continue\<close> tells whether \<open>json_tokener_get_error\<close> is
  \<open>json_tokener_continue\<close>.
\<close>

definition json_frag ::
  "nat \<Rightarrow> 'j json_c \<Rightarrow> ('k \<Rightarrow> u8 list \<Rightarrow> 'j option \<times> 'k) \<Rightarrow> 'k \<times> actf_metadata \<Rightarrow> u8 list \<Rightarrow> unit res \<times> 'k \<times> actf_metadata" where
  "json_frag n J tok_parse st b =
     (case tok_parse (fst st) b of
        (None, k) \<Rightarrow> (Err ACTF_JSON_PARSE_ERROR, k, snd st)
      | (Some jobj, k) \<Rightarrow> (case frag_parse n J jobj (snd st) of (r, md) \<Rightarrow> (r, k, md)))"

definition actf_metadata_nparse ::
  "nat \<Rightarrow> 'j json_c \<Rightarrow> ('k \<Rightarrow> u8 list \<Rightarrow> 'j option \<times> 'k) \<Rightarrow> ('k \<Rightarrow> bool) \<Rightarrow> 'k \<Rightarrow> u8 list \<Rightarrow> actf_metadata \<Rightarrow>
   unit res \<times> actf_metadata" where
  "actf_metadata_nparse n J tok_parse tok_continue tok str md =
     (case if is_metadata_stream_packetized str
           then unpack_packetized_metadata_stream (json_frag n J tok_parse) (\<lambda>(k, md). tok_continue k) (tok, md) (Ok ()) str 0
           else parse_json_frags (json_frag n J tok_parse) (tok, md) (split_frags str)
      of (r, k, md') \<Rightarrow> (r, md'))"

end
