(* ===== verification/Fld_Cls_Wf.thy ===== *)
theory Fld_Cls_Wf
  imports Fld_Cls_Parse
begin

unbundle bit_operations_syntax

text \<open>
  What a parsed field class satisfies. \<open>cls_wf\<close> collects the constraints of the CTF 2
  specification that the decoder relies on: lengths of bit arrays and floating point numbers,
  alignments, proper ranges, non-empty locations, disjoint options of a variant and the
  precomputed alignment of a structure.
\<close>

section \<open>Well-formed classes\<close>

definition align_wf :: "u64 \<Rightarrow> bool" where
  "align_wf a \<longleftrightarrow> a = 0 \<or> pow2 a"

definition bit_arr_wf :: "bit_arr_cls \<Rightarrow> bool" where
  "bit_arr_wf b \<longleftrightarrow> 0 < ba_len b \<and> ba_len b \<le> 64 \<and> align_wf (ba_align b)"

definition loc_wf :: "actf_fld_loc \<Rightarrow> bool" where
  "loc_wf l \<longleftrightarrow> fl_path l \<noteq> [] \<and> last (fl_path l) \<noteq> None"

definition flags_wf :: "actf_flags \<Rightarrow> bool" where
  "flags_wf f \<longleftrightarrow> flags_maps f \<noteq> [] \<and> flags_masks f = map (\<lambda>m. make_bit_mask (fst m)) (flags_maps f)"

definition disjoint_opts :: "variant_fld_cls_opt list \<Rightarrow> bool" where
  "disjoint_opts opts \<longleftrightarrow>
     (\<forall>i j. i < j \<longrightarrow> j < length opts \<longrightarrow>
        rng_set_ints (o_rng_set (opts ! i)) \<inter> rng_set_ints (o_rng_set (opts ! j)) = {})"

fun cls_wf :: "actf_fld_cls \<Rightarrow> bool"
  and member_wf :: "struct_fld_member_cls \<Rightarrow> bool"
  and opt_wf :: "variant_fld_cls_opt \<Rightarrow> bool" where
  "cls_wf ACTF_FLD_CLS_NIL \<longleftrightarrow> False"
| "cls_wf (ACTF_FLD_CLS_FXD_LEN_BIT_ARR b) \<longleftrightarrow> bit_arr_wf b"
| "cls_wf (ACTF_FLD_CLS_FXD_LEN_BIT_MAP b f) \<longleftrightarrow> bit_arr_wf b \<and> flags_wf f"
| "cls_wf (ACTF_FLD_CLS_FXD_LEN_UINT i b r) \<longleftrightarrow> bit_arr_wf b"
| "cls_wf (ACTF_FLD_CLS_FXD_LEN_SINT i b r) \<longleftrightarrow> bit_arr_wf b \<and> r = {}"
| "cls_wf (ACTF_FLD_CLS_FXD_LEN_BOOL b) \<longleftrightarrow> bit_arr_wf b"
| "cls_wf (ACTF_FLD_CLS_FXD_LEN_FLOAT b) \<longleftrightarrow> bit_arr_wf b \<and> ba_len b \<in> {16, 32, 64}"
| "cls_wf (ACTF_FLD_CLS_VAR_LEN_UINT i r) \<longleftrightarrow> True"
| "cls_wf (ACTF_FLD_CLS_VAR_LEN_SINT i r) \<longleftrightarrow> r = {}"
| "cls_wf (ACTF_FLD_CLS_NULL_TERM_STR e) \<longleftrightarrow> True"
| "cls_wf (ACTF_FLD_CLS_STATIC_LEN_STR e l) \<longleftrightarrow> True"
| "cls_wf (ACTF_FLD_CLS_DYN_LEN_STR e l) \<longleftrightarrow> loc_wf l"
| "cls_wf (ACTF_FLD_CLS_STATIC_LEN_BLOB l m r) \<longleftrightarrow> True"
| "cls_wf (ACTF_FLD_CLS_DYN_LEN_BLOB l m) \<longleftrightarrow> loc_wf l"
| "cls_wf (ACTF_FLD_CLS_STRUCT ms min_align align) \<longleftrightarrow>
     align_wf min_align \<and> max_align_req min_align ms = Ok align \<and> list_all member_wf ms"
| "cls_wf (ACTF_FLD_CLS_STATIC_LEN_ARR ele a len) \<longleftrightarrow> align_wf a \<and> cls_wf ele"
| "cls_wf (ACTF_FLD_CLS_DYN_LEN_ARR ele a loc) \<longleftrightarrow> align_wf a \<and> cls_wf ele \<and> loc_wf loc"
| "cls_wf (ACTF_FLD_CLS_OPTIONAL fc loc rs) \<longleftrightarrow> cls_wf fc \<and> loc_wf loc \<and> rng_set_wf rs"
| "cls_wf (ACTF_FLD_CLS_VARIANT opts loc) \<longleftrightarrow>
     opts \<noteq> [] \<and> list_all opt_wf opts \<and> disjoint_opts opts \<and> loc_wf loc"
| "member_wf (Member n c) \<longleftrightarrow> cls_wf c"
| "opt_wf (Opt c rs n) \<longleftrightarrow> cls_wf c \<and> rng_set_wf rs"

section \<open>Lookups\<close>

lemma align_is_valid_iff: "align_is_valid n \<Longrightarrow> align_wf n"
proof (cases "n = 0")
  case False
  assume v: "align_is_valid n"
  have "0 < unat n" using False by (simp add: unat_gt_0)
  then obtain k where k: "2 ^ k \<le> unat n" "unat n < 2 ^ (k + 1)"
    using ex_power_ivl1 [of 2 "unat n"] by auto
  have bit: "bit w k" if "2 ^ k \<le> unat w" "unat w < 2 ^ (k + 1)" for w :: u64
  proof -
    have "unat w div 2 ^ k = 1" using that by (simp add: Euclidean_Rings.div_nat_eqI)
    then have "bit (unat w) k" by (simp add: bit_iff_odd)
    then show ?thesis by (simp add: bit_unsigned_iff)
  qed
  have k64: "k < 64" using bit [OF k] bit_u64_less by blast
  have "unat (n - 1) = unat n - 1" using False by (simp add: unat_minus_one)
  moreover have "\<not> bit (n - 1) k"
    using v bit [OF k] unfolding align_is_valid_def by (metis bit_and_iff bit_0_eq bot_apply bot_bool_def)
  ultimately have "\<not> (2 ^ k \<le> unat n - 1 \<and> unat n - 1 < 2 ^ (k + 1))" using bit [of "n - 1"] by metis
  then have "unat n = 2 ^ k" using k by linarith
  then have "n = 2 ^ k" by (metis of_nat_numeral of_nat_power of_nat_unat word_of_nat_eq_iff ucast_id)
  then show ?thesis using k64 by (auto simp: align_wf_def pow2_def)
qed (simp add: align_wf_def)

named_theorems parse_Ok "what a successful parse means"

lemmas [parse_Ok] = bindr_Ok_iff ensurer_Ok_iff

lemma optional_key_Ok [parse_Ok]: "optional_key dflt r = Ok y \<longleftrightarrow> r = Ok y \<or> r = Err ACTF_NOT_FOUND \<and> y = dflt"
  by (cases r) (auto simp: optional_key_def)

lemma required_key_Ok [parse_Ok]: "required_key r = Ok y \<longleftrightarrow> r = Ok y"
  by (cases r) (auto simp: required_key_def)

lemma get_alignment_wf: "json_object_key_get_alignment J j key = Ok a \<Longrightarrow> align_wf a"
  by (auto simp: json_object_key_get_alignment_def parse_Ok Let_def intro: align_is_valid_iff)

lemma default_align_wf: "align_wf DEFAULT_ALIGNMENT"
  by (simp add: align_wf_def DEFAULT_ALIGNMENT_def)

lemma optional_align_wf:
  "optional_key DEFAULT_ALIGNMENT (json_object_key_get_alignment J j key) = Ok a \<Longrightarrow> align_wf a"
  by (auto simp: parse_Ok default_align_wf dest: get_alignment_wf)

lemma get_gtz_pos: "json_object_key_get_gtz_uint64 J j key = Ok v \<Longrightarrow> 0 < v"
  by (auto simp: json_object_key_get_gtz_uint64_def word_neq_0_conv split: res.splits if_splits)

lemma bit_arr_parse_wf: "int_fxd_len_bit_arr_fld_cls_parse J j = Ok b \<Longrightarrow> bit_arr_wf b"
  by (auto simp: int_fxd_len_bit_arr_fld_cls_parse_def bindr_Ok_iff ensurer_Ok_iff bit_arr_wf_def
    dest: get_gtz_pos optional_align_wf)

lemma fld_loc_parse_wf: "json_object_key_get_fld_loc J j key = Ok l \<Longrightarrow> loc_wf l"
  by (auto simp: json_object_key_get_fld_loc_def actf_fld_loc_parse_def parse_Ok loc_wf_def Let_def
    split: option.splits dest: arg_cong [of _ _ length])
    (auto simp: mapr_Ok list_all2_iff)

lemma rng_parse_wf:
  "rng_parse J b j = Ok r \<Longrightarrow>
     (case r of SRng s \<Rightarrow> sint (s_lower s) < 0 \<and> sint (s_lower s) \<le> sint (s_upper s) | URng u \<Rightarrow> u_lower u \<le> u_upper u)"
  by (auto simp: rng_parse_def ensurer_Ok_iff Let_def split: list.splits if_splits)


lemma INT64_MAX_word: "w \<le> INT64_MAX \<longleftrightarrow> 0 \<le> sint (w :: u64)"
  using uint_u64_less [of w] by (simp add: INT64_MAX_def word_le_def sint_u64)

lemma rng_set_parse_wf:
  assumes "json_object_key_get_rng_set J j key = Ok rs"
  shows "rng_set_wf rs"
proof -
  from assms obtain es rngs where r: "list_all2 (\<lambda>e r. rng_parse J False e = Ok r) es rngs"
    "\<not> (list_ex rng_is_negative rngs \<and> list_ex rng_larger_than_int64 rngs)"
    "rs = (if list_ex rng_is_negative rngs then RNG_SINT (map srng_of rngs) else RNG_UINT (map urng_of rngs))"
    by (auto simp: json_object_key_get_rng_set_def rngs_to_rng_set_def parse_Ok Let_def mapr_Ok)
  have wf: "case r of SRng s \<Rightarrow> sint (s_lower s) < 0 \<and> sint (s_lower s) \<le> sint (s_upper s) | URng u \<Rightarrow> u_lower u \<le> u_upper u"
    if "r \<in> set rngs" for r
  proof -
    from that r(1) obtain e where "rng_parse J False e = Ok r" by (auto simp: list_all2_conv_all_nth in_set_conv_nth)
    then show ?thesis by (rule rng_parse_wf)
  qed
  show ?thesis
  proof (cases "list_ex rng_is_negative rngs")
    case True
    have "sint (s_lower (srng_of r)) \<le> sint (s_upper (srng_of r))" if "r \<in> set rngs" for r
    proof (cases r)
      case (URng u)
      have "u_upper u \<le> INT64_MAX" "u_lower u \<le> u_upper u"
        using URng that True r(2) wf [OF that] by (auto simp: list_ex_iff rng_larger_than_int64_def not_less)
      then have "0 \<le> sint (u_upper u)" "0 \<le> sint (u_lower u)"
        using INT64_MAX_word [of "u_upper u"] INT64_MAX_word [of "u_lower u"] by (auto intro: order_trans)
      then show ?thesis using URng \<open>u_lower u \<le> u_upper u\<close> by (simp add: word_le_def sint_nonneg_uint)
    qed (use wf [OF that] in simp)
    then show ?thesis using r(3) True by (simp add: rng_set_wf_def)
  next
    case False
    have "u_lower (urng_of r) \<le> u_upper (urng_of r)" if "r \<in> set rngs" for r
      using False that wf [OF that] by (cases r) (auto simp: list_ex_iff rng_is_negative_def)
    then show ?thesis using r(3) False by (simp add: rng_set_wf_def)
  qed
qed

section \<open>Classes\<close>

lemma flags_parse_wf:
  "flags_of J maps = Ok f \<Longrightarrow> mappings_len maps \<noteq> 0 \<Longrightarrow> flags_wf f"
  by (auto simp: flags_of_def flags_wf_def actf_flags_init_def mappings_len_def split: mappings.splits option.splits if_splits)

lemma disjoint_optsI:
  "\<not> opts_intersect opts \<Longrightarrow> list_all opt_wf opts \<Longrightarrow> disjoint_opts opts"
proof (induction opts)
  case (Cons a opts)
  have disj: "rng_set_ints (o_rng_set a) \<inter> rng_set_ints (o_rng_set b) = {}" if "b \<in> set opts" for b
  proof -
    have "rng_set_wf (o_rng_set a)" "rng_set_wf (o_rng_set b)"
      using Cons.prems(2) that by (cases a; cases b; auto simp: list_all_iff)+
    then show ?thesis using Cons.prems(1) that rng_set_intersect_iff [of "o_rng_set a" "o_rng_set b"]
      by (auto simp: list_ex_iff)
  qed
  have "disjoint_opts opts" using Cons by simp
  then show ?case
    unfolding disjoint_opts_def
    by (auto simp: nth_Cons' disj)
qed (simp add: disjoint_opts_def)

lemma list_all2_list_all: "list_all2 P xs ys \<Longrightarrow> (\<And>x y. P x y \<Longrightarrow> Q y) \<Longrightarrow> list_all Q ys"
  by (induction rule: list_all2_induct) auto

lemma fxd_parse_wf:
  "fxd_len_bit_arr_fld_cls_parse J j = Ok fc \<Longrightarrow> cls_wf fc"
  "fxd_len_bit_map_fld_cls_parse J j = Ok fc \<Longrightarrow> cls_wf fc"
  "fxd_len_int_fld_cls_parse J j s = Ok fc \<Longrightarrow> cls_wf fc"
  "fxd_len_bool_fld_cls_parse J j = Ok fc \<Longrightarrow> cls_wf fc"
  "fxd_len_float_fld_cls_parse J j = Ok fc \<Longrightarrow> cls_wf fc"
  "var_len_int_fld_cls_parse J j s = Ok fc \<Longrightarrow> cls_wf fc"
  by (auto simp: fxd_len_bit_arr_fld_cls_parse_def fxd_len_bit_map_fld_cls_parse_def
    fxd_len_int_fld_cls_parse_def int_fxd_len_int_fld_cls_parse_def fxd_len_bool_fld_cls_parse_def
    fxd_len_float_fld_cls_parse_def var_len_int_fld_cls_parse_def int_var_len_int_fld_cls_parse_def
    int_roles_def bindr_Ok_iff ensurer_Ok_iff dest: bit_arr_parse_wf flags_parse_wf)

lemma str_parse_wf:
  "null_term_str_fld_cls_parse J j = Ok fc \<Longrightarrow> cls_wf fc"
  "static_len_str_fld_cls_parse J j = Ok fc \<Longrightarrow> cls_wf fc"
  "dyn_len_str_fld_cls_parse J j = Ok fc \<Longrightarrow> cls_wf fc"
  "static_len_blob_fld_cls_parse J j = Ok fc \<Longrightarrow> cls_wf fc"
  "dyn_len_blob_fld_cls_parse J j = Ok fc \<Longrightarrow> cls_wf fc"
  by (auto simp: null_term_str_fld_cls_parse_def static_len_str_fld_cls_parse_def dyn_len_str_fld_cls_parse_def
    static_len_blob_fld_cls_parse_def dyn_len_blob_fld_cls_parse_def bindr_Ok_iff required_key_Ok dest: fld_loc_parse_wf)

definition wf_parser :: "('j \<Rightarrow> actf_fld_cls res) \<Rightarrow> bool" where
  "wf_parser sub \<longleftrightarrow> (\<forall>j fc. sub j = Ok fc \<longrightarrow> cls_wf fc)"

lemma wf_parserD: "wf_parser sub \<Longrightarrow> sub j = Ok fc \<Longrightarrow> cls_wf fc"
  by (simp add: wf_parser_def)

lemma struct_parse_wf:
  assumes "wf_parser sub" "struct_fld_cls_parse n sub J j = Ok fc"
  shows "cls_wf fc"
proof -
  have "member_wf m" if "struct_member_parse n sub J e = Ok m" for e m
    using that wf_parserD [OF assms(1)] by (auto simp: struct_member_parse_def bindr_Ok_iff ensurer_Ok_iff)
  then show ?thesis
    using assms(2)
    by (auto simp: struct_fld_cls_parse_def struct_fld_cls_parse_member_clses_def bindr_Ok_iff ensurer_Ok_iff
      Let_def mapr_Ok split: option.splits dest: optional_align_wf elim!: list_all2_list_all)
qed

lemma arr_parse_wf:
  "wf_parser sub \<Longrightarrow> static_len_arr_fld_cls_parse sub J j = Ok fc \<Longrightarrow> cls_wf fc"
  "wf_parser sub \<Longrightarrow> dyn_len_arr_fld_cls_parse sub J j = Ok fc \<Longrightarrow> cls_wf fc"
  by (auto simp: static_len_arr_fld_cls_parse_def dyn_len_arr_fld_cls_parse_def arr_fld_cls_parse_def bindr_Ok_iff
    required_key_Ok split: if_splits dest: wf_parserD optional_align_wf fld_loc_parse_wf)

lemma optional_parse_wf: "wf_parser sub \<Longrightarrow> optional_fld_cls_parse sub J j = Ok fc \<Longrightarrow> cls_wf fc"
  by (auto simp: optional_fld_cls_parse_def bindr_Ok_iff required_key_Ok optional_key_Ok rng_set_wf_def [of "RNG_SINT []"]
    split: if_splits dest: wf_parserD fld_loc_parse_wf rng_set_parse_wf)

lemma variant_parse_wf:
  assumes "wf_parser sub" "variant_fld_cls_parse n sub J j = Ok fc"
  shows "cls_wf fc"
proof -
  have o: "opt_wf opt" if "variant_fld_cls_opt_parse n sub J e = Ok opt" for e opt
    using that wf_parserD [OF assms(1)] rng_set_parse_wf
    by (auto simp: variant_fld_cls_opt_parse_def bindr_Ok_iff ensurer_Ok_iff required_key_Ok)
  from assms(2) obtain es opts loc where r: "fc = ACTF_FLD_CLS_VARIANT opts loc" "es \<noteq> []"
      "list_all2 (\<lambda>e opt. variant_fld_cls_opt_parse n sub J e = Ok opt) es opts" "\<not> opts_intersect opts" "loc_wf loc"
    by (auto simp: variant_fld_cls_parse_def bindr_Ok_iff ensurer_Ok_iff Let_def mapr_Ok required_key_Ok dest: fld_loc_parse_wf)
  have "list_all opt_wf opts" using r(3) o by (rule list_all2_list_all)
  then show ?thesis using r disjoint_optsI by (auto simp: list_all2_conv_all_nth)
qed

lemma typed_parse_wf: "wf_parser sub \<Longrightarrow> typed_fld_cls_parse n sub J j ty = Ok fc \<Longrightarrow> cls_wf fc"
  by (cases ty) (auto simp: typed_fld_cls_parse_def
    intro: fxd_parse_wf str_parse_wf struct_parse_wf arr_parse_wf optional_parse_wf variant_parse_wf)

text \<open>Aliases stand for classes that were parsed before.\<close>

definition aliases_wf :: "actf_metadata \<Rightarrow> bool" where
  "aliases_wf md \<longleftrightarrow> (\<forall>(name, fc) \<in> set (md_fld_cls_aliases md). cls_wf fc)"

lemma fld_cls_parse_wf: "aliases_wf md \<Longrightarrow> wf_parser (actf_fld_cls_parse n J md)"
proof (induction n)
  case (Suc n)
  have "cls_wf fc" if "actf_fld_cls_parse (Suc n) J md j = Ok fc" for j fc
    using that Suc
    by (auto simp: bindr_Ok_iff actf_fld_cls_resolve_alias_def actf_metadata_find_fld_cls_alias_def aliases_wf_def
      split: if_splits res.splits option.splits dest!: map_of_SomeD dest: typed_parse_wf)
  then show ?case by (simp add: wf_parser_def del: actf_fld_cls_parse.simps)
qed (simp add: wf_parser_def)

end
