(* ===== verification/Metadata_Inv.thy ===== *)
theory Metadata_Inv
  imports Metadata_Parse Fld_Cls_Wf Hash_Map_Spec
begin

text \<open>
  The invariant of the metadata. \<open>md_ok\<close> states what the decoder may rely on: every stored class
  is well-formed, packet headers, contexts, event headers and payloads are structures, names and
  identifiers are distinct, every index is within its list, clocks have a frequency above their
  offset in cycles. Every fragment that is accepted keeps it.
\<close>

section \<open>The invariant\<close>

definition slot_wf :: "actf_fld_cls \<Rightarrow> bool" where
  "slot_wf fc \<longleftrightarrow> fc = ACTF_FLD_CLS_NIL \<or> is_struct fc \<and> cls_wf fc"

definition evc_ok :: "nat \<Rightarrow> u64 \<times> actf_event_cls \<Rightarrow> bool" where
  "evc_ok i e \<longleftrightarrow> ec_id (snd e) = fst e \<and> ec_dsc (snd e) = i \<and> slot_wf (ec_payload (snd e)) \<and> slot_wf (ec_spec_ctx (snd e))"

definition def_clk_ok :: "actf_clk_cls list \<Rightarrow> actf_dstream_cls \<Rightarrow> bool" where
  "def_clk_ok clks dsc \<longleftrightarrow>
     (case dc_def_clkc_id dsc of
        None \<Rightarrow> dc_def_clkc dsc = None
      | Some cid \<Rightarrow> \<exists>j < length clks. dc_def_clkc dsc = Some j \<and> ck_id (clks ! j) = cid)"

definition dsc_classes_ok :: "actf_dstream_cls \<Rightarrow> bool" where
  "dsc_classes_ok dsc \<longleftrightarrow>
     slot_wf (dc_pkt_ctx dsc) \<and> slot_wf (dc_event_hdr dsc) \<and> slot_wf (dc_event_common_ctx dsc) \<and>
     verify_clk_roles dsc (dc_pkt_ctx dsc) = Ok () \<and> verify_clk_roles dsc (dc_event_hdr dsc) = Ok ()"

definition dsc_ok :: "actf_clk_cls list \<Rightarrow> nat \<Rightarrow> actf_dstream_cls \<Rightarrow> bool" where
  "dsc_ok clks i dsc \<longleftrightarrow>
     dsc_classes_ok dsc \<and> def_clk_ok clks dsc \<and> hm_ok hash_uint64 (dc_idtoevc dsc) \<and>
     (\<forall>e \<in> set (entries (hm_slots (dc_idtoevc dsc))). evc_ok i e)"

definition clks_ok :: "actf_clk_cls list \<Rightarrow> bool" where
  "clks_ok clks \<longleftrightarrow> distinct (map ck_id clks) \<and> (\<forall>c \<in> set clks. ck_off_cycles c < ck_freq c)"

definition trace_ok :: "actf_metadata \<Rightarrow> bool" where
  "trace_ok md \<longleftrightarrow>
     slot_wf (md_pkt_hdr md) \<and> verify_pkt_magic_num_role (md_pkt_hdr md) = Ok () \<and>
     verify_metadata_stream_uuid_role (md_preamble md) (md_pkt_hdr md) = Ok () \<and>
     (md_trace_cls_is_set md \<or> md_pkt_hdr md = ACTF_FLD_CLS_NIL)"

definition idtodsc_ok :: "actf_metadata \<Rightarrow> bool" where
  "idtodsc_ok md \<longleftrightarrow>
     hm_ok hash_uint64 (md_idtodsc md) \<and>
     (\<forall>(k, i) \<in> set (entries (hm_slots (md_idtodsc md))). i < length (md_dscs md) \<and> dc_id (md_dscs md ! i) = k)"

definition preamble_ok :: "actf_metadata \<Rightarrow> bool" where
  "preamble_ok md \<longleftrightarrow>
     (if md_preamble_is_set md then pa_version (md_preamble md) = ACTF_MAJOR_VERSION
      else md_fld_cls_aliases md = [] \<and> md_clk_clses md = [] \<and> md_dscs md = [] \<and> \<not> md_trace_cls_is_set md)"

definition md_ok :: "actf_metadata \<Rightarrow> bool" where
  "md_ok md \<longleftrightarrow>
     preamble_ok md \<and> aliases_wf md \<and> distinct (map fst (md_fld_cls_aliases md)) \<and> trace_ok md \<and>
     clks_ok (md_clk_clses md) \<and> (\<forall>i < length (md_dscs md). dsc_ok (md_clk_clses md) i (md_dscs md ! i)) \<and>
     idtodsc_ok md"

section \<open>Parts\<close>

declare verify_clk_roles.simps [simp del] verify_metadata_stream_uuid_role.simps [simp del]

lemma vec_push_cases: "vec_push J v x = v \<or> vec_push J v x = v @ [x]"
  by (auto simp: vec_push_def Let_def)

lemma verify_clk_roles_def_clkc [simp]:
  "verify_clk_roles (dsc\<lparr>dc_def_clkc := c\<rparr>) fc = verify_clk_roles dsc fc"
  "verify_clk_roles_member (dsc\<lparr>dc_def_clkc := c\<rparr>) m = verify_clk_roles_member dsc m"
  by (induction dsc fc and dsc m rule: verify_clk_roles_verify_clk_roles_member.induct)
    (auto simp: verify_clk_roles.simps split: actf_fld_cls.split intro!: arg_cong [of _ _ first_err] map_cong)

lemma verify_clk_roles_idtoevc [simp]:
  "verify_clk_roles (dsc\<lparr>dc_idtoevc := c\<rparr>) fc = verify_clk_roles dsc fc"
  "verify_clk_roles_member (dsc\<lparr>dc_idtoevc := c\<rparr>) m = verify_clk_roles_member dsc m"
  by (induction dsc fc and dsc m rule: verify_clk_roles_verify_clk_roles_member.induct)
    (auto simp: verify_clk_roles.simps split: actf_fld_cls.split intro!: arg_cong [of _ _ first_err] map_cong)

lemma opt_fld_cls_wf:
  "opt_fld_cls n J md j key = Ok fc \<Longrightarrow> aliases_wf md \<Longrightarrow> nil_or_struct fc \<Longrightarrow> slot_wf fc"
  using wf_parserD [OF fld_cls_parse_wf]
  by (auto simp: opt_fld_cls_def slot_wf_def nil_or_struct_def split: option.splits)

lemma def_clk_mono: "def_clk_ok clks dsc \<Longrightarrow> def_clk_ok (clks @ cs) dsc"
  by (auto simp: def_clk_ok_def nth_append split: option.splits)

lemma dsc_mono: "dsc_ok clks i dsc \<Longrightarrow> dsc_ok (clks @ cs) i dsc"
  by (simp add: dsc_ok_def def_clk_mono)

lemma find_clk_Some: "find_clk cid cs = Some i \<Longrightarrow> i < length cs \<and> ck_id (cs ! i) = cid"
  by (induction cs arbitrary: i) (auto split: if_splits)

lemma map_insert_ok:
  assumes "hm_ok hash_uint64 m" "\<not> hm_contains hash_uint64 uint64cmp m k" "map_insert J m k v = Ok m'"
  shows "hm_ok hash_uint64 m' \<and> set (entries (hm_slots m')) = insert (k, v) (set (entries (hm_slots m)))"
proof -
  have ins: "hm_insert 3 (malloc_ok J) hash_uint64 m k v = Ok m'"
    using assms(3) by (auto simp: map_insert_def split: res.splits)
  then have "hm_len m < hm_cap m" by (auto simp: hm_insert_def split: if_splits)
  moreover have "k \<notin> fst ` set (entries (hm_slots m))"
    using assms(1,2) by (rule not_contained_fresh) (simp add: uint64cmp_def)
  ultimately have "inserted hash_uint64 m k v (hm_insert 3 (malloc_ok J) hash_uint64 m k v)"
    using assms(1) by (intro hm_insert_ok) simp_all
  then show ?thesis using ins by (auto simp: inserted_def dest: arg_cong [of _ _ set_mset])
qed

section \<open>Fragments\<close>

lemma init_ok:
  assumes "actf_metadata_init J = Some md"
  shows "md_ok md"
proof -
  from assms obtain m where m: "hm_init_cap (malloc_ok J) (2 ^ 2) = Some m" and
    md: "md = \<lparr>md_preamble = zero_preamble, md_preamble_is_set = False, md_fld_cls_aliases = [],
      md_trace_cls = zero_trace_cls, md_trace_cls_is_set = False, md_clk_clses = [], md_dscs = [], md_idtodsc = m\<rparr>"
    by (auto simp: actf_metadata_init_def split: if_splits option.splits)
  show ?thesis using hm_init_cap_ok [OF m] unfolding md
    by (simp add: md_ok_def preamble_ok_def aliases_wf_def trace_ok_def slot_wf_def zero_trace_cls_def
      verify_pkt_magic_num_role_def verify_metadata_stream_uuid_role.simps clks_ok_def idtodsc_ok_def)
qed

lemma preamble_frag_ok:
  "md_ok md \<Longrightarrow> preamble_frag n J md j = Ok md' \<Longrightarrow> md_ok md'"
  by (auto simp: preamble_frag_def ensurer_Ok_iff bindr_Ok_iff md_ok_def preamble_ok_def aliases_wf_def
    trace_ok_def idtodsc_ok_def verify_metadata_stream_uuid_role.simps split: if_splits)

lemma alias_frag_ok:
  assumes "md_ok md" "md_preamble_is_set md" "alias_frag n J md j = Ok md'"
  shows "md_ok md'"
proof -
  from assms(3) obtain name fc where a: "actf_fld_cls_alias_parse n J md j = Ok (name, fc)"
    "name \<notin> fst ` set (md_fld_cls_aliases md)"
    "md' = md\<lparr>md_fld_cls_aliases := vec_push J (md_fld_cls_aliases md) (name, fc)\<rparr>"
    by (fastforce simp: alias_frag_def ensurer_Ok_iff bindr_Ok_iff list_ex_iff)
  then have "cls_wf fc" using assms(1) wf_parserD [OF fld_cls_parse_wf]
    by (auto simp: actf_fld_cls_alias_parse_def bindr_Ok_iff md_ok_def)
  then show ?thesis using a vec_push_cases [of J "md_fld_cls_aliases md" "(name, fc)"] assms(1,2)
    by (auto simp: md_ok_def preamble_ok_def aliases_wf_def trace_ok_def idtodsc_ok_def)
qed

lemma trace_frag_ok:
  assumes "md_ok md" "md_preamble_is_set md" "trace_frag n J md j = Ok md'"
  shows "md_ok md'"
proof -
  from assms(3) obtain tc where t: "actf_trace_cls_parse n J md j = Ok tc" "nil_or_struct (tc_pkt_hdr tc)"
    "verify_pkt_magic_num_role (tc_pkt_hdr tc) = Ok ()"
    "verify_metadata_stream_uuid_role (md_preamble md) (tc_pkt_hdr tc) = Ok ()"
    "md' = md\<lparr>md_trace_cls := tc, md_trace_cls_is_set := True\<rparr>"
    by (auto simp: trace_frag_def ensurer_Ok_iff bindr_Ok_iff)
  have "slot_wf (tc_pkt_hdr tc)" using t(1,2) assms(1)
    by (auto simp: actf_trace_cls_parse_def bindr_Ok_iff ensurer_Ok_iff md_ok_def dest: opt_fld_cls_wf)
  then show ?thesis using t assms(1,2)
    by (auto simp: md_ok_def preamble_ok_def aliases_wf_def trace_ok_def idtodsc_ok_def)
qed

lemma clock_frag_ok:
  assumes "md_ok md" "md_preamble_is_set md" "clock_frag n J md j = Ok md'"
  shows "md_ok md'"
proof -
  from assms(3) obtain c where c: "ck_off_cycles c < ck_freq c" "ck_id c \<notin> ck_id ` set (md_clk_clses md)"
    "md' = md\<lparr>md_clk_clses := vec_push J (md_clk_clses md) c\<rparr>"
    by (fastforce simp: clock_frag_def ensurer_Ok_iff bindr_Ok_iff list_ex_iff)
  then show ?thesis using vec_push_cases [of J "md_clk_clses md" c] assms(1,2)
    by (auto simp: md_ok_def preamble_ok_def aliases_wf_def trace_ok_def idtodsc_ok_def clks_ok_def intro!: dsc_mono)
qed

lemma resolve_clk_ok:
  "resolve_clk md dsc = Ok dsc' \<Longrightarrow> dc_def_clkc dsc = None \<Longrightarrow>
     def_clk_ok (md_clk_clses md) dsc' \<and> (\<exists>c. dsc' = dsc\<lparr>dc_def_clkc := c\<rparr>)"
  by (auto simp: resolve_clk_def def_clk_ok_def split: option.splits dest: find_clk_Some)
    (metis actf_dstream_cls.surjective actf_dstream_cls.update_convs(6))


lemma dstream_parse_fields:
  assumes "actf_dstream_cls_parse n J md j = Ok dsc"
  shows "dc_def_clkc dsc = None" "hm_init (malloc_ok J) = Some (dc_idtoevc dsc)"
    "\<exists>key. opt_fld_cls n J md j key = Ok (dc_pkt_ctx dsc)" "\<exists>key. opt_fld_cls n J md j key = Ok (dc_event_hdr dsc)"
    "\<exists>key. opt_fld_cls n J md j key = Ok (dc_event_common_ctx dsc)"
  using assms by (auto simp: actf_dstream_cls_parse_def bindr_Ok_iff ensurer_Ok_iff split: option.splits) blast+

lemma dstream_parse_ok:
  assumes "actf_dstream_cls_parse n J md j = Ok dsc" "aliases_wf md"
  shows "dc_def_clkc dsc = None" "hm_ok hash_uint64 (dc_idtoevc dsc)" "entries (hm_slots (dc_idtoevc dsc)) = []"
    "nil_or_struct (dc_pkt_ctx dsc) \<Longrightarrow> slot_wf (dc_pkt_ctx dsc)"
    "nil_or_struct (dc_event_hdr dsc) \<Longrightarrow> slot_wf (dc_event_hdr dsc)"
    "nil_or_struct (dc_event_common_ctx dsc) \<Longrightarrow> slot_wf (dc_event_common_ctx dsc)"
  using dstream_parse_fields [OF assms(1)] hm_init_cap_ok [of "malloc_ok J" 3 "dc_idtoevc dsc"]
    opt_fld_cls_wf [of n J md j, OF _ assms(2)]
  by (auto simp: hm_init_def)

lemma event_parse_ok:
  assumes "actf_event_cls_parse n J md j = Ok evc" "aliases_wf md"
  shows "nil_or_struct (ec_payload evc) \<Longrightarrow> slot_wf (ec_payload evc)"
    "nil_or_struct (ec_spec_ctx evc) \<Longrightarrow> slot_wf (ec_spec_ctx evc)"
proof -
  have p: "\<exists>key. opt_fld_cls n J md j key = Ok (ec_payload evc)" "\<exists>key. opt_fld_cls n J md j key = Ok (ec_spec_ctx evc)"
    using assms(1) by (auto simp: actf_event_cls_parse_def bindr_Ok_iff ensurer_Ok_iff)
  show "slot_wf (ec_payload evc)" if "nil_or_struct (ec_payload evc)"
    using p(1) opt_fld_cls_wf [of n J md j, OF _ assms(2) that] by blast
  show "slot_wf (ec_spec_ctx evc)" if "nil_or_struct (ec_spec_ctx evc)"
    using p(2) opt_fld_cls_wf [of n J md j, OF _ assms(2) that] by blast
qed

lemma dstream_frag_ok:
  assumes "md_ok md" "md_preamble_is_set md" "dstream_frag n J md j = Ok md'"
  shows "md_ok md'"
proof -
  let ?l = "length (md_dscs md)"
  from assms(3) obtain dsc dsc' m where d: "actf_dstream_cls_parse n J md j = Ok dsc"
    "nil_or_struct (dc_pkt_ctx dsc)" "verify_clk_roles dsc (dc_pkt_ctx dsc) = Ok ()"
    "nil_or_struct (dc_event_hdr dsc)" "verify_clk_roles dsc (dc_event_hdr dsc) = Ok ()"
    "nil_or_struct (dc_event_common_ctx dsc)" "\<not> hm_contains hash_uint64 uint64cmp (md_idtodsc md) (dc_id dsc)"
    "resolve_clk md dsc = Ok dsc'" "map_insert J (md_idtodsc md) (dc_id dsc') ?l = Ok m"
    "md' = md\<lparr>md_dscs := md_dscs md @ [dsc'], md_idtodsc := m\<rparr>"
    by (auto simp: dstream_frag_def ensurer_Ok_iff bindr_Ok_iff)
  have "aliases_wf md" using assms(1) by (simp add: md_ok_def)
  note p = dstream_parse_ok [OF d(1) this]
  obtain c where c: "dsc' = dsc\<lparr>dc_def_clkc := c\<rparr>" "def_clk_ok (md_clk_clses md) dsc'"
    using resolve_clk_ok [OF d(8) p(1)] by blast
  have "dsc_ok (md_clk_clses md) ?l dsc'"
    using d(2-6) p c assms(1) by (simp add: dsc_ok_def dsc_classes_ok_def md_ok_def)
  moreover have "hm_ok hash_uint64 m" "set (entries (hm_slots m)) = insert (dc_id dsc', ?l) (set (entries (hm_slots (md_idtodsc md))))"
    using map_insert_ok [OF _ _ d(9)] d(7) c(1) assms(1) by (auto simp: md_ok_def idtodsc_ok_def)
  ultimately show ?thesis using assms(1,2) d(10)
    by (auto simp: md_ok_def preamble_ok_def aliases_wf_def trace_ok_def idtodsc_ok_def nth_append less_Suc_eq)
qed

lemma def_clk_ok_idtoevc [simp]: "def_clk_ok clks (dsc\<lparr>dc_idtoevc := m\<rparr>) = def_clk_ok clks dsc"
  by (cases "dc_def_clkc_id dsc") (simp_all add: def_clk_ok_def)

lemma event_frag_ok:
  assumes "md_ok md" "md_preamble_is_set md" "event_frag n J md j = Ok md'"
  shows "md_ok md'"
proof -
  from assms(3) obtain evc where p: "actf_event_cls_parse n J md j = Ok evc"
    "nil_or_struct (ec_payload evc)" "nil_or_struct (ec_spec_ctx evc)"
    by (auto simp: event_frag_def ensurer_Ok_iff bindr_Ok_iff)
  then obtain i m where e: "i < length (md_dscs md)"
    "\<not> hm_contains hash_uint64 uint64cmp (dc_idtoevc (md_dscs md ! i)) (ec_id evc)"
    "map_insert J (dc_idtoevc (md_dscs md ! i)) (ec_id evc) (evc\<lparr>ec_dsc := i\<rparr>) = Ok m"
    "md' = md\<lparr>md_dscs := (md_dscs md)[i := (md_dscs md ! i)\<lparr>dc_idtoevc := m\<rparr>]\<rparr>"
    using assms(3) by (cases "u64todsc_find (md_idtodsc md) (ec_dsc_id evc)")
      (auto simp: event_frag_def ensurer_def bindr_Ok_iff Let_def not_le split: if_split_asm)
  have i: "dsc_ok (md_clk_clses md) i (md_dscs md ! i)" using assms(1) e(1) by (simp add: md_ok_def)
  have "slot_wf (ec_payload evc)" "slot_wf (ec_spec_ctx evc)"
    using p(2,3) event_parse_ok [OF p(1)] assms(1) by (simp_all add: md_ok_def)
  then have "evc_ok i (ec_id evc, evc\<lparr>ec_dsc := i\<rparr>)" by (simp add: evc_ok_def)
  then have "dsc_ok (md_clk_clses md) i ((md_dscs md ! i)\<lparr>dc_idtoevc := m\<rparr>)"
    using i map_insert_ok [OF _ e(2,3)]
    by (auto simp: dsc_ok_def dsc_classes_ok_def)
  then show ?thesis using assms(1,2) e(1,4)
    by (auto simp: md_ok_def preamble_ok_def aliases_wf_def trace_ok_def idtodsc_ok_def nth_list_update)
qed

lemma frag_parse_ok:
  assumes "md_ok md"
  shows "md_ok (snd (frag_parse n J j md))"
proof -
  have "md_ok md'" if "typed_frag_parse n J md j ty = Ok md'" for ty md'
    using that assms preamble_frag_ok alias_frag_ok trace_frag_ok clock_frag_ok dstream_frag_ok event_frag_ok
    by (auto simp: typed_frag_parse_def split: if_splits)
  then show ?thesis using assms by (auto simp: frag_parse_def split: res.split)
qed

section \<open>Streams\<close>

lemma json_frag_ok: "md_ok (snd st) \<Longrightarrow> md_ok (snd (snd (json_frag n J tok_parse st b)))"
proof -
  assume ok: "md_ok (snd st)"
  obtain r k where t: "tok_parse (fst st) b = (r, k)" by fastforce
  show ?thesis
  proof (cases r)
    case (Some j)
    then show ?thesis using frag_parse_ok [OF ok, of n J j] t
      by (cases "frag_parse n J j (snd st)") (simp add: json_frag_def)
  qed (use ok t in \<open>simp add: json_frag_def\<close>)
qed

text \<open>An invariant of the fragments is an invariant of the loops over them.\<close>

lemma parse_json_frags_inv:
  assumes "\<And>t b. I t \<Longrightarrow> I (snd (frag t b))"
  shows "I t \<Longrightarrow> I (snd (parse_json_frags frag t fs))"
proof (induction fs arbitrary: t)
  case (Cons f fs)
  obtain r u where f: "frag t f = (r, u)" by fastforce
  then have "I u" using assms [of t f] Cons.prems by simp
  then show ?case using f Cons.IH [of u] by (cases r) (simp_all split: unit.split)
qed simp

lemma unpack_inv:
  shows "(\<And>t b. I t \<Longrightarrow> I (snd (frag t b))) \<Longrightarrow> I t \<Longrightarrow> I (snd (unpack_packetized_metadata_stream frag continues t rc b cur))"
proof (induction frag continues t rc b cur rule: unpack_packetized_metadata_stream.induct)
  case (1 frag continues t rc b cur)
  show ?case
  proof (cases "read_metadata_pkt_hdr (drop cur b)")
    case (Ok hdr)
    define fs where "fs = split_frags (take (unat (mh_content_sz_bits hdr) div 8 - unat (mh_hdr_sz_bits hdr) div 8)
      (drop (cur + unat (mh_hdr_sz_bits hdr) div 8) b))"
    obtain r u where run: "parse_json_frags frag t fs = (r, u)" by fastforce
    then have "I u" using parse_json_frags_inv [of I frag t fs] 1 by simp
    then show ?thesis using 1 Ok run
      by (simp add: unpack_packetized_metadata_stream.simps [of frag continues t rc b cur] Let_def fs_def)
  qed (use 1 in \<open>simp_all add: unpack_packetized_metadata_stream.simps [of frag continues t rc b cur]\<close>)
qed

lemma nparse_ok:
  assumes "md_ok md"
  shows "md_ok (snd (actf_metadata_nparse n J tok_parse tok_continue tok str md))"
proof -
  have "md_ok (snd (snd (unpack_packetized_metadata_stream (json_frag n J tok_parse) c (tok, md) rc str 0)))" for c rc
    using assms by (intro unpack_inv [where I = "\<lambda>st. md_ok (snd st)"] json_frag_ok) simp_all
  moreover have "md_ok (snd (snd (parse_json_frags (json_frag n J tok_parse) (tok, md) fs)))" for fs
    using assms by (intro parse_json_frags_inv [where I = "\<lambda>st. md_ok (snd st)"] json_frag_ok) simp_all
  ultimately show ?thesis by (simp add: actf_metadata_nparse_def split: prod.split) (metis snd_conv)
qed

end
