(* ===== verification/Json_Values.thy ===== *)
theory Json_Values
  imports Metadata_Inv
begin

text \<open>
  JSON values as a datatype and the accessors of json-c on them: an instance of the parameter
  of the parsers. Numbers are 64-bit integers; a double is given by its bits.
\<close>

datatype json =
    JNull | JBool bool | JDouble u64 | JInt i64 | JObj "(string \<times> json) list" | JArr "json list" | JStr string

fun json_kind :: "json \<Rightarrow> json_type" where
  "json_kind JNull = json_type_null"
| "json_kind (JBool b) = json_type_boolean"
| "json_kind (JDouble d) = json_type_double"
| "json_kind (JInt i) = json_type_int"
| "json_kind (JObj ms) = json_type_object"
| "json_kind (JArr es) = json_type_array"
| "json_kind (JStr s) = json_type_string"

fun json_members :: "json \<Rightarrow> (string \<times> json) list" where
  "json_members (JObj ms) = ms"
| "json_members j = []"

fun json_elems :: "json \<Rightarrow> json list" where
  "json_elems (JArr es) = es"
| "json_elems j = []"

fun json_string :: "json \<Rightarrow> string" where
  "json_string (JStr s) = s"
| "json_string j = []"

fun json_word :: "json \<Rightarrow> u64" where
  "json_word (JInt i) = i"
| "json_word (JDouble d) = d"
| "json_word j = 0"

definition json_lib :: "json json_c" where
  "json_lib = \<lparr>
     json_object_get_type = json_kind,
     json_object_object_get_ex = (\<lambda>j k. map_of (json_members j) k),
     json_object_get_string = json_string,
     json_object_get_boolean = (\<lambda>j. j = JBool True),
     json_object_get_double = json_word,
     json_object_get_int = (\<lambda>j. ucast (json_word j)),
     json_object_get_int64 = json_word,
     json_object_get_uint64 = json_word,
     json_object_elems = json_elems,
     json_object_members = json_members,
     malloc_ok = (\<lambda>n. True)\<rparr>"

fun json_depth :: "json \<Rightarrow> nat" where
  "json_depth (JObj ms) = Suc (fold (\<lambda>m d. max (json_depth (snd m)) d) ms 0)"
| "json_depth (JArr es) = Suc (fold (\<lambda>e d. max (json_depth e) d) es 0)"
| "json_depth j = 0"

text \<open>The depth of a value is a rank for the recursion of the parsers.\<close>

lemma fold_max_ge: "d \<le> fold (\<lambda>x d. max (f x) d) xs d" for d :: nat
proof (induction xs arbitrary: d)
  case (Cons x xs)
  have "d \<le> max (f x) d" by simp
  also have "\<dots> \<le> fold (\<lambda>x d. max (f x) d) xs (max (f x) d)" by (rule Cons.IH)
  finally show ?case by simp
qed simp

lemma fold_max_mem: "x \<in> set xs \<Longrightarrow> f x \<le> fold (\<lambda>x d. max (f x) d) xs d" for d :: nat
proof (induction xs arbitrary: d)
  case (Cons y xs)
  then show ?case using fold_max_ge [of "max (f y) d" f xs] by auto
qed simp

lemma json_depth_rank: "json_rank json_lib json_depth"
proof -
  have elems: "m \<in> set (json_elems j) \<Longrightarrow> json_depth m < json_depth j" for m j
    by (cases j) (auto simp: less_Suc_eq_le intro: fold_max_mem)
  have members: "(k, m) \<in> set (json_members j) \<Longrightarrow> json_depth m < json_depth j" for k m j
    by (cases j) (auto simp: less_Suc_eq_le dest: fold_max_mem [where f = "\<lambda>m. json_depth (snd m)" and d = 0])
  show ?thesis unfolding json_rank_def json_lib_def by (auto intro: elems members dest: map_of_SomeD)
qed

end
