(* ===== verification/Parse_Theorems.thy ===== *)
theory Parse_Theorems
  imports Json_Values Data_Theorems
begin

text \<open>
  Theorems about the parsers of the metadata: what an accepted class and accepted fragments
  satisfy, what the conversion of user data returns, and what the decoder gains from it.
\<close>

section \<open>Examples\<close>

definition ex_uint_json :: json where
  "ex_uint_json = JObj [(''type'', JStr ''fixed-length-unsigned-integer''), (''length'', JInt 16),
     (''byte-order'', JStr ''big-endian''), (''alignment'', JInt 8)]"

definition ex_range_json :: "i64 \<Rightarrow> i64 \<Rightarrow> json" where
  "ex_range_json l u = JArr [JArr [JInt l, JInt u]]"

definition ex_variant_json :: json where
  "ex_variant_json = JObj [(''type'', JStr ''variant''),
     (''options'', JArr [
        JObj [(''field-class'', ex_uint_json), (''selector-field-ranges'', ex_range_json 0 4)],
        JObj [(''field-class'', JObj [(''type'', JStr ''null-terminated-string'')]),
              (''selector-field-ranges'', ex_range_json 5 9)]]),
     (''selector-field-location'', JObj [(''path'', JArr [JStr ''tag''])])]"

definition ex_struct_json :: json where
  "ex_struct_json = JObj [(''type'', JStr ''structure''),
     (''member-classes'', JArr [
        JObj [(''name'', JStr ''tag''), (''field-class'', ex_uint_json)],
        JObj [(''name'', JStr ''var''), (''field-class'', ex_variant_json)]])]"

definition ex_doc_json :: json where
  "ex_doc_json = JObj [(''list'', JArr [JInt 1, JInt (- 2)]), (''text'', JStr ''hi'')]"

text \<open>A stream of two fragments behind a record separator each, given by a table of the tokener.\<close>

definition ex_tok :: "unit \<Rightarrow> u8 list \<Rightarrow> json option \<times> unit" where
  "ex_tok k b =
     (map_of [([1], JObj [(''type'', JStr ''preamble''), (''version'', JInt 2)]),
              ([2], JObj [(''type'', JStr ''clock-class''), (''id'', JStr ''c''), (''frequency'', JInt 1000)]),
              ([3], JObj [(''type'', JStr ''data-stream-class''), (''default-clock-class-id'', JStr ''c''),
                          (''packet-context-field-class'', ex_struct_json)])] b, ())"

definition ex_md :: actf_metadata where
  "ex_md = the (actf_metadata_init json_lib)"

section \<open>Field classes\<close>

text \<open>
  C29. A parsed field class is well-formed: lengths of bit arrays are between 1 and 64, floating
  point numbers have 16, 32 or 64 bits, alignments are powers of two or 0, ranges are proper,
  locations end in a name, the precomputed alignment of a structure is the largest one of its
  members, and the ranges of the options of a variant are pairwise disjoint; and so is every nested
  class.
\<close>

theorem parsed_class_wf:
  assumes "aliases_wf md" "actf_fld_cls_parse n J md fc_jobj = Ok fc"
  shows "cls_wf fc"
  using wf_parserD [OF fld_cls_parse_wf [OF assms(1)] assms(2)] .

lemma ex_md_aliases: "aliases_wf ex_md"
proof -
  have "md_fld_cls_aliases ex_md = []" by code_simp
  then show ?thesis by (simp add: aliases_wf_def)
qed

theorem parsed_class_wf_witness:
  "\<exists>fc. actf_fld_cls_parse 9 json_lib ex_md ex_struct_json = Ok fc \<and> cls_wf fc"
proof -
  have "case actf_fld_cls_parse 9 json_lib ex_md ex_struct_json of Ok x \<Rightarrow> True | Err e \<Rightarrow> False | Undef \<Rightarrow> False | Loop \<Rightarrow> False"
    by code_simp
  from ok_case [OF this] show ?thesis using parsed_class_wf [OF ex_md_aliases, of 9 json_lib ex_struct_json] by blast
qed

lemma disjoint_optsD:
  assumes "disjoint_opts opts" "i < length opts" "x \<in> rng_set_ints (o_rng_set (opts ! i))"
    "j < length opts" "x \<in> rng_set_ints (o_rng_set (opts ! j))"
  shows "i = j"
  using assms unfolding disjoint_opts_def by (cases i j rule: linorder_cases) blast+

text \<open>
  C31. A variant that was parsed has at most one option for a selector: whatever the order of the
  options, a selector that one of them contains takes this option.
\<close>

theorem parsed_variant_option_unique:
  assumes "aliases_wf md" "actf_fld_cls_parse n J md fc_jobj = Ok (ACTF_FLD_CLS_VARIANT opts loc)"
    "f_type f \<in> {ACTF_FLD_TYPE_SINT, ACTF_FLD_TYPE_UINT}"
    "i < length opts" "sel_int f \<in> rng_set_ints (o_rng_set (opts ! i))"
  shows "variant_select opts f d = (Ok i, d)"
proof -
  have wf: "disjoint_opts opts"
    using wf_parserD [OF fld_cls_parse_wf [OF assms(1)] assms(2)] by simp
  have "filter (\<lambda>k. sel_int f \<in> rng_set_ints (o_rng_set (opts ! k))) [0..<length opts] = [i]"
    using assms(4,5) disjoint_optsD [OF wf] by (intro filter_unique) auto
  then show ?thesis using assms(3) by (simp add: variant_select_filter)
qed

text \<open>A selector field of value 7.\<close>

definition ex_sel :: actf_fld where
  "ex_sel = zero_fld\<lparr>f_type := ACTF_FLD_TYPE_UINT, f_d := D_uint 7 8\<rparr>"

theorem parsed_variant_option_unique_witness:
  "\<exists>opts loc. actf_fld_cls_parse 9 json_lib ex_md ex_variant_json = Ok (ACTF_FLD_CLS_VARIANT opts loc) \<and>
     (\<forall>d. variant_select opts ex_sel d = (Ok 1, d))"
proof -
  have "case actf_fld_cls_parse 9 json_lib ex_md ex_variant_json of
      Ok (ACTF_FLD_CLS_VARIANT opts loc) \<Rightarrow>
        map o_rng_set opts = [RNG_UINT [\<lparr>u_lower = 0, u_upper = 4\<rparr>], RNG_UINT [\<lparr>u_lower = 5, u_upper = 9\<rparr>]]
    | _ \<Rightarrow> False" by code_simp
  then obtain opts loc where p: "actf_fld_cls_parse 9 json_lib ex_md ex_variant_json = Ok (ACTF_FLD_CLS_VARIANT opts loc)"
    and r: "map o_rng_set opts = [RNG_UINT [\<lparr>u_lower = 0, u_upper = 4\<rparr>], RNG_UINT [\<lparr>u_lower = 5, u_upper = 9\<rparr>]]"
    by (simp split: res.splits actf_fld_cls.splits)
  have l: "length opts = 2" using arg_cong [OF r, of length] by simp
  have "o_rng_set (opts ! 1) = RNG_UINT [\<lparr>u_lower = 5, u_upper = 9\<rparr>]"
    using arg_cong [OF r, of "\<lambda>xs. xs ! 1"] l by simp
  then have "sel_int ex_sel \<in> rng_set_ints (o_rng_set (opts ! 1))" by (simp add: ex_sel_def sel_int_def rng_set_ints_def urng_ints_def)
  then have "variant_select opts ex_sel d = (Ok 1, d)" for d
    using l parsed_variant_option_unique [OF ex_md_aliases p, of ex_sel 1 d] by (simp add: ex_sel_def)
  then show ?thesis using p by blast
qed

section \<open>User data\<close>

text \<open>
  C32. The conversion of a JSON value to a field returns for every value: with the fields and
  classes that mirror the value, or with \<open>ACTF_OOM\<close> when an allocation failed. The internal
  errors for a class that does not fit its value are never reported. A value is mirrored by its
  content; an object becomes a structure with its keys as the names of the members; an array
  becomes a structure whose members are all named \<open>lu\<close>. The last is not what the code means to
  do: the comment in \<open>fld_cls_from_json\<close> says that the members are named after the index, like 0
  and 1, but \<open>uitoa\<close> gives \<open>snprintf\<close> a format without a percent sign.
\<close>

theorem ctfjson_converts_every_value:
  assumes "json_rank J r" "r jobj < n"
  shows "(\<exists>f. ctfjson_init n J jobj = Ok f \<and> mirrors J (\<lambda>i. ''lu'') jobj f) \<or>
    ctfjson_init n J jobj = Err ACTF_OOM \<and> (\<exists>k. \<not> malloc_ok J k)"
  using ctfjson_init_returns [OF assms] ctfjson_init_oom [of J n jobj]
    ctfjson_init_mirrors [of n J jobj, unfolded uitoa_def [abs_def] PRIu64_def]
  by (cases "ctfjson_init n J jobj") simp_all

theorem ctfjson_converts_every_value_witness:
  "\<exists>f. ctfjson_init 3 json_lib ex_doc_json = Ok f \<and> mirrors json_lib (\<lambda>i. ''lu'') ex_doc_json f"
proof -
  have "json_depth ex_doc_json < 3" "\<forall>k. malloc_ok json_lib k" by (simp_all add: ex_doc_json_def json_lib_def)
  then show ?thesis using ctfjson_converts_every_value [OF json_depth_rank, of ex_doc_json 3] by blast
qed

section \<open>Metadata\<close>

text \<open>
  C30. Whatever texts are parsed into new metadata, in any number of calls and with any outcome, the
  metadata satisfies its invariant: aliases and clock classes have distinct names, stored classes
  are well-formed structures that passed the role checks, clock and data stream references are in
  range and resolve to the class with the given identifier, and the maps of identifiers are
  consistent.
\<close>

theorem metadata_invariant:
  assumes "actf_metadata_init J = Some md"
  shows "md_ok (fold (\<lambda>(tok, str) md. snd (actf_metadata_nparse n J tok_parse tok_continue tok str md)) strs md)"
proof -
  have "md_ok md \<Longrightarrow> md_ok (fold (\<lambda>(tok, str) md. snd (actf_metadata_nparse n J tok_parse tok_continue tok str md)) strs md)" for md
    by (induction strs arbitrary: md) (auto intro: nparse_ok)
  then show ?thesis using init_ok [OF assms] by blast
qed

theorem metadata_invariant_witness:
  "actf_metadata_init json_lib = Some ex_md \<and>
   fst (actf_metadata_nparse 9 json_lib ex_tok (\<lambda>k. False) () [30, 1, 30, 2, 30, 3] ex_md) = Ok () \<and>
   md_ok (snd (actf_metadata_nparse 9 json_lib ex_tok (\<lambda>k. False) () [30, 1, 30, 2, 30, 3] ex_md))"
proof -
  have i: "actf_metadata_init json_lib = Some ex_md" by code_simp
  moreover have "fst (actf_metadata_nparse 9 json_lib ex_tok (\<lambda>k. False) () [30, 1, 30, 2, 30, 3] ex_md) = Ok ()"
    by code_simp
  ultimately show ?thesis
    using metadata_invariant [OF i, of 9 ex_tok "\<lambda>k. False" "[((), [30, 1, 30, 2, 30, 3])]"] by simp
qed

section \<open>Mappings of negative values\<close>

definition ex_negative_json :: json where
  "ex_negative_json = JObj [(''type'', JStr ''fixed-length-signed-integer''), (''length'', JInt 16),
     (''byte-order'', JStr ''big-endian''),
     (''mappings'', JObj [(''low'', ex_range_json (- 10) (- 10)), (''mid'', ex_range_json (- 5) (- 5)),
        (''top'', ex_range_json (- 1) (- 1))])]"

text \<open>
  The maximum of a missing subtree is 0, which is above every negative bound. A parsed signed
  integer class with a mapping for each of -10, -5 and -1 has no name for -1, although a mapping
  contains it.
\<close>

lemma negative_mapping_not_found:
  "case actf_fld_cls_parse 9 json_lib ex_md ex_negative_json of
     Ok (ACTF_FLD_CLS_FXD_LEN_SINT i b r) \<Rightarrow>
       actf_mappings_find_first_sint (ic_maps i) (- 1) = Ok (None, None) \<and>
       actf_mappings_find_first_sint (ic_maps i) (- 5) = Ok (Some ''mid'', Some 2)
   | _ \<Rightarrow> False"
  by code_simp

end
