(* ===== verification/Ptr_Tree.thy ===== *)
theory Ptr_Tree
  imports Rb_Tree
begin

text \<open>
  The shape of a tree in memory. An address tree lists the cells of a tree; \<open>tree_at\<close> states that
  the child and parent pointers of these cells link them that way. A position in a tree is an
  address tree in a context, the list of frames from the position to the root. Moving up or down
  is an equivalence of positions, so that the operations of the tree, which work around one
  position, are described on it.
\<close>

section \<open>Address trees and contexts\<close>

datatype atree = Lf | Nd atree nat atree

fun aroot :: "atree \<Rightarrow> nat" where
  "aroot Lf = rbt_nil"
| "aroot (Nd l a r) = a"

fun addrs :: "atree \<Rightarrow> nat list" where
  "addrs Lf = []"
| "addrs (Nd l a r) = addrs l @ a # addrs r"

text \<open>The node with a given subtree on one side and the other on the opposite side.\<close>

fun node :: "rb_dir \<Rightarrow> atree \<Rightarrow> nat \<Rightarrow> atree \<Rightarrow> atree" where
  "node RB_LEFT s a s' = Nd s a s'"
| "node RB_RIGHT s a s' = Nd s' a s"

type_synonym frame = "rb_dir \<times> nat \<times> atree"

fun ctx_addr :: "frame list \<Rightarrow> nat" where
  "ctx_addr [] = rbt_nil"
| "ctx_addr ((d, a, s) # C) = a"

fun ctx_addrs :: "frame list \<Rightarrow> nat list" where
  "ctx_addrs [] = []"
| "ctx_addrs ((d, a, s) # C) = a # addrs s @ ctx_addrs C"

fun plug :: "atree \<Rightarrow> frame list \<Rightarrow> atree" where
  "plug T [] = T"
| "plug T ((d, a, s) # C) = plug (node d T a s) C"

text \<open>The addresses before and behind the position, in order.\<close>

fun ctx_before :: "frame list \<Rightarrow> nat list" where
  "ctx_before [] = []"
| "ctx_before ((RB_LEFT, a, s) # C) = ctx_before C"
| "ctx_before ((RB_RIGHT, a, s) # C) = ctx_before C @ addrs s @ [a]"

fun ctx_behind :: "frame list \<Rightarrow> nat list" where
  "ctx_behind [] = []"
| "ctx_behind ((RB_LEFT, a, s) # C) = a # addrs s @ ctx_behind C"
| "ctx_behind ((RB_RIGHT, a, s) # C) = ctx_behind C"

section \<open>Trees in memory\<close>

definition cell_ok :: "'d rb_tree \<Rightarrow> nat \<Rightarrow> bool" where
  "cell_ok t a \<longleftrightarrow> a \<noteq> rbt_nil \<and> a < length (rb_mem t)"

fun tree_at :: "'d rb_tree \<Rightarrow> nat \<Rightarrow> atree \<Rightarrow> bool" where
  "tree_at t p Lf \<longleftrightarrow> True"
| "tree_at t p (Nd l a r) \<longleftrightarrow>
     cell_ok t a \<and> RB_P t a = p \<and> rb_c t RB_LEFT a = aroot l \<and> rb_c t RB_RIGHT a = aroot r \<and>
     tree_at t a l \<and> tree_at t a r"

fun ctx_at :: "'d rb_tree \<Rightarrow> nat \<Rightarrow> frame list \<Rightarrow> bool" where
  "ctx_at t x [] \<longleftrightarrow> rb_root t = x"
| "ctx_at t x ((d, a, s) # C) \<longleftrightarrow>
     cell_ok t a \<and> RB_P t a = ctx_addr C \<and> rb_c t d a = x \<and> rb_c t (FLIP d) a = aroot s \<and>
     tree_at t a s \<and> ctx_at t a C"

definition zip_at :: "'d rb_tree \<Rightarrow> atree \<Rightarrow> frame list \<Rightarrow> bool" where
  "zip_at t T C \<longleftrightarrow>
     tree_at t (ctx_addr C) T \<and> ctx_at t (aroot T) C \<and> distinct (addrs T @ ctx_addrs C)"

section \<open>Lemmas on shapes\<close>

lemma FLIP_simps [simp]: "FLIP (FLIP d) = d" "FLIP d \<noteq> d" "d \<noteq> FLIP d"
  by (cases d; simp)+

lemma dir_cases: "d' = d \<or> d' = FLIP d"
  by (cases d; cases d') simp_all

lemma aroot_node [simp]: "aroot (node d s a s') = a"
  by (cases d) simp_all

lemma set_addrs_node [simp]: "set (addrs (node d s a s')) = insert a (set (addrs s) \<union> set (addrs s'))"
  by (cases d) auto

lemma distinct_addrs_node [simp]:
  "distinct (addrs (node d s a s')) \<longleftrightarrow>
     distinct (addrs s) \<and> distinct (addrs s') \<and> a \<notin> set (addrs s) \<and> a \<notin> set (addrs s') \<and>
     set (addrs s) \<inter> set (addrs s') = {}"
  by (cases d) auto

lemma tree_at_node [simp]:
  "tree_at t p (node d s a s') \<longleftrightarrow>
     cell_ok t a \<and> RB_P t a = p \<and> rb_c t d a = aroot s \<and> rb_c t (FLIP d) a = aroot s' \<and>
     tree_at t a s \<and> tree_at t a s'"
  by (cases d) auto

lemma addrs_plug: "addrs (plug T C) = ctx_before C @ addrs T @ ctx_behind C"
proof (induction T C rule: plug.induct)
  case (2 T d a s C)
  then show ?case by (cases d) simp_all
qed simp

lemma node_FLIP: "node (FLIP d) s a s' = node d s' a s"
  by (cases d) simp_all

lemma node_exhaust: "T \<noteq> Lf \<Longrightarrow> \<exists>s s'. T = node d s (aroot T) s'"
  by (cases T; cases d) auto

lemma addrs_rotate: "addrs (node d (node d A x B) y D) = addrs (node d A x (node d B y D))"
  by (cases d) simp_all

lemma addrs_plug_cong: "addrs T = addrs T' \<Longrightarrow> addrs (plug T C) = addrs (plug T' C)"
  by (simp add: addrs_plug)

lemma zip_at_down: "zip_at t (node d s a s') C \<longleftrightarrow> zip_at t s ((d, a, s') # C)"
  by (auto simp: zip_at_def)

lemma zip_at_plug: "zip_at t T C \<longleftrightarrow> zip_at t (plug T C) []"
  by (induction T C rule: plug.induct) (simp_all add: zip_at_down)

lemma aroot_mem: "T \<noteq> Lf \<Longrightarrow> aroot T \<in> set (addrs T)"
  by (cases T) simp_all

lemma tree_at_cells: "tree_at t p T \<Longrightarrow> a \<in> set (addrs T) \<Longrightarrow> cell_ok t a"
  by (induction T arbitrary: p) auto

lemma ctx_at_cells: "ctx_at t x C \<Longrightarrow> a \<in> set (ctx_addrs C) \<Longrightarrow> cell_ok t a"
  by (induction t x C rule: ctx_at.induct) (auto dest: tree_at_cells)

lemma zip_at_cells: "zip_at t T C \<Longrightarrow> a \<in> set (addrs T) \<union> set (ctx_addrs C) \<Longrightarrow> cell_ok t a"
  by (auto simp: zip_at_def dest: tree_at_cells ctx_at_cells)

lemma aroot_nil: "tree_at t p T \<Longrightarrow> aroot T = rbt_nil \<longleftrightarrow> T = Lf"
  by (cases T) (auto simp: cell_ok_def)

section \<open>Reading behind writes\<close>

lemma rb_cell_upd: "cell_ok t x \<Longrightarrow> rb_cell (upd_cell x f t) z = (if z = x then f (rb_cell t x) else rb_cell t z)"
  by (auto simp: upd_cell_def rb_cell_def cell_ok_def)

lemma upd_cell_simps [simp]:
  "length (rb_mem (upd_cell x f t)) = length (rb_mem t)" "rb_root (upd_cell x f t) = rb_root t"
  "rb_cb_set (upd_cell x f t) = rb_cb_set t"
  by (simp_all add: upd_cell_def)

lemma writes_keep [simp]:
  "length (rb_mem (set_c d x c t)) = length (rb_mem t)" "rb_root (set_c d x c t) = rb_root t" "rb_cb_set (set_c d x c t) = rb_cb_set t"
  "length (rb_mem (SET_P x c t)) = length (rb_mem t)" "rb_root (SET_P x c t) = rb_root t" "rb_cb_set (SET_P x c t) = rb_cb_set t"
  "length (rb_mem (SET_COLOR x b t)) = length (rb_mem t)" "rb_root (SET_COLOR x b t) = rb_root t" "rb_cb_set (SET_COLOR x b t) = rb_cb_set t"
  by (cases d; simp add: set_c_def SET_P_def SET_COLOR_def)+

lemma cell_ok_upd [simp]:
  "cell_ok (upd_cell x f t) a = cell_ok t a" "cell_ok (set_c d x c t) a = cell_ok t a"
  "cell_ok (SET_P x c t) a = cell_ok t a" "cell_ok (SET_COLOR x b t) a = cell_ok t a"
  "cell_ok (t\<lparr>rb_root := r\<rparr>) a = cell_ok t a"
  by (simp_all add: cell_ok_def)

lemma set_root_reads [simp]:
  "rb_cell (t\<lparr>rb_root := r\<rparr>) z = rb_cell t z" "rb_c (t\<lparr>rb_root := r\<rparr>) d z = rb_c t d z"
  "rb_cell (t\<lparr>rb_cb_set := b\<rparr>) z = rb_cell t z" "rb_c (t\<lparr>rb_cb_set := b\<rparr>) d z = rb_c t d z"
  by (cases d; simp add: rb_cell_def rb_c_def)+

lemma set_c_reads [simp]:
  assumes "cell_ok t x"
  shows "rb_c (set_c d x c t) d' z = (if z = x \<and> d' = d then c else rb_c t d' z)"
    "RB_P (set_c d x c t) z = RB_P t z" "RB_COLOR (set_c d x c t) z = RB_COLOR t z"
    "n_data (rb_cell (set_c d x c t) z) = n_data (rb_cell t z)"
  using assms by (cases d; cases d'; simp add: set_c_def rb_c_def rb_cell_upd)+

lemma SET_P_reads [simp]:
  assumes "cell_ok t x"
  shows "rb_c (SET_P x c t) d z = rb_c t d z" "RB_P (SET_P x c t) z = (if z = x then c else RB_P t z)"
    "RB_COLOR (SET_P x c t) z = RB_COLOR t z" "n_data (rb_cell (SET_P x c t) z) = n_data (rb_cell t z)"
  using assms by (cases d; simp add: SET_P_def rb_c_def rb_cell_upd)+

lemma SET_COLOR_reads [simp]:
  assumes "cell_ok t x"
  shows "rb_c (SET_COLOR x b t) d z = rb_c t d z" "RB_P (SET_COLOR x b t) z = RB_P t z"
    "RB_COLOR (SET_COLOR x b t) z = (if z = x then b else RB_COLOR t z)"
    "n_data (rb_cell (SET_COLOR x b t) z) = n_data (rb_cell t z)"
  using assms by (cases d; simp add: SET_COLOR_def rb_c_def rb_cell_upd)+

section \<open>Frames\<close>

text \<open>A tree and a context depend on the links of their own cells only.\<close>

definition same_links :: "nat set \<Rightarrow> 'd rb_tree \<Rightarrow> 'd rb_tree \<Rightarrow> bool" where
  "same_links A t t' \<longleftrightarrow>
     length (rb_mem t') = length (rb_mem t) \<and> (\<forall>a \<in> A. RB_P t' a = RB_P t a \<and> (\<forall>d. rb_c t' d a = rb_c t d a))"

lemma same_links_mono: "same_links A t t' \<Longrightarrow> B \<subseteq> A \<Longrightarrow> same_links B t t'"
  by (auto simp: same_links_def)

lemma same_links_cell_ok: "same_links A t t' \<Longrightarrow> cell_ok t' a = cell_ok t a"
  by (simp add: same_links_def cell_ok_def)

lemma tree_at_frame: "same_links (set (addrs T)) t t' \<Longrightarrow> tree_at t p T \<Longrightarrow> tree_at t' p T"
proof (induction T arbitrary: p)
  case (Nd l a r)
  then have "same_links (set (addrs l)) t t'" "same_links (set (addrs r)) t t'"
    by (auto elim: same_links_mono)
  then show ?case using Nd by (auto simp: same_links_def cell_ok_def)
qed simp

lemma ctx_at_frame: "same_links (set (ctx_addrs C)) t t' \<Longrightarrow> rb_root t' = rb_root t \<Longrightarrow> ctx_at t x C \<Longrightarrow> ctx_at t' x C"
proof (induction t x C rule: ctx_at.induct)
  case (2 t x d a s C)
  then have "same_links (set (addrs s)) t t'" "same_links (set (ctx_addrs C)) t t'"
    by (auto elim: same_links_mono)
  then show ?case using 2 by (auto simp: same_links_def cell_ok_def intro: tree_at_frame [rotated])
qed simp

lemma zip_at_frame:
  "same_links (set (addrs T) \<union> set (ctx_addrs C)) t t' \<Longrightarrow> rb_root t' = rb_root t \<Longrightarrow> zip_at t T C \<Longrightarrow> zip_at t' T C"
  unfolding zip_at_def by (auto intro: tree_at_frame ctx_at_frame elim: same_links_mono)

text \<open>A subtree that is hung below another node.\<close>

lemma tree_at_reparent:
  assumes "tree_at t p T" "same_links (set (addrs T) - {aroot T}) t t'" "length (rb_mem t') = length (rb_mem t)"
    "distinct (addrs T)"
    "T \<noteq> Lf \<Longrightarrow> RB_P t' (aroot T) = p' \<and> (\<forall>d. rb_c t' d (aroot T) = rb_c t d (aroot T))"
  shows "tree_at t' p' T"
proof (cases T)
  case (Nd l a r)
  have "same_links (set (addrs l)) t t'" "same_links (set (addrs r)) t t'"
    using assms(2,4) Nd by (auto elim!: same_links_mono)
  then show ?thesis using assms Nd by (auto simp: cell_ok_def intro: tree_at_frame)
qed simp

text \<open>A context whose hole gets another tree.\<close>

lemma ctx_at_fill:
  assumes "ctx_at t x C" "same_links (set (ctx_addrs C) - {ctx_addr C}) t t'" "length (rb_mem t') = length (rb_mem t)"
    "distinct (ctx_addrs C)" "C = [] \<Longrightarrow> rb_root t' = y" "C \<noteq> [] \<Longrightarrow> rb_root t' = rb_root t"
    "\<And>d a s C'. C = (d, a, s) # C' \<Longrightarrow> RB_P t' a = RB_P t a \<and> rb_c t' d a = y \<and> rb_c t' (FLIP d) a = rb_c t (FLIP d) a"
  shows "ctx_at t' y C"
proof (cases C)
  case (Cons f C')
  obtain d a s where f: "f = (d, a, s)" by (cases f)
  have "same_links (set (addrs s)) t t'" "same_links (set (ctx_addrs C')) t t'"
    using assms(2,4) Cons f by (auto elim!: same_links_mono)
  then show ?thesis using assms Cons f by (auto simp: cell_ok_def intro: tree_at_frame ctx_at_frame)
qed (use assms in simp)

section \<open>Rotations\<close>

text \<open>The links of a rotation, without the callbacks.\<close>

definition rotate_links :: "nat \<Rightarrow> rb_dir \<Rightarrow> 'd rb_tree \<Rightarrow> 'd rb_tree" where
  "rotate_links x dir t =
     (let y = rb_c t (FLIP dir) x;
          b = rb_c t dir y;
          p = RB_P t x;
          t1 = set_c (FLIP dir) x b t;
          t2 = (if b \<noteq> rbt_nil then SET_P b x t1 else t1);
          t3 = SET_P y p t2;
          t4 = (if p \<noteq> rbt_nil then
                  if rb_c t3 dir p = x then set_c dir p y t3 else set_c (FLIP dir) p y t3
                else t3\<lparr>rb_root := y\<rparr>)
      in SET_P x y (set_c dir y x t4))"

lemma rotate_tree_links:
  assumes "cell_ok t x" "rb_c t dir (rb_c t (FLIP dir) x) = rbt_nil \<or> cell_ok t (rb_c t dir (rb_c t (FLIP dir) x))"
    "x \<noteq> rb_c t dir (rb_c t (FLIP dir) x)" "cell_ok t (rb_c t (FLIP dir) x)" "rb_c t (FLIP dir) x \<noteq> x"
  shows "rotate_tree cb x dir t =
    reorder_cb cb (rb_c t (FLIP dir) x) (reorder_cb cb x (rotate_links x dir t))"
  using assms unfolding rotate_tree_def rotate_links_def Let_def by auto

lemma rotate_links_at:
  assumes z: "zip_at t (node dir A x (node dir B y D)) C"
  shows "zip_at (rotate_links x dir t) (node dir (node dir A x B) y D) C"
    "RB_COLOR (rotate_links x dir t) a = RB_COLOR t a" "n_data (rb_cell (rotate_links x dir t) a) = n_data (rb_cell t a)"
    "rb_cb_set (rotate_links x dir t) = rb_cb_set t" "length (rb_mem (rotate_links x dir t)) = length (rb_mem t)"
proof -
  let ?t = "rotate_links x dir t" and ?b = "aroot B" and ?p = "ctx_addr C"
  have links: "rb_c t (FLIP dir) x = y" "rb_c t dir y = ?b" "RB_P t x = ?p" using z by (simp_all add: zip_at_def)
  have cells: "cell_ok t x" "cell_ok t y" "?b \<noteq> rbt_nil \<longrightarrow> cell_ok t ?b" "?p \<noteq> rbt_nil \<longrightarrow> cell_ok t ?p"
    using z zip_at_cells [OF z] by (cases B; cases C; force simp: zip_at_def)+
  have ne: "x \<noteq> y" "?b \<noteq> x" "?b \<noteq> y" "?p \<noteq> x" "?p \<noteq> y" "?b \<noteq> rbt_nil \<longrightarrow> ?p \<noteq> ?b"
    using z by (cases B; cases C; force simp: zip_at_def cell_ok_def)+
  show c: "RB_COLOR ?t a = RB_COLOR t a" "n_data (rb_cell ?t a) = n_data (rb_cell t a)"
    "rb_cb_set ?t = rb_cb_set t" "length (rb_mem ?t) = length (rb_mem t)" for a
    using cells by (simp_all add: rotate_links_def Let_def links)
  have P: "RB_P ?t a = (if a = x then y else if a = y then ?p else if a = ?b \<and> ?b \<noteq> rbt_nil then x else RB_P t a)" for a
    using cells ne by (auto simp: rotate_links_def Let_def links)
  have ch: "rb_c ?t d a = (if a = x \<and> d = FLIP dir then ?b else if a = y \<and> d = dir then x
      else if a = ?p \<and> ?p \<noteq> rbt_nil \<and> d = (if rb_c t dir ?p = x then dir else FLIP dir) then y else rb_c t d a)" for d a
    using cells ne by (auto simp: rotate_links_def Let_def links)
  have root: "rb_root ?t = (if ?p = rbt_nil then y else rb_root t)"
    by (simp add: rotate_links_def Let_def links)
  have dist: "distinct (addrs A)" "distinct (addrs B)" "distinct (addrs D)" "distinct (ctx_addrs C)"
    "set (addrs A) \<inter> {x, y} = {}" "set (addrs B) \<inter> {x, y} = {}" "set (addrs D) \<inter> {x, y} = {}"
    "set (ctx_addrs C) \<inter> {x, y} = {}" "set (addrs A) \<inter> set (addrs B) = {}" "set (addrs D) \<inter> set (addrs B) = {}"
    "set (ctx_addrs C) \<inter> (set (addrs A) \<union> set (addrs B) \<union> set (addrs D)) = {}"
    using z by (auto simp: zip_at_def)
  have p: "?p \<noteq> rbt_nil \<Longrightarrow> ?p \<in> set (ctx_addrs C)" by (cases C) auto
  have b: "?b \<noteq> rbt_nil \<Longrightarrow> ?b \<in> set (addrs B)" by (cases B) auto
  have same: "same_links S t ?t" if "S \<inter> {x, y} = {}" "?b \<noteq> rbt_nil \<Longrightarrow> ?b \<notin> S" "?p \<noteq> rbt_nil \<Longrightarrow> ?p \<notin> S" for S
    using that c(4) by (auto simp: same_links_def P ch)
  have "tree_at ?t x A" "tree_at ?t y D"
    using z dist p b by (auto simp: zip_at_def intro!: tree_at_frame [OF same])
  moreover have "tree_at ?t x B"
  proof (rule tree_at_reparent [where t = t and p = y])
    show "same_links (set (addrs B) - {?b}) t ?t" using dist p by (intro same) auto
    show "RB_P ?t ?b = x \<and> (\<forall>d. rb_c ?t d ?b = rb_c t d ?b)" if "B \<noteq> Lf"
      using that aroot_nil [of t y B] ne z by (auto simp: P ch zip_at_def)
  qed (use z dist c(4) in \<open>auto simp: zip_at_def\<close>)
  moreover have "ctx_at ?t y C"
  proof (rule ctx_at_fill [where t = t and x = x])
    show "same_links (set (ctx_addrs C) - {?p}) t ?t" using dist b by (intro same) auto
    show "RB_P ?t a = RB_P t a \<and> rb_c ?t d a = y \<and> rb_c ?t (FLIP d) a = rb_c t (FLIP d) a" if "C = (d, a, s) # C'" for d a s C'
    proof -
      have a: "rb_c t d a = x" "rb_c t (FLIP d) a = aroot s" "a \<noteq> rbt_nil" "aroot s \<noteq> x"
        using z that by (cases s; auto simp: zip_at_def cell_ok_def)+
      moreover have "?p = a" using that by simp
      moreover from this have "a \<noteq> x" "a \<noteq> y" "?b \<noteq> rbt_nil \<longrightarrow> a \<noteq> ?b" using ne by simp_all
      ultimately show ?thesis by (cases "d = dir") (use dir_cases [of d dir] in \<open>auto simp: P ch\<close>)
    qed
    show "C = [] \<Longrightarrow> rb_root ?t = y" "C \<noteq> [] \<Longrightarrow> rb_root ?t = rb_root t"
      using root z by (cases C; auto simp: zip_at_def cell_ok_def)+
  qed (use z dist c(4) in \<open>auto simp: zip_at_def\<close>)
  moreover have "cell_ok ?t x" "cell_ok ?t y" using cells c(4) by (simp_all add: cell_ok_def)
  ultimately show "zip_at ?t (node dir (node dir A x B) y D) C"
    using z ne dist by (auto simp: zip_at_def P ch)
qed

text \<open>The grandparent as the rebalancing computes it.\<close>

lemma grandparent:
  assumes z: "zip_at t T ((d1, p, s) # (d2, g, u) # C)" "T \<noteq> Lf"
  shows "RB_P t (aroot T) = p" "RB_P t p = g" "(if p = rb_c t RB_LEFT g then RB_LEFT else RB_RIGHT) = d2"
    "rb_c t (FLIP d2) g = aroot u" "aroot T = rb_c t (FLIP d2) p \<longleftrightarrow> d1 = FLIP d2"
    "cell_ok t (aroot T)" "cell_ok t p" "cell_ok t g" "p \<noteq> g"
proof -
  show "RB_P t (aroot T) = p" "RB_P t p = g" "rb_c t (FLIP d2) g = aroot u" "p \<noteq> g"
    using z by (cases T; auto simp: zip_at_def)+
  show c: "cell_ok t (aroot T)" "cell_ok t p" "cell_ok t g" using z aroot_mem zip_at_cells [OF z(1)] by auto
  have "aroot u \<noteq> p" using z c by (cases u) (auto simp: zip_at_def cell_ok_def)
  then show "(if p = rb_c t RB_LEFT g then RB_LEFT else RB_RIGHT) = d2"
    using z by (cases d2) (auto simp: zip_at_def)
  have "aroot s \<noteq> aroot T" using z c aroot_mem [OF z(2)] by (cases s) (auto simp: zip_at_def cell_ok_def)
  then show "aroot T = rb_c t (FLIP d2) p \<longleftrightarrow> d1 = FLIP d2"
    using z dir_cases [of d1 "d2"] by (auto simp: zip_at_def)
qed

end
