(* ===== verification/Rb_Insert.thy ===== *)
theory Rb_Insert
  imports Ptr_Tree
begin

text \<open>
  The insertion into the red-black tree. \<open>rbt_ok t T k\<close> states the rules of rb_tree.c for a
  subtree: a red node has no red child, and every path to a leaf has \<open>k\<close> black nodes. The loop of
  the rebalancing keeps them everywhere but between the current node and its parent. What the
  callback maintains is an argument of the locale: an invariant \<open>I\<close> of the data at a position that
  a rotation followed by the callbacks keeps.
\<close>

section \<open>Colours\<close>

fun rb_red :: "'d rb_tree \<Rightarrow> atree \<Rightarrow> bool" where
  "rb_red t Lf \<longleftrightarrow> False"
| "rb_red t (Nd l a r) \<longleftrightarrow> RB_COLOR t a"

fun rbt_ok :: "'d rb_tree \<Rightarrow> atree \<Rightarrow> nat \<Rightarrow> bool" where
  "rbt_ok t Lf k \<longleftrightarrow> k = 0"
| "rbt_ok t (Nd l a r) k \<longleftrightarrow>
     (if RB_COLOR t a then \<not> rb_red t l \<and> \<not> rb_red t r \<and> rbt_ok t l k \<and> rbt_ok t r k
      else k \<noteq> 0 \<and> rbt_ok t l (k - 1) \<and> rbt_ok t r (k - 1))"

text \<open>A context around a subtree with \<open>k\<close> black nodes on its paths; the root is black.\<close>

fun ctx_ok :: "'d rb_tree \<Rightarrow> frame list \<Rightarrow> nat \<Rightarrow> bool" where
  "ctx_ok t [] k \<longleftrightarrow> True"
| "ctx_ok t ((d, a, s) # C) k \<longleftrightarrow>
     rbt_ok t s k \<and>
     (if RB_COLOR t a then \<not> rb_red t s \<and> C \<noteq> [] \<and> \<not> RB_COLOR t (ctx_addr C) \<and> ctx_ok t C k
      else ctx_ok t C (Suc k))"

lemma rb_red_node [simp]: "rb_red t (node d s a s') = RB_COLOR t a"
  by (cases d) simp_all

lemma rbt_ok_node [simp]:
  "rbt_ok t (node d s a s') k \<longleftrightarrow>
     (if RB_COLOR t a then \<not> rb_red t s \<and> \<not> rb_red t s' \<and> rbt_ok t s k \<and> rbt_ok t s' k
      else k \<noteq> 0 \<and> rbt_ok t s (k - 1) \<and> rbt_ok t s' (k - 1))"
  by (cases d) auto

lemma colour_frame:
  assumes "\<And>a. a \<in> set (addrs T) \<Longrightarrow> RB_COLOR t' a = RB_COLOR t a"
  shows "rb_red t' T = rb_red t T" "rbt_ok t' T k = rbt_ok t T k"
proof -
  show "rb_red t' T = rb_red t T" using assms by (cases T) simp_all
  show "rbt_ok t' T k = rbt_ok t T k" using assms
  proof (induction T arbitrary: k)
    case (Nd l a r)
    have "rb_red t' l = rb_red t l" "rb_red t' r = rb_red t r" using Nd.prems by (cases l; cases r; simp)+
    then show ?case using Nd by simp
  qed simp
qed

lemma ctx_colour_frame:
  assumes "\<And>a. a \<in> set (ctx_addrs C) \<Longrightarrow> RB_COLOR t' a = RB_COLOR t a"
  shows "ctx_ok t' C k = ctx_ok t C k"
  using assms
proof (induction t C k rule: ctx_ok.induct)
  case (2 t d a s C k)
  have "rb_red t' s = rb_red t s" "rbt_ok t' s k = rbt_ok t s k"
    using 2 by (auto intro!: colour_frame)
  moreover have "C \<noteq> [] \<Longrightarrow> RB_COLOR t' (ctx_addr C) = RB_COLOR t (ctx_addr C)"
    using 2(3) by (cases C) auto
  ultimately show ?case using 2 by auto
qed simp

text \<open>A position without a violation gives a tree without one.\<close>

lemma plug_ok:
  "rbt_ok t T k \<Longrightarrow> ctx_ok t C k \<Longrightarrow> rb_red t T \<longrightarrow> C \<noteq> [] \<and> \<not> RB_COLOR t (ctx_addr C) \<Longrightarrow>
   \<exists>k. rbt_ok t (plug T C) k \<and> \<not> rb_red t (plug T C)"
proof (induction T C arbitrary: k rule: plug.induct)
  case (2 T d a s C)
  define j where "j = (if RB_COLOR t a then k else Suc k)"
  have s: "rbt_ok t s k" "RB_COLOR t a \<Longrightarrow> \<not> rb_red t s \<and> C \<noteq> [] \<and> \<not> RB_COLOR t (ctx_addr C)" "ctx_ok t C j"
    using "2.prems"(2) by (auto simp: j_def)
  have "RB_COLOR t a \<Longrightarrow> \<not> rb_red t T" using "2.prems"(3) by simp
  then have "rbt_ok t (node d T a s) j" using "2.prems"(1) s(1,2) unfolding j_def rbt_ok_node by auto
  then show ?case using "2.IH" [of j] s(2,3) by simp
qed auto

text \<open>One round of the loop, by the names of the nodes around the position.\<close>

lemma rebalance_round:
  assumes "RB_P t x = p" "RB_COLOR t p" "RB_P t p = g" "(if p = rb_c t RB_LEFT g then RB_LEFT else RB_RIGHT) = d"
    "rb_c t (FLIP d) g = uncle" "cell_ok t p" "cell_ok t g"
  shows "RB_COLOR t uncle \<Longrightarrow> cell_ok t uncle \<Longrightarrow> rb_tree_insert_rebalance (Suc n) cb x t =
      rb_tree_insert_rebalance n cb g (SET_COLOR_RED g (SET_COLOR_BLACK uncle (SET_COLOR_BLACK p t)))"
    "\<not> RB_COLOR t uncle \<Longrightarrow> rb_c t (FLIP d) p \<noteq> x \<Longrightarrow> rb_tree_insert_rebalance (Suc n) cb x t =
      rb_tree_insert_rebalance n cb x (rotate_tree cb g (FLIP d) (SET_COLOR_RED g (SET_COLOR_BLACK p t)))"
    "\<not> RB_COLOR t uncle \<Longrightarrow> rb_c t (FLIP d) p = x \<Longrightarrow> t0 = rotate_tree cb p d t \<Longrightarrow>
      RB_P t0 p = x \<Longrightarrow> RB_P t0 x = g \<Longrightarrow> cell_ok t0 x \<Longrightarrow> cell_ok t0 g \<Longrightarrow>
      rb_tree_insert_rebalance (Suc n) cb x t =
      rb_tree_insert_rebalance n cb p (rotate_tree cb g (FLIP d) (SET_COLOR_RED g (SET_COLOR_BLACK x t0)))"
proof -
  show "rb_tree_insert_rebalance (Suc n) cb x t =
      rb_tree_insert_rebalance n cb g (SET_COLOR_RED g (SET_COLOR_BLACK uncle (SET_COLOR_BLACK p t)))"
    if "RB_COLOR t uncle" "cell_ok t uncle"
    using that assms(6,7)
    by (simp only: rb_tree_insert_rebalance.simps assms(1-5) Let_def if_True SET_COLOR_reads cell_ok_upd)
  show "rb_tree_insert_rebalance (Suc n) cb x t =
      rb_tree_insert_rebalance n cb x (rotate_tree cb g (FLIP d) (SET_COLOR_RED g (SET_COLOR_BLACK p t)))"
    if "\<not> RB_COLOR t uncle" "rb_c t (FLIP d) p \<noteq> x"
    using that(1) not_sym [OF that(2)] assms(6,7)
    by (simp only: rb_tree_insert_rebalance.simps assms(1-5) Let_def if_True if_False SET_COLOR_reads cell_ok_upd)
  show "rb_tree_insert_rebalance (Suc n) cb x t =
      rb_tree_insert_rebalance n cb p (rotate_tree cb g (FLIP d) (SET_COLOR_RED g (SET_COLOR_BLACK x t0)))"
    if "\<not> RB_COLOR t uncle" "rb_c t (FLIP d) p = x" "t0 = rotate_tree cb p d t"
      "RB_P t0 p = x" "RB_P t0 x = g" "cell_ok t0 x" "cell_ok t0 g"
    using that(1,2,4-7)
    by (simp only: rb_tree_insert_rebalance.simps assms(1-5) Let_def if_True if_False refl SET_COLOR_reads cell_ok_upd flip: that(3))
qed

section \<open>Rotations with a callback\<close>

locale rb_callback =
  fixes cb :: "'d rb_cb"
    and I :: "'d rb_tree \<Rightarrow> atree \<Rightarrow> frame list \<Rightarrow> bool"
    and pay :: "'d \<Rightarrow> 'p"
  assumes cb_links: "cell_ok t x \<Longrightarrow> same_links UNIV t (cb t x)"
    and cb_rest: "cell_ok t x \<Longrightarrow> rb_root (cb t x) = rb_root t \<and> rb_cb_set (cb t x) = rb_cb_set t"
    and cb_colour: "cell_ok t x \<Longrightarrow> RB_COLOR (cb t x) a = RB_COLOR t a"
    and cb_pay: "cell_ok t x \<Longrightarrow> pay (n_data (rb_cell (cb t x) a)) = pay (n_data (rb_cell t a))"
    and I_data: "(\<And>a. n_data (rb_cell t' a) = n_data (rb_cell t a)) \<Longrightarrow> I t T C \<Longrightarrow> I t' T C"
    and I_move: "I t (node d s a s') C \<longleftrightarrow> I t s ((d, a, s') # C)"
    and I_rotate: "zip_at u (node dir (node dir A x B) y D) C \<Longrightarrow> I t (node dir A x (node dir B y D)) C \<Longrightarrow>
      (\<And>a. n_data (rb_cell u a) = n_data (rb_cell t a)) \<Longrightarrow> I (cb (cb u x) y) (node dir (node dir A x B) y D) C"
begin

definition keeps_pay :: "'d rb_tree \<Rightarrow> 'd rb_tree \<Rightarrow> bool" where
  "keeps_pay t t' \<longleftrightarrow>
     rb_cb_set t' = rb_cb_set t \<and> length (rb_mem t') = length (rb_mem t) \<and>
     (\<forall>a. pay (n_data (rb_cell t' a)) = pay (n_data (rb_cell t a)))"

lemma keeps_pay_trans: "keeps_pay t u \<Longrightarrow> keeps_pay u v \<Longrightarrow> keeps_pay t v"
  by (simp add: keeps_pay_def)

lemma rotate_at:
  assumes z: "zip_at t (node dir A x (node dir B y D)) C" and i: "I t (node dir A x (node dir B y D)) C" and s: "rb_cb_set t"
  shows "zip_at (rotate_tree cb x dir t) (node dir (node dir A x B) y D) C"
    "I (rotate_tree cb x dir t) (node dir (node dir A x B) y D) C"
    "RB_COLOR (rotate_tree cb x dir t) a = RB_COLOR t a" "keeps_pay t (rotate_tree cb x dir t)"
proof -
  let ?u = "rotate_links x dir t"
  note l = rotate_links_at [OF z]
  have y: "rb_c t (FLIP dir) x = y" "rb_c t dir y = aroot B" using z by (simp_all add: zip_at_def)
  have c: "cell_ok t x" "cell_ok t y" "x \<noteq> y" "aroot B = rbt_nil \<or> cell_ok t (aroot B)" "x \<noteq> aroot B"
    using z zip_at_cells [OF z] by (cases B; force simp: zip_at_def cell_ok_def)+
  have cu: "cell_ok ?u x" "cell_ok ?u y" using c l(5) by (simp_all add: cell_ok_def)
  have cx: "cell_ok (cb ?u x) y" using cu cb_links [OF cu(1)] by (simp add: same_links_cell_ok)
  have s': "rb_cb_set ?u" "rb_cb_set (cb ?u x)" using s l(4) cb_rest [OF cu(1)] by simp_all
  have eq: "rotate_tree cb x dir t = cb (cb ?u x) y"
    using rotate_tree_links [of t x dir cb] c y s' by (simp add: reorder_cb_def cell_ok_def)
  have "same_links UNIV ?u (cb (cb ?u x) y)"
    using cb_links [OF cu(1)] cb_links [OF cx] by (simp add: same_links_def)
  moreover have "rb_root (cb (cb ?u x) y) = rb_root ?u" using cb_rest cu(1) cx by simp
  ultimately show "zip_at (rotate_tree cb x dir t) (node dir (node dir A x B) y D) C"
    unfolding eq using zip_at_frame [OF same_links_mono [OF _ subset_UNIV] _ l(1)] by blast
  show "I (rotate_tree cb x dir t) (node dir (node dir A x B) y D) C"
    unfolding eq by (rule I_rotate [OF l(1) i l(3)])
  show "RB_COLOR (rotate_tree cb x dir t) a = RB_COLOR t a"
    unfolding eq using cb_colour cu(1) cx l(2) by simp
  show "keeps_pay t (rotate_tree cb x dir t)"
    unfolding eq keeps_pay_def using cb_pay cb_rest cu(1) cx l(3-5) s s'
      cb_links [OF cu(1)] cb_links [OF cx] by (simp add: same_links_def)
qed

lemma recolour_at:
  assumes "zip_at t T C" "I t T C" "cell_ok t x"
  shows "zip_at (SET_COLOR x b t) T C" "I (SET_COLOR x b t) T C" "keeps_pay t (SET_COLOR x b t)"
proof -
  show "zip_at (SET_COLOR x b t) T C"
    using assms by (intro zip_at_frame [OF _ _ assms(1)]) (simp_all add: same_links_def)
  show "I (SET_COLOR x b t) T C" using assms by (intro I_data [OF _ assms(2)]) simp
  show "keeps_pay t (SET_COLOR x b t)" using assms by (simp add: keeps_pay_def)
qed

lemma I_plug: "I t T C \<longleftrightarrow> I t (plug T C) []"
  by (induction T C rule: plug.induct) (simp_all add: I_move)

text \<open>A red node at a position that obeys the rules but towards its parent.\<close>

definition pos_ok :: "'d rb_tree \<Rightarrow> atree \<Rightarrow> frame list \<Rightarrow> nat \<Rightarrow> bool" where
  "pos_ok t T C k \<longleftrightarrow>
     zip_at t T C \<and> I t T C \<and> rb_cb_set t \<and> \<not> RB_COLOR t rbt_nil \<and> rb_red t T \<and> rbt_ok t T k \<and> ctx_ok t C k"

definition tree_ok :: "'d rb_tree \<Rightarrow> atree \<Rightarrow> bool" where
  "tree_ok t T \<longleftrightarrow>
     zip_at t T [] \<and> I t T [] \<and> (T \<noteq> Lf \<longrightarrow> rb_cb_set t) \<and> \<not> RB_COLOR t rbt_nil \<and> \<not> rb_red t T \<and> (\<exists>k. rbt_ok t T k)"

lemma rebalance_exit:
  assumes ok: "pos_ok t T C k" and black: "C \<noteq> [] \<longrightarrow> \<not> RB_COLOR t (ctx_addr C)"
  shows "tree_ok (SET_COLOR_BLACK (rb_root t) t) (plug T C)" "keeps_pay t (SET_COLOR_BLACK (rb_root t) t)"
proof -
  let ?W = "plug T C" and ?u = "SET_COLOR_BLACK (rb_root t) t"
  have z: "zip_at t ?W []" "I t ?W []" using ok zip_at_plug I_plug by (auto simp: pos_ok_def)
  have ne: "?W \<noteq> Lf"
  proof
    assume "?W = Lf"
    then have "addrs ?W = []" by simp
    then show False using ok by (cases T) (auto simp: addrs_plug pos_ok_def)
  qed
  have r: "rb_root t = aroot ?W" "cell_ok t (rb_root t)"
    using z(1) ne aroot_mem zip_at_cells [OF z(1)] by (auto simp: zip_at_def)
  note rc = recolour_at [OF z r(2), where b = False]
  have k: "\<exists>k. rbt_ok ?u ?W k"
  proof (cases C)
    case Nil
    then obtain l r' where T: "T = Nd l (aroot T) r'" using ok by (cases T) (auto simp: pos_ok_def)
    have "distinct (addrs (Nd l (aroot T) r'))" using z(1) Nil T by (simp add: zip_at_def)
    then have "rbt_ok ?u l k = rbt_ok t l k" "rbt_ok ?u r' k = rbt_ok t r' k"
      using r Nil by (auto intro!: colour_frame split: if_splits)
    moreover have "rbt_ok t (Nd l (aroot T) r') k" "RB_COLOR t (aroot T)" using ok T by (cases T; simp add: pos_ok_def)+
    ultimately have "rbt_ok ?u (Nd l (aroot T) r') (Suc k)" using r Nil by simp
    then show ?thesis using Nil T by auto
  next
    case (Cons f C')
    obtain j where j: "rbt_ok t ?W j" "\<not> rb_red t ?W"
      using plug_ok [of t T k C] ok black Cons by (auto simp: pos_ok_def)
    have "RB_COLOR ?u a = RB_COLOR t a" for a using r j(2) ne by (cases ?W) auto
    then have "rbt_ok ?u ?W j = rbt_ok t ?W j" by (intro colour_frame)
    then show ?thesis using j(1) by blast
  qed
  have "\<not> rb_red ?u ?W" using r ne by (cases ?W) auto
  then show "tree_ok ?u ?W" using k rc ok r by (auto simp: tree_ok_def pos_ok_def)
  show "keeps_pay t ?u" by (rule rc(3))
qed

lemma rebalance_red_uncle:
  assumes ok: "pos_ok t T ((d1, p, s) # (d2, g, u) # C) k" and red: "RB_COLOR t p" "rb_red t u"
    and t1: "t1 = SET_COLOR_RED g (SET_COLOR_BLACK (aroot u) (SET_COLOR_BLACK p t))"
  shows "pos_ok t1 (node d2 (node d1 T p s) g u) C (Suc k)" "keeps_pay t t1"
proof -
  let ?T = "node d2 (node d1 T p s) g u"
  have z: "zip_at t ?T C" "I t ?T C" using ok by (simp_all add: pos_ok_def zip_at_down I_move)
  obtain ul b ur where u: "u = Nd ul b ur" "RB_COLOR t b" using red(2) by (cases u) auto
  have c: "cell_ok t p" "cell_ok t g" "cell_ok t b" using zip_at_cells [OF z(1)] u by auto
  have d: "distinct (addrs T)" "distinct (addrs s)" "distinct (addrs ul)" "distinct (addrs ur)"
    "{p, g, b} \<inter> (set (addrs T) \<union> set (addrs s) \<union> set (addrs ul) \<union> set (addrs ur) \<union> set (ctx_addrs C)) = {}"
    "p \<noteq> g" "b \<noteq> g" "b \<noteq> p"
    using z(1) u(1) by (auto simp: zip_at_def)
  have col: "RB_COLOR t1 a = (if a = g then True else if a = b \<or> a = p then False else RB_COLOR t a)" for a
    unfolding t1 using c u(1) by auto
  note r1 = recolour_at [OF z c(1), where b = False]
  note r2 = recolour_at [OF r1(1,2), where b = False and x = b]
  note r3 = recolour_at [OF r2(1,2), where b = True and x = g]
  show "keeps_pay t t1" unfolding t1 using r1(3) r2(3) r3(3) c u(1) by (auto intro: keeps_pay_trans)
  have ctx: "rbt_ok t T k" "rbt_ok t s k" "rbt_ok t ul k" "rbt_ok t ur k" "ctx_ok t C (Suc k)"
    using ok red u by (auto simp: pos_ok_def)
  have "rbt_ok t1 T k = rbt_ok t T k" "rbt_ok t1 s k = rbt_ok t s k" "ctx_ok t1 C (Suc k) = ctx_ok t C (Suc k)"
    "rbt_ok t1 ul k = rbt_ok t ul k" "rbt_ok t1 ur k = rbt_ok t ur k"
    using d(5) by (auto intro!: colour_frame ctx_colour_frame simp: col split: if_splits)
  then have "rbt_ok t1 ?T (Suc k)" "ctx_ok t1 C (Suc k)" using ctx d(6-8) u(1) by (simp_all add: col)
  moreover have "zip_at t1 ?T C" "I t1 ?T C" "rb_cb_set t1" "\<not> RB_COLOR t1 rbt_nil"
    unfolding t1 using r3 c ok u(1) by (auto simp: pos_ok_def cell_ok_def)
  moreover have "rb_red t1 ?T" by (simp add: col)
  ultimately show "pos_ok t1 ?T C (Suc k)" unfolding pos_ok_def by blast
qed

text \<open>The rotation that turns an inner grandchild into an outer one.\<close>

lemma rebalance_inner:
  assumes ok: "pos_ok t (node d A x B) ((FLIP d, p, s) # (d, g, u) # C) k" and red: "RB_COLOR t p"
  shows "pos_ok (rotate_tree cb p d t) (node d s p A) ((d, x, B) # (d, g, u) # C) k"
    "RB_COLOR (rotate_tree cb p d t) a = RB_COLOR t a" "keeps_pay t (rotate_tree cb p d t)"
proof -
  have z: "zip_at t (node d s p (node d A x B)) ((d, g, u) # C)" "I t (node d s p (node d A x B)) ((d, g, u) # C)"
    "rb_cb_set t"
    using ok by (simp_all add: pos_ok_def node_FLIP flip: zip_at_down I_move)
  note r = rotate_at [OF z]
  show "RB_COLOR (rotate_tree cb p d t) a = RB_COLOR t a" "keeps_pay t (rotate_tree cb p d t)" by (rule r(3,4))+
  have f: "rbt_ok (rotate_tree cb p d t) T j = rbt_ok t T j" "rb_red (rotate_tree cb p d t) T = rb_red t T"
    "ctx_ok (rotate_tree cb p d t) C j = ctx_ok t C j" for T C j
    using r(3) by (auto intro!: colour_frame ctx_colour_frame)
  have "zip_at (rotate_tree cb p d t) (node d s p A) ((d, x, B) # (d, g, u) # C)"
    "I (rotate_tree cb p d t) (node d s p A) ((d, x, B) # (d, g, u) # C)" "rb_cb_set (rotate_tree cb p d t)"
    using r z(3) by (simp_all add: zip_at_down I_move keeps_pay_def)
  then show "pos_ok (rotate_tree cb p d t) (node d s p A) ((d, x, B) # (d, g, u) # C) k"
    using ok red r(3) by (auto simp: pos_ok_def f)
qed

lemma rebalance_outer:
  assumes ok: "pos_ok t T ((d, p, s) # (d, g, u) # C) k" and red: "RB_COLOR t p" "\<not> rb_red t u"
    and t1: "t1 = rotate_tree cb g (FLIP d) (SET_COLOR_RED g (SET_COLOR_BLACK p t))"
  shows "pos_ok t1 T ((d, p, node d s g u) # C) k" "\<not> RB_COLOR t1 p" "keeps_pay t t1"
proof -
  let ?T = "node d (node d T p s) g u" and ?t = "SET_COLOR_RED g (SET_COLOR_BLACK p t)"
  have z: "zip_at t ?T C" "I t ?T C" using ok by (simp_all add: pos_ok_def zip_at_down I_move)
  have c: "cell_ok t p" "cell_ok t g" using zip_at_cells [OF z(1)] by auto
  note r1 = recolour_at [OF z c(1), where b = False]
  note r2 = recolour_at [OF r1(1,2), where b = True and x = g]
  have z2: "zip_at ?t (node (FLIP d) u g (node (FLIP d) s p T)) C" "I ?t (node (FLIP d) u g (node (FLIP d) s p T)) C" "rb_cb_set ?t"
    using r2 c ok by (simp_all add: node_FLIP pos_ok_def)
  note r3 = rotate_at [OF z2, folded t1, unfolded node_FLIP]
  have col: "RB_COLOR t1 a = (if a = g then True else if a = p then False else RB_COLOR t a)" for a
    using r3(3) [of a] c by simp
  show k: "keeps_pay t t1" using r1(3) r2(3) r3(4) c by (auto intro: keeps_pay_trans)
  have d: "{p, g} \<inter> (set (addrs T) \<union> set (addrs s) \<union> set (addrs u) \<union> set (ctx_addrs C)) = {}" "p \<noteq> g"
    using z(1) by (auto simp: zip_at_def)
  then show "\<not> RB_COLOR t1 p" by (simp add: col)
  have "rbt_ok t1 T k = rbt_ok t T k" "rb_red t1 T = rb_red t T" "rbt_ok t1 s k = rbt_ok t s k" "rb_red t1 s = rb_red t s"
    "rbt_ok t1 u k = rbt_ok t u k" "rb_red t1 u = rb_red t u" "ctx_ok t1 C (Suc k) = ctx_ok t C (Suc k)"
    using d(1) by (auto intro!: colour_frame ctx_colour_frame simp: col split: if_splits)
  moreover have "zip_at t1 T ((d, p, node d s g u) # C)" "I t1 T ((d, p, node d s g u) # C)"
    using r3(1,2) by (simp_all add: zip_at_down I_move)
  moreover have "rb_cb_set t1" "\<not> RB_COLOR t1 rbt_nil" using k ok c by (simp_all add: keeps_pay_def pos_ok_def col cell_ok_def)
  ultimately show "pos_ok t1 T ((d, p, node d s g u) # C) k"
    using ok red d(2) by (auto simp: pos_ok_def col)
qed

lemma rebalance_black_uncle:
  assumes ok: "pos_ok t T ((d1, p, s) # (d, g, u) # C) k" and red: "RB_COLOR t p" "\<not> rb_red t u"
  shows "\<exists>t1 X q v. rb_tree_insert_rebalance (Suc m) cb (aroot T) t = rb_tree_insert_rebalance m cb (aroot X) t1 \<and>
    pos_ok t1 X ((d, q, v) # C) k \<and> \<not> RB_COLOR t1 q \<and> keeps_pay t t1 \<and>
    addrs (plug X ((d, q, v) # C)) = addrs (plug T ((d1, p, s) # (d, g, u) # C))"
proof -
  have T: "T \<noteq> Lf" and z: "zip_at t T ((d1, p, s) # (d, g, u) # C)" using ok by (auto simp: pos_ok_def)
  note gp = grandparent [OF z T]
  have u: "\<not> RB_COLOR t (aroot u)" using ok red(2) by (cases u) (auto simp: pos_ok_def)
  show ?thesis
  proof (cases "d1 = FLIP d")
    case True
    obtain A B where AB: "T = node d A (aroot T) B" using node_exhaust [OF T] by blast
    define x where "x = aroot T"
    define t0 where "t0 = rotate_tree cb p d t"
    have "pos_ok t (node d A x B) ((FLIP d, p, s) # (d, g, u) # C) k" using ok AB True x_def by simp
    note i = rebalance_inner [OF this red(1), folded t0_def]
    have z0: "zip_at t0 (node d s p A) ((d, x, B) # (d, g, u) # C)" using i(1) by (simp add: pos_ok_def)
    have "node d s p A \<noteq> Lf" by (cases d) simp_all
    note gp0 = grandparent [OF z0 this, unfolded aroot_node]
    have cx: "rb_c t (FLIP d) p = x" using gp(5) True x_def by simp
    have "rb_red t T" using ok by (simp add: pos_ok_def)
    then have rx: "RB_COLOR t0 x" "\<not> rb_red t0 u"
      using i(2) AB red(2) colour_frame(1) [of u t0 t] by (metis x_def rb_red_node, metis)
    note o = rebalance_outer [OF i(1) rx refl]
    have "rb_tree_insert_rebalance (Suc m) cb (aroot T) t =
        rb_tree_insert_rebalance m cb p (rotate_tree cb g (FLIP d) (SET_COLOR_RED g (SET_COLOR_BLACK x t0)))"
      unfolding x_def [symmetric]
      by (rule rebalance_round(3) [OF gp(1) [folded x_def] red(1) gp(2-4,7,8) u cx t0_def gp0(1,2,7,8)])
    moreover have "addrs (plug (node d s p A) ((d, x, node d B g u) # C)) = addrs (plug T ((d1, p, s) # (d, g, u) # C))"
    proof -
      have "plug T ((d1, p, s) # (d, g, u) # C) = plug (node d (node d s p T) g u) C"
        using True by (simp add: node_FLIP)
      moreover have "addrs (node d (node d s p A) x (node d B g u)) = addrs (node d (node d s p T) g u)"
        by (subst AB, fold x_def, cases d) simp_all
      ultimately show ?thesis using addrs_plug_cong [of "node d (node d s p A) x (node d B g u)" _ C] by simp
    qed
    moreover have "keeps_pay t (rotate_tree cb g (FLIP d) (SET_COLOR_RED g (SET_COLOR_BLACK x t0)))"
      by (rule keeps_pay_trans [OF i(3) o(3)])
    moreover have "aroot (node d s p A) = p" by simp
    ultimately show ?thesis using o(1,2) by metis
  next
    case False
    then have d: "d1 = d" using dir_cases by blast
    have ne: "rb_c t (FLIP d) p \<noteq> aroot T" using gp(5) False by metis
    note o = rebalance_outer [OF ok [unfolded d] red refl]
    have "rb_tree_insert_rebalance (Suc m) cb (aroot T) t =
        rb_tree_insert_rebalance m cb (aroot T) (rotate_tree cb g (FLIP d) (SET_COLOR_RED g (SET_COLOR_BLACK p t)))"
      by (rule rebalance_round(2) [OF gp(1) red(1) gp(2-4,7,8) u ne])
    moreover have "addrs (plug T ((d, p, node d s g u) # C)) = addrs (plug T ((d1, p, s) # (d, g, u) # C))"
      by (simp add: d addrs_plug addrs_rotate)
    ultimately show ?thesis using o by blast
  qed
qed

text \<open>The loop returns, with the rules restored and the order of the cells unchanged.\<close>

lemma rebalance_ok:
  assumes "pos_ok t T C k" "length C < n"
  shows "\<exists>t' T'. rb_tree_insert_rebalance n cb (aroot T) t = Ok t' \<and> tree_ok t' T' \<and>
    addrs T' = addrs (plug T C) \<and> keeps_pay t t'"
  using assms
proof (induction "length C" arbitrary: t T C k n rule: less_induct)
  case less
  obtain m where n: "n = Suc m" using less.prems(2) by (cases n) auto
  have T: "T \<noteq> Lf" using less.prems(1) by (auto simp: pos_ok_def)
  have P: "RB_P t (aroot T) = ctx_addr C" using less.prems(1) T by (cases T) (auto simp: pos_ok_def zip_at_def)
  show ?case
  proof (cases "RB_COLOR t (ctx_addr C)")
    case False
    then show ?thesis using rebalance_exit [OF less.prems(1)] n P by auto
  next
    case red: True
    then obtain d1 p s C1 where C1: "C = (d1, p, s) # C1"
      using less.prems(1) by (cases C) (auto simp: pos_ok_def)
    then obtain d g u C2 where C: "C = (d1, p, s) # (d, g, u) # C2" and rp: "RB_COLOR t p"
      using less.prems(1) red by (cases C1) (auto simp: pos_ok_def)
    have ok: "pos_ok t T ((d1, p, s) # (d, g, u) # C2) k" using less.prems(1) C by simp
    have z: "zip_at t T ((d1, p, s) # (d, g, u) # C2)" using ok by (simp add: pos_ok_def)
    note gp = grandparent [OF z T]
    have u: "RB_COLOR t (aroot u) = rb_red t u" using ok by (cases u) (auto simp: pos_ok_def)
    show ?thesis
    proof (cases "rb_red t u")
      case True
      define t1 where "t1 = SET_COLOR_RED g (SET_COLOR_BLACK (aroot u) (SET_COLOR_BLACK p t))"
      note s = rebalance_red_uncle [OF ok rp True t1_def]
      have "cell_ok t (aroot u)" using True zip_at_cells [OF z] aroot_mem [of u] by (cases u) auto
      then have "rb_tree_insert_rebalance n cb (aroot T) t = rb_tree_insert_rebalance m cb (aroot (node d (node d1 T p s) g u)) t1"
        unfolding n t1_def aroot_node using rebalance_round(1) [OF gp(1) rp gp(2-4,7,8)] u True by blast
      moreover have "length C2 < length C" "length C2 < m" using C n less.prems(2) by simp_all
      moreover have "addrs (plug (node d (node d1 T p s) g u) C2) = addrs (plug T C)" using C by simp
      ultimately show ?thesis using less.hyps [OF _ s(1)] s(2) keeps_pay_trans by metis
    next
      case uncle: False
      have "\<exists>t1 X q v. rb_tree_insert_rebalance n cb (aroot T) t = rb_tree_insert_rebalance m cb (aroot X) t1 \<and>
          pos_ok t1 X ((d, q, v) # C2) k \<and> \<not> RB_COLOR t1 q \<and> keeps_pay t t1 \<and>
          addrs (plug X ((d, q, v) # C2)) = addrs (plug T C)"
        unfolding n C by (rule rebalance_black_uncle [OF ok rp uncle])
      then obtain t1 X q v where s: "rb_tree_insert_rebalance n cb (aroot T) t = rb_tree_insert_rebalance m cb (aroot X) t1"
        "pos_ok t1 X ((d, q, v) # C2) k" "\<not> RB_COLOR t1 q" "keeps_pay t t1" "addrs (plug X ((d, q, v) # C2)) = addrs (plug T C)"
        by blast
      have "length ((d, q, v) # C2) < length C" "length ((d, q, v) # C2) < m" using C n less.prems(2) by simp_all
      from less.hyps [OF this(1) s(2) this(2)] show ?thesis using s keeps_pay_trans by metis
    qed
  qed
qed

end

end
