(* ===== verification/Ival_Inv.thy ===== *)
theory Ival_Inv
  imports Ival Rb_Insert
begin

text \<open>
  The augmentation of the interval tree: every node holds the largest upper bound of its subtree.
  The tree takes 0 for the bound of a missing subtree, so that the maximum of a subtree is
  taken over its bounds and 0. A rotation keeps the augmentation, whatever the bounds are.
\<close>

section \<open>Maxima\<close>

fun tmax :: "(u64 \<Rightarrow> int) \<Rightarrow> ival_tree \<Rightarrow> atree \<Rightarrow> int" where
  "tmax rd t Lf = 0"
| "tmax rd t (Nd l a r) = max (rd (iv_upper (iv_unpack t a))) (max (tmax rd t l) (tmax rd t r))"

fun max_ok :: "(u64 \<Rightarrow> int) \<Rightarrow> ival_tree \<Rightarrow> atree \<Rightarrow> bool" where
  "max_ok rd t Lf \<longleftrightarrow> True"
| "max_ok rd t (Nd l a r) \<longleftrightarrow>
     rd (iv_link_max (iv_unpack t a)) = tmax rd t (Nd l a r) \<and> max_ok rd t l \<and> max_ok rd t r"

text \<open>A context around a subtree whose maximum is \<open>v\<close>.\<close>

fun ctx_max_ok :: "(u64 \<Rightarrow> int) \<Rightarrow> ival_tree \<Rightarrow> int \<Rightarrow> frame list \<Rightarrow> bool" where
  "ctx_max_ok rd t v [] \<longleftrightarrow> True"
| "ctx_max_ok rd t v ((d, a, s) # C) \<longleftrightarrow>
     rd (iv_link_max (iv_unpack t a)) = max (rd (iv_upper (iv_unpack t a))) (max v (tmax rd t s)) \<and>
     max_ok rd t s \<and> ctx_max_ok rd t (max (rd (iv_upper (iv_unpack t a))) (max v (tmax rd t s))) C"

definition aug_ok :: "(u64 \<Rightarrow> int) \<Rightarrow> ival_tree \<Rightarrow> atree \<Rightarrow> frame list \<Rightarrow> bool" where
  "aug_ok rd t T C \<longleftrightarrow> max_ok rd t T \<and> ctx_max_ok rd t (tmax rd t T) C"

text \<open>What the tree leaves alone of an interval.\<close>

definition iv_key :: "ival \<Rightarrow> u64 \<times> u64 \<times> string" where
  "iv_key iv = (iv_lower iv, iv_upper iv, iv_value iv)"

lemma iv_key_eq [simp]:
  "iv_key iv = iv_key iv' \<longleftrightarrow> iv_lower iv = iv_lower iv' \<and> iv_upper iv = iv_upper iv' \<and> iv_value iv = iv_value iv'"
  by (simp add: iv_key_def)

lemma tmax_node [simp]:
  "tmax rd t (node d s a s') = max (rd (iv_upper (iv_unpack t a))) (max (tmax rd t s) (tmax rd t s'))"
  by (cases d) (simp_all add: max.commute max.left_commute)

lemma max_ok_node [simp]:
  "max_ok rd t (node d s a s') \<longleftrightarrow>
     rd (iv_link_max (iv_unpack t a)) = tmax rd t (node d s a s') \<and> max_ok rd t s \<and> max_ok rd t s'"
  by (cases d) (auto simp: max.commute max.left_commute)

lemma tmax_frame: "(\<And>a. a \<in> set (addrs T) \<Longrightarrow> iv_upper (iv_unpack t' a) = iv_upper (iv_unpack t a)) \<Longrightarrow> tmax rd t' T = tmax rd t T"
  by (induction T) simp_all

lemma max_ok_frame: "(\<And>a. a \<in> set (addrs T) \<Longrightarrow> iv_unpack t' a = iv_unpack t a) \<Longrightarrow> max_ok rd t' T = max_ok rd t T"
proof (induction T)
  case (Nd l a r)
  then have "tmax rd t' l = tmax rd t l" "tmax rd t' r = tmax rd t r" by (auto intro!: tmax_frame)
  then show ?case using Nd by simp
qed simp

lemma ctx_max_ok_frame:
  "(\<And>a. a \<in> set (ctx_addrs C) \<Longrightarrow> iv_unpack t' a = iv_unpack t a) \<Longrightarrow> ctx_max_ok rd t' v C = ctx_max_ok rd t v C"
proof (induction rd t v C rule: ctx_max_ok.induct)
  case (2 rd t v d a s C)
  then have "tmax rd t' s = tmax rd t s" "max_ok rd t' s = max_ok rd t s" by (auto intro!: tmax_frame max_ok_frame)
  then show ?case using 2 by simp
qed simp

section \<open>Writes\<close>

lemma set_link_max_reads:
  assumes "cell_ok t x"
  shows "rb_c (set_link_max x m t) d a = rb_c t d a" "RB_P (set_link_max x m t) a = RB_P t a"
    "RB_COLOR (set_link_max x m t) a = RB_COLOR t a"
    "iv_unpack (set_link_max x m t) a = (if a = x then (iv_unpack t x)\<lparr>iv_link_max := m\<rparr> else iv_unpack t a)"
  using assms by (cases d; simp add: set_link_max_def rb_c_def rb_cell_upd)+

lemma set_link_max_keeps [simp]:
  "length (rb_mem (set_link_max x m t)) = length (rb_mem t)" "rb_root (set_link_max x m t) = rb_root t"
  "rb_cb_set (set_link_max x m t) = rb_cb_set t" "cell_ok (set_link_max x m t) a = cell_ok t a"
  by (simp_all add: set_link_max_def cell_ok_def)

lemma rd_IVAL_MAX: "rd (IVAL_MAX rd a b) = max (rd a) (rd b)"
  by (simp add: IVAL_MAX_def max_def)

lemma update_link_max:
  "\<exists>m. ivt_update_link_max rd t x = set_link_max x m t"
  by (simp add: ivt_update_link_max_def Let_def) blast

lemma update_link_max_reads:
  assumes "cell_ok t x"
  shows "rb_c (ivt_update_link_max rd t x) d a = rb_c t d a" "RB_P (ivt_update_link_max rd t x) a = RB_P t a"
    "RB_COLOR (ivt_update_link_max rd t x) a = RB_COLOR t a"
    "a \<noteq> x \<Longrightarrow> iv_unpack (ivt_update_link_max rd t x) a = iv_unpack t a"
    "iv_key (iv_unpack (ivt_update_link_max rd t x) a) = iv_key (iv_unpack t a)"
    "rb_root (ivt_update_link_max rd t x) = rb_root t" "rb_cb_set (ivt_update_link_max rd t x) = rb_cb_set t"
    "length (rb_mem (ivt_update_link_max rd t x)) = length (rb_mem t)"
  using update_link_max [of rd t x] set_link_max_reads [OF assms] by auto

section \<open>The callback\<close>

locale ival_reading =
  fixes rd :: "u64 \<Rightarrow> int"
  assumes rd_0: "rd 0 = 0"
begin

lemma update_link_max_value:
  assumes "cell_ok t x" "rb_c t d x = aroot s" "rb_c t (FLIP d) x = aroot s'" "tree_at t x s" "tree_at t x s'"
    "max_ok rd t s" "max_ok rd t s'"
  shows "rd (iv_link_max (iv_unpack (ivt_update_link_max rd t x) x)) =
    max (rd (iv_upper (iv_unpack t x))) (max (tmax rd t s) (tmax rd t s'))"
proof -
  have v: "rd (if aroot s \<noteq> rbt_nil then iv_link_max (iv_unpack t (aroot s)) else 0) = tmax rd t s"
    if "tree_at t x s" "max_ok rd t s" for s
    using that rd_0 by (cases s) (auto simp: cell_ok_def)
  show ?thesis using assms v [OF assms(4,6)] v [OF assms(5,7)]
    by (cases d) (simp_all add: ivt_update_link_max_def Let_def set_link_max_reads rd_IVAL_MAX max.commute max.left_commute)
qed

lemma aug_rotate:
  assumes z: "zip_at u (node dir (node dir A x B) y D) C" and ok: "aug_ok rd t (node dir A x (node dir B y D)) C"
    and data: "\<And>a. iv_unpack u a = iv_unpack t a"
  shows "aug_ok rd (ivt_update_link_max rd (ivt_update_link_max rd u x) y) (node dir (node dir A x B) y D) C"
proof -
  let ?v = "ivt_update_link_max rd u x" and ?w = "ivt_update_link_max rd (ivt_update_link_max rd u x) y"
  have c: "cell_ok u x" "cell_ok u y" using zip_at_cells [OF z] by auto
  then have cv: "cell_ok ?v y" by (simp add: cell_ok_def update_link_max_reads)
  have d: "x \<noteq> y" "{x, y} \<inter> (set (addrs A) \<union> set (addrs B) \<union> set (addrs D) \<union> set (ctx_addrs C)) = {}"
    using z by (auto simp: zip_at_def)
  have up: "iv_upper (iv_unpack ?w a) = iv_upper (iv_unpack t a)" "iv_upper (iv_unpack ?v a) = iv_upper (iv_unpack t a)" for a
    using update_link_max_reads(5) [OF c(1), of rd a] update_link_max_reads(5) [OF cv, of rd a] by (simp_all add: data)
  have rest: "iv_unpack ?w a = iv_unpack t a" "iv_unpack ?v a = iv_unpack t a" if "a \<notin> {x, y}" for a
    using that update_link_max_reads(4) [OF c(1)] update_link_max_reads(4) [OF cv] by (simp_all add: data)
  have tm: "tmax rd ?w T = tmax rd t T" "tmax rd ?v T = tmax rd t T" "tmax rd u T = tmax rd t T" for T
    by (rule tmax_frame, simp add: up data)+
  have sub: "max_ok rd t A" "max_ok rd t B" "max_ok rd t D" using ok by (simp_all add: aug_ok_def)
  have mo: "max_ok rd u T = max_ok rd t T" for T by (rule max_ok_frame) (simp add: data)
  have fr: "max_ok rd ?v T = max_ok rd t T" "max_ok rd ?w T = max_ok rd t T" if "{x, y} \<inter> set (addrs T) = {}" for T
    using that by (auto intro!: max_ok_frame rest)
  have lx: "rd (iv_link_max (iv_unpack ?v x)) = max (rd (iv_upper (iv_unpack t x))) (max (tmax rd t A) (tmax rd t B))"
    using update_link_max_value [OF c(1), of dir A B] z sub by (simp add: zip_at_def mo tm data)
  have vx: "max_ok rd ?v (node dir A x B)" using lx sub d(2) by (simp add: fr tm up)
  have sl: "same_links S u ?v" for S using c(1) by (simp add: same_links_def update_link_max_reads)
  have tv: "tree_at ?v y (node dir A x B)" "tree_at ?v y D"
  proof -
    have "tree_at u y (node dir A x B)" "tree_at u y D" using z by (simp_all add: zip_at_def)
    from tree_at_frame [OF sl this(1)] tree_at_frame [OF sl this(2)]
    show "tree_at ?v y (node dir A x B)" "tree_at ?v y D" .
  qed
  have ly: "rd (iv_link_max (iv_unpack ?w y)) =
      max (rd (iv_upper (iv_unpack t y))) (max (tmax rd t (node dir A x B)) (tmax rd t D))"
    using update_link_max_value [OF cv, of dir "node dir A x B" D] z vx sub(3) tv d(2)
    by (simp add: zip_at_def tm up fr update_link_max_reads [OF c(1)] del: max_ok_node tmax_node tree_at_node) (simp add: zip_at_def)
  have "iv_unpack ?w x = iv_unpack ?v x" using update_link_max_reads(4) [OF cv d(1)] .
  then have m: "max_ok rd ?w (node dir (node dir A x B) y D)" using lx ly sub d(2) by (simp add: fr tm up)
  have e: "tmax rd t (node dir (node dir A x B) y D) = tmax rd t (node dir A x (node dir B y D))"
    by (simp add: max.commute max.left_commute)
  have "ctx_max_ok rd ?w v C = ctx_max_ok rd t v C" for v using d(2) by (intro ctx_max_ok_frame rest) auto
  then have "ctx_max_ok rd ?w (tmax rd ?w (node dir (node dir A x B) y D)) C"
    using ok unfolding tm(1) e aug_ok_def by blast
  then show ?thesis using m unfolding aug_ok_def by blast
qed

end

sublocale ival_reading \<subseteq> aug: rb_callback "ivt_update_link_max rd" "aug_ok rd" iv_key
proof
  fix t t' :: ival_tree and x a T C d s s'
  show "same_links UNIV t (ivt_update_link_max rd t x)" if "cell_ok t x"
    using that by (simp add: same_links_def update_link_max_reads)
  show "rb_root (ivt_update_link_max rd t x) = rb_root t \<and> rb_cb_set (ivt_update_link_max rd t x) = rb_cb_set t" if "cell_ok t x"
    using that by (simp add: update_link_max_reads)
  show "RB_COLOR (ivt_update_link_max rd t x) a = RB_COLOR t a" if "cell_ok t x" using that by (rule update_link_max_reads)
  show "iv_key (iv_unpack (ivt_update_link_max rd t x) a) = iv_key (iv_unpack t a)" if "cell_ok t x"
    using that by (rule update_link_max_reads)
  show "aug_ok rd t' T C" if "\<And>a. iv_unpack t' a = iv_unpack t a" "aug_ok rd t T C"
    using that max_ok_frame [of T t' t rd] tmax_frame [of T t' t rd] ctx_max_ok_frame [of C t' t rd] by (simp add: aug_ok_def)
  show "aug_ok rd t (node d s a s') C = aug_ok rd t s ((d, a, s') # C)" by (auto simp: aug_ok_def)
next
  fix u t :: ival_tree and dir A x B y D C
  assume "zip_at u (node dir (node dir A x B) y D) C" "aug_ok rd t (node dir A x (node dir B y D)) C"
    "\<And>a. iv_unpack u a = iv_unpack t a"
  then show "aug_ok rd (ivt_update_link_max rd (ivt_update_link_max rd u x) y) (node dir (node dir A x B) y D) C"
    by (rule aug_rotate)
qed

interpretation uival: ival_reading uint
  by unfold_locales simp

interpretation sival: ival_reading sint
  by unfold_locales simp

end
