(* ===== verification/Ival_Insert.thy ===== *)
theory Ival_Insert
  imports Ival_Inv
begin

text \<open>
  Insertion into the interval tree. \<open>ivt_inv\<close> is the invariant of a tree in memory: the links,
  the red-black rules, the maxima, the order of the lower bounds, and upper bounds that are not
  negative, which holds for every tree of unsigned bounds. An insertion returns, keeps the
  invariant and adds exactly its cell.
\<close>

section \<open>The invariant\<close>

definition low :: "(u64 \<Rightarrow> int) \<Rightarrow> ival_tree \<Rightarrow> nat \<Rightarrow> int" where
  "low rd t a = rd (iv_lower (iv_unpack t a))"

definition upp :: "(u64 \<Rightarrow> int) \<Rightarrow> ival_tree \<Rightarrow> nat \<Rightarrow> int" where
  "upp rd t a = rd (iv_upper (iv_unpack t a))"

definition ivt_inv :: "(u64 \<Rightarrow> int) \<Rightarrow> ival_tree \<Rightarrow> atree \<Rightarrow> bool" where
  "ivt_inv rd t T \<longleftrightarrow>
     zip_at t T [] \<and> aug_ok rd t T [] \<and> (T \<noteq> Lf \<longrightarrow> rb_cb_set t) \<and> \<not> RB_COLOR t rbt_nil \<and> \<not> rb_red t T \<and>
     (\<exists>k. rbt_ok t T k) \<and> sorted (map (low rd t) (addrs T)) \<and> (\<forall>a \<in> set (addrs T). 0 \<le> upp rd t a)"

text \<open>The intervals apart from their maxima.\<close>

definition same_keys :: "ival_tree \<Rightarrow> ival_tree \<Rightarrow> bool" where
  "same_keys t t' \<longleftrightarrow>
     length (rb_mem t') = length (rb_mem t) \<and> (\<forall>a. iv_key (iv_unpack t' a) = iv_key (iv_unpack t a))"

lemma same_keys_trans: "same_keys t u \<Longrightarrow> same_keys u v \<Longrightarrow> same_keys t v"
  by (simp add: same_keys_def)

lemma same_keys_refl [simp]: "same_keys t t"
  by (simp add: same_keys_def)

lemma same_keys_low: "same_keys t t' \<Longrightarrow> low rd t' = low rd t" "same_keys t t' \<Longrightarrow> upp rd t' = upp rd t"
  by (auto simp: same_keys_def low_def upp_def fun_eq_iff)

lemma same_keys_cell_ok: "same_keys t t' \<Longrightarrow> cell_ok t' a = cell_ok t a"
  by (simp add: same_keys_def cell_ok_def)

text \<open>A write to maxima: everything else is as before.\<close>

definition only_max :: "nat set \<Rightarrow> ival_tree \<Rightarrow> ival_tree \<Rightarrow> bool" where
  "only_max A t t' \<longleftrightarrow>
     same_keys t t' \<and> same_links UNIV t t' \<and> rb_root t' = rb_root t \<and> rb_cb_set t' = rb_cb_set t \<and>
     (\<forall>a. RB_COLOR t' a = RB_COLOR t a) \<and> (\<forall>a. a \<notin> A \<longrightarrow> iv_unpack t' a = iv_unpack t a)"

lemma only_max_trans:
  assumes "only_max A t u" "only_max B u v" "A \<union> B \<subseteq> D"
  shows "only_max D t v"
proof -
  have "iv_unpack v a = iv_unpack t a" if "a \<notin> D" for a
  proof -
    have "a \<notin> A" "a \<notin> B" using that assms(3) by blast+
    then show ?thesis using assms(1,2) by (simp add: only_max_def)
  qed
  moreover have "same_keys t v" using assms(1,2) same_keys_trans by (auto simp: only_max_def)
  ultimately show ?thesis using assms(1,2) by (simp add: only_max_def same_links_def)
qed

lemma only_max_set: "cell_ok t x \<Longrightarrow> only_max {x} t (set_link_max x m t)"
  by (auto simp: only_max_def same_keys_def same_links_def set_link_max_reads)

lemma zip_at_only_max: "only_max A t t' \<Longrightarrow> zip_at t T C \<Longrightarrow> zip_at t' T C"
  by (auto simp: only_max_def elim!: zip_at_frame [OF same_links_mono, rotated -1])

section \<open>Positions and the red-black rules\<close>

lemma unplug_ok:
  "rbt_ok t (plug T C) k \<Longrightarrow> \<not> rb_red t (plug T C) \<Longrightarrow>
   (\<exists>j. rbt_ok t T j \<and> ctx_ok t C j) \<and> (rb_red t T \<longrightarrow> C \<noteq> [] \<and> \<not> RB_COLOR t (ctx_addr C))"
proof (induction T C rule: plug.induct)
  case (2 T d a s C)
  then obtain j where j: "rbt_ok t (node d T a s) j" "ctx_ok t C j" "RB_COLOR t a \<longrightarrow> C \<noteq> [] \<and> \<not> RB_COLOR t (ctx_addr C)"
    by auto
  show ?case
  proof (cases "RB_COLOR t a")
    case True
    then show ?thesis using j by auto
  next
    case False
    then have "rbt_ok t T (j - 1)" "rbt_ok t s (j - 1)" "j = Suc (j - 1)" using j(1) by (auto split: if_splits)
    then show ?thesis using False j(2) by (auto intro!: exI [of _ "j - 1"])
  qed
qed auto

section \<open>Linking a leaf\<close>

lemma insert_leaf:
  assumes z: "zip_at t Lf ((d, p, s) # C)" and new: "cell_ok t new" "new \<notin> set (ctx_addrs ((d, p, s) # C))"
  shows "zip_at (rb_tree_insert p new d t) (Nd Lf new Lf) ((d, p, s) # C)"
    "RB_COLOR (rb_tree_insert p new d t) a = (if a = new then True else RB_COLOR t a)"
    "n_data (rb_cell (rb_tree_insert p new d t) a) = n_data (rb_cell t a)"
    "rb_cb_set (rb_tree_insert p new d t) = rb_cb_set t" "length (rb_mem (rb_tree_insert p new d t)) = length (rb_mem t)"
proof -
  let ?t = "rb_tree_insert p new d t"
  have p: "cell_ok t p" "p \<noteq> new" using z new(2) by (auto simp: zip_at_def)
  define u where "u = upd_cell new (\<lambda>n. n\<lparr>n_p := p, n_red := True, n_left := rbt_nil, n_right := rbt_nil\<rparr>) t"
  have u: "RB_P u a = (if a = new then p else RB_P t a)" "RB_COLOR u a = (if a = new then True else RB_COLOR t a)"
    "rb_c u e a = (if a = new then rbt_nil else rb_c t e a)" "n_data (rb_cell u a) = n_data (rb_cell t a)" for a e
    using new(1) by (cases e; simp add: u_def rb_c_def rb_cell_upd)+
  have t: "?t = set_c d p new u" "cell_ok u p" "length (rb_mem u) = length (rb_mem t)" "rb_root u = rb_root t"
    "rb_cb_set u = rb_cb_set t"
    using p by (simp_all add: rb_tree_insert_def u_def)
  show c: "RB_COLOR ?t a = (if a = new then True else RB_COLOR t a)" "n_data (rb_cell ?t a) = n_data (rb_cell t a)"
    "rb_cb_set ?t = rb_cb_set t" "length (rb_mem ?t) = length (rb_mem t)" for a
    using t u by simp_all
  have root: "rb_root ?t = rb_root t" using t by simp
  have r: "RB_P ?t a = (if a = new then p else RB_P t a)"
    "rb_c ?t e a = (if a = new then rbt_nil else if a = p \<and> e = d then new else rb_c t e a)" for a e
    using t u p by auto
  have "ctx_at ?t new ((d, p, s) # C)"
  proof (rule ctx_at_fill [where t = t and x = rbt_nil])
    show "same_links (set (ctx_addrs ((d, p, s) # C)) - {ctx_addr ((d, p, s) # C)}) t ?t"
      using new(2) by (auto simp: same_links_def r c)
  qed (use z new p in \<open>auto simp: zip_at_def r c root simp del: set_c_reads\<close>)
  then show "zip_at ?t (Nd Lf new Lf) ((d, p, s) # C)" using z new by (auto simp: zip_at_def r c cell_ok_def)
qed

section \<open>The descent\<close>

text \<open>The position that a descent reaches: its tree, and the lower bounds on both sides.\<close>

definition leaf_for :: "(u64 \<Rightarrow> int) \<Rightarrow> ival_tree \<Rightarrow> int \<Rightarrow> frame list \<Rightarrow> bool" where
  "leaf_for rd t l C \<longleftrightarrow> (\<forall>a \<in> set (ctx_before C). low rd t a \<le> l) \<and> (\<forall>a \<in> set (ctx_behind C). l < low rd t a)"

context ival_reading
begin

lemma descend_ok:
  assumes "zip_at t T C" "max_ok rd t T" "ctx_max_ok rd t (max (rd (iv_upper new_iv)) (tmax rd t T)) C"
    "sorted (map (low rd t) (addrs T))" "leaf_for rd t (rd (iv_lower new_iv)) C"
    "length (addrs T) < n" "C \<noteq> [] \<longrightarrow> fst (List.hd C) = side"
  shows "\<exists>t' C' side'. ivt_descend n rd new_iv (aroot T) (ctx_addr C) side t = Ok (ctx_addr C', side', t') \<and>
    plug Lf C' = plug T C \<and> only_max (set (addrs T)) t t' \<and> ctx_max_ok rd t' (max (rd (iv_upper new_iv)) 0) C' \<and>
    leaf_for rd t (rd (iv_lower new_iv)) C' \<and> (C' \<noteq> [] \<longrightarrow> fst (List.hd C') = side')"
  using assms
proof (induction T arbitrary: t C n side)
  case Lf
  then obtain m where "n = Suc m" by (cases n) auto
  then show ?case using Lf by (intro exI [of _ t] exI [of _ C] exI [of _ side]) (auto simp: only_max_def same_links_def)
next
  case (Nd l a r)
  obtain m where n: "n = Suc m" using Nd.prems(6) by (cases n) auto
  let ?u = "rd (iv_upper new_iv)" and ?l = "rd (iv_lower new_iv)"
  define t1 where "t1 = set_link_max a (IVAL_MAX rd (iv_upper new_iv) (iv_link_max (iv_unpack t a))) t"
  have c: "cell_ok t a" using zip_at_cells [OF Nd.prems(1)] by simp
  have om: "only_max {a} t t1" unfolding t1_def by (rule only_max_set [OF c])
  have z1: "zip_at t1 (Nd l a r) C" using zip_at_only_max [OF om Nd.prems(1)] .
  have ch: "rb_c t1 RB_LEFT a = aroot l" "rb_c t1 RB_RIGHT a = aroot r" using z1 by (simp_all add: zip_at_def)
  have a: "a \<noteq> rbt_nil" using c by (simp add: cell_ok_def)
  have dist: "a \<notin> set (addrs l)" "a \<notin> set (addrs r)" "a \<notin> set (ctx_addrs C)"
    using Nd.prems(1) by (auto simp: zip_at_def)
  have same: "iv_unpack t1 b = iv_unpack t b" if "b \<noteq> a" for b using om that by (simp add: only_max_def)
  have keys: "low rd t1 = low rd t" "iv_upper (iv_unpack t1 b) = iv_upper (iv_unpack t b)" for b
    using om same_keys_low [of t t1 rd] by (auto simp: only_max_def same_keys_def)
  have tm: "tmax rd t1 T = tmax rd t T" for T by (rule tmax_frame) (simp add: keys)
  have fr: "max_ok rd t1 T = max_ok rd t T" if "a \<notin> set (addrs T)" for T
    by (rule max_ok_frame) (use that same in metis)
  have mo: "max_ok rd t1 l" "max_ok rd t1 r" using Nd.prems(2) fr dist by simp_all
  have co: "ctx_max_ok rd t1 v C = ctx_max_ok rd t v C" for v
    by (rule ctx_max_ok_frame) (use dist(3) same in metis)
  have lm: "rd (iv_link_max (iv_unpack t1 a)) = max ?u (tmax rd t (Nd l a r))"
    using Nd.prems(2) c by (simp add: t1_def set_link_max_reads rd_IVAL_MAX)
  have so: "sorted (map (low rd t) (addrs l))" "sorted (map (low rd t) (addrs r))"
    "b \<in> set (addrs l) \<Longrightarrow> low rd t b \<le> low rd t a" "b \<in> set (addrs r) \<Longrightarrow> low rd t a \<le> low rd t b" for b
    using Nd.prems(4) by (auto simp: sorted_append)
  show ?case
  proof (cases "?l < low rd t a")
    case True
    let ?C = "(RB_LEFT, a, r) # C"
    have "zip_at t1 l ?C" using z1 zip_at_down [of t1 RB_LEFT l a r C] by simp
    moreover have "ctx_max_ok rd t1 (max ?u (tmax rd t1 l)) ?C"
      using Nd.prems(3) mo lm by (simp add: tm keys co max.commute max.left_commute)
    moreover have "leaf_for rd t1 ?l ?C" using True so(4) Nd.prems(5) unfolding leaf_for_def keys by fastforce
    moreover have "length (addrs l) < m" "sorted (map (low rd t1) (addrs l))" using Nd.prems(6) n so keys by simp_all
    ultimately obtain t' C' side' where s: "ivt_descend m rd new_iv (aroot l) a RB_LEFT t1 = Ok (ctx_addr C', side', t')"
      "plug Lf C' = plug l ?C" "only_max (set (addrs l)) t1 t'" "ctx_max_ok rd t' (max ?u 0) C'" "leaf_for rd t1 ?l C'"
      "C' \<noteq> [] \<longrightarrow> fst (List.hd C') = side'"
      using Nd.IH(1) [of t1 ?C m RB_LEFT] mo(1) by auto
    have "ivt_descend n rd new_iv (aroot (Nd l a r)) (ctx_addr C) side t = Ok (ctx_addr C', side', t')"
      using s(1) True n a ch by (simp add: Let_def low_def flip: t1_def)
    moreover have "only_max (set (addrs (Nd l a r))) t t'" by (rule only_max_trans [OF om s(3)]) auto
    moreover have "plug Lf C' = plug (Nd l a r) C" using s(2) by simp
    moreover have "leaf_for rd t ?l C'" using s(5) by (simp add: leaf_for_def keys)
    ultimately show ?thesis using s(4,6) by blast
  next
    case False
    let ?C = "(RB_RIGHT, a, l) # C"
    have "zip_at t1 r ?C" using z1 zip_at_down [of t1 RB_RIGHT r a l C] by simp
    moreover have "ctx_max_ok rd t1 (max ?u (tmax rd t1 r)) ?C"
      using Nd.prems(3) mo lm by (simp add: tm keys co max.commute max.left_commute)
    moreover have "leaf_for rd t1 ?l ?C" using False so(3) Nd.prems(5) unfolding leaf_for_def keys by fastforce
    moreover have "length (addrs r) < m" "sorted (map (low rd t1) (addrs r))" using Nd.prems(6) n so keys by simp_all
    ultimately obtain t' C' side' where s: "ivt_descend m rd new_iv (aroot r) a RB_RIGHT t1 = Ok (ctx_addr C', side', t')"
      "plug Lf C' = plug r ?C" "only_max (set (addrs r)) t1 t'" "ctx_max_ok rd t' (max ?u 0) C'" "leaf_for rd t1 ?l C'"
      "C' \<noteq> [] \<longrightarrow> fst (List.hd C') = side'"
      using Nd.IH(2) [of t1 ?C m RB_RIGHT] mo(2) by auto
    have "ivt_descend n rd new_iv (aroot (Nd l a r)) (ctx_addr C) side t = Ok (ctx_addr C', side', t')"
      using s(1) False n a ch by (simp add: Let_def low_def flip: t1_def)
    moreover have "only_max (set (addrs (Nd l a r))) t t'" by (rule only_max_trans [OF om s(3)]) auto
    moreover have "plug Lf C' = plug (Nd l a r) C" using s(2) by simp
    moreover have "leaf_for rd t ?l C'" using s(5) by (simp add: leaf_for_def keys)
    ultimately show ?thesis using s(4,6) by blast
  qed
qed

section \<open>Insertion\<close>

text \<open>The position at the new leaf satisfies what the rebalancing needs.\<close>

lemma leaf_pos_ok:
  assumes inv: "ivt_inv rd t T" "T \<noteq> Lf" and new: "cell_ok t new" "new \<notin> set (addrs T)" "0 \<le> upp rd t new"
    and lm: "iv_link_max (iv_unpack t new) = iv_upper (iv_unpack t new)"
    and om: "only_max (set (addrs T)) t t1" and C: "plug Lf C = T" "C = (d, p, s) # C'"
    and cm: "ctx_max_ok rd t1 (max (upp rd t new) 0) C"
  shows "aug.pos_ok (rb_tree_insert p new d t1) (Nd Lf new Lf) C 0" "same_keys t (rb_tree_insert p new d t1)"
proof -
  let ?t = "rb_tree_insert p new d t1"
  have "zip_at t Lf C" using inv(1) C(1) zip_at_plug [of t Lf C] by (simp add: ivt_inv_def)
  then have z: "zip_at t1 Lf C" by (rule zip_at_only_max [OF om])
  have "set (addrs T) = set (ctx_before C) \<union> set (ctx_behind C)" using C(1) addrs_plug [of Lf C] by auto
  moreover have "set (ctx_addrs C) = set (ctx_before C) \<union> set (ctx_behind C)"
    by (induction C rule: ctx_before.induct) auto
  ultimately have fresh: "new \<notin> set (ctx_addrs C)" using new(2) by simp
  have c1: "cell_ok t1 new" "same_keys t t1" "iv_unpack t1 new = iv_unpack t new" "rb_cb_set t1 = rb_cb_set t"
    "RB_COLOR t1 a = RB_COLOR t a" for a
    using om new same_keys_cell_ok [of t t1 new] by (auto simp: only_max_def)
  note l = insert_leaf [OF z [unfolded C(2)] c1(1) fresh [unfolded C(2)]]
  have data: "iv_unpack ?t a = iv_unpack t1 a" for a by (rule l(3))
  show "same_keys t ?t" using c1(2) l(3,5) by (simp add: same_keys_def)
  obtain k where k: "rbt_ok t T k" "\<not> rb_red t T" using inv(1) by (auto simp: ivt_inv_def)
  then obtain j where "rbt_ok t Lf j" "ctx_ok t C j" using unplug_ok [of t Lf C k] C(1) by blast
  then have "ctx_ok t C 0" by simp
  moreover have "ctx_ok ?t C 0 = ctx_ok t C 0"
    using fresh by (intro ctx_colour_frame) (auto simp: l(2) c1(5))
  ultimately have "ctx_ok ?t C 0" by simp
  moreover have "ctx_max_ok rd ?t v C = ctx_max_ok rd t1 v C" for v by (rule ctx_max_ok_frame) (simp add: data)
  then have "aug_ok rd ?t (Nd Lf new Lf) C" using cm new(3) lm by (simp add: aug_ok_def data c1(3) upp_def)
  moreover have "rb_cb_set ?t" "\<not> RB_COLOR ?t rbt_nil" using inv l(2,4) c1 new(1) by (auto simp: ivt_inv_def cell_ok_def)
  moreover have "rb_red ?t (Nd Lf new Lf)" "rbt_ok ?t (Nd Lf new Lf) 0" by (simp_all add: l(2))
  moreover have "zip_at ?t (Nd Lf new Lf) C" using l(1) C(2) by simp
  ultimately show "aug.pos_ok ?t (Nd Lf new Lf) C 0" unfolding aug.pos_ok_def by blast
qed

lemma sorted_insert_leaf:
  assumes "plug Lf C = T" "leaf_for rd t (low rd t new) C" "sorted (map (low rd t) (addrs T))"
  shows "sorted (map (low rd t) (addrs (plug (Nd Lf new Lf) C)))"
    "set (addrs (plug (Nd Lf new Lf) C)) = insert new (set (addrs T))"
  using assms by (auto simp: addrs_plug leaf_for_def sorted_append less_imp_le)

lemma insert_root_ok:
  assumes t0: "rb_root t = rbt_nil" "\<not> RB_COLOR t rbt_nil" and new: "cell_ok t new" "0 \<le> upp rd t new"
  shows "ivt_inv rd (rb_tree_insert_root (ivt_update_link_max rd) new t) (Nd Lf new Lf)"
    "same_keys t (rb_tree_insert_root (ivt_update_link_max rd) new t)"
proof -
  define u where "u = (upd_cell new (\<lambda>n. n\<lparr>n_p := rbt_nil, n_red := False, n_left := rbt_nil, n_right := rbt_nil\<rparr>) t)
    \<lparr>rb_root := new, rb_cb_set := True\<rparr>"
  have c: "cell_ok u new" using new(1) by (simp add: u_def cell_ok_def)
  have r: "RB_P u new = rbt_nil" "rb_c u d new = rbt_nil" "RB_COLOR u a = (if a = new then False else RB_COLOR t a)"
    "iv_unpack u a = iv_unpack t a" "rb_root u = new" "rb_cb_set u" "length (rb_mem u) = length (rb_mem t)" for d a
    using new(1) by (cases d; simp add: u_def rb_c_def rb_cell_upd)+
  let ?w = "ivt_update_link_max rd u new"
  have w: "rb_tree_insert_root (ivt_update_link_max rd) new t = ?w" by (simp add: rb_tree_insert_root_def Let_def u_def)
  note rw = update_link_max_reads [OF c]
  have k: "iv_upper (iv_unpack ?w new) = iv_upper (iv_unpack t new)" using rw(5) [of rd new] r(4) by simp
  have "rd (iv_link_max (iv_unpack ?w new)) = max (upp rd t new) (max 0 0)"
    using update_link_max_value [OF c, of RB_LEFT Lf Lf] r by (simp add: upp_def)
  then have "aug_ok rd ?w (Nd Lf new Lf) []" using new(2) k by (simp add: aug_ok_def upp_def)
  moreover have "zip_at ?w (Nd Lf new Lf) []" using c r rw by (simp add: zip_at_def cell_ok_def)
  moreover have "rbt_ok ?w (Nd Lf new Lf) 1" by (simp add: rw r)
  moreover have "0 \<le> upp rd ?w new" using new(2) k by (simp add: upp_def)
  ultimately show "ivt_inv rd (rb_tree_insert_root (ivt_update_link_max rd) new t) (Nd Lf new Lf)"
    unfolding w using r rw t0(2) by (auto simp: ivt_inv_def)
  show "same_keys t (rb_tree_insert_root (ivt_update_link_max rd) new t)"
    unfolding w using r rw by (simp add: same_keys_def)
qed

lemma insert_ok:
  assumes inv: "ivt_inv rd t T" and new: "cell_ok t new" "new \<notin> set (addrs T)" "0 \<le> upp rd t new"
    and n: "length (addrs T) < n"
  shows "\<exists>t' T'. ivt_insert n rd new t = Ok t' \<and> ivt_inv rd t' T' \<and> set (addrs T') = insert new (set (addrs T)) \<and> same_keys t t'"
proof -
  define t0 where "t0 = set_link_max new (iv_upper (iv_unpack t new)) t"
  have om: "only_max {new} t t0" unfolding t0_def by (rule only_max_set [OF new(1)])
  have k0: "same_keys t t0" "RB_COLOR t0 a = RB_COLOR t a" "rb_root t0 = rb_root t" "rb_cb_set t0 = rb_cb_set t" for a
    using om by (simp_all add: only_max_def)
  have lm: "iv_link_max (iv_unpack t0 new) = iv_upper (iv_unpack t0 new)" using new(1) by (simp add: t0_def set_link_max_reads)
  have fr: "iv_unpack t0 a = iv_unpack t a" if "a \<in> set (addrs T)" for a using om new(2) that by (auto simp: only_max_def)
  have "max_ok rd t0 T = max_ok rd t T" by (rule max_ok_frame [OF fr])
  then have inv0: "ivt_inv rd t0 T"
    using inv zip_at_only_max [OF om] k0 same_keys_low [OF k0(1), of rd] colour_frame [of T t0 t]
    by (simp add: ivt_inv_def aug_ok_def)
  have new0: "cell_ok t0 new" "0 \<le> upp rd t0 new"
    using new same_keys_cell_ok [OF k0(1)] same_keys_low [OF k0(1), of rd] by simp_all
  have root: "rb_root t0 = aroot T" using inv0 by (simp add: ivt_inv_def zip_at_def)
  show ?thesis
  proof (cases "T = Lf")
    case True
    then have "rb_root t0 = rbt_nil" "\<not> RB_COLOR t0 rbt_nil" using root inv0 by (simp_all add: ivt_inv_def)
    note r = insert_root_ok [OF this new0]
    have "ivt_insert n rd new t = Ok (rb_tree_insert_root (ivt_update_link_max rd) new t0)"
      using root True by (simp add: ivt_insert_def Let_def flip: t0_def)
    then show ?thesis using r True same_keys_trans [OF k0(1)] by fastforce
  next
    case False
    have ne: "rb_root t0 \<noteq> rbt_nil" using root False inv0 aroot_nil [of t0 0 T] by (simp add: ivt_inv_def zip_at_def)
    have "\<exists>t1 C side. ivt_descend n rd (iv_unpack t0 new) (aroot T) (ctx_addr []) RB_LEFT t0 = Ok (ctx_addr C, side, t1) \<and>
      plug Lf C = plug T [] \<and> only_max (set (addrs T)) t0 t1 \<and> ctx_max_ok rd t1 (max (rd (iv_upper (iv_unpack t0 new))) 0) C \<and>
      leaf_for rd t0 (rd (iv_lower (iv_unpack t0 new))) C \<and> (C \<noteq> [] \<longrightarrow> fst (List.hd C) = side)"
      by (rule descend_ok) (use inv0 n in \<open>auto simp: ivt_inv_def aug_ok_def leaf_for_def\<close>)
    then obtain t1 C side where d: "ivt_descend n rd (iv_unpack t0 new) (aroot T) rbt_nil RB_LEFT t0 = Ok (ctx_addr C, side, t1)"
      "plug Lf C = T" "only_max (set (addrs T)) t0 t1" "ctx_max_ok rd t1 (max (upp rd t0 new) 0) C"
      "leaf_for rd t0 (low rd t0 new) C" "C \<noteq> [] \<longrightarrow> fst (List.hd C) = side"
      by (auto simp: upp_def low_def)
    obtain p s C' where C: "C = (side, p, s) # C'" using d(2,6) False by (cases C) auto
    note pos = leaf_pos_ok [OF inv0 False new0(1) new(2) new0(2) lm d(3,2) C d(4)]
    have "length C \<le> length (addrs T)"
    proof -
      have "length C \<le> length (ctx_before C) + length (ctx_behind C)" by (induction C rule: ctx_before.induct) auto
      then show ?thesis using d(2) addrs_plug [of Lf C] by auto
    qed
    then obtain t' T' where r: "rb_tree_insert_rebalance n (ivt_update_link_max rd) new (rb_tree_insert p new side t1) = Ok t'"
      "aug.tree_ok t' T'" "addrs T' = addrs (plug (Nd Lf new Lf) C)" "aug.keeps_pay (rb_tree_insert p new side t1) t'"
      using aug.rebalance_ok [OF pos(1), of n] n by auto
    have k: "same_keys t0 t'" using pos(2) r(4) by (simp add: same_keys_def aug.keeps_pay_def)
    have so: "sorted (map (low rd t0) (addrs T'))" "set (addrs T') = insert new (set (addrs T))"
      unfolding r(3) using sorted_insert_leaf [OF d(2,5)] inv0 by (simp_all add: ivt_inv_def)
    have "ivt_inv rd t' T'"
      using r(2) so new0(2) inv0 same_keys_low [OF k, of rd] by (auto simp: ivt_inv_def aug.tree_ok_def)
    moreover have "ivt_insert n rd new t = Ok t'"
      using r(1) d(1) ne root C by (simp add: ivt_insert_def Let_def flip: t0_def)
    ultimately show ?thesis using so(2) same_keys_trans [OF k0(1) k] by blast
  qed
qed

end

end
