(* ===== verification/Ival_Search.thy ===== *)
theory Ival_Search
  imports Ival_Insert
begin

text \<open>
  The search of the interval tree. The reference is a scan: the cells of the tree in preorder,
  filtered by intersection. A search without a last match returns the first cell of the scan, a
  search from a match returns the one behind it.
\<close>

section \<open>The scan\<close>

fun preorder :: "atree \<Rightarrow> nat list" where
  "preorder Lf = []"
| "preorder (Nd l a r) = a # preorder l @ preorder r"

text \<open>The cells behind the subtree of a position.\<close>

fun ctx_rest :: "frame list \<Rightarrow> nat list" where
  "ctx_rest [] = []"
| "ctx_rest ((RB_LEFT, a, s) # C) = preorder s @ ctx_rest C"
| "ctx_rest ((RB_RIGHT, a, s) # C) = ctx_rest C"

definition hit :: "(u64 \<Rightarrow> int) \<Rightarrow> ival_tree \<Rightarrow> ival \<Rightarrow> nat \<Rightarrow> bool" where
  "hit rd t iv a \<longleftrightarrow> iv_intersects rd (iv_unpack t a) iv"

lemma hit_iff: "hit rd t iv a \<longleftrightarrow> low rd t a \<le> rd (iv_upper iv) \<and> rd (iv_lower iv) \<le> upp rd t a"
  by (simp add: hit_def iv_intersects_def low_def upp_def)

lemma set_preorder [simp]: "set (preorder T) = set (addrs T)"
  by (induction T) auto

lemma distinct_preorder: "distinct (addrs T) \<Longrightarrow> distinct (preorder T)"
  by (induction T) auto

lemma length_preorder [simp]: "length (preorder T) = length (addrs T)"
  by (induction T) auto

lemma find_append: "find P (xs @ ys) = (case find P xs of None \<Rightarrow> find P ys | Some x \<Rightarrow> Some x)"
  by (induction xs) auto

lemma find_None: "(\<And>x. x \<in> set xs \<Longrightarrow> \<not> P x) \<Longrightarrow> find P xs = None"
  by (simp add: find_None_iff)

section \<open>Maxima and hits\<close>

lemma tmax_upper: "a \<in> set (addrs T) \<Longrightarrow> upp rd t a \<le> tmax rd t T"
  by (induction T) (auto simp: upp_def)

lemma tmax_attained:
  "T \<noteq> Lf \<Longrightarrow> (\<forall>a \<in> set (addrs T). 0 \<le> upp rd t a) \<Longrightarrow> \<exists>a \<in> set (addrs T). upp rd t a = tmax rd t T"
proof (induction T)
  case (Nd l a r)
  have sub: "tmax rd t s = 0 \<or> (\<exists>b \<in> set (addrs s). upp rd t b = tmax rd t s)" if "s \<in> {l, r}" for s
    using that Nd by (cases s) auto
  have a: "0 \<le> upp rd t a" using Nd.prems by simp
  have "max u (max x y) = u \<or> max u (max x y) = x \<and> u < x \<or> max u (max x y) = y \<and> u < y" for u x y :: int
    by auto
  from this [of "upp rd t a" "tmax rd t l" "tmax rd t r"]
  consider "tmax rd t (Nd l a r) = upp rd t a" | "tmax rd t (Nd l a r) = tmax rd t l" "upp rd t a < tmax rd t l"
    | "tmax rd t (Nd l a r) = tmax rd t r" "upp rd t a < tmax rd t r"
    by (auto simp: upp_def)
  then show ?case
  proof cases
    case 2
    then show ?thesis using sub [of l] a by auto
  next
    case 3
    then show ?thesis using sub [of r] a by auto
  qed auto
qed simp

lemma link_max_root: "max_ok rd t T \<Longrightarrow> T \<noteq> Lf \<Longrightarrow> rd (iv_link_max (iv_unpack t (aroot T))) = tmax rd t T"
  by (cases T) simp_all

text \<open>What the tests of the search show about a subtree.\<close>

lemma no_hit_low_max: "tmax rd t T < rd (iv_lower iv) \<Longrightarrow> a \<in> set (addrs T) \<Longrightarrow> \<not> hit rd t iv a"
  using tmax_upper [of a T rd t] by (auto simp: hit_iff)

lemma no_hit_beyond: "rd (iv_upper iv) < low rd t b \<Longrightarrow> low rd t b \<le> low rd t a \<Longrightarrow> \<not> hit rd t iv a"
  by (simp add: hit_iff)

text \<open>If the left subtree reaches far enough and holds no match, then the right one holds none.\<close>

lemma left_decides:
  assumes "l \<noteq> Lf" "\<forall>a \<in> set (addrs l). 0 \<le> upp rd t a" "rd (iv_lower iv) \<le> tmax rd t l"
    "\<forall>a \<in> set (addrs l). \<not> hit rd t iv a" "\<And>a b. a \<in> set (addrs l) \<Longrightarrow> b \<in> set (addrs r) \<Longrightarrow> low rd t a \<le> low rd t b"
    "b \<in> set (addrs r)"
  shows "\<not> hit rd t iv b"
proof -
  obtain a where a: "a \<in> set (addrs l)" "upp rd t a = tmax rd t l" using tmax_attained [OF assms(1,2)] by blast
  then have "rd (iv_upper iv) < low rd t a" using assms(3,4) by (auto simp: hit_iff)
  then show ?thesis using no_hit_beyond [of rd iv t a b] assms(5) [OF a(1) assms(6)] by blast
qed

section \<open>The first match\<close>

text \<open>A search without a last match goes down only: the height of the tree bounds its rounds.\<close>

fun hgt :: "atree \<Rightarrow> nat" where
  "hgt Lf = 0"
| "hgt (Nd l a r) = Suc (max (hgt l) (hgt r))"

lemma hgt_le_length: "hgt T \<le> length (addrs T)"
  by (induction T) auto

lemma search_first:
  assumes "tree_at t p T" "max_ok rd t T" "sorted (map (low rd t) (addrs T))" "\<forall>a \<in> set (addrs T). 0 \<le> upp rd t a"
    "hgt T < n"
  shows "ivt_search n rd t iv None (aroot T) = Ok (find (hit rd t iv) (preorder T))"
  using assms
proof (induction T arbitrary: p n)
  case Lf
  then show ?case by (cases n) simp_all
next
  case (Nd l a r)
  obtain m where n: "n = Suc m" using Nd.prems(5) by (cases n) auto
  have a: "a \<noteq> rbt_nil" "rb_c t RB_LEFT a = aroot l" "rb_c t RB_RIGHT a = aroot r" "tree_at t a l" "tree_at t a r"
    using Nd.prems(1) by (auto simp: cell_ok_def)
  have so: "b \<in> set (addrs l) \<Longrightarrow> c \<in> set (addrs r) \<Longrightarrow> low rd t b \<le> low rd t c"
    "sorted (map (low rd t) (addrs l))" "sorted (map (low rd t) (addrs r))" for b c
    using Nd.prems(3) by (auto simp: sorted_append)
  have IH: "ivt_search m rd t iv None (aroot l) = Ok (find (hit rd t iv) (preorder l))"
    "ivt_search m rd t iv None (aroot r) = Ok (find (hit rd t iv) (preorder r))"
    using Nd.IH(1) [of a m] Nd.IH(2) [of a m] Nd.prems so a n by auto
  have lnil: "aroot l = rbt_nil \<longleftrightarrow> l = Lf" using aroot_nil [OF a(4)] .
  show ?case
  proof (cases "hit rd t iv a")
    case True
    then show ?thesis using n a by (simp add: hit_def)
  next
    case False
    let ?go = "l \<noteq> Lf \<and> rd (iv_lower iv) \<le> tmax rd t l"
    have eval: "ivt_search n rd t iv None (aroot (Nd l a r)) = ivt_search m rd t iv None (if ?go then aroot l else aroot r)"
      using n a False lnil link_max_root [of rd t l] Nd.prems(2) by (auto simp: hit_def Let_def)
    show ?thesis
    proof (cases ?go)
      case True
      have "find (hit rd t iv) (preorder l) = None \<Longrightarrow> find (hit rd t iv) (preorder r) = None"
        using left_decides [of l rd t iv r] True so(1) Nd.prems(4) by (auto simp: find_None_iff)
      then show ?thesis using eval IH(1) True False by (auto simp: find_append split: option.split)
    next
      case stay: False
      have "find (hit rd t iv) (preorder l) = None"
        using stay by (cases "l = Lf") (auto simp: not_le intro!: find_None dest: no_hit_low_max)
      then show ?thesis using eval IH(2) stay False by (simp add: find_append)
    qed
  qed
qed

section \<open>The next match\<close>

lemma aug_ok_down: "aug_ok rd t (node d s a s') C \<longleftrightarrow> aug_ok rd t s ((d, a, s') # C)"
  by (auto simp: aug_ok_def)

lemma aug_ok_plug: "aug_ok rd t T C \<longleftrightarrow> aug_ok rd t (plug T C) []"
  by (induction T C rule: plug.induct) (simp_all add: aug_ok_down)

lemma context_short:
  assumes "zip_at t T C"
  shows "length C < length (rb_mem t) \<or> C = []"
proof (cases C)
  case (Cons f C')
  have "set (ctx_addrs C) \<subseteq> {0<..<length (rb_mem t)}" "distinct (ctx_addrs C)"
    using zip_at_cells [OF assms] assms by (auto simp: cell_ok_def zip_at_def)
  then have "length (ctx_addrs C) \<le> length (rb_mem t) - 1"
    using card_mono [of "{0<..<length (rb_mem t)}" "set (ctx_addrs C)"] by (simp add: distinct_card)
  moreover have "length C \<le> length (ctx_addrs C)" by (induction C rule: ctx_addrs.induct) auto
  moreover have "0 < length (rb_mem t)" using assms Cons zip_at_cells [OF assms, of "ctx_addr C"] by (cases f) (auto simp: cell_ok_def)
  ultimately show ?thesis by linarith
qed simp

text \<open>
  The walk up skips subtrees without a match only. \<open>Q\<close> stands for any test that is at least as
  strict as the intersection.
\<close>

lemma walk_up_ok:
  assumes "zip_at t T C" "ctx_max_ok rd t v C" "sorted (map (low rd t) (addrs (plug T C)))" "length C < n"
    and Q: "\<And>a. Q a \<Longrightarrow> hit rd t iv a"
  shows "\<exists>r. ivt_walk_up n rd t iv (aroot T) (ctx_addr C) = Ok r \<and>
    (r = rb_root t \<and> find Q (ctx_rest C) = None \<or>
     (\<exists>s C1. zip_at t s C1 \<and> plug s C1 = plug T C \<and> s \<noteq> Lf \<and> C1 \<noteq> [] \<and> r = aroot s \<and>
        find Q (ctx_rest C) = find Q (preorder s @ ctx_rest C1) \<and> length (preorder s @ ctx_rest C1) \<le> length (ctx_rest C)))"
  using assms(1-4)
proof (induction C arbitrary: T n v)
  case Nil
  then show ?case by (cases n) (auto simp: zip_at_def)
next
  case (Cons f C)
  obtain d a s where f: "f = (d, a, s)" by (cases f)
  obtain m where n: "n = Suc m" using Cons.prems(4) by (cases n) auto
  have z: "zip_at t (node d T a s) C" using Cons.prems(1) f by (simp add: zip_at_down)
  have a: "a \<noteq> rbt_nil" "rb_c t d a = aroot T" "rb_c t (FLIP d) a = aroot s" "tree_at t a s" "tree_at t a T" "RB_P t a = ctx_addr C"
    using z by (auto simp: zip_at_def cell_ok_def)
  have so: "sorted (map (low rd t) (addrs (plug (node d T a s) C)))" using Cons.prems(3) f by simp
  have mx: "max_ok rd t s" "ctx_max_ok rd t (max (rd (iv_upper (iv_unpack t a))) (max v (tmax rd t s))) C"
    using Cons.prems(2) f by simp_all
  note IH = Cons.IH [OF z mx(2) so, of m]
  let ?go = "d = RB_LEFT \<and> s \<noteq> Lf \<and> rd (iv_lower iv) \<le> tmax rd t s \<and> low rd t a \<le> rd (iv_upper iv)"
  have test: "(aroot T = rb_c t RB_LEFT a \<and> rb_c t RB_RIGHT a \<noteq> rbt_nil \<and>
      rd (iv_lower iv) \<le> rd (iv_link_max (iv_unpack t (rb_c t RB_RIGHT a))) \<and> rd (iv_lower (iv_unpack t a)) \<le> rd (iv_upper iv)) \<longleftrightarrow> ?go"
  proof (cases d)
    case RB_LEFT
    then show ?thesis using a aroot_nil [OF a(4)] link_max_root [OF mx(1)] by (auto simp: low_def)
  next
    case RB_RIGHT
    have "aroot T = aroot s \<Longrightarrow> aroot T = rbt_nil"
      using z RB_RIGHT aroot_mem [of T] aroot_mem [of s] by (cases "T = Lf"; cases "s = Lf"; force simp: zip_at_def)
    then show ?thesis using a RB_RIGHT by auto
  qed
  have eval: "ivt_walk_up n rd t iv (aroot T) (ctx_addr (f # C)) =
      (if ?go then Ok (rb_c t RB_RIGHT a) else ivt_walk_up m rd t iv a (ctx_addr C))"
    using a(1) by (simp only: n f ctx_addr.simps ivt_walk_up.simps Let_def test a(6) if_True not_False_eq_True)
  show ?case
  proof (cases ?go)
    case True
    then have "ivt_walk_up n rd t iv (aroot T) (ctx_addr (f # C)) = Ok (aroot s)"
      using eval a(3) by simp
    moreover have "zip_at t s ((RB_RIGHT, a, T) # C)" using z True zip_at_down [of t RB_RIGHT s a T C] by simp
    ultimately show ?thesis using True f by (intro exI [of _ "aroot s"]) (auto intro!: exI [of _ s] exI [of _ "(RB_RIGHT, a, T) # C"])
  next
    case False
    have "ivt_walk_up n rd t iv (aroot T) (ctx_addr (f # C)) = ivt_walk_up m rd t iv (aroot (node d T a s)) (ctx_addr C)"
      using eval False by simp
    moreover have skip: "find Q (ctx_rest (f # C)) = find Q (ctx_rest C)"
    proof (cases d)
      case RB_LEFT
      have "low rd t a \<le> low rd t b" if "b \<in> set (addrs s)" for b
        using so that RB_LEFT by (auto simp: addrs_plug sorted_append)
      then have "\<not> hit rd t iv b" if "b \<in> set (addrs s)" for b
        using False RB_LEFT that no_hit_low_max [of rd t s iv b] no_hit_beyond [of rd iv t a b] by (cases "s = Lf") auto
      then have "find Q (preorder s) = None" using Q by (intro find_None) (metis set_preorder)
      then show ?thesis using RB_LEFT f by (simp add: find_append)
    qed (simp add: f)
    moreover have "length (ctx_rest C) \<le> length (ctx_rest (f # C))" using f by (cases d) simp_all
    moreover have "length C < m" "plug (node d T a s) C = plug T (f # C)" using Cons.prems(4) n f by simp_all
    ultimately show ?thesis using IH by fastforce
  qed
qed

lemma root_not_below:
  assumes "zip_at t s C" "s \<noteq> Lf" "C \<noteq> []"
  shows "rb_root t \<noteq> aroot s"
proof -
  have "ctx_at t x C \<Longrightarrow> C \<noteq> [] \<Longrightarrow> rb_root t \<in> set (ctx_addrs C)" for x
  proof (induction t x C rule: ctx_at.induct)
    case (2 t x d a s C)
    then show ?case by (cases C) auto
  qed simp
  then show ?thesis using assms aroot_mem [of s] by (auto simp: zip_at_def)
qed

lemma search_next:
  assumes "zip_at t T C" "T \<noteq> Lf" "aug_ok rd t T C" "sorted (map (low rd t) (addrs (plug T C)))"
    "length (preorder T @ ctx_rest C) < n"
  shows "ivt_search n rd t iv (Some x) (aroot T) = Ok (find (\<lambda>a. a \<noteq> x \<and> hit rd t iv a) (preorder T @ ctx_rest C))"
  using assms
proof (induction n arbitrary: T C)
  case (Suc n)
  let ?Q = "\<lambda>a. a \<noteq> x \<and> hit rd t iv a"
  obtain l a r where T: "T = Nd l a r" using Suc.prems(2) by (cases T) auto
  have z: "zip_at t l ((RB_LEFT, a, r) # C)" "zip_at t r ((RB_RIGHT, a, l) # C)"
    using Suc.prems(1) T by (simp_all flip: zip_at_down)
  have au: "aug_ok rd t l ((RB_LEFT, a, r) # C)" "aug_ok rd t r ((RB_RIGHT, a, l) # C)"
    using Suc.prems(3) T aug_ok_down [of rd t RB_LEFT l a r C] aug_ok_down [of rd t RB_RIGHT r a l C] by simp_all
  have so: "sorted (map (low rd t) (addrs (plug l ((RB_LEFT, a, r) # C))))" "sorted (map (low rd t) (addrs (plug r ((RB_RIGHT, a, l) # C))))"
    using Suc.prems(4) T by simp_all
  have a: "a \<noteq> rbt_nil" "rb_c t RB_LEFT a = aroot l" "rb_c t RB_RIGHT a = aroot r" "tree_at t a l" "tree_at t a r"
    using Suc.prems(1) T by (auto simp: zip_at_def cell_ok_def)
  show ?case
  proof (cases "?Q a")
    case True
    then show ?thesis using T a by (simp add: hit_def)
  next
    case False
    let ?go = "l \<noteq> Lf \<and> rd (iv_lower iv) \<le> tmax rd t l"
    have lm: "l \<noteq> Lf \<Longrightarrow> rd (iv_link_max (iv_unpack t (aroot l))) = tmax rd t l"
      using link_max_root au(1) by (auto simp: aug_ok_def)
    have left: "find ?Q (preorder l) = None" if "\<not> ?go"
      using that by (cases "l = Lf") (auto simp: not_le intro!: find_None dest: no_hit_low_max)
    have "?Q a = False" using False by simp
    then have fa: "find ?Q (preorder T @ ctx_rest C) = find ?Q (preorder l @ preorder r @ ctx_rest C)"
      by (simp only: T preorder.simps append_Cons append_assoc find.simps if_False)
    define nxt where "nxt = (if ?go then aroot l else aroot r)"
    have eval: "ivt_search (Suc n) rd t iv (Some x) (aroot T) =
      (if nxt = rbt_nil then
         (case ivt_walk_up (length (rb_mem t)) rd t iv nxt a of
            Ok c \<Rightarrow> if c = rb_root t then Ok None else ivt_search n rd t iv (Some x) c
          | Err e \<Rightarrow> Err e | Undef \<Rightarrow> Undef | Loop \<Rightarrow> Loop)
       else ivt_search n rd t iv (Some x) nxt)"
    proof -
      have "(Some a \<noteq> Some x \<and> iv_intersects rd (iv_unpack t a) iv) = False" using False by (simp add: hit_def)
      moreover have "(aroot l \<noteq> rbt_nil \<and> rd (iv_lower iv) \<le> rd (iv_link_max (iv_unpack t (aroot l)))) = ?go"
        using lm aroot_nil [OF a(4)] by auto
      moreover have "(a = rbt_nil) = False" "(Some x \<noteq> None) = True" using a(1) by simp_all
      ultimately show ?thesis
        by (simp only: T aroot.simps ivt_search.simps Let_def a(2,3) if_False simp_thms flip: nxt_def)
    qed
    consider (left) ?go | (right) "\<not> ?go" "r \<noteq> Lf" | (up) "\<not> ?go" "r = Lf" by blast
    then show ?thesis
    proof cases
      case left
      then have "nxt \<noteq> rbt_nil" "nxt = aroot l" using aroot_nil [OF a(4)] by (simp_all add: nxt_def)
      then show ?thesis unfolding fa eval using Suc.IH [OF z(1) _ au(1) so(1)] left Suc.prems(5) T by simp
    next
      case right
      have "nxt = (if ?go then aroot l else aroot r)" by (rule nxt_def)
      also have "\<dots> = aroot r" using right(1) by (rule if_not_P)
      finally have "nxt \<noteq> rbt_nil" "nxt = aroot r" using right(2) aroot_nil [OF a(5)] by simp_all
      then show ?thesis unfolding fa eval using Suc.IH [OF z(2) right(2) au(2) so(2)] left [OF right(1)] Suc.prems(5) T
        by (simp add: find_append)
    next
      case up
      have goal: "find ?Q (preorder T @ ctx_rest C) = find ?Q (ctx_rest ((RB_RIGHT, a, l) # C))"
        unfolding fa using left [OF up(1)] up(2) by (simp add: find_append)
      have "nxt = (if ?go then aroot l else aroot r)" by (rule nxt_def)
      also have "\<dots> = aroot r" using up(1) by (rule if_not_P)
      finally have nil: "nxt = rbt_nil" "aroot r = nxt" using up(2) by simp_all
      have short: "length ((RB_RIGHT, a, l) # C) < length (rb_mem t)" using context_short [OF z(2)] by blast
      have cm: "ctx_max_ok rd t (tmax rd t r) ((RB_RIGHT, a, l) # C)" using au(2) by (simp add: aug_ok_def)
      have pl: "plug r ((RB_RIGHT, a, l) # C) = plug T C" using T by simp
      have ca: "ctx_addr ((RB_RIGHT, a, l) # C) = a" by simp
      have Q: "?Q b \<Longrightarrow> hit rd t iv b" for b by blast
      note up_ok = walk_up_ok [OF z(2) cm so(2) short, where Q = ?Q, OF Q, unfolded pl ca nil(2)]
      obtain c where c: "ivt_walk_up (length (rb_mem t)) rd t iv nxt a = Ok c"
        "c = rb_root t \<and> find ?Q (ctx_rest ((RB_RIGHT, a, l) # C)) = None \<or>
         (\<exists>s C1. zip_at t s C1 \<and> plug s C1 = plug T C \<and> s \<noteq> Lf \<and> C1 \<noteq> [] \<and> c = aroot s \<and>
           find ?Q (ctx_rest ((RB_RIGHT, a, l) # C)) = find ?Q (preorder s @ ctx_rest C1) \<and>
           length (preorder s @ ctx_rest C1) \<le> length (ctx_rest ((RB_RIGHT, a, l) # C)))"
        using up_ok by blast
      from c(2) show ?thesis
      proof
        assume "c = rb_root t \<and> find ?Q (ctx_rest ((RB_RIGHT, a, l) # C)) = None"
        then show ?thesis unfolding goal eval using c(1) nil(1) by simp
      next
        assume "\<exists>s C1. zip_at t s C1 \<and> plug s C1 = plug T C \<and> s \<noteq> Lf \<and> C1 \<noteq> [] \<and> c = aroot s \<and>
           find ?Q (ctx_rest ((RB_RIGHT, a, l) # C)) = find ?Q (preorder s @ ctx_rest C1) \<and>
           length (preorder s @ ctx_rest C1) \<le> length (ctx_rest ((RB_RIGHT, a, l) # C))"
        then obtain s C1 where s: "zip_at t s C1" "plug s C1 = plug T C" "s \<noteq> Lf" "C1 \<noteq> []" "c = aroot s"
           "find ?Q (ctx_rest ((RB_RIGHT, a, l) # C)) = find ?Q (preorder s @ ctx_rest C1)"
           "length (preorder s @ ctx_rest C1) \<le> length (ctx_rest ((RB_RIGHT, a, l) # C))" by blast
        have "aug_ok rd t s C1" using Suc.prems(3) s(2) aug_ok_plug by metis
        moreover have "sorted (map (low rd t) (addrs (plug s C1)))" using Suc.prems(4) s(2) by simp
        moreover have "length (preorder s @ ctx_rest C1) < n" using s(7) Suc.prems(5) T by simp
        ultimately have "ivt_search n rd t iv (Some x) c = Ok (find ?Q (preorder s @ ctx_rest C1))"
          using Suc.IH [OF s(1,3)] s(5) by blast
        moreover have "c \<noteq> rb_root t" using root_not_below [OF s(1,3,4)] s(5) by simp
        ultimately show ?thesis unfolding goal eval using c(1) nil(1) s(6) by simp
      qed
    qed
  qed
qed simp

section \<open>All matches\<close>

text \<open>The scan from a cell on is the scan of a position.\<close>

lemma preorder_position:
  "x \<in> set (addrs T) \<Longrightarrow>
   \<exists>s D pre. s \<noteq> Lf \<and> aroot s = x \<and> plug s D = plug T C \<and> preorder T @ ctx_rest C = pre @ preorder s @ ctx_rest D"
proof (induction T arbitrary: C)
  case (Nd l a r)
  then consider "x = a" | "x \<in> set (addrs l)" | "x \<in> set (addrs r)" by auto
  then show ?case
  proof cases
    case 1
    then show ?thesis by (intro exI [of _ "Nd l a r"] exI [of _ C] exI [of _ "[]"]) simp
  next
    case 2
    from Nd.IH(1) [OF this, of "(RB_LEFT, a, r) # C"] obtain s D pre where
      "s \<noteq> Lf" "aroot s = x" "plug s D = plug (Nd l a r) C" "preorder l @ preorder r @ ctx_rest C = pre @ preorder s @ ctx_rest D"
      by auto
    then show ?thesis by (intro exI [of _ s] exI [of _ D] exI [of _ "a # pre"]) simp
  next
    case 3
    from Nd.IH(2) [OF this, of "(RB_RIGHT, a, l) # C"] obtain s D pre where
      "s \<noteq> Lf" "aroot s = x" "plug s D = plug (Nd l a r) C" "preorder r @ ctx_rest C = pre @ preorder s @ ctx_rest D"
      by auto
    then show ?thesis by (intro exI [of _ s] exI [of _ D] exI [of _ "a # preorder l @ pre"]) simp
  qed
qed simp

lemma intersect_first:
  assumes "ivt_inv rd t T" "hgt T < n"
  shows "ivt_intersect n rd t iv None = Ok (find (hit rd t iv) (preorder T))"
proof -
  have "rb_root t = aroot T" "tree_at t rbt_nil T" using assms(1) by (auto simp: ivt_inv_def zip_at_def)
  then show ?thesis using search_first [of t rbt_nil T rd n iv] assms by (simp add: ivt_intersect_def ivt_inv_def aug_ok_def)
qed

text \<open>The height of a red-black tree is logarithmic.\<close>

lemma rbt_ok_size: "rbt_ok t T k \<Longrightarrow> 2 ^ k \<le> Suc (length (addrs T))"
proof (induction T arbitrary: k)
  case (Nd l a r)
  show ?case
  proof (cases "RB_COLOR t a")
    case True
    then have "2 ^ k \<le> Suc (length (addrs l))" using Nd by simp
    then show ?thesis by simp
  next
    case False
    then obtain j where k: "k = Suc j" "rbt_ok t l j" "rbt_ok t r j" using Nd.prems by (cases k) auto
    show ?thesis using Nd.IH(1) [OF k(2)] Nd.IH(2) [OF k(3)] k(1) by simp
  qed
qed simp

lemma rbt_ok_hgt: "rbt_ok t T k \<Longrightarrow> hgt T \<le> 2 * k + (if rb_red t T then 1 else 0)"
proof (induction T arbitrary: k)
  case (Nd l a r)
  show ?case
  proof (cases "RB_COLOR t a")
    case True
    then show ?thesis using Nd.IH(1) [of k] Nd.IH(2) [of k] Nd.prems by simp
  next
    case False
    then obtain j where k: "k = Suc j" "rbt_ok t l j" "rbt_ok t r j" using Nd.prems by (cases k) auto
    have "hgt l \<le> Suc (2 * j)" "hgt r \<le> Suc (2 * j)" using Nd.IH(1) [OF k(2)] Nd.IH(2) [OF k(3)] by (auto split: if_splits)
    then show ?thesis using k(1) False by simp
  qed
qed simp

lemma ivt_inv_hgt:
  assumes "ivt_inv rd t T" "Suc (length (addrs T)) < 2 ^ Suc j"
  shows "hgt T \<le> 2 * j"
proof -
  obtain k where k: "rbt_ok t T k" "\<not> rb_red t T" using assms(1) by (auto simp: ivt_inv_def)
  have "(2::nat) ^ k < 2 ^ Suc j" using rbt_ok_size [OF k(1)] assms(2) by linarith
  then have "k \<le> j" by (simp del: power_Suc)
  then show ?thesis using rbt_ok_hgt [OF k(1)] k(2) by simp
qed

lemma intersect_next:
  assumes "ivt_inv rd t T" "length (addrs T) < n" "preorder T = pre @ x # post"
  shows "ivt_intersect n rd t iv (Some x) = Ok (find (hit rd t iv) post)"
proof -
  have inv: "zip_at t T []" "aug_ok rd t T []" "sorted (map (low rd t) (addrs T))" using assms(1) by (auto simp: ivt_inv_def)
  then have d: "distinct (preorder T)" by (intro distinct_preorder) (simp add: zip_at_def)
  have "x \<in> set (addrs T)" using arg_cong [OF assms(3), of set] by auto
  from preorder_position [OF this, of "[]"] obtain s D pre' where
    s: "s \<noteq> Lf" "aroot s = x" "plug s D = T" "preorder T = pre' @ preorder s @ ctx_rest D" by auto
  obtain rest where rest: "preorder s @ ctx_rest D = x # rest" using s(1,2) by (cases s) auto
  have "rest = post" using d assms(3) s(4) rest by (auto simp: append_eq_append_conv2 append_eq_Cons_conv Cons_eq_append_conv)
  moreover have "find (\<lambda>a. a \<noteq> x \<and> hit rd t iv a) post = find (hit rd t iv) post"
    using d assms(3) by (intro find_cong) auto
  moreover have "length (preorder s @ ctx_rest D) < n" using s(4) assms(2) length_preorder [of T] by simp
  then have "ivt_search n rd t iv (Some x) (aroot s) = Ok (find (\<lambda>a. a \<noteq> x \<and> hit rd t iv a) (preorder s @ ctx_rest D))"
    using inv s by (intro search_next) (auto simp: aug_ok_plug [of rd t s D] zip_at_plug [of t s D])
  ultimately show ?thesis using s(2) rest by (simp add: ivt_intersect_def)
qed

end
