(* ===== verification/Mappings_Spec.thy ===== *)
theory Mappings_Spec
  imports Ival_Search Mappings "HOL-Library.Multiset"
begin

text \<open>
  From mappings to lookups in the interval tree: the tree that is built from a list of intervals
  and what its searches enumerate, the height of the tree, and the merge of the ranges of a
  mapping, whose contract \<open>range_merge\<close> the signed and the unsigned routine share.
\<close>

section \<open>Construction\<close>

lemma addrs_short:
  assumes "zip_at t T []" "0 < length (rb_mem t)"
  shows "length (addrs T) < length (rb_mem t)"
proof -
  have "set (addrs T) \<subseteq> {0<..<length (rb_mem t)}" "distinct (addrs T)"
    using zip_at_cells [OF assms(1)] assms(1) by (auto simp: cell_ok_def zip_at_def)
  then have "length (addrs T) \<le> length (rb_mem t) - 1"
    using card_mono [of "{0<..<length (rb_mem t)}" "set (addrs T)"] by (simp add: distinct_card)
  then show ?thesis using assms(2) by linarith
qed

context ival_reading
begin

lemma insert_all_ok:
  assumes "ivt_inv rd t T" "distinct xs" "\<forall>x \<in> set xs. cell_ok t x \<and> x \<notin> set (addrs T) \<and> 0 \<le> upp rd t x"
    "0 < length (rb_mem t)"
  shows "\<exists>t' T'. ivt_insert_all rd xs t = Ok t' \<and> ivt_inv rd t' T' \<and> set (addrs T') = set (addrs T) \<union> set xs \<and> same_keys t t'"
  using assms
proof (induction xs arbitrary: t T)
  case (Cons x xs)
  have "length (addrs T) < length (rb_mem t)" using addrs_short Cons.prems(1,4) by (auto simp: ivt_inv_def)
  then obtain t1 T1 where t1: "ivt_insert (length (rb_mem t)) rd x t = Ok t1" "ivt_inv rd t1 T1"
    "set (addrs T1) = insert x (set (addrs T))" "same_keys t t1"
    using insert_ok [OF Cons.prems(1), of x "length (rb_mem t)"] Cons.prems(3) by auto
  have "\<forall>y \<in> set xs. cell_ok t1 y \<and> y \<notin> set (addrs T1) \<and> 0 \<le> upp rd t1 y"
    using Cons.prems(2,3) t1(3) same_keys_cell_ok [OF t1(4)] same_keys_low(2) [OF t1(4), of rd] by auto
  moreover have "0 < length (rb_mem t1)" using t1(4) Cons.prems(4) by (simp add: same_keys_def)
  ultimately obtain t' T' where "ivt_insert_all rd xs t1 = Ok t'" "ivt_inv rd t' T'" "set (addrs T') = set (addrs T1) \<union> set xs" "same_keys t1 t'"
    using Cons.IH [OF t1(2)] Cons.prems(2) by auto
  then show ?case using t1 same_keys_trans [OF t1(4)] by auto
qed auto

lemma build_ok:
  assumes "alloc 1" "\<forall>iv \<in> set ivs. 0 \<le> rd (iv_upper iv)"
  shows "\<exists>t T. build_ivt alloc rd ivs = Ok t \<and> ivt_inv rd t T \<and> set (addrs T) = {1..length ivs} \<and>
    length (rb_mem t) = Suc (length ivs) \<and> (\<forall>i < length ivs. iv_key (iv_unpack t (Suc i)) = iv_key (ivs ! i))"
proof -
  define t0 where "t0 = \<lparr>rb_root = rbt_nil, rb_mem = (unlinked (mk_ival [] 0 0))\<lparr>n_red := False\<rparr> # map unlinked ivs, rb_cb_set = False\<rparr>"
  have b: "build_ivt alloc rd ivs = ivt_insert_all rd [1..<Suc (length ivs)] t0"
    using assms(1) by (simp add: build_ivt_def rb_tree_init_def t0_def del: upt_Suc)
  have cells: "iv_unpack t0 (Suc i) = ivs ! i" if "i < length ivs" for i
    using that by (simp add: t0_def rb_cell_def unlinked_def)
  have "ivt_inv rd t0 Lf" by (simp add: ivt_inv_def zip_at_def aug_ok_def t0_def rb_cell_def)
  moreover have "cell_ok t0 x \<and> x \<notin> set (addrs Lf) \<and> 0 \<le> upp rd t0 x" if x: "x \<in> set [1..<Suc (length ivs)]" for x
  proof -
    obtain i where i: "x = Suc i" "i < length ivs" using x unfolding set_upt by (cases x) auto
    then have "length (rb_mem t0) = Suc (length ivs)" by (simp add: t0_def)
    then show ?thesis using i cells [OF i(2)] assms(2) by (simp add: cell_ok_def upp_def)
  qed
  moreover have "0 < length (rb_mem t0)" by (simp add: t0_def)
  ultimately obtain t T where t: "ivt_insert_all rd [1..<Suc (length ivs)] t0 = Ok t" "ivt_inv rd t T"
    "set (addrs T) = set (addrs Lf) \<union> set [1..<Suc (length ivs)]" "same_keys t0 t"
    using insert_all_ok [of t0 Lf "[1..<Suc (length ivs)]"] by (auto simp del: upt_Suc)
  have "set (addrs T) = {1..length ivs}" using t(3) by auto
  moreover have "length (rb_mem t) = Suc (length ivs)" using t(4) by (simp add: same_keys_def t0_def)
  moreover have "iv_key (iv_unpack t (Suc i)) = iv_key (ivs ! i)" if "i < length ivs" for i
    using t(4) cells [OF that] by (simp add: same_keys_def)
  ultimately show ?thesis using b t(1,2) by auto
qed

end

section \<open>Lookup\<close>

abbreviation point :: "u64 \<Rightarrow> ival" where
  "point v \<equiv> \<lparr>iv_lower = v, iv_upper = v, iv_value = [], iv_link_max = 0\<rparr>"

definition holds :: "(u64 \<Rightarrow> int) \<Rightarrow> u64 \<Rightarrow> ival \<Rightarrow> bool" where
  "holds rd v iv \<longleftrightarrow> rd (iv_lower iv) \<le> rd v \<and> rd v \<le> rd (iv_upper iv)"

lemma tree_scan:
  assumes "ivt_inv rd (am_ivt maps) T" "0 < length (rb_mem (am_ivt maps))"
  shows "scan_search (ivt_find rd maps v) None Some (preorder T) (hit rd (am_ivt maps) (point v))
    (\<lambda>x. iv_value (iv_unpack (am_ivt maps) x))"
proof
  have n: "length (addrs T) < Suc (length (rb_mem (am_ivt maps)))"
    using addrs_short assms by (auto simp: ivt_inv_def less_Suc_eq)
  show "finds (ivt_find rd maps v None) (hit rd (am_ivt maps) (point v)) (\<lambda>x. iv_value (iv_unpack (am_ivt maps) x)) Some (preorder T)"
    using intersect_first [OF assms(1) le_less_trans [OF hgt_le_length n]] by (auto simp: finds_def ivt_find_def ivt_intersect_pt_def split: option.split)
  show "finds (ivt_find rd maps v (Some x)) (hit rd (am_ivt maps) (point v)) (\<lambda>x. iv_value (iv_unpack (am_ivt maps) x)) Some post"
    if "preorder T = pre @ x # post" for pre x post
    using intersect_next [OF assms(1) n that] by (auto simp: finds_def ivt_find_def ivt_intersect_pt_def split: option.split)
qed

lemma map_filter_cong: "(\<And>x. x \<in> set xs \<Longrightarrow> p x = q x \<and> f x = g x) \<Longrightarrow> map f (filter p xs) = map g (filter q xs)"
  by (induction xs) auto

lemma find_all_tree:
  assumes inv: "ivt_inv rd (am_ivt maps) T" and cells: "set (addrs T) = {1..length ivs}"
    and mem: "length (rb_mem (am_ivt maps)) = Suc (length ivs)"
    and keys: "\<forall>i < length ivs. iv_key (iv_unpack (am_ivt maps) (Suc i)) = iv_key (ivs ! i)"
  shows "\<exists>names. find_all (length (rb_mem (am_ivt maps))) (ivt_find rd maps v) None = Ok names \<and>
    mset names = mset (map iv_value (filter (holds rd v) ivs))"
proof -
  let ?t = "am_ivt maps"
  let ?names = "map (\<lambda>x. iv_value (iv_unpack ?t x)) (filter (hit rd ?t (point v)) (preorder T))"
  have pos: "0 < length (rb_mem ?t)" using mem by simp
  have z: "zip_at ?t T []" using inv by (simp add: ivt_inv_def)
  have "length (preorder T) < length (rb_mem ?t)" using addrs_short [OF z pos] by simp
  then have "find_all (length (rb_mem ?t)) (ivt_find rd maps v) None = Ok ?names"
    by (rule scan_search.find_all_scan [OF tree_scan [OF inv pos]])
  moreover have "mset ?names = mset (map iv_value (filter (holds rd v) ivs))"
  proof -
    have "distinct (preorder T)" using z by (intro distinct_preorder) (simp add: zip_at_def)
    moreover have "distinct (map Suc [0..<length ivs])" by (simp add: distinct_map)
    moreover have "set (preorder T) = set (map Suc [0..<length ivs])"
      unfolding set_preorder cells by (simp add: image_Suc_atLeastLessThan atLeastLessThanSuc_atLeastAtMost)
    ultimately have "mset (preorder T) = mset (map Suc [0..<length ivs])" using set_eq_iff_mset_eq_distinct by blast
    then have "mset ?names = mset (map (\<lambda>x. iv_value (iv_unpack ?t x)) (filter (hit rd ?t (point v)) (map Suc [0..<length ivs])))"
      by (simp only: mset_map mset_filter)
    also have "map (\<lambda>x. iv_value (iv_unpack ?t x)) (filter (hit rd ?t (point v)) (map Suc [0..<length ivs])) =
        map (\<lambda>i. iv_value (ivs ! i)) (filter (\<lambda>i. holds rd v (ivs ! i)) [0..<length ivs])"
      unfolding filter_map map_map comp_def
      using keys by (intro map_filter_cong) (auto simp: hit_iff low_def upp_def holds_def iv_key_def)
    also have "\<dots> = map iv_value (filter (holds rd v) (map ((!) ivs) [0..<length ivs]))" by (simp add: filter_map comp_def)
    finally show ?thesis by (simp only: map_nth)
  qed
  ultimately show ?thesis by blast
qed

section \<open>Sorting and merging\<close>

text \<open>
  The comparators order ranges by their lower bounds where these are less than \<open>2 ^ 31\<close> apart,
  since the difference then fits into an \<open>int\<close>.
\<close>

definition near :: "('r \<Rightarrow> int) \<Rightarrow> 'r list \<Rightarrow> bool" where
  "near lo rs \<longleftrightarrow> list_all (\<lambda>a. list_all (\<lambda>b. lo a - lo b < 2 ^ 31) rs) rs"

text \<open>The order a comparator is meant to implement, and that it does so on the elements of a list.\<close>

definition compares :: "('r \<Rightarrow> 'r \<Rightarrow> int option) \<Rightarrow> ('r \<Rightarrow> int) \<Rightarrow> 'r list \<Rightarrow> bool" where
  "compares cmp lo rs \<longleftrightarrow> (\<forall>a \<in> set rs. \<forall>b \<in> set rs. \<exists>c. cmp a b = Some c \<and> sgn c = sgn (lo a - lo b))"

lemma compares_le: "compares cmp lo rs \<Longrightarrow> a \<in> set rs \<Longrightarrow> b \<in> set rs \<Longrightarrow> cmp_le cmp a b \<longleftrightarrow> lo a \<le> lo b"
  by (force simp: compares_def cmp_le_def sgn_if split: if_splits)

lemma compares_cmp_ok:
  assumes c: "compares cmp lo rs"
  shows "cmp_ok cmp rs"
proof -
  have sym: "case (cmp a b, cmp b a) of (Some c, Some d) \<Rightarrow> sgn d = - sgn c | _ \<Rightarrow> False" if "a \<in> set rs" "b \<in> set rs" for a b
  proof -
    obtain x y where "cmp a b = Some x" "sgn x = sgn (lo a - lo b)" "cmp b a = Some y" "sgn y = sgn (lo b - lo a)"
      using c \<open>a \<in> set rs\<close> \<open>b \<in> set rs\<close> unfolding compares_def by meson
    then show ?thesis using sgn_minus [of "lo a - lo b"] by simp
  qed
  have trans: "cmp_le cmp a d" if "a \<in> set rs" "b \<in> set rs" "d \<in> set rs" "cmp_le cmp a b" "cmp_le cmp b d" for a b d
    using that compares_le [OF c] by fastforce
  show ?thesis unfolding cmp_ok_def list_all_iff using sym trans by blast
qed

lemma insort_cmp_key:
  "(\<And>y. y \<in> set ys \<Longrightarrow> cmp_le cmp x y \<longleftrightarrow> lo x \<le> lo y) \<Longrightarrow> insort_cmp cmp x ys = insort_key lo x ys"
  by (induction ys) auto

lemma qsort_key:
  assumes "compares cmp lo rs"
  shows "qsort cmp rs = Ok (sort_key lo rs)"
proof -
  have "foldr (insort_cmp cmp) xs [] = sort_key lo xs" if "set xs \<subseteq> set rs" for xs
    using that
  proof (induction xs)
    case (Cons x xs)
    have "insort_cmp cmp x (sort_key lo xs) = insort_key lo x (sort_key lo xs)"
      using Cons.prems compares_le [OF assms] by (intro insort_cmp_key) auto
    then show ?case using Cons by simp
  qed simp
  then show ?thesis using compares_cmp_ok [OF assms] by (simp add: qsort_def)
qed

text \<open>What the signed and the unsigned routine share.\<close>

locale range_merge =
  fixes rd :: "u64 \<Rightarrow> int" and lo up :: "'r \<Rightarrow> int" and cmp :: "'r \<Rightarrow> 'r \<Rightarrow> int option"
    and mk :: "string \<Rightarrow> 'r \<Rightarrow> ival" and widen :: "'r \<Rightarrow> 'r \<Rightarrow> 'r"
    and merge :: "string \<Rightarrow> 'r \<Rightarrow> 'r list \<Rightarrow> ival list" and ivals :: "('r list \<times> string) list \<Rightarrow> ival list res"
  assumes cmp: "near lo rs \<Longrightarrow> compares cmp lo rs"
    and mk: "iv_value (mk name r) = name" "rd (iv_lower (mk name r)) = lo r" "rd (iv_upper (mk name r)) = up r"
    and widen: "lo (widen tp r) = lo tp" "up (widen tp r) = max (up r) (up tp)"
    and merge_Nil: "merge name tp [] = [mk name tp]"
    and merge_Cons: "merge name tp (r # rs) =
      (if lo r \<le> up tp \<and> lo tp \<le> up r then merge name (widen tp r) rs else mk name tp # merge name r rs)"
    and ivals_Nil: "ivals [] = Ok []"
    and ivals_Cons: "qsort cmp rs = Ok qs \<Longrightarrow> ivals ms = Ok ivs \<Longrightarrow>
      ivals ((rs, name) # ms) = Ok ((case qs of [] \<Rightarrow> [] | r # rs' \<Rightarrow> merge name r rs') @ ivs)"
begin

definition covers :: "'r list \<Rightarrow> u64 \<Rightarrow> bool" where
  "covers rs v \<longleftrightarrow> (\<exists>r \<in> set rs. lo r \<le> rd v \<and> rd v \<le> up r)"

text \<open>The merged intervals of a mapping are disjoint: the one that holds the value is the only one.\<close>

lemma merge_holds:
  assumes "sorted (map lo (tp # rs))" "\<forall>r \<in> set (tp # rs). lo r \<le> up r"
  shows "map iv_value (filter (holds rd v) (merge name tp rs)) = (if covers (tp # rs) v then [name] else [])"
  using assms
proof (induction rs arbitrary: tp)
  case Nil
  then show ?case by (simp add: merge_Nil holds_def mk covers_def)
next
  case (Cons r rs)
  show ?case
  proof (cases "lo r \<le> up tp")
    case True
    have "merge name tp (r # rs) = merge name (widen tp r) rs" using True Cons.prems by (fastforce simp: merge_Cons)
    moreover have "map iv_value (filter (holds rd v) (merge name (widen tp r) rs)) = (if covers (widen tp r # rs) v then [name] else [])"
      using Cons.prems by (intro Cons.IH) (auto simp: widen)
    moreover have "covers (widen tp r # rs) v = covers (tp # r # rs) v"
      using True Cons.prems by (auto simp: covers_def widen)
    ultimately show ?thesis by simp
  next
    case False
    have "merge name tp (r # rs) = mk name tp # merge name r rs" using False by (simp add: merge_Cons)
    moreover have "map iv_value (filter (holds rd v) (merge name r rs)) = (if covers (r # rs) v then [name] else [])"
      using Cons.prems by (intro Cons.IH) auto
    moreover have "holds rd v (mk name tp) \<Longrightarrow> \<not> covers (r # rs) v"
      using False Cons.prems by (fastforce simp: covers_def holds_def mk)
    moreover have "covers (tp # r # rs) v \<longleftrightarrow> holds rd v (mk name tp) \<or> covers (r # rs) v"
      by (auto simp: covers_def holds_def mk)
    ultimately show ?thesis by (auto simp: mk)
  qed
qed

lemma merge_upper: "iv \<in> set (merge name tp rs) \<Longrightarrow> \<exists>r \<in> set (tp # rs). rd (iv_upper iv) = up r"
proof (induction rs arbitrary: tp)
  case (Cons r rs)
  show ?case
  proof (cases "lo r \<le> up tp \<and> lo tp \<le> up r")
    case True
    then have "iv \<in> set (merge name (widen tp r) rs)" using Cons.prems by (simp add: merge_Cons)
    from Cons.IH [OF this] show ?thesis by (auto simp: widen max_def split: if_splits)
  next
    case False
    then have "iv = mk name tp \<or> iv \<in> set (merge name r rs)" using Cons.prems by (auto simp: merge_Cons)
    then show ?thesis using Cons.IH [of r] by (auto simp: mk)
  qed
qed (simp add: merge_Nil mk)

lemma ivals_ok:
  assumes "\<forall>m \<in> set maps. near lo (fst m) \<and> (\<forall>r \<in> set (fst m). lo r \<le> up r)"
  shows "\<exists>ivs. ivals maps = Ok ivs \<and>
    (\<forall>v. map iv_value (filter (holds rd v) ivs) = map snd (filter (\<lambda>m. covers (fst m) v) maps)) \<and>
    (\<forall>iv \<in> set ivs. \<exists>m \<in> set maps. \<exists>r \<in> set (fst m). rd (iv_upper iv) = up r)"
  using assms
proof (induction maps)
  case (Cons m maps)
  obtain rs name where m: "m = (rs, name)" by (cases m)
  obtain ivs where ivs: "ivals maps = Ok ivs" "\<And>v. map iv_value (filter (holds rd v) ivs) = map snd (filter (\<lambda>m. covers (fst m) v) maps)"
    "\<forall>iv \<in> set ivs. \<exists>m \<in> set maps. \<exists>r \<in> set (fst m). rd (iv_upper iv) = up r"
    using Cons by auto
  have prems: "\<forall>r \<in> set rs. lo r \<le> up r" using Cons.prems m by simp
  define new where "new = (case sort_key lo rs of [] \<Rightarrow> [] | r # rs' \<Rightarrow> merge name r rs')"
  have e: "ivals (m # maps) = Ok (new @ ivs)"
    using ivals_Cons [OF qsort_key [OF cmp] ivs(1)] Cons.prems m by (simp add: new_def)
  have n: "map iv_value (filter (holds rd v) new) = (if covers rs v then [name] else [])" for v
  proof (cases "sort_key lo rs")
    case Nil
    then have "rs = []" by (metis set_sort set_empty)
    then show ?thesis by (simp add: new_def covers_def)
  next
    case (Cons r rs')
    have "set (r # rs') = set rs" "sorted (map lo (r # rs'))" using Cons set_sort [of lo rs] sorted_sort_key [of lo rs] by simp_all
    moreover from this have "covers (r # rs') v = covers rs v" unfolding covers_def by simp
    ultimately show ?thesis using Cons merge_holds [of r rs' v name] prems by (simp add: new_def)
  qed
  have "\<exists>r \<in> set rs. rd (iv_upper iv) = up r" if "iv \<in> set new" for iv
  proof (cases "sort_key lo rs")
    case (Cons r rs')
    then have "iv \<in> set (merge name r rs')" "set (r # rs') = set rs" using that set_sort [of lo rs] by (simp_all add: new_def)
    then show ?thesis using merge_upper [of iv name r rs'] by simp
  qed (use that in \<open>simp add: new_def\<close>)
  then show ?case using e n ivs(2,3) m by auto
qed (simp add: ivals_Nil)

end

subsection \<open>The two signs\<close>

lemma int_of_diff: "- (2 ^ 31) \<le> d \<Longrightarrow> d < 2 ^ 31 \<Longrightarrow> int_of_diff (word_of_int d) = d"
proof -
  assume d: "- (2 ^ 31) \<le> d" "d < 2 ^ 31"
  have "(ucast (word_of_int d :: u64) :: 32 word) = word_of_int d" by transfer simp
  then show ?thesis using d by (simp add: int_of_diff_def sint_sbintrunc' signed_take_bit_int_eq_self)
qed

lemma near_diff: "near lo rs \<Longrightarrow> a \<in> set rs \<Longrightarrow> b \<in> set rs \<Longrightarrow> - (2 ^ 31) < lo a - lo b \<and> lo a - lo b < 2 ^ 31"
  unfolding near_def list_all_iff by force

lemma urng_cmp_compares: "near (\<lambda>r. uint (u_lower r)) rs \<Longrightarrow> compares urng_cmp (\<lambda>r. uint (u_lower r)) rs"
  unfolding compares_def
proof (intro ballI)
  fix a b assume n: "near (\<lambda>r. uint (u_lower r)) rs" and m: "a \<in> set rs" "b \<in> set rs"
  have "u_lower a - u_lower b = word_of_int (uint (u_lower a) - uint (u_lower b))" by (simp add: word_of_int_uint)
  then have "int_of_diff (u_lower a - u_lower b) = uint (u_lower a) - uint (u_lower b)"
    using int_of_diff near_diff [OF n m] by (metis less_imp_le)
  then show "\<exists>c. urng_cmp a b = Some c \<and> sgn c = sgn (uint (u_lower a) - uint (u_lower b))"
    by (auto simp: urng_cmp_def word_le_def)
qed

lemma srng_cmp_compares: "near (\<lambda>r. sint (s_lower r)) rs \<Longrightarrow> compares srng_cmp (\<lambda>r. sint (s_lower r)) rs"
  unfolding compares_def
proof (intro ballI)
  fix a b assume n: "near (\<lambda>r. sint (s_lower r)) rs" and m: "a \<in> set rs" "b \<in> set rs"
  have "s_lower a - s_lower b = word_of_int (sint (s_lower a) - sint (s_lower b))" by simp
  then have "int_of_diff (s_lower a - s_lower b) = sint (s_lower a) - sint (s_lower b)"
    using int_of_diff near_diff [OF n m] by (metis less_imp_le)
  then show "\<exists>c. srng_cmp a b = Some c \<and> sgn c = sgn (sint (s_lower a) - sint (s_lower b))"
    using near_diff [OF n m] by (simp add: srng_cmp_def Let_def)
qed

interpretation umaps: range_merge uint "\<lambda>r. uint (u_lower r)" "\<lambda>r. uint (u_upper r)" urng_cmp
  "\<lambda>name r. mk_ival name (u_lower r) (u_upper r)" "\<lambda>tp r. tp\<lparr>u_upper := max (u_upper r) (u_upper tp)\<rparr>" umerge uivals
proof
  show "near (\<lambda>r. uint (u_lower r)) rs \<Longrightarrow> compares urng_cmp (\<lambda>r. uint (u_lower r)) rs" for rs
    by (rule urng_cmp_compares)
  show "umerge name tp (r # rs) =
    (if uint (u_lower r) \<le> uint (u_upper tp) \<and> uint (u_lower tp) \<le> uint (u_upper r)
     then umerge name (tp\<lparr>u_upper := max (u_upper r) (u_upper tp)\<rparr>) rs
     else mk_ival name (u_lower tp) (u_upper tp) # umerge name r rs)" for name tp r rs
    by (simp add: urng_intersect_urng_def word_less_def not_less conj_commute)
  show "uivals ((rs, name) # ms) = Ok ((case qs of [] \<Rightarrow> [] | r # rs' \<Rightarrow> umerge name r rs') @ ivs)"
    if "qsort urng_cmp rs = Ok qs" "uivals ms = Ok ivs" for rs qs ms ivs name
    using that by (simp split: list.split)
qed (simp_all add: mk_ival_def max_def word_le_def)

interpretation smaps: range_merge sint "\<lambda>r. sint (s_lower r)" "\<lambda>r. sint (s_upper r)" srng_cmp
  "\<lambda>name r. mk_ival name (s_lower r) (s_upper r)"
  "\<lambda>tp r. tp\<lparr>s_upper := (if sint (s_upper tp) < sint (s_upper r) then s_upper r else s_upper tp)\<rparr>" smerge sivals
proof
  show "near (\<lambda>r. sint (s_lower r)) rs \<Longrightarrow> compares srng_cmp (\<lambda>r. sint (s_lower r)) rs" for rs
    by (rule srng_cmp_compares)
  show "smerge name tp (r # rs) =
    (if sint (s_lower r) \<le> sint (s_upper tp) \<and> sint (s_lower tp) \<le> sint (s_upper r)
     then smerge name (tp\<lparr>s_upper := (if sint (s_upper tp) < sint (s_upper r) then s_upper r else s_upper tp)\<rparr>) rs
     else mk_ival name (s_lower tp) (s_upper tp) # smerge name r rs)" for name tp r rs
    by (simp add: srng_intersect_srng_def not_less conj_commute)
  show "sivals ((rs, name) # ms) = Ok ((case qs of [] \<Rightarrow> [] | r # rs' \<Rightarrow> smerge name r rs') @ ivs)"
    if "qsort srng_cmp rs = Ok qs" "sivals ms = Ok ivs" for rs qs ms ivs name
    using that by (simp split: list.split)
qed (simp_all add: mk_ival_def max_def)

lemma umaps_covers: "umaps.covers rs v \<longleftrightarrow> urng_set_intersect rs v"
  by (induction rs) (auto simp: umaps.covers_def word_le_def)

lemma smaps_covers: "smaps.covers rs v \<longleftrightarrow> srng_set_intersect rs v"
  by (induction rs) (auto simp: smaps.covers_def)

end
