(* ===== verification/Mappings_Theorems.thy ===== *)
theory Mappings_Theorems
  imports Mappings_Spec
begin

text \<open>
  The interval tree behind the mappings of integer classes: what insertions keep, what a lookup
  costs, and that the lookups agree with a scan of all mappings.
\<close>

section \<open>Insertion\<close>

text \<open>
  C34. Inserting an interval whose upper bound is not negative into an interval tree returns, for
  the signed and for the unsigned tree. The result is a red-black tree with correct parent links
  and correct maxima that is ordered by the lower bounds; it holds the old cells and the new one,
  and the bounds and names of all intervals are as before.
\<close>

theorem ivt_insert_keeps_invariant:
  assumes "rd = uint \<or> rd = sint" "ivt_inv rd t T" "cell_ok t new" "new \<notin> set (addrs T)"
    "0 \<le> rd (iv_upper (iv_unpack t new))" "length (addrs T) < n"
  shows "\<exists>t' T'. ivt_insert n rd new t = Ok t' \<and> ivt_inv rd t' T' \<and>
    set (addrs T') = insert new (set (addrs T)) \<and> same_keys t t'"
  using assms(1)
proof
  assume "rd = uint"
  then show ?thesis using uival.insert_ok [of t T new n] assms(2-) by (simp add: upp_def)
next
  assume "rd = sint"
  then show ?thesis using sival.insert_ok [of t T new n] assms(2-) by (simp add: upp_def)
qed

text \<open>A new tree over two intervals, the second of which is put in.\<close>

definition two_cells :: ival_tree where
  "two_cells = \<lparr>rb_root = 0, rb_mem = map unlinked [mk_ival [] 0 0, mk_ival ''a'' 3 9, mk_ival ''b'' 1 4], rb_cb_set = False\<rparr>"

theorem ivt_insert_keeps_invariant_witness:
  "\<exists>t' T'. ivt_insert 1 sint 2 two_cells = Ok t' \<and> ivt_inv sint t' T' \<and> set (addrs T') = {2} \<and> same_keys two_cells t'"
proof -
  have "ivt_inv sint two_cells Lf" by (simp add: ivt_inv_def zip_at_def aug_ok_def two_cells_def rb_cell_def unlinked_def)
  moreover have "cell_ok two_cells 2" by (simp add: cell_ok_def two_cells_def)
  moreover have "0 \<le> sint (iv_upper (iv_unpack two_cells 2))" by (simp add: two_cells_def rb_cell_def unlinked_def mk_ival_def)
  ultimately show ?thesis using ivt_insert_keeps_invariant [of sint two_cells Lf 2 1] by simp
qed

section \<open>Lookups\<close>

lemma mappings_find_ivt:
  "actf_mappings_find_uint am v = ivt_find uint am v" "actf_mappings_find_sint am v = ivt_find sint am v"
  by (simp_all add: fun_eq_iff actf_mappings_find_uint_def actf_mappings_find_sint_def)

text \<open>
  C33. Unsigned mappings whose ranges are not empty and whose lower bounds are, within a mapping,
  less than 2^31 apart: the construction of the tree succeeds when memory can be had, and a
  client that iterates the lookup of a value gets the name of every mapping one of whose ranges
  contains it, each once, and no other name.
\<close>

theorem unsigned_mappings_lookup:
  assumes "\<forall>n. alloc n"
    "\<forall>m \<in> set maps. near (\<lambda>r. uint (u_lower r)) (fst m) \<and> (\<forall>r \<in> set (fst m). u_lower r \<le> u_upper r)"
  shows "\<exists>am. actf_mappings_init alloc (UMAPS maps) = Ok am \<and> actf_mappings_len am = length maps \<and>
    (\<forall>v. \<exists>names. find_all (length (rb_mem (am_ivt am))) (actf_mappings_find_uint am v) None = Ok names \<and>
      mset names = mset (map snd (filter (\<lambda>m. urng_set_intersect (fst m) v) maps)))"
proof -
  have "\<forall>m \<in> set maps. near (\<lambda>r. uint (u_lower r)) (fst m) \<and> (\<forall>r \<in> set (fst m). uint (u_lower r) \<le> uint (u_upper r))"
    using assms(2) by (simp add: word_le_def)
  from umaps.ivals_ok [OF this] obtain ivs where ivs: "uivals maps = Ok ivs"
    "\<And>v. map iv_value (filter (holds uint v) ivs) = map snd (filter (\<lambda>m. umaps.covers (fst m) v) maps)" by blast
  obtain t T where t: "build_ivt alloc uint ivs = Ok t" "ivt_inv uint t T" "set (addrs T) = {1..length ivs}"
    "length (rb_mem t) = Suc (length ivs)" "\<forall>i < length ivs. iv_key (iv_unpack t (Suc i)) = iv_key (ivs ! i)"
    using uival.build_ok [of alloc ivs] assms(1) by auto
  let ?am = "\<lparr>am_signed = False, am_ivt = t, am_names = map snd maps\<rparr>"
  have "actf_mappings_init alloc (UMAPS maps) = Ok ?am"
    using assms(1) ivs(1) t(1) by (simp add: actf_mappings_init_def init_uivalt_def)
  moreover have "\<exists>names. find_all (length (rb_mem (am_ivt ?am))) (actf_mappings_find_uint ?am v) None = Ok names \<and>
      mset names = mset (map snd (filter (\<lambda>m. urng_set_intersect (fst m) v) maps))" for v
    using find_all_tree [of uint ?am T ivs v] t(2-) ivs(2) [of v] by (simp add: mappings_find_ivt umaps_covers del: find_all.simps)
  ultimately show ?thesis by (auto simp: actf_mappings_len_def)
qed

theorem unsigned_mappings_lookup_witness:
  "\<exists>am. actf_mappings_init (\<lambda>n. True) (UMAPS [([\<lparr>u_lower = 5, u_upper = 9\<rparr>, \<lparr>u_lower = 1, u_upper = 6\<rparr>], ''a''), ([\<lparr>u_lower = 7, u_upper = 7\<rparr>], ''b'')]) = Ok am \<and>
    (\<exists>names. find_all (length (rb_mem (am_ivt am))) (actf_mappings_find_uint am 7) None = Ok names \<and> mset names = {#''a'', ''b''#})"
proof -
  let ?maps = "[([\<lparr>u_lower = 5, u_upper = 9\<rparr>, \<lparr>u_lower = 1, u_upper = 6\<rparr>], ''a''), ([\<lparr>u_lower = 7, u_upper = 7\<rparr>], ''b'')]"
  have "mset (map snd (filter (\<lambda>m. urng_set_intersect (fst m) 7) ?maps)) = {#''a'', ''b''#}" by simp
  moreover have "\<forall>m \<in> set ?maps. near (\<lambda>r. uint (u_lower r)) (fst m) \<and> (\<forall>r \<in> set (fst m). u_lower r \<le> u_upper r)"
    by (simp add: near_def)
  moreover from this obtain am where "actf_mappings_init (\<lambda>n. True) (UMAPS ?maps) = Ok am"
    "\<forall>v. \<exists>names. find_all (length (rb_mem (am_ivt am))) (actf_mappings_find_uint am v) None = Ok names \<and>
      mset names = mset (map snd (filter (\<lambda>m. urng_set_intersect (fst m) v) ?maps))"
    using unsigned_mappings_lookup [of "\<lambda>n. True" ?maps] by blast
  ultimately show ?thesis by metis
qed

text \<open>
  C35. The same for signed mappings and the signed lookup, provided that no range ends below
  zero.
\<close>

theorem signed_mappings_lookup:
  assumes "\<forall>n. alloc n"
    "\<forall>m \<in> set maps. near (\<lambda>r. sint (s_lower r)) (fst m) \<and>
      (\<forall>r \<in> set (fst m). sint (s_lower r) \<le> sint (s_upper r) \<and> 0 \<le> sint (s_upper r))"
  shows "\<exists>am. actf_mappings_init alloc (SMAPS maps) = Ok am \<and> actf_mappings_len am = length maps \<and>
    (\<forall>v. \<exists>names. find_all (length (rb_mem (am_ivt am))) (actf_mappings_find_sint am v) None = Ok names \<and>
      mset names = mset (map snd (filter (\<lambda>m. srng_set_intersect (fst m) v) maps)))"
proof -
  have "\<forall>m \<in> set maps. near (\<lambda>r. sint (s_lower r)) (fst m) \<and> (\<forall>r \<in> set (fst m). sint (s_lower r) \<le> sint (s_upper r))"
    using assms(2) by simp
  from smaps.ivals_ok [OF this] obtain ivs where ivs: "sivals maps = Ok ivs"
    "\<And>v. map iv_value (filter (holds sint v) ivs) = map snd (filter (\<lambda>m. smaps.covers (fst m) v) maps)"
    "\<forall>iv \<in> set ivs. \<exists>m \<in> set maps. \<exists>r \<in> set (fst m). sint (iv_upper iv) = sint (s_upper r)" by blast
  have "\<forall>iv \<in> set ivs. 0 \<le> sint (iv_upper iv)" using ivs(3) assms(2) by fastforce
  then obtain t T where t: "build_ivt alloc sint ivs = Ok t" "ivt_inv sint t T" "set (addrs T) = {1..length ivs}"
    "length (rb_mem t) = Suc (length ivs)" "\<forall>i < length ivs. iv_key (iv_unpack t (Suc i)) = iv_key (ivs ! i)"
    using sival.build_ok [of alloc ivs] assms(1) by auto
  let ?am = "\<lparr>am_signed = True, am_ivt = t, am_names = map snd maps\<rparr>"
  have "actf_mappings_init alloc (SMAPS maps) = Ok ?am"
    using assms(1) ivs(1) t(1) by (simp add: actf_mappings_init_def init_sivalt_def)
  moreover have "\<exists>names. find_all (length (rb_mem (am_ivt ?am))) (actf_mappings_find_sint ?am v) None = Ok names \<and>
      mset names = mset (map snd (filter (\<lambda>m. srng_set_intersect (fst m) v) maps))" for v
    using find_all_tree [of sint ?am T ivs v] t(2-) ivs(2) [of v] by (simp add: mappings_find_ivt smaps_covers del: find_all.simps)
  ultimately show ?thesis by (auto simp: actf_mappings_len_def)
qed

theorem signed_mappings_lookup_witness:
  "\<exists>am. actf_mappings_init (\<lambda>n. True) (SMAPS [([\<lparr>s_lower = - 5, s_upper = 2\<rparr>], ''a''), ([\<lparr>s_lower = 7, s_upper = 7\<rparr>], ''b'')]) = Ok am \<and>
    (\<exists>names. find_all (length (rb_mem (am_ivt am))) (actf_mappings_find_sint am (- 1)) None = Ok names \<and> mset names = {#''a''#})"
proof -
  let ?maps = "[([\<lparr>s_lower = - 5, s_upper = 2\<rparr>], ''a''), ([\<lparr>s_lower = 7, s_upper = 7\<rparr>], ''b'')]"
  have "mset (map snd (filter (\<lambda>m. srng_set_intersect (fst m) (- 1)) ?maps)) = {#''a''#}" by simp
  moreover have "\<forall>m \<in> set ?maps. near (\<lambda>r. sint (s_lower r)) (fst m) \<and>
      (\<forall>r \<in> set (fst m). sint (s_lower r) \<le> sint (s_upper r) \<and> 0 \<le> sint (s_upper r))"
    by (simp add: near_def)
  moreover from this obtain am where "actf_mappings_init (\<lambda>n. True) (SMAPS ?maps) = Ok am"
    "\<forall>v. \<exists>names. find_all (length (rb_mem (am_ivt am))) (actf_mappings_find_sint am v) None = Ok names \<and>
      mset names = mset (map snd (filter (\<lambda>m. srng_set_intersect (fst m) v) ?maps))"
    using signed_mappings_lookup [of "\<lambda>n. True" ?maps] by blast
  ultimately show ?thesis by metis
qed

text \<open>
  C36. The first lookup is logarithmic: in a tree of fewer than \<open>2 ^ (j + 1) - 1\<close> intervals the
  search ends within \<open>2 * j + 1\<close> rounds and returns the first interval in preorder that meets the
  one searched for, or none if there is none.
\<close>

theorem first_match_logarithmic:
  assumes "ivt_inv rd t T" "Suc (length (addrs T)) < 2 ^ Suc j"
  shows "ivt_intersect (2 * j + 1) rd t iv None = Ok (find (\<lambda>a. iv_intersects rd (iv_unpack t a) iv) (preorder T))"
proof -
  have "hgt T < 2 * j + 1" using ivt_inv_hgt [OF assms] by simp
  moreover have "hit rd t iv = (\<lambda>a. iv_intersects rd (iv_unpack t a) iv)" by (simp add: fun_eq_iff hit_def)
  ultimately show ?thesis using intersect_first [OF assms(1)] by metis
qed

theorem first_match_logarithmic_witness:
  "\<exists>t T. build_ivt (\<lambda>n. True) uint [mk_ival ''a'' 3 9, mk_ival ''b'' 1 4, mk_ival ''c'' 8 8] = Ok t \<and> length (addrs T) = 3 \<and>
    ivt_intersect 5 uint t (point 8) None = Ok (find (\<lambda>a. iv_intersects uint (iv_unpack t a) (point 8)) (preorder T))"
proof -
  let ?ivs = "[mk_ival ''a'' 3 9, mk_ival ''b'' 1 4, mk_ival ''c'' 8 8]"
  obtain t T where t: "build_ivt (\<lambda>n. True) uint ?ivs = Ok t" "ivt_inv uint t T" "set (addrs T) = {1..length ?ivs}"
    using uival.build_ok [of "\<lambda>n. True" ?ivs] by auto
  have "distinct (addrs T)" using t(2) by (simp add: ivt_inv_def zip_at_def)
  then have l: "length (addrs T) = 3" using t(3) distinct_card [of "addrs T"] by simp
  show ?thesis using first_match_logarithmic [OF t(2), of 2 "point 8"] t(1) l by auto
qed

end
