(* ===== verification/Freader.thy ===== *)
theory Freader
  imports Pipeline Metadata_Parse
begin

text \<open>
  The reader of trace folders (freader.c) and the functions of metadata.c that read files. The
  operating system is a parameter: a file is what \<open>openat\<close>, \<open>fstat\<close>, \<open>read\<close> and \<open>mmap\<close>
  give for it, a folder is the list of its entries in the order of \<open>readdir\<close>. Error messages are
  left out, and so is what is freed on the error paths.
\<close>

section \<open>Files\<close>

text \<open>
  \<open>fi_bytes\<close> is what a mapping shows, \<open>fi_read\<close> what a call of \<open>read\<close> with the size of the file
  returns; \<open>None\<close> is an error.
\<close>

record fs_file =
  fi_opens :: bool
  fi_stats :: bool
  fi_regular :: bool
  fi_bytes :: "u8 list"
  fi_read :: "u8 list option"
  fi_maps :: bool

record fs_folder =
  fo_has_fd :: bool
  fo_entries :: "(string \<times> fs_file) list"

text \<open>The JSON library with the state of a new tokener, and the memory allocation.\<close>

record ('j, 'k) json_env =
  je_fuel :: nat
  je_lib :: "'j json_c"
  je_parse :: "'k \<Rightarrow> u8 list \<Rightarrow> 'j option \<times> 'k"
  je_continue :: "'k \<Rightarrow> bool"
  je_tok :: 'k

abbreviation nparse :: "('j, 'k) json_env \<Rightarrow> u8 list \<Rightarrow> actf_metadata \<Rightarrow> unit res \<times> actf_metadata" where
  "nparse E str md \<equiv> actf_metadata_nparse (je_fuel E) (je_lib E) (je_parse E) (je_continue E) (je_tok E) str md"

abbreviation mallocs :: "('j, 'k) json_env \<Rightarrow> nat \<Rightarrow> bool" where
  "mallocs E n \<equiv> malloc_ok (je_lib E) n"

definition actf_metadata_parse_fd :: "('j, 'k) json_env \<Rightarrow> fs_file \<Rightarrow> actf_metadata \<Rightarrow> unit res \<times> actf_metadata" where
  "actf_metadata_parse_fd E f md =
     (if \<not> fi_stats f then (Err ACTF_ERROR, md)
      else if \<not> mallocs E (length (fi_bytes f)) then (Err ACTF_OOM, md)
      else case fi_read f of
          None \<Rightarrow> (Err ACTF_ERROR, md)
        | Some b \<Rightarrow> nparse E b md)"

definition actf_metadata_parse_file :: "('j, 'k) json_env \<Rightarrow> fs_file option \<Rightarrow> actf_metadata \<Rightarrow> unit res \<times> actf_metadata" where
  "actf_metadata_parse_file E f md =
     (case f of
        None \<Rightarrow> (Err ACTF_ERROR, md)
      | Some f \<Rightarrow> if \<not> fi_opens f then (Err ACTF_ERROR, md) else actf_metadata_parse_fd E f md)"

text \<open>A string ends before its first null byte.\<close>

definition actf_metadata_parse :: "('j, 'k) json_env \<Rightarrow> u8 list \<Rightarrow> actf_metadata \<Rightarrow> unit res \<times> actf_metadata" where
  "actf_metadata_parse E str md = nparse E (takeWhile (\<lambda>c. c \<noteq> 0) str) md"

section \<open>Opening folders\<close>

definition openat_metadata :: "('j, 'k) json_env \<Rightarrow> fs_folder \<Rightarrow> string \<Rightarrow> actf_metadata res" where
  "openat_metadata E fo metadata_filename =
     (case map_of (fo_entries fo) metadata_filename of
        None \<Rightarrow> Err ACTF_ERROR
      | Some f \<Rightarrow>
          if \<not> fi_opens f then Err ACTF_ERROR
          else case actf_metadata_init (je_lib E) of
              None \<Rightarrow> Err ACTF_ERROR
            | Some m \<Rightarrow>
                (case actf_metadata_parse_fd E f m of
                   (Ok u, m') \<Rightarrow> Ok m'
                 | (Err e, m') \<Rightarrow> Err ACTF_ERROR
                 | (Undef, m') \<Rightarrow> Undef
                 | (Loop, m') \<Rightarrow> Loop))"

fun mmap_entries :: "string \<Rightarrow> (string \<times> fs_file) list \<Rightarrow> u8 list list res" where
  "mmap_entries metadata_filename [] = Ok []"
| "mmap_entries metadata_filename ((name, f) # es) =
     (if name = metadata_filename \<or> take 1 name = ''.'' then mmap_entries metadata_filename es
      else if \<not> fi_opens f then Err ACTF_ERROR
      else if \<not> fi_stats f then Err ACTF_ERROR
      else if \<not> fi_regular f \<or> length (fi_bytes f) = 0 then mmap_entries metadata_filename es
      else if \<not> fi_maps f then Err ACTF_ERROR
      else bindr (mmap_entries metadata_filename es) (\<lambda>mmaps. Ok (fi_bytes f # mmaps)))"

definition mmap_datastreams :: "('j, 'k) json_env \<Rightarrow> fs_folder \<Rightarrow> string \<Rightarrow> u8 list list res" where
  "mmap_datastreams E fo metadata_filename =
     (if \<not> mallocs E (length (fo_entries fo)) then Err ACTF_OOM
      else if \<not> fo_has_fd fo then Err ACTF_ERROR
      else mmap_entries metadata_filename (fo_entries fo))"

text \<open>
  \<open>mem\<close> gives the memory of the decoder of a file with its event array, or \<open>None\<close> where it
  cannot be had.
\<close>

type_synonym dec_mem = "u8 list \<Rightarrow> (actf_decoder \<times> actf_event list) option"

fun init_decoders :: "dec_mem \<Rightarrow> u8 list list \<Rightarrow> actf_metadata \<Rightarrow> nat \<Rightarrow> actf_decoder list res" where
  "init_decoders mem [] m evs_cap = Ok []"
| "init_decoders mem (dat # mmaps) m evs_cap =
     (case mem dat of
        None \<Rightarrow> Err ACTF_ERROR
      | Some (junk, evs) \<Rightarrow>
          bindr (init_decoders mem mmaps m evs_cap) (\<lambda>decs.
          Ok (actf_decoder_init junk dat evs_cap evs m # decs)))"

record actf_freader_cfg =
  fc_metadata_filename :: "string option"
  fc_dstream_evs_cap :: nat
  fc_muxer_evs_cap :: nat

text \<open>
  The decoders are those of a new folder; reading changes them in the generator that is made of
  them.
\<close>

record ctf_dir =
  cd_path :: string
  cd_metadata :: actf_metadata
  cd_mmaps :: "u8 list list"
  cd_decs :: "actf_decoder list"

definition cfg_filename :: "actf_freader_cfg \<Rightarrow> string" where
  "cfg_filename cfg = (case fc_metadata_filename cfg of Some n \<Rightarrow> n | None \<Rightarrow> ''metadata'')"

definition open_ctf_dir ::
  "('j, 'k) json_env \<Rightarrow> dec_mem \<Rightarrow> (string \<Rightarrow> fs_folder option) \<Rightarrow> string \<Rightarrow> actf_freader_cfg \<Rightarrow> ctf_dir res" where
  "open_ctf_dir E mem opendir path cfg =
     (case opendir path of
        None \<Rightarrow> Err ACTF_ERROR
      | Some fo \<Rightarrow>
          if \<not> fo_has_fd fo then Err ACTF_ERROR
          else
            bindr (openat_metadata E fo (cfg_filename cfg)) (\<lambda>m.
            bindr (mmap_datastreams E fo (cfg_filename cfg)) (\<lambda>mmaps.
            ensurer (mallocs E (length mmaps)) ACTF_OOM
           (bindr (init_decoders mem mmaps m (fc_dstream_evs_cap cfg)) (\<lambda>decs.
            Ok \<lparr>cd_path = path, cd_metadata = m, cd_mmaps = mmaps, cd_decs = decs\<rparr>)))))"

section \<open>The reader\<close>

text \<open>An event with the metadata its class belongs to: a reader may hold several traces.\<close>

type_synonym trace_event = "actf_metadata \<times> actf_event"

datatype active_gen =
    NO_GEN
  | DEC_GEN actf_decoder
  | MUX_GEN "(actf_decoder, trace_event) actf_muxer"

record actf_freader =
  rd_cfg :: actf_freader_cfg
  rd_dirs :: "ctf_dir list"
  rd_active_gen :: active_gen

definition actf_freader_init :: "bool \<Rightarrow> actf_freader_cfg \<Rightarrow> actf_freader option" where
  "actf_freader_init alloc cfg =
     (if \<not> alloc then None
      else Some \<lparr>rd_cfg = cfg\<lparr>fc_metadata_filename := Some (cfg_filename cfg)\<rparr>, rd_dirs = [], rd_active_gen = NO_GEN\<rparr>)"

definition init_muxer :: "('j, 'k) json_env \<Rightarrow> ctf_dir list \<Rightarrow> nat \<Rightarrow> (actf_decoder, trace_event) actf_muxer res" where
  "init_muxer E dirs evs_cap =
     (let gens = concat (map cd_decs dirs) in
      if \<not> mallocs E (length gens) then Err ACTF_OOM
      else case actf_muxer_init (mallocs E evs_cap) gens evs_cap of
          None \<Rightarrow> Err ACTF_ERROR
        | Some m \<Rightarrow> Ok m)"

fun open_dirs ::
  "('j, 'k) json_env \<Rightarrow> dec_mem \<Rightarrow> (string \<Rightarrow> fs_folder option) \<Rightarrow> actf_freader_cfg \<Rightarrow> string list \<Rightarrow> ctf_dir list res" where
  "open_dirs E mem opendir cfg [] = Ok []"
| "open_dirs E mem opendir cfg (path # paths) =
     bindr (open_ctf_dir E mem opendir path cfg) (\<lambda>cd.
     bindr (open_dirs E mem opendir cfg paths) (\<lambda>dirs.
     Ok (cd # dirs)))"

text \<open>The decoder of the last folder that has exactly one; it is a null pointer where none has.\<close>

definition only_dec :: "ctf_dir list \<Rightarrow> actf_decoder option" where
  "only_dec dirs = foldl (\<lambda>active cd. case cd_decs cd of [d] \<Rightarrow> Some d | _ \<Rightarrow> active) None dirs"

definition choose_gen :: "('j, 'k) json_env \<Rightarrow> ctf_dir list \<Rightarrow> nat \<Rightarrow> active_gen res" where
  "choose_gen E dirs evs_cap =
     (let total_decs = sum_list (map (length \<circ> cd_decs) dirs) in
      if total_decs = 1 then (case only_dec dirs of Some d \<Rightarrow> Ok (DEC_GEN d) | None \<Rightarrow> Undef)
      else if 0 < total_decs then bindr (init_muxer E dirs evs_cap) (\<lambda>m. Ok (MUX_GEN m))
      else Ok NO_GEN)"

definition actf_freader_open_folders ::
  "('j, 'k) json_env \<Rightarrow> dec_mem \<Rightarrow> (string \<Rightarrow> fs_folder option) \<Rightarrow> string list \<Rightarrow> actf_freader \<Rightarrow> unit res \<times> actf_freader" where
  "actf_freader_open_folders E mem opendir paths rd =
     (if paths = [] then (Ok (), rd)
      else if \<not> mallocs E (length paths) then (Err ACTF_OOM, rd)
      else case bindr (open_dirs E mem opendir (rd_cfg rd) paths) (\<lambda>dirs.
                bindr (choose_gen E dirs (fc_muxer_evs_cap (rd_cfg rd))) (\<lambda>g. Ok (dirs, g))) of
          Ok (dirs, g) \<Rightarrow> (Ok (), rd\<lparr>rd_dirs := dirs, rd_active_gen := g\<rparr>)
        | Err e \<Rightarrow> (Err e, rd)
        | Undef \<Rightarrow> (Undef, rd)
        | Loop \<Rightarrow> (Loop, rd))"

definition actf_freader_open_folder ::
  "('j, 'k) json_env \<Rightarrow> dec_mem \<Rightarrow> (string \<Rightarrow> fs_folder option) \<Rightarrow> string \<Rightarrow> actf_freader \<Rightarrow> unit res \<times> actf_freader" where
  "actf_freader_open_folder E mem opendir path rd = actf_freader_open_folders E mem opendir [path] rd"

section \<open>Reading and seeking\<close>

definition dec_generate :: "(actf_decoder, trace_event) generate" where
  "dec_generate d =
     (case decoder_decode d of
        (Ok evs, d') \<Rightarrow> (Ok (map (Pair (d_metadata d')) evs), d')
      | (Err e, d') \<Rightarrow> (Err e, d')
      | (Undef, d') \<Rightarrow> (Undef, d')
      | (Loop, d') \<Rightarrow> (Loop, d'))"

abbreviation trace_ts :: "trace_event \<Rightarrow> i64" where
  "trace_ts e \<equiv> event_ts (fst e) (snd e)"

definition actf_freader_read :: "(actf_freader, trace_event) generate" where
  "actf_freader_read rd =
     (case rd_active_gen rd of
        NO_GEN \<Rightarrow> (Ok [], rd)
      | DEC_GEN d \<Rightarrow> (case dec_generate d of (r, d') \<Rightarrow> (r, rd\<lparr>rd_active_gen := DEC_GEN d'\<rparr>))
      | MUX_GEN m \<Rightarrow> (case actf_muxer_mux dec_generate trace_ts m of (r, m') \<Rightarrow> (r, rd\<lparr>rd_active_gen := MUX_GEN m'\<rparr>)))"

definition actf_freader_seek_ns_from_origin :: "nat \<Rightarrow> actf_freader gen_seek" where
  "actf_freader_seek_ns_from_origin fuel tstamp rd =
     (case rd_active_gen rd of
        NO_GEN \<Rightarrow> (Ok (), rd)
      | DEC_GEN d \<Rightarrow>
          (case actf_decoder_seek_ns_from_origin fuel tstamp d of (r, d') \<Rightarrow> (r, rd\<lparr>rd_active_gen := DEC_GEN d'\<rparr>))
      | MUX_GEN m \<Rightarrow>
          (case actf_muxer_seek_ns_from_origin (actf_decoder_seek_ns_from_origin fuel) tstamp m of
             (r, m') \<Rightarrow> (r, rd\<lparr>rd_active_gen := MUX_GEN m'\<rparr>)))"

end
