(* ===== verification/Freader_Theorems.thy ===== *)
theory Freader_Theorems
  imports Freader Parse_Theorems Example_Trace
begin

text \<open>
  The reader of trace folders from the files to the events: which files it decodes, and that
  reading yields the events of all of them in the order of their timestamps.
\<close>

section \<open>Opening\<close>

text \<open>The contents of the data stream files of a folder.\<close>

definition data_files :: "string \<Rightarrow> (string \<times> fs_file) list \<Rightarrow> u8 list list" where
  "data_files metadata_filename es =
     map (fi_bytes \<circ> snd) (filter (\<lambda>(name, f). name \<noteq> metadata_filename \<and> take 1 name \<noteq> ''.'' \<and> fi_regular f \<and> fi_bytes f \<noteq> []) es)"

lemma mmap_entries_Ok: "mmap_entries fn es = Ok ms \<Longrightarrow> ms = data_files fn es"
  by (induction fn es arbitrary: ms rule: mmap_entries.induct) (auto simp: data_files_def bindr_def split: if_splits res.splits)

definition decodes :: "actf_metadata \<Rightarrow> u8 list \<Rightarrow> actf_decoder \<Rightarrow> bool" where
  "decodes md dat d \<longleftrightarrow> d_metadata d = md \<and> d_br d = breader_init dat ACTF_LIL_ENDIAN \<and> d_state d = {}"

lemma init_decoders_Ok: "init_decoders mem ms m cap = Ok ds \<Longrightarrow> list_all2 (decodes m) ms ds"
  by (induction mem ms m cap arbitrary: ds rule: init_decoders.induct)
    (auto simp: bindr_def decodes_def actf_decoder_init_def split: option.splits prod.splits res.splits)

definition opened :: "(string \<Rightarrow> fs_folder option) \<Rightarrow> string \<Rightarrow> string \<Rightarrow> ctf_dir \<Rightarrow> bool" where
  "opened opendir fn path cd \<longleftrightarrow>
     (\<exists>fo. opendir path = Some fo \<and> cd_mmaps cd = data_files fn (fo_entries fo) \<and>
        list_all2 (decodes (cd_metadata cd)) (cd_mmaps cd) (cd_decs cd))"

lemma open_ctf_dir_Ok:
  assumes "open_ctf_dir E mem opendir path cfg = Ok cd"
  shows "opened opendir (cfg_filename cfg) path cd"
proof -
  obtain fo m ms ds where "opendir path = Some fo" "mmap_datastreams E fo (cfg_filename cfg) = Ok ms"
    "init_decoders mem ms m (fc_dstream_evs_cap cfg) = Ok ds" "cd = \<lparr>cd_path = path, cd_metadata = m, cd_mmaps = ms, cd_decs = ds\<rparr>"
    using assms by (auto simp: open_ctf_dir_def bindr_def ensurer_def split: option.splits if_splits res.splits)
  then show ?thesis using init_decoders_Ok mmap_entries_Ok
    by (fastforce simp: opened_def mmap_datastreams_def split: if_splits)
qed

lemma open_dirs_Ok: "open_dirs E mem opendir cfg paths = Ok dirs \<Longrightarrow> list_all2 (opened opendir (cfg_filename cfg)) paths dirs"
  by (induction paths arbitrary: dirs) (auto simp: bindr_def split: res.splits dest: open_ctf_dir_Ok)

section \<open>Reading\<close>

lemma emits_all_wrap:
  assumes "\<And>x. gen' (w x) = (case gen x of (r, x') \<Rightarrow> (r, w x'))" "emits_all gen x str"
  shows "emits_all gen' (w x) str"
  using assms(2)
proof (induction rule: emits_all.induct)
  case (all_end s t)
  then show ?case using assms(1) by (intro emits_all.all_end [of _ _ "w t"]) simp_all
next
  case (all_run s es t rest)
  then show ?case using assms(1) by (intro emits_all.all_run [of _ _ _ "w t"]) simp_all
qed

lemma only_dec_decs:
  assumes "length (concat (map cd_decs dirs)) = 1"
  shows "\<exists>d. only_dec dirs = Some d \<and> concat (map cd_decs dirs) = [d]"
proof -
  have none: "foldl (\<lambda>active cd. case cd_decs cd of [d] \<Rightarrow> Some d | _ \<Rightarrow> active) a dirs = a"
    if "concat (map cd_decs dirs) = []" for a and dirs :: "ctf_dir list"
    using that by (induction dirs) auto
  have "\<exists>d. foldl (\<lambda>active cd. case cd_decs cd of [d] \<Rightarrow> Some d | _ \<Rightarrow> active) a dirs = Some d \<and> concat (map cd_decs dirs) = [d]" for a
    using assms
  proof (induction dirs arbitrary: a)
    case (Cons cd dirs)
    show ?case
    proof (cases "cd_decs cd")
      case Nil
      then show ?thesis using Cons by simp
    next
      case c: (Cons d ds)
      then show ?thesis using Cons.prems none [of dirs "Some d"] by auto
    qed
  qed simp
  then show ?thesis by (simp add: only_dec_def)
qed

lemma choose_gen_reads:
  assumes "choose_gen E dirs cap = Ok g" "\<forall>d \<in> set (concat (map cd_decs dirs)). complete dec_generate (\<lambda>e. sint (trace_ts e)) d"
  shows "\<exists>str. emits_all actf_freader_read (rd\<lparr>rd_dirs := dirs, rd_active_gen := g\<rparr>) str \<and>
    sorted (map (\<lambda>e. sint (trace_ts e)) str) \<and>
    mset str = (\<Sum>d \<leftarrow> concat (map cd_decs dirs). mset (stream_of dec_generate d))"
proof -
  let ?decs = "concat (map cd_decs dirs)" and ?rd = "rd\<lparr>rd_dirs := dirs\<rparr>"
  have total: "sum_list (map (length \<circ> cd_decs) dirs) = length ?decs" by (simp add: length_concat)
  consider (one) "length ?decs = 1" | (many) "length ?decs \<noteq> 1" "0 < length ?decs" | (none) "?decs = []" by (cases ?decs) auto
  then show ?thesis
  proof cases
    case one
    then obtain d where d: "only_dec dirs = Some d" "?decs = [d]" using only_dec_decs by blast
    then have g: "g = DEC_GEN d" using assms(1) total one by (simp add: choose_gen_def Let_def)
    have "d \<in> set ?decs" unfolding d(2) by simp
    then have "complete dec_generate (\<lambda>e. sint (trace_ts e)) d" using assms(2) by blast
    then obtain str where str: "emits_all dec_generate d str" "sorted (map (\<lambda>e. sint (trace_ts e)) str)"
      unfolding complete_def by blast
    have "emits_all actf_freader_read (?rd\<lparr>rd_active_gen := DEC_GEN d\<rparr>) str"
      by (rule emits_all_wrap [where w = "\<lambda>d. ?rd\<lparr>rd_active_gen := DEC_GEN d\<rparr>", OF _ str(1)])
        (simp add: actf_freader_read_def split: prod.split)
    moreover have "stream_of dec_generate d = str" by (rule stream_of_eq [OF emits_all_emits [OF str(1)]])
    ultimately show ?thesis using g d(2) str(2) by auto
  next
    case many
    then obtain m where m: "init_muxer E dirs cap = Ok m" "g = MUX_GEN m"
      using assms(1) total by (auto simp: choose_gen_def Let_def bindr_def split: res.splits if_splits)
    then have "actf_muxer_init (mallocs E cap) ?decs cap = Some m"
      by (auto simp: init_muxer_def Let_def split: if_splits option.splits)
    from complete_merges [OF this assms(2)] obtain str where str: "emits_all (actf_muxer_mux dec_generate trace_ts) m str"
      "sorted (map (\<lambda>e. sint (trace_ts e)) str)" "mset str = (\<Sum>i < length ?decs. mset (stream_of dec_generate (?decs ! i)))" by blast
    have "emits_all actf_freader_read (?rd\<lparr>rd_active_gen := MUX_GEN m\<rparr>) str"
      by (rule emits_all_wrap [where w = "\<lambda>m. ?rd\<lparr>rd_active_gen := MUX_GEN m\<rparr>", OF _ str(1)])
        (simp add: actf_freader_read_def split: prod.split)
    moreover have "mset str = (\<Sum>d \<leftarrow> ?decs. mset (stream_of dec_generate d))"
      using str(3) by (simp add: sum_list_sum_nth atLeast0LessThan)
    ultimately show ?thesis using m(2) str(2) by auto
  next
    case none
    then have "sum_list (map (length \<circ> cd_decs) dirs) = 0" unfolding total by (simp only: list.size)
    then have "choose_gen E dirs cap = Ok NO_GEN" unfolding choose_gen_def Let_def by (simp only: if_False zero_neq_one less_irrefl)
    then have "g = NO_GEN" using assms(1) by simp
    then have "emits_all actf_freader_read (?rd\<lparr>rd_active_gen := g\<rparr>) []"
      by (intro emits_all.all_end [of _ _ "?rd\<lparr>rd_active_gen := g\<rparr>"]) (simp_all add: actf_freader_read_def)
    then show ?thesis unfolding none by (intro exI [of _ "[]"]) simp
  qed
qed

text \<open>
  C37. Opening folders and reading: when the folders are opened, each has one decoder for every
  regular, non-empty file that is neither hidden nor the metadata file, over the bytes of that file
  and with the metadata of its folder. If all streams decode to their end in the order of their
  timestamps, then reading until no event is returned yields, without an error, the events of
  all streams of all folders, each once and in the order of their timestamps.
\<close>

theorem folders_read_in_order:
  assumes "actf_freader_open_folders E mem opendir paths rd = (Ok (), rd')" "paths \<noteq> []"
    and "\<forall>cd \<in> set (rd_dirs rd'). \<forall>d \<in> set (cd_decs cd). complete dec_generate (\<lambda>e. sint (trace_ts e)) d"
  shows "list_all2 (opened opendir (cfg_filename (rd_cfg rd))) paths (rd_dirs rd') \<and>
    (\<exists>str. emits_all actf_freader_read rd' str \<and> sorted (map (\<lambda>e. sint (trace_ts e)) str) \<and>
      mset str = (\<Sum>d \<leftarrow> concat (map cd_decs (rd_dirs rd')). mset (stream_of dec_generate d)))"
proof -
  obtain dirs g where o: "open_dirs E mem opendir (rd_cfg rd) paths = Ok dirs" "choose_gen E dirs (fc_muxer_evs_cap (rd_cfg rd)) = Ok g"
    "rd' = rd\<lparr>rd_dirs := dirs, rd_active_gen := g\<rparr>"
    using assms(1,2) by (auto simp: actf_freader_open_folders_def bindr_def split: if_splits res.splits)
  then have "rd_dirs rd' = dirs" by simp
  then show ?thesis using open_dirs_Ok [OF o(1)] choose_gen_reads [OF o(2), of rd] assms(3) o(3) by auto
qed

text \<open>
  A folder with a metadata file, a hidden file and two data streams of 8-bit events without
  timestamps.
\<close>

definition ex_byte_json :: json where
  "ex_byte_json = JObj [(''type'', JStr ''structure''), (''member-classes'', JArr [
     JObj [(''name'', JStr ''v''), (''field-class'', JObj [(''type'', JStr ''fixed-length-unsigned-integer''),
       (''length'', JInt 8), (''byte-order'', JStr ''little-endian'')])]])]"

definition ex_stream_tok :: "unit \<Rightarrow> u8 list \<Rightarrow> json option \<times> unit" where
  "ex_stream_tok k b =
     (map_of [([1], JObj [(''type'', JStr ''preamble''), (''version'', JInt 2)]),
              ([2], JObj [(''type'', JStr ''data-stream-class'')]),
              ([3], JObj [(''type'', JStr ''event-record-class''), (''payload-field-class'', ex_byte_json)])] b, ())"

definition ex_env :: "(json, unit) json_env" where
  "ex_env = \<lparr>je_fuel = 9, je_lib = json_lib, je_parse = ex_stream_tok, je_continue = (\<lambda>k. False), je_tok = ()\<rparr>"

definition ex_file :: "u8 list \<Rightarrow> fs_file" where
  "ex_file b = \<lparr>fi_opens = True, fi_stats = True, fi_regular = True, fi_bytes = b, fi_read = Some b, fi_maps = True\<rparr>"

definition ex_opendir :: "string \<Rightarrow> fs_folder option" where
  "ex_opendir path =
     (if path = ''trace''
      then Some \<lparr>fo_has_fd = True, fo_entries = [(''metadata'', ex_file [30, 1, 30, 2, 30, 3]), (''.x'', ex_file [9]),
        (''s0'', ex_file [1, 2]), (''s1'', ex_file [3])]\<rparr>
      else None)"

definition ex_mem :: dec_mem where
  "ex_mem b = Some (ex_decoder 2 [], replicate 2 ex_event)"

definition ex_reader :: actf_freader where
  "ex_reader = the (actf_freader_init True \<lparr>fc_metadata_filename = None, fc_dstream_evs_cap = 2, fc_muxer_evs_cap = 0\<rparr>)"

text \<open>A decoder that has decoded its data emits nothing more.\<close>

definition at_end :: "actf_decoder \<Rightarrow> bool" where
  "at_end d \<longleftrightarrow> d_state d = {} \<and> \<not> breader_has_bits_remaining (d_br d)"

lemma emits_at_end: "at_end d \<Longrightarrow> emits_all dec_generate d []"
  by (rule emits_all.all_end [of _ _ "d\<lparr>d_evs_len := 0\<rparr>"])
    (simp_all add: at_end_def dec_generate_def decoder_decode_def actf_decoder_decode_def)

definition one_run :: "actf_decoder \<Rightarrow> bool" where
  "one_run d \<longleftrightarrow>
     (case dec_generate d of
        (Ok es, t) \<Rightarrow> es \<noteq> [] \<and> at_end t \<and> sorted (map (\<lambda>e. sint (trace_ts e)) es)
      | _ \<Rightarrow> False)"

lemma one_run_complete:
  assumes "one_run d"
  shows "complete dec_generate (\<lambda>e. sint (trace_ts e)) d"
proof -
  obtain es t where "dec_generate d = (Ok es, t)" "es \<noteq> []" "at_end t" "sorted (map (\<lambda>e. sint (trace_ts e)) es)"
    using assms by (auto simp: one_run_def split: prod.splits res.splits)
  then have "emits_all dec_generate d (es @ [])" "sorted (map (\<lambda>e. sint (trace_ts e)) (es @ []))"
    using emits_all.all_run [OF _ _ emits_at_end] by simp_all
  then show ?thesis unfolding complete_def by blast
qed

theorem folders_read_in_order_witness:
  "\<exists>rd' str. actf_freader_open_folders ex_env ex_mem ex_opendir [''trace''] ex_reader = (Ok (), rd') \<and>
    map cd_mmaps (rd_dirs rd') = [[[1, 2], [3]]] \<and> emits_all actf_freader_read rd' str \<and>
    mset str = (\<Sum>d \<leftarrow> concat (map cd_decs (rd_dirs rd')). mset (stream_of dec_generate d))"
proof -
  define s where "s = actf_freader_open_folders ex_env ex_mem ex_opendir [''trace''] ex_reader"
  have "fst s = Ok ()" unfolding s_def by code_simp
  then have s: "actf_freader_open_folders ex_env ex_mem ex_opendir [''trace''] ex_reader = (Ok (), snd s)"
    by (simp flip: s_def add: prod_eq_iff)
  have m: "map cd_mmaps (rd_dirs (snd s)) = [[[1, 2], [3]]]" unfolding s_def by code_simp
  have "list_all (\<lambda>cd. list_all one_run (cd_decs cd)) (rd_dirs (snd s))" unfolding s_def by code_simp
  then have "\<forall>cd \<in> set (rd_dirs (snd s)). \<forall>d \<in> set (cd_decs cd). complete dec_generate (\<lambda>e. sint (trace_ts e)) d"
    using one_run_complete by (simp add: list_all_iff)
  from folders_read_in_order [OF s list.distinct(2) this] obtain str where
    "emits_all actf_freader_read (snd s) str"
    "mset str = (\<Sum>d \<leftarrow> concat (map cd_decs (rd_dirs (snd s))). mset (stream_of dec_generate d))" by blast
  then show ?thesis using s m by (intro exI [of _ "snd s"] exI [of _ str]) (simp only: simp_thms)
qed

end
