(* ===== verification/Print_Int.thy ===== *)
theory Print_Int
  imports Types
begin

unbundle bit_operations_syntax

text \<open>
  The output of integers and floating-point numbers (print.c, with the conversions of \<open>printf\<close>
  that it uses). What is printed is a string; \<open>Undef\<close> is the overflow of a negation.
\<close>

section \<open>Conversions of the C library\<close>

definition digit :: "nat \<Rightarrow> char" where
  "digit d = (if d < 10 then char_of (48 + d) else char_of (87 + d))"

function nat_digits :: "nat \<Rightarrow> nat \<Rightarrow> string" where
  "nat_digits b n = (if n < b \<or> b < 2 then [digit n] else nat_digits b (n div b) @ [digit (n mod b)])"
  by pat_completeness auto
termination by (relation "measure snd") auto

declare nat_digits.simps [simp del]

abbreviation dec :: "nat \<Rightarrow> string" where
  "dec n \<equiv> nat_digits 10 n"

definition pad0 :: "nat \<Rightarrow> string \<Rightarrow> string" where
  "pad0 w s = replicate (w - length s) CHR ''0'' @ s"

text \<open>\<open>%i\<close>, \<open>%#o\<close> and \<open>%#x\<close>, and \<open>%0wi\<close>, whose sign counts for the width.\<close>

definition fmt_i :: "int \<Rightarrow> string" where
  "fmt_i v = (if v < 0 then CHR ''-'' # dec (nat (- v)) else dec (nat v))"

definition fmt_alt_o :: "nat \<Rightarrow> string" where
  "fmt_alt_o n = (if n = 0 then ''0'' else CHR ''0'' # nat_digits 8 n)"

definition fmt_alt_x :: "nat \<Rightarrow> string" where
  "fmt_alt_x n = (if n = 0 then ''0'' else ''0x'' @ nat_digits 16 n)"

definition fmt_0i :: "nat \<Rightarrow> int \<Rightarrow> string" where
  "fmt_0i w v = (if v < 0 then CHR ''-'' # pad0 (w - 1) (dec (nat (- v))) else pad0 w (dec (nat v)))"

section \<open>Integers\<close>

definition clz_lookup :: "nat list" where
  "clz_lookup = [8, 7, 6, 6] @ replicate 4 5 @ replicate 8 4 @ replicate 16 3 @ replicate 32 2 @ replicate 64 1 @ replicate 128 0"

definition clz :: "u64 \<Rightarrow> nat" where
  "clz n =
     (if n = 0 then 64
      else
        let (r, n) = (if n AND 0xFFFFFFFF00000000 = 0 then (32, push_bit 32 n) else (0, n));
            (r, n) = (if n AND 0xFFFF000000000000 = 0 then (r + 16, push_bit 16 n) else (r, n));
            (r, n) = (if n AND 0xFF00000000000000 = 0 then (r + 8, push_bit 8 n) else (r, n))
        in r + clz_lookup ! unat (drop_bit 56 n))"

definition sprint_uint_bin :: "u64 \<Rightarrow> string" where
  "sprint_uint_bin n =
     (let len = max (64 - clz n) 1 in
      ''0b'' @ map (\<lambda>i. digit (unat (drop_bit (len - 1 - i) n AND 1))) [0..<len])"

definition fprint_sint :: "i64 \<Rightarrow> actf_base \<Rightarrow> string res" where
  "fprint_sint v base =
     (case base of
        ACTF_BASE_BINARY \<Rightarrow>
          if 0 \<le> sint v then Ok (sprint_uint_bin v)
          else if v = INT64_MIN then Undef else Ok (CHR ''-'' # sprint_uint_bin (- v))
      | ACTF_BASE_OCTAL \<Rightarrow>
          if 0 \<le> sint v then Ok (fmt_alt_o (unat v))
          else if v = INT64_MIN then Undef else Ok (CHR ''-'' # fmt_alt_o (unat (- v)))
      | ACTF_BASE_DECIMAL \<Rightarrow> Ok (fmt_i (sint v))
      | ACTF_BASE_HEXADECIMAL \<Rightarrow>
          if 0 \<le> sint v then Ok (fmt_alt_x (unat v))
          else if v = INT64_MIN then Undef else Ok (CHR ''-'' # fmt_alt_x (unat (- v))))"

definition fprint_uint :: "u64 \<Rightarrow> actf_base \<Rightarrow> string" where
  "fprint_uint v base =
     (case base of
        ACTF_BASE_BINARY \<Rightarrow> sprint_uint_bin v
      | ACTF_BASE_OCTAL \<Rightarrow> fmt_alt_o (unat v)
      | ACTF_BASE_DECIMAL \<Rightarrow> dec (unat v)
      | ACTF_BASE_HEXADECIMAL \<Rightarrow> fmt_alt_x (unat v))"

section \<open>Reading back\<close>

text \<open>The integer a printed text denotes.\<close>

definition digit_val :: "char \<Rightarrow> nat" where
  "digit_val c = (if of_char c < (58 :: nat) then of_char c - 48 else of_char c - 87)"

definition digits_val :: "nat \<Rightarrow> string \<Rightarrow> nat" where
  "digits_val b s = foldl (\<lambda>acc c. acc * b + digit_val c) 0 s"

fun text_nat :: "string \<Rightarrow> nat" where
  "text_nat (c # d # s) =
     (if c = CHR ''0'' then
        if d = CHR ''b'' then digits_val 2 s
        else if d = CHR ''x'' then digits_val 16 s
        else digits_val 8 (d # s)
      else digits_val 10 (c # d # s))"
| "text_nat s = digits_val 10 s"

fun text_int :: "string \<Rightarrow> int" where
  "text_int [] = 0"
| "text_int (c # s) = (if c = CHR ''-'' then - int (text_nat s) else int (text_nat (c # s)))"

lemma digit_val_digit [simp]: "d < 16 \<Longrightarrow> digit_val (digit d) = d"
  by (simp add: digit_val_def digit_def of_char_of)

lemma digits_val_append: "digits_val b (s @ t) = foldl (\<lambda>acc c. acc * b + digit_val c) (digits_val b s) t"
  by (simp add: digits_val_def)

lemma digits_val_nat: "2 \<le> b \<Longrightarrow> b \<le> 16 \<Longrightarrow> digits_val b (nat_digits b n) = n"
proof (induction b n rule: nat_digits.induct)
  case (1 b n)
  have "n mod b < 16" using 1(2,3) mod_less_divisor [of b n] by linarith
  then show ?case using 1 by (auto simp: nat_digits.simps [of b n] digits_val_append) (auto simp: digits_val_def)
qed

text \<open>Which digits come first: a number other than 0 starts with a digit other than 0.\<close>

lemma nat_digits_hd:
  assumes "2 \<le> b" "b \<le> 16"
  shows "\<exists>d s. nat_digits b n = digit d # s \<and> d < b \<and> (0 < n \<longrightarrow> 0 < d)"
  using assms
proof (induction b n rule: nat_digits.induct)
  case (1 b n)
  show ?case
  proof (cases "n < b")
    case True
    then show ?thesis by (auto simp: nat_digits.simps [of b n])
  next
    case False
    then have "0 < n div b" using 1(2) by (simp add: div_greater_zero_iff)
    then show ?thesis using 1 False by (auto simp: nat_digits.simps [of b n])
  qed
qed

lemma digit_inject: "a < 16 \<Longrightarrow> b < 16 \<Longrightarrow> digit a = digit b \<longleftrightarrow> a = b"
  by (metis digit_val_digit)

lemma of_char_digit: "d < 16 \<Longrightarrow> of_char (digit d) = (if d < 10 then 48 + d else 87 + d)"
  by (simp add: digit_def of_char_of)

lemma digit_not_letter: "d < 10 \<Longrightarrow> digit d \<noteq> CHR ''b'' \<and> digit d \<noteq> CHR ''x'' \<and> digit d \<noteq> CHR ''-''"
proof -
  assume d: "d < 10"
  have "of_char CHR ''b'' = (98 :: nat)" "of_char CHR ''x'' = (120 :: nat)" "of_char CHR ''-'' = (45 :: nat)" by simp_all
  then show ?thesis using of_char_digit [of d] d by fastforce
qed

lemma digit_0: "CHR ''0'' = digit 0"
  by code_simp

text \<open>Reading back the conversions of the C library.\<close>

lemma text_nat_dec: "text_nat (dec n) = n" "hd (dec n) \<noteq> CHR ''-''" "dec n \<noteq> []"
proof -
  obtain d s where d: "dec n = digit d # s" "d < 10" "0 < n \<longrightarrow> 0 < d" using nat_digits_hd [of 10 n] by auto
  have v: "digits_val 10 (dec n) = n" by (rule digits_val_nat) simp_all
  have "text_nat (dec n) = digits_val 10 (dec n)"
  proof (cases s)
    case (Cons e s')
    have "10 \<le> n"
    proof (rule ccontr)
      assume "\<not> 10 \<le> n"
      then show False using d(1) Cons by (simp add: nat_digits.simps [of 10 n])
    qed
    then have "digit d \<noteq> CHR ''0''" using d(2,3) digit_inject [of d 0] by (simp add: digit_0)
    then show ?thesis using d(1) Cons by simp
  qed (use d(1) in simp)
  then show "text_nat (dec n) = n" using v by simp
  show "hd (dec n) \<noteq> CHR ''-''" "dec n \<noteq> []" using d(1,2) digit_not_letter by auto
qed

lemma text_nat_alt_o: "text_nat (fmt_alt_o n) = n"
proof (cases "n = 0")
  case True
  then show ?thesis by (simp add: fmt_alt_o_def digits_val_def digit_0)
next
  case False
  obtain d s where d: "nat_digits 8 n = digit d # s" "d < 8" using nat_digits_hd [of 8 n] by auto
  then show ?thesis using False digits_val_nat [of 8 n] digit_not_letter [of d] by (simp add: fmt_alt_o_def)
qed

lemma text_nat_alt_x: "text_nat (fmt_alt_x n) = n"
  using digits_val_nat [of 16 n] by (simp add: fmt_alt_x_def digits_val_def digit_0)

section \<open>Binary output\<close>

lemma unat_drop_bit_u64: "unat (drop_bit k n) = unat n div 2 ^ k" for n :: u64
proof -
  have "unat (drop_bit k n) = drop_bit k (take_bit LENGTH(64) (unat n))" by (rule unsigned_drop_bit_eq)
  moreover have "take_bit LENGTH(64) (unat n) = unat n" using unsigned_less [of n] by (intro take_bit_nat_eq_self)
  ultimately show ?thesis by (simp add: drop_bit_eq_div)
qed

lemma and_not_mask_zero: "m AND NOT (mask j) = 0 \<longleftrightarrow> unat m < 2 ^ j" for m :: u64
proof -
  have "m AND NOT (mask j) = 0 \<longleftrightarrow> take_bit j m = m" by (auto simp: bit_eq_iff bit_simps)
  also have "\<dots> \<longleftrightarrow> take_bit j (unat m) = unat m" by (metis unsigned_take_bit_eq unsigned_word_eqI)
  finally show ?thesis by (simp add: take_bit_nat_eq_self_iff)
qed

lemma clz_step:
  fixes m n :: u64
  assumes "unat m = unat n * 2 ^ r" "2 ^ (64 - 2 * k) \<le> unat m" "k \<le> 32"
    "(r', m') = (if m AND NOT (mask (64 - k)) = 0 then (r + k, push_bit k m) else (r, m))"
  shows "unat m' = unat n * 2 ^ r' \<and> 2 ^ (64 - k) \<le> unat m'"
proof (cases "unat m < 2 ^ (64 - k)")
  case True
  then have e: "r' = r + k" "m' = push_bit k m" using assms(4) by (simp_all add: and_not_mask_zero)
  have lt: "unat m * 2 ^ k < 2 ^ 64"
  proof -
    have "unat m * 2 ^ k < 2 ^ (64 - k) * 2 ^ k" using True by simp
    also have "\<dots> = 2 ^ 64" using assms(3) by (simp flip: power_add)
    finally show ?thesis .
  qed
  have "unat m' = take_bit 64 (unat m * 2 ^ k)" unfolding e(2) unsigned_push_bit_eq by (simp add: push_bit_eq_mult)
  then have u: "unat m' = unat m * 2 ^ k" using lt by (simp add: take_bit_nat_eq_self)
  have "2 ^ (64 - k) = 2 ^ (64 - 2 * k) * (2 ^ k :: nat)" using assms(3) by (simp flip: power_add)
  also have "\<dots> \<le> unat m'" using assms(2) u by simp
  finally show ?thesis using u assms(1) e(1) by (simp add: power_add)
next
  case False
  then show ?thesis using assms(1,4) by (simp add: and_not_mask_zero)
qed

lemma clz_lookup_bounds:
  assumes "0 < k" "k < 256"
  shows "clz_lookup ! k < 8 \<and> 2 ^ (7 - clz_lookup ! k) \<le> k \<and> k < 2 ^ (8 - clz_lookup ! k)"
proof -
  have "list_all (\<lambda>k. clz_lookup ! k < 8 \<and> 2 ^ (7 - clz_lookup ! k) \<le> k \<and> k < 2 ^ (8 - clz_lookup ! k)) [1..<256]" by code_simp
  then show ?thesis using assms by (simp add: list_all_iff)
qed

lemma clz_bounds:
  assumes "n \<noteq> 0"
  shows "clz n < 64 \<and> 2 ^ (63 - clz n) \<le> unat n \<and> unat n < 2 ^ (64 - clz n)"
proof -
  obtain r1 :: nat and m1 where s1: "(r1, m1) = (if n AND NOT (mask (64 - 32)) = 0 then (0 + 32, push_bit 32 n) else (0, n))" by metis
  obtain r2 m2 where s2: "(r2, m2) = (if m1 AND NOT (mask (64 - 16)) = 0 then (r1 + 16, push_bit 16 m1) else (r1, m1))" by metis
  obtain r3 m3 where s3: "(r3, m3) = (if m2 AND NOT (mask (64 - 8)) = 0 then (r2 + 8, push_bit 8 m2) else (r2, m2))" by metis
  have "unat m1 = unat n * 2 ^ r1 \<and> 2 ^ (64 - 32) \<le> unat m1"
    by (rule clz_step [OF _ _ _ s1]) (use assms in \<open>simp_all add: unat_gt_0 Suc_leI\<close>)
  then have "unat m2 = unat n * 2 ^ r2 \<and> 2 ^ (64 - 16) \<le> unat m2" by (intro clz_step [OF _ _ _ s2]) simp_all
  then have m3: "unat m3 = unat n * 2 ^ r3 \<and> 2 ^ (64 - 8) \<le> unat m3" by (intro clz_step [OF _ _ _ s3]) simp_all
  define k where "k = unat (drop_bit 56 m3)"
  define t where "t = clz_lookup ! k"
  have cs: "0xFFFFFFFF00000000 = NOT (mask (64 - 32) :: u64)" "0xFFFF000000000000 = NOT (mask (64 - 16) :: u64)"
    "0xFF00000000000000 = NOT (mask (64 - 8) :: u64)" by (simp_all add: mask_eq_exp_minus_1)
  have c: "clz n = r3 + t"
    unfolding clz_def cs using assms s1 s2 s3 by (simp add: Let_def k_def t_def split: prod.splits if_splits)
  have k: "k = unat m3 div 2 ^ 56" by (simp add: k_def unat_drop_bit_u64)
  have "unat m3 < 2 ^ 64" using unsigned_less [of m3, where 'a = nat] by simp
  then have "k < 256" "0 < k" using m3 unfolding k by (simp_all add: less_mult_imp_div_less div_greater_zero_iff)
  from clz_lookup_bounds [OF this(2,1)] have t: "t < 8" "2 ^ (7 - t) \<le> k" "k < 2 ^ (8 - t)" by (simp_all add: t_def)
  have lo: "2 ^ (63 - t) \<le> unat n * 2 ^ r3" and hi: "unat n * 2 ^ r3 < 2 ^ (64 - t)"
  proof -
    have "63 - t = (7 - t) + 56" "64 - t = (8 - t) + 56" using t(1) by simp_all
    then have pow: "2 ^ (63 - t) = 2 ^ (7 - t) * (2 ^ 56 :: nat)" "2 ^ (64 - t) = 2 ^ (8 - t) * (2 ^ 56 :: nat)" by (metis power_add)+
    have "2 ^ (63 - t) = 2 ^ (7 - t) * (2 ^ 56 :: nat)" by (rule pow(1))
    also have "\<dots> \<le> k * 2 ^ 56" using t(2) by simp
    also have "\<dots> \<le> unat m3" unfolding k by simp
    finally show "2 ^ (63 - t) \<le> unat n * 2 ^ r3" using m3 by simp
    have "unat m3 < (k + 1) * 2 ^ 56" unfolding k using div_mult_mod_eq [of "unat m3" "2 ^ 56"] mod_less_divisor [of "2 ^ 56" "unat m3"] by simp
    also have "\<dots> \<le> 2 ^ (8 - t) * 2 ^ 56" using t(3) by (intro mult_right_mono) simp_all
    also note pow(2) [symmetric]
    finally show "unat n * 2 ^ r3 < 2 ^ (64 - t)" using m3 by simp
  qed
  have r: "r3 + t \<le> 63"
  proof (rule ccontr)
    assume "\<not> r3 + t \<le> 63"
    then have "(2 :: nat) ^ (64 - t) \<le> 2 ^ r3" by (intro power_increasing) simp_all
    also have "\<dots> \<le> unat n * 2 ^ r3" using assms by (simp add: unat_gt_0 Suc_leI)
    finally show False using hi by simp
  qed
  have "2 ^ (63 - clz n) * 2 ^ r3 = (2 ^ (63 - t) :: nat)" "2 ^ (64 - clz n) * 2 ^ r3 = (2 ^ (64 - t) :: nat)"
    using r unfolding c by (simp_all flip: power_add)
  then have "2 ^ (63 - clz n) * 2 ^ r3 \<le> unat n * 2 ^ r3" "unat n * 2 ^ r3 < 2 ^ (64 - clz n) * 2 ^ r3" using lo hi by simp_all
  then show ?thesis using r c by simp
qed

text \<open>The bits of a number from the most significant one on are its binary digits.\<close>

lemma digits_val_bits: "digits_val 2 (map (\<lambda>i. digit (n div 2 ^ (len - 1 - i) mod 2)) [0..<k]) = n div 2 ^ (len - k)"
  if "k \<le> len" "n < 2 ^ len"
  using that(1)
proof (induction k)
  case 0
  then show ?case using that(2) by (simp add: digits_val_def)
next
  case (Suc k)
  let ?q = "n div 2 ^ (len - Suc k)"
  have "n div 2 ^ (len - k) = ?q div 2" using Suc.prems by (simp add: Suc_diff_Suc flip: div_mult2_eq power_Suc2)
  then have "digits_val 2 (map (\<lambda>i. digit (n div 2 ^ (len - 1 - i) mod 2)) [0..<Suc k]) = ?q div 2 * 2 + ?q mod 2"
    using Suc by (simp add: digits_val_append)
  then show ?case by simp
qed

lemma text_nat_bin: "text_nat (sprint_uint_bin n) = unat n"
proof -
  define len where "len = max (64 - clz n) 1"
  have l: "unat n < 2 ^ len"
  proof (cases "n = 0")
    case False
    then have "len = 64 - clz n" "unat n < 2 ^ (64 - clz n)" using clz_bounds [of n] by (auto simp: len_def)
    then show ?thesis by simp
  qed (simp add: len_def)
  have bit: "unat (drop_bit k n AND 1) = unat n div 2 ^ k mod 2" for k
    by (simp add: and_one_eq unat_mod unat_drop_bit_u64)
  have "sprint_uint_bin n = ''0b'' @ map (\<lambda>i. digit (unat n div 2 ^ (len - 1 - i) mod 2)) [0..<len]"
    unfolding sprint_uint_bin_def Let_def bit len_def ..
  then show ?thesis using digits_val_bits [of len len "unat n", OF le_refl l] by simp
qed

end
