(* ===== verification/Calendar.thy ===== *)
theory Calendar
  imports Main
begin

text \<open>
  The calendar of the C library: \<open>gmtime\<close> breaks a time down into a date and a time of day. Years
  are full years and months count from 1. The lemmas show that the date denotes the day it was
  computed from.
\<close>

record tm =
  tm_year :: int
  tm_mon :: nat
  tm_mday :: nat
  tm_hour :: nat
  tm_min :: nat
  tm_sec :: nat

section \<open>Years\<close>

definition leap :: "int \<Rightarrow> bool" where
  "leap y \<longleftrightarrow> 4 dvd y \<and> (\<not> 100 dvd y \<or> 400 dvd y)"

text \<open>The number of days from the epoch to the first day of a year.\<close>

definition year_start :: "int \<Rightarrow> int" where
  "year_start y = 365 * (y - 1970) + (y - 1969) div 4 - (y - 1901) div 100 + (y - 1601) div 400"

lemma div_next: "0 < n \<Longrightarrow> (a + 1) div n = a div n + (if n dvd a + 1 then 1 else 0)" for a n :: int
proof -
  assume n: "0 < n"
  define q r where "q = (a + 1) div n" and "r = (a + 1) mod n"
  have r: "0 \<le> r" "r < n" "a + 1 = n * q + r" using n by (simp_all add: q_def r_def)
  have d: "n dvd a + 1 \<longleftrightarrow> r = 0" by (simp add: dvd_eq_mod_eq_0 r_def)
  show ?thesis
  proof (cases "r = 0")
    case True
    have "a = n * (q - 1) + (n - 1)" using r True by (simp add: algebra_simps)
    then have "a div n = q - 1" by (rule int_div_pos_eq) (use n in simp_all)
    then show ?thesis using True d by (simp add: q_def)
  next
    case False
    have "a = n * q + (r - 1)" using r by simp
    then have "a div n = q" by (rule int_div_pos_eq) (use r False in simp_all)
    then show ?thesis using False d by (simp add: q_def)
  qed
qed

lemma year_start_next: "year_start (y + 1) = year_start y + (if leap y then 366 else 365)"
proof -
  have e: "y + 1 - 1969 = (y - 1969) + 1" "y + 1 - 1901 = (y - 1901) + 1" "y + 1 - 1601 = (y - 1601) + 1" by simp_all
  have d: "4 dvd y - 1969 + 1 \<longleftrightarrow> 4 dvd y" "100 dvd y - 1901 + 1 \<longleftrightarrow> 100 dvd y" "400 dvd y - 1601 + 1 \<longleftrightarrow> 400 dvd y"
    using dvd_add_left_iff [of 4 "- 1968" y] dvd_add_left_iff [of 100 "- 1900" y] dvd_add_left_iff [of 400 "- 1600" y] by simp_all
  have i: "100 dvd y \<Longrightarrow> 4 dvd y" "400 dvd y \<Longrightarrow> 100 dvd y"
    using dvd_trans [of 4 100 y] dvd_trans [of 100 400 y] by simp_all
  define a b c a' b' c'
    where "a = (y - 1969) div 4" and "b = (y - 1901) div 100" and "c = (y - 1601) div 400"
      and "a' = (y - 1969 + 1) div 4" and "b' = (y - 1901 + 1) div 100" and "c' = (y - 1601 + 1) div 400"
  note f = a_def b_def c_def a'_def b'_def c'_def
  have "a' = a + (if 4 dvd y then 1 else 0)" unfolding f by (subst div_next) (simp_all only: d zero_less_numeral)
  moreover have "b' = b + (if 100 dvd y then 1 else 0)" unfolding f by (subst div_next) (simp_all only: d zero_less_numeral)
  moreover have "c' = c + (if 400 dvd y then 1 else 0)" unfolding f by (subst div_next) (simp_all only: d zero_less_numeral)
  moreover define p q r where "p \<longleftrightarrow> 4 dvd y" and "q \<longleftrightarrow> 100 dvd y" and "r \<longleftrightarrow> 400 dvd y"
  ultimately have "a' = a + (if p then 1 else 0)" "b' = b + (if q then 1 else 0)" "c' = c + (if r then 1 else 0)" "q \<Longrightarrow> p" "r \<Longrightarrow> q"
    using i by (simp_all only:)
  then have "365 * (y + 1 - 1970) + a' - b' + c' = 365 * (y - 1970) + a - b + c + (if p \<and> (\<not> q \<or> r) then 366 else 365)"
    by (cases p; cases q; cases r) simp_all
  then show ?thesis unfolding year_start_def e leap_def f p_def q_def r_def .
qed

lemma year_start_epoch: "year_start 1970 = 0"
  by (simp add: year_start_def)

text \<open>The mean length of a year gives the year of a day up to one.\<close>

definition year_of :: "int \<Rightarrow> int" where
  "year_of day =
     (let y = 1970 + 400 * day div 146097 in
      if day < year_start y then y - 1 else if year_start (y + 1) \<le> day then y + 1 else y)"

lemma div_bounds: "0 < n \<Longrightarrow> n * (a div n) \<le> a \<and> a < n * (a div n) + n" for a n :: int
proof -
  assume "0 < n"
  then have "0 \<le> a mod n" "a mod n < n" by simp_all
  moreover have "n * (a div n) + a mod n = a" by simp
  ultimately show ?thesis by linarith
qed

lemma year_start_mean:
  "400 * year_start y \<le> 146097 * (y - 1970) + 589" "146097 * (y - 1970) - 506 \<le> 400 * year_start y"
  using div_bounds [of 4 "y - 1969"] div_bounds [of 100 "y - 1901"] div_bounds [of 400 "y - 1601"]
  unfolding year_start_def by simp_all

lemma year_of_day: "year_start (year_of day) \<le> day \<and> day < year_start (year_of day + 1)"
proof -
  define y where "y = 1970 + 400 * day div 146097"
  have b: "146097 * (y - 1970) \<le> 400 * day" "400 * day < 146097 * (y - 1969)"
    using div_bounds [of 146097 "400 * day"] by (simp_all add: y_def)
  have n: "year_start y \<ge> year_start (y - 1) + 365" "year_start (y + 1) \<ge> year_start y + 365" "year_start (y + 1 + 1) \<ge> year_start (y + 1) + 365"
    using year_start_next [of "y - 1"] year_start_next [of y] year_start_next [of "y + 1"] by simp_all
  have "year_start y \<le> day + 1" "day - 1 \<le> year_start (y + 1)"
    using b year_start_mean(1) [of y] year_start_mean(2) [of "y + 1"] by simp_all
  then show ?thesis using n unfolding year_of_def Let_def y_def [symmetric] by (simp split: if_splits)
qed

lemma year_start_mono: "y \<le> z \<Longrightarrow> year_start y \<le> year_start z"
  by (induction z rule: int_ge_induct) (simp_all add: year_start_next)

lemma year_of_bounds:
  assumes "year_start a \<le> day" "day < year_start b"
  shows "a \<le> year_of day" "year_of day < b"
proof -
  show "a \<le> year_of day" using year_start_mono [of "year_of day + 1" a] year_of_day [of day] assms(1) by linarith
  show "year_of day < b" using year_start_mono [of b "year_of day"] year_of_day [of day] assms(2) by linarith
qed

section \<open>Months\<close>

definition month_start :: "bool \<Rightarrow> nat \<Rightarrow> int" where
  "month_start lp m =
     [0, 31, 59, 90, 120, 151, 181, 212, 243, 273, 304, 334] ! (m - 1) + (if lp \<and> 2 < m then 1 else 0)"

definition month_of :: "bool \<Rightarrow> int \<Rightarrow> nat" where
  "month_of lp doy = length (takeWhile (\<lambda>m. month_start lp m \<le> doy) [1..<13])"

lemma months: "[1..<13] = [1, 2, 3, 4, 5, 6, 7, 8, 9, 10, 11, 12 :: nat]"
  by (simp add: upt_rec)

lemma month_of_day:
  assumes "0 \<le> doy" "doy \<le> (if lp then 365 else 364)"
  shows "1 \<le> month_of lp doy" "month_of lp doy \<le> 12"
    "month_start lp (month_of lp doy) \<le> doy" "doy \<le> month_start lp (month_of lp doy) + 30"
  using assms unfolding month_of_def months by (cases lp; simp add: month_start_def)+

section \<open>Broken-down time\<close>

definition gmtime :: "int \<Rightarrow> tm" where
  "gmtime t =
     (let day = t div 86400; s = nat (t mod 86400);
          y = year_of day; doy = day - year_start y; m = month_of (leap y) doy
      in \<lparr>tm_year = y, tm_mon = m, tm_mday = nat (doy - month_start (leap y) m + 1),
          tm_hour = s div 3600, tm_min = s div 60 mod 60, tm_sec = s mod 60\<rparr>)"

lemma gmtime_date:
  fixes t :: int
  defines "tm \<equiv> gmtime t"
  shows "1 \<le> tm_mon tm" "tm_mon tm \<le> 12" "1 \<le> tm_mday tm" "tm_mday tm \<le> 31"
    "year_start (tm_year tm) + month_start (leap (tm_year tm)) (tm_mon tm) + int (tm_mday tm) - 1 = t div 86400"
proof -
  define y doy where "y = year_of (t div 86400)" and "doy = t div 86400 - year_start y"
  have r: "0 \<le> doy" "doy \<le> (if leap y then 365 else 364)"
    using year_of_day [of "t div 86400"] year_start_next [of y] by (simp_all add: doy_def y_def split: if_splits)
  note m = month_of_day [OF r]
  have p: "tm_year tm = y" "tm_mon tm = month_of (leap y) doy" "tm_mday tm = nat (doy - month_start (leap y) (month_of (leap y) doy) + 1)"
    by (simp_all add: tm_def gmtime_def Let_def y_def doy_def)
  show "1 \<le> tm_mon tm" "tm_mon tm \<le> 12" "1 \<le> tm_mday tm" "tm_mday tm \<le> 31"
    using m unfolding p by simp_all
  show "year_start (tm_year tm) + month_start (leap (tm_year tm)) (tm_mon tm) + int (tm_mday tm) - 1 = t div 86400"
    using m unfolding p by (simp add: doy_def)
qed

lemma gmtime_time:
  "tm_hour (gmtime t) < 24" "tm_min (gmtime t) < 60" "tm_sec (gmtime t) < 60"
  "3600 * int (tm_hour (gmtime t)) + 60 * int (tm_min (gmtime t)) + int (tm_sec (gmtime t)) = t mod 86400"
proof -
  define s where "s = nat (t mod 86400)"
  have p: "tm_hour (gmtime t) = s div 3600" "tm_min (gmtime t) = s div 60 mod 60" "tm_sec (gmtime t) = s mod 60"
    by (simp_all add: gmtime_def Let_def s_def)
  have s: "s < 86400" "int s = t mod 86400" by (simp_all add: s_def)
  show "tm_hour (gmtime t) < 24" "tm_min (gmtime t) < 60" "tm_sec (gmtime t) < 60"
    using s(1) unfolding p by (simp_all add: less_mult_imp_div_less)
  have q: "s div 3600 = s div 60 div 60" using div_mult2_eq [of s 60 60] by simp
  have "3600 * (s div 3600) + 60 * (s div 60 mod 60) + s mod 60 = s"
    using div_mult_mod_eq [of s 60] div_mult_mod_eq [of "s div 60" 60] q by linarith
  then have "int (3600 * (s div 3600) + 60 * (s div 60 mod 60) + s mod 60) = int s" by (simp only:)
  then show "3600 * int (tm_hour (gmtime t)) + 60 * int (tm_min (gmtime t)) + int (tm_sec (gmtime t)) = t mod 86400"
    unfolding p s(2) by simp
qed

end
