(* ===== verification/Printer.thy ===== *)
theory Printer
  imports Print_Int Freader Calendar
begin

unbundle bit_operations_syntax

text \<open>
  The printer of fields and events (print.c) and \<open>actf_fld_double\<close> of fld.c. What is printed is
  appended to the output, a string; bytes are characters. \<open>gmtime_r\<close> is \<open>gmtime\<close> of the
  calendar; \<open>iconv\<close> and the local time zone are parameters. Floating-point numbers are exact: a sign, a mantissa and a binary exponent.
\<close>

section \<open>Floating-point numbers\<close>

datatype creal =
    CInf bool
  | CNan bool
  | CFin bool nat int

text \<open>A number with \<open>m\<close> mantissa bits and \<open>e\<close> exponent bits in its bit pattern.\<close>

definition ieee :: "nat \<Rightarrow> nat \<Rightarrow> nat \<Rightarrow> creal" where
  "ieee m e w =
     (let sign = odd (w div 2 ^ (m + e));
          ex = w div 2 ^ m mod 2 ^ e;
          frac = w mod 2 ^ m;
          bias = 2 ^ (e - 1) - 1
      in if ex = 2 ^ e - 1 then (if frac = 0 then CInf sign else CNan sign)
         else if ex = 0 then CFin sign frac (1 - bias - int m)
         else CFin sign (2 ^ m + frac) (int ex - bias - int m))"

definition DBL_MAX :: creal where
  "DBL_MAX = CFin False (2 ^ 53 - 1) 971"

definition actf_fld_double :: "actf_fld \<Rightarrow> creal res" where
  "actf_fld_double fld =
     (if f_type fld \<noteq> ACTF_FLD_TYPE_REAL then Ok DBL_MAX
      else case f_cls fld of
          None \<Rightarrow> Undef
        | Some (ACTF_FLD_CLS_FXD_LEN_FLOAT b) \<Rightarrow>
            (if ba_len b = 32 then (case f_d fld of D_f32 w \<Rightarrow> Ok (ieee 23 8 (unat w)) | _ \<Rightarrow> Undef)
             else if ba_len b = 64 then (case f_d fld of D_f64 w \<Rightarrow> Ok (ieee 52 11 (unat w)) | _ \<Rightarrow> Undef)
             else Ok DBL_MAX)
        | Some c \<Rightarrow> Ok DBL_MAX)"

text \<open>The nearest multiple of \<open>2 ^ k\<close> as a multiple of it; a tie goes to the even one.\<close>

definition round_shift :: "nat \<Rightarrow> nat \<Rightarrow> nat" where
  "round_shift n k =
     (let q = n div 2 ^ k; r = n mod 2 ^ k in
      if 2 * r < 2 ^ k \<or> 2 * r = 2 ^ k \<and> even q then q else q + 1)"

text \<open>\<open>%f\<close>: six digits behind the point.\<close>

fun fmt_f :: "creal \<Rightarrow> string" where
  "fmt_f (CInf s) = (if s then ''-inf'' else ''inf'')"
| "fmt_f (CNan s) = (if s then ''-nan'' else ''nan'')"
| "fmt_f (CFin s m e) =
     (let n = (if 0 \<le> e then m * 10 ^ 6 * 2 ^ nat e else round_shift (m * 10 ^ 6) (nat (- e))) in
      (if s then ''-'' else []) @ dec (n div 10 ^ 6) @ ''.'' @ pad0 6 (dec (n mod 10 ^ 6)))"

section \<open>The printer\<close>

datatype actf_printer_flags =
    ACTF_PRINT_PKT_HEADER | ACTF_PRINT_PKT_CTX | ACTF_PRINT_EVENT_HEADER | ACTF_PRINT_EVENT_COMMON_CTX
  | ACTF_PRINT_EVENT_SPECIFIC_CTX | ACTF_PRINT_EVENT_PAYLOAD | ACTF_PRINT_PROP_LABELS | ACTF_PRINT_TSTAMP_DELTA
  | ACTF_PRINT_TSTAMP_CC | ACTF_PRINT_TSTAMP_UTC | ACTF_PRINT_TSTAMP_DATE | ACTF_PRINT_TSTAMP_SEC

definition ACTF_PRINT_ALL :: "actf_printer_flags set" where
  "ACTF_PRINT_ALL =
     {ACTF_PRINT_PKT_HEADER, ACTF_PRINT_PKT_CTX, ACTF_PRINT_EVENT_HEADER, ACTF_PRINT_EVENT_COMMON_CTX,
      ACTF_PRINT_EVENT_SPECIFIC_CTX, ACTF_PRINT_EVENT_PAYLOAD}"

definition DEFAULT_CONVBUF_SZ :: nat where
  "DEFAULT_CONVBUF_SZ = 1024"

text \<open>
  \<open>pr_to_utf8\<close> holds the conversion descriptors that are open. The union of the last timestamp is
  one 64-bit word.
\<close>

record 'cd actf_printer =
  pr_to_utf8 :: "(actf_encoding \<times> 'cd) list"
  pr_convbuf_sz :: nat
  pr_flags :: "actf_printer_flags set"
  pr_pkt_to_print :: "actf_pkt_prop list"
  pr_ev_to_print :: "actf_event_prop list"
  pr_last_tstamp :: u64
  pr_has_last_tstamp :: bool
  pr_out :: string

definition actf_printer_init :: "bool \<Rightarrow> bool \<Rightarrow> actf_printer_flags set \<Rightarrow> 'cd actf_printer option" where
  "actf_printer_init alloc alloc_buf flags =
     (if \<not> alloc \<or> \<not> alloc_buf then None
      else Some
        \<lparr>pr_to_utf8 = [], pr_convbuf_sz = DEFAULT_CONVBUF_SZ, pr_flags = flags,
         pr_pkt_to_print =
           (if ACTF_PRINT_PKT_HEADER \<in> flags then [ACTF_PKT_PROP_HEADER] else []) @
           (if ACTF_PRINT_PKT_CTX \<in> flags then [ACTF_PKT_PROP_CTX] else []),
         pr_ev_to_print =
           (if ACTF_PRINT_EVENT_HEADER \<in> flags then [ACTF_EVENT_PROP_HEADER] else []) @
           (if ACTF_PRINT_EVENT_COMMON_CTX \<in> flags then [ACTF_EVENT_PROP_COMMON_CTX] else []) @
           (if ACTF_PRINT_EVENT_SPECIFIC_CTX \<in> flags then [ACTF_EVENT_PROP_SPECIFIC_CTX] else []) @
           (if ACTF_PRINT_EVENT_PAYLOAD \<in> flags then [ACTF_EVENT_PROP_PAYLOAD] else []),
         pr_last_tstamp = 0, pr_has_last_tstamp = False, pr_out = []\<rparr>)"

type_synonym ('cd, 'a) pr_op = "('cd actf_printer, 'a) cm"

definition out :: "string \<Rightarrow> ('cd, unit) pr_op" where
  "out s = modify (\<lambda>p. p\<lparr>pr_out := pr_out p @ s\<rparr>)"

text \<open>
  \<open>iconv\<close>: the conversion of bytes into a buffer with room for a number of bytes consumes some of
  them and returns what it has put into the buffer.
\<close>

datatype iconv_rc = ICONV_OK | ICONV_E2BIG | ICONV_ERR

record 'cd iconv_lib =
  iconv_open :: "actf_encoding \<Rightarrow> 'cd option"
  iconv :: "'cd \<Rightarrow> u8 list \<Rightarrow> nat \<Rightarrow> iconv_rc \<times> nat \<times> u8 list \<times> 'cd"
  iconv_flush :: "'cd \<Rightarrow> nat \<Rightarrow> iconv_rc \<times> u8 list \<times> 'cd"

definition init_to_utf8_iconv :: "'cd iconv_lib \<Rightarrow> actf_encoding \<Rightarrow> ('cd, unit) pr_op" where
  "init_to_utf8_iconv IC enc p =
     (case map_of (pr_to_utf8 p) enc of
        Some cd \<Rightarrow> (Ok (), p)
      | None \<Rightarrow>
          (case iconv_open IC enc of
             None \<Rightarrow> (Err ACTF_ERROR, p)
           | Some cd \<Rightarrow> (Ok (), p\<lparr>pr_to_utf8 := (enc, cd) # pr_to_utf8 p\<rparr>)))"

section \<open>Names\<close>

definition quoted :: "string \<Rightarrow> string" where
  "quoted s = ''\"'' @ s @ ''\"''"

text \<open>The names of a search, separated by commas, and their number.\<close>

fun names_text :: "nat \<Rightarrow> string list \<Rightarrow> string" where
  "names_text n_prints [] = []"
| "names_text n_prints (name # names) =
     (if 0 < n_prints then '','' @ quoted name else quoted name) @ names_text (n_prints + 1) names"

definition fprint_names :: "string list res \<Rightarrow> ('cd, nat) pr_op" where
  "fprint_names r = bindc (lift_res r) (\<lambda>names. thenc (out (names_text 0 names)) (ret (length names)))"

definition umappings_fprint_names :: "actf_mappings \<Rightarrow> u64 \<Rightarrow> ('cd, nat) pr_op" where
  "umappings_fprint_names maps val =
     fprint_names (find_all (length (rb_mem (am_ivt maps))) (actf_mappings_find_uint maps val) None)"

definition smappings_fprint_names :: "actf_mappings \<Rightarrow> i64 \<Rightarrow> ('cd, nat) pr_op" where
  "smappings_fprint_names maps val =
     fprint_names (find_all (length (rb_mem (am_ivt maps))) (actf_mappings_find_sint maps val) None)"

definition actf_flags_fprint_names :: "actf_flags \<Rightarrow> u64 \<Rightarrow> ('cd, nat) pr_op" where
  "actf_flags_fprint_names bm val =
     fprint_names (find_all (Suc (length (flags_maps bm))) (\<lambda>it. Ok (actf_flags_find bm val it)) 0)"

definition out_names :: "('cd, nat) pr_op \<Rightarrow> ('cd, unit) pr_op" where
  "out_names m = thenc (out '': '') (bindc m (\<lambda>n. if n = 0 then out ''nil'' else ret ()))"

section \<open>Fields\<close>

abbreviation chars :: "u8 list \<Rightarrow> string" where
  "chars \<equiv> map (\<lambda>b. char_of (unat b))"

text \<open>\<open>%.*s\<close>: at most \<open>sz\<close> bytes up to a null byte; the precision is an \<open>int\<close>.\<close>

definition out_bytes :: "u8 list \<Rightarrow> ('cd, unit) pr_op" where
  "out_bytes bs = (if length bs < 2 ^ 31 then out (chars (takeWhile (\<lambda>b. b \<noteq> 0) bs)) else undef)"

text \<open>
  The conversion of a string piece by piece: while the buffer is too small it is printed and
  begins anew; a call that succeeds has consumed all the input. The result is whether the
  conversion succeeded.
\<close>

fun conv_loop :: "nat \<Rightarrow> 'cd iconv_lib \<Rightarrow> actf_encoding \<Rightarrow> u8 list \<Rightarrow> ('cd, bool) pr_op" where
  "conv_loop 0 IC enc bs p = (if bs = [] then (Ok True, p) else (Loop, p))"
| "conv_loop (Suc n) IC enc bs p =
     (if bs = [] then (Ok True, p)
      else case map_of (pr_to_utf8 p) enc of
          None \<Rightarrow> (Undef, p)
        | Some cd \<Rightarrow>
            (case iconv IC cd bs (pr_convbuf_sz p) of
               (rc, used, conv, cd') \<Rightarrow>
                 let p' = p\<lparr>pr_to_utf8 := (enc, cd') # pr_to_utf8 p\<rparr> in
                 (case rc of
                    ICONV_OK \<Rightarrow> thenc (out_bytes conv) (ret True) p'
                  | ICONV_E2BIG \<Rightarrow> thenc (out_bytes conv) (conv_loop n IC enc (drop used bs)) p'
                  | ICONV_ERR \<Rightarrow> thenc (out ''?'') (ret False) p')))"

definition conv_flush :: "'cd iconv_lib \<Rightarrow> actf_encoding \<Rightarrow> ('cd, bool) pr_op" where
  "conv_flush IC enc p =
     (case map_of (pr_to_utf8 p) enc of
        None \<Rightarrow> (Undef, p)
      | Some cd \<Rightarrow>
          (case iconv_flush IC cd (pr_convbuf_sz p) of
             (rc, conv, cd') \<Rightarrow>
               let p' = p\<lparr>pr_to_utf8 := (enc, cd') # pr_to_utf8 p\<rparr> in
               if rc = ICONV_OK then thenc (out_bytes conv) (ret True) p' else thenc (out ''?'') (ret False) p'))"

definition fprint_str :: "nat \<Rightarrow> 'cd iconv_lib \<Rightarrow> actf_encoding \<Rightarrow> u8 list \<Rightarrow> ('cd, unit) pr_op" where
  "fprint_str n IC enc str =
     (if enc = ACTF_ENCODING_UTF8 then thenc (out ''\"'') (thenc (out_bytes str) (out ''\"''))
      else
        thenc (init_to_utf8_iconv IC enc)
       (thenc (out ''\"'')
       (bindc (conv_loop n IC enc str) (\<lambda>ok.
        bindc (if ok then conv_flush IC enc else ret False) (\<lambda>ok.
        thenc (out ''\"'') (ensure ok ACTF_ERROR))))))"

text \<open>The bytes of the data a field points at.\<close>

definition fld_bytes :: "actf_decoder \<Rightarrow> nat option \<Rightarrow> nat \<Rightarrow> u8 list res" where
  "fld_bytes d ptr len =
     (case ptr of
        None \<Rightarrow> if len = 0 then Ok [] else Undef
      | Some i \<Rightarrow> if i + len \<le> length (br_data (d_br d)) then Ok (take len (drop i (br_data (d_br d)))) else Undef)"

text \<open>The result of a nested call is not looked at; what it has printed stays.\<close>

definition ignore_err :: "('cd, unit) pr_op \<Rightarrow> ('cd, unit) pr_op" where
  "ignore_err m p = (case m p of (Err e, p') \<Rightarrow> (Ok (), p') | r \<Rightarrow> r)"

definition load_arg :: "actf_decoder \<Rightarrow> fptr option \<Rightarrow> actf_fld res" where
  "load_arg d ptr = (case Option.bind ptr (\<lambda>p. load_fld p d) of Some f \<Rightarrow> Ok f | None \<Rightarrow> Undef)"

fun seqc :: "('cd, unit) pr_op list \<Rightarrow> ('cd, unit) pr_op" where
  "seqc [] = ret ()"
| "seqc (m # ms) = thenc m (seqc ms)"

text \<open>
  The values of an array with commas before all but the first, and the members of a structure
  with commas behind all but the last.
\<close>

definition arr_items :: "(actf_fld \<Rightarrow> ('cd, unit) pr_op) \<Rightarrow> actf_decoder \<Rightarrow> actf_fld \<Rightarrow> ('cd, unit) pr_op list" where
  "arr_items pr d fld =
     map (\<lambda>i. thenc (if i \<noteq> 0 then out '', '' else ret ())
                (bindc (lift_res (load_arg d (actf_fld_arr_idx fld (of_nat i)))) (\<lambda>f. ignore_err (pr f))))
       [0..<unat (actf_fld_arr_len fld)]"

definition struct_items :: "(actf_fld \<Rightarrow> ('cd, unit) pr_op) \<Rightarrow> actf_decoder \<Rightarrow> actf_fld \<Rightarrow> ('cd, unit) pr_op list" where
  "struct_items pr d fld =
     (let len = actf_fld_struct_len fld in
      map (\<lambda>i. thenc (out (m_name (fld_members fld ! i) @ '': ''))
                (thenc (bindc (lift_res (load_arg d (actf_fld_struct_fld_idx fld i))) (\<lambda>f. ignore_err (pr f)))
                (if i \<noteq> len - 1 then out '', '' else ret ())))
        [0..<len])"

text \<open>The fuel bounds the nesting of fields and the number of pieces a string is converted in.\<close>

fun actf_fprint_fld :: "nat \<Rightarrow> 'cd iconv_lib \<Rightarrow> actf_decoder \<Rightarrow> actf_fld \<Rightarrow> ('cd, unit) pr_op" where
  "actf_fprint_fld 0 IC d fld = (\<lambda>p. (Loop, p))"
| "actf_fprint_fld (Suc n) IC d fld =
     (case f_type fld of
        ACTF_FLD_TYPE_NIL \<Rightarrow> out ''nil''
      | ACTF_FLD_TYPE_SINT \<Rightarrow>
          (case f_cls fld of
             None \<Rightarrow> undef
           | Some cls \<Rightarrow>
               bindc (lift_res (fprint_sint (actf_fld_int64 fld) (actf_fld_cls_pref_display_base cls))) (\<lambda>s.
               thenc (out s)
              (case actf_fld_cls_mappings cls of
                 Some maps \<Rightarrow>
                   if actf_mappings_len maps \<noteq> 0 then out_names (smappings_fprint_names maps (actf_fld_int64 fld)) else ret ()
               | None \<Rightarrow> ret ())))
      | ACTF_FLD_TYPE_UINT \<Rightarrow>
          (case f_cls fld of
             None \<Rightarrow> undef
           | Some cls \<Rightarrow>
               thenc (out (fprint_uint (actf_fld_uint64 fld) (actf_fld_cls_pref_display_base cls)))
              (case actf_fld_cls_mappings cls of
                 Some maps \<Rightarrow>
                   if actf_mappings_len maps \<noteq> 0 then out_names (umappings_fprint_names maps (actf_fld_uint64 fld)) else ret ()
               | None \<Rightarrow> ret ()))
      | ACTF_FLD_TYPE_BIT_MAP \<Rightarrow>
          (case f_cls fld of
             None \<Rightarrow> undef
           | Some cls \<Rightarrow>
               thenc (out (fprint_uint (actf_fld_uint64 fld) ACTF_BASE_HEXADECIMAL))
              (case actf_fld_cls_bit_map_flags cls of
                 Some flags \<Rightarrow> out_names (actf_flags_fprint_names flags (actf_fld_uint64 fld))
               | None \<Rightarrow> undef))
      | ACTF_FLD_TYPE_REAL \<Rightarrow> bindc (lift_res (actf_fld_double fld)) (\<lambda>v. out (fmt_f v))
      | ACTF_FLD_TYPE_ARR \<Rightarrow>
          thenc (out ''['') (thenc (seqc (arr_items (actf_fprint_fld n IC d) d fld)) (out '']''))
      | ACTF_FLD_TYPE_BOOL \<Rightarrow> out (dec (of_bool (actf_fld_bool fld)))
      | ACTF_FLD_TYPE_STR \<Rightarrow>
          (case f_cls fld of
             None \<Rightarrow> undef
           | Some cls \<Rightarrow>
               bindc (lift_res (fld_bytes d (actf_fld_str_raw fld) (actf_fld_str_sz fld))) (\<lambda>str.
               fprint_str n IC (actf_fld_cls_encoding cls) str))
      | ACTF_FLD_TYPE_BLOB \<Rightarrow>
          bindc (lift_res (fld_bytes d (actf_fld_blob fld) (actf_fld_blob_sz fld))) (\<lambda>dat.
          out (concat (map (\<lambda>b. pad0 2 (nat_digits 16 (unat b))) dat)))
      | ACTF_FLD_TYPE_STRUCT \<Rightarrow>
          thenc (out ''{ '') (thenc (seqc (struct_items (actf_fprint_fld n IC d) d fld)) (out '' }'')))"

definition actf_print_fld :: "nat \<Rightarrow> 'cd iconv_lib \<Rightarrow> actf_decoder \<Rightarrow> actf_fld \<Rightarrow> ('cd, unit) pr_op" where
  "actf_print_fld n IC d fld = actf_fprint_fld n IC d fld"

section \<open>Timestamps\<close>

fun actf_pkt_prop_to_name :: "actf_pkt_prop \<Rightarrow> string" where
  "actf_pkt_prop_to_name ACTF_PKT_PROP_HEADER = ''packet-header''"
| "actf_pkt_prop_to_name ACTF_PKT_PROP_CTX = ''packet-context''"

fun actf_event_prop_to_name :: "actf_event_prop \<Rightarrow> string" where
  "actf_event_prop_to_name ACTF_EVENT_PROP_HEADER = ''event-header''"
| "actf_event_prop_to_name ACTF_EVENT_PROP_COMMON_CTX = ''event-common-context''"
| "actf_event_prop_to_name ACTF_EVENT_PROP_SPECIFIC_CTX = ''event-specific-context''"
| "actf_event_prop_to_name ACTF_EVENT_PROP_PAYLOAD = ''event-payload''"

text \<open>\<open>strftime\<close> with the two formats that are used; too long a text leaves the buffer undefined.\<close>

definition fmt_hms :: "tm \<Rightarrow> string" where
  "fmt_hms tm = pad0 2 (dec (tm_hour tm)) @ '':'' @ pad0 2 (dec (tm_min tm)) @ '':'' @ pad0 2 (dec (tm_sec tm))"

definition fmt_ymdhms :: "tm \<Rightarrow> string" where
  "fmt_ymdhms tm =
     fmt_i (tm_year tm) @ ''-'' @ pad0 2 (dec (tm_mon tm)) @ ''-'' @ pad0 2 (dec (tm_mday tm)) @ '' '' @ fmt_hms tm"

definition strftime :: "nat \<Rightarrow> string \<Rightarrow> string res" where
  "strftime sz s = (if length s < sz then Ok s else Undef)"

text \<open>Division in C rounds towards zero.\<close>

definition cdiv :: "int \<Rightarrow> int \<Rightarrow> int" where
  "cdiv a b = sgn a * sgn b * (\<bar>a\<bar> div \<bar>b\<bar>)"

definition fprint_tstamp_ns :: "(int \<Rightarrow> tm) \<Rightarrow> i64 \<Rightarrow> actf_printer_flags set \<Rightarrow> string res" where
  "fprint_tstamp_ns localtime tstamp_ns flags =
     (let sec = cdiv (sint tstamp_ns) 1000000000;
          nsec = sint tstamp_ns - sec * 1000000000
      in if ACTF_PRINT_TSTAMP_SEC \<in> flags
         then Ok (''['' @ fmt_i sec @ ''.'' @ pad0 9 (dec (nat \<bar>nsec\<bar>)) @ ''] '')
         else
           let (sec, nsec) = (if nsec < 0 then (sec - 1, 1000000000 + nsec) else (sec, nsec));
               tm = (if ACTF_PRINT_TSTAMP_UTC \<in> flags then gmtime sec else localtime sec)
           in bindr (if ACTF_PRINT_TSTAMP_DATE \<in> flags then strftime 22 (fmt_ymdhms tm) else strftime 10 (fmt_hms tm)) (\<lambda>s.
              Ok (''['' @ s @ ''.'' @ fmt_0i 9 nsec @ ''] '')))"

section \<open>Events\<close>

definition out_delta :: "string res \<Rightarrow> u64 \<Rightarrow> ('cd, unit) pr_op" where
  "out_delta delta tstamp p =
     (if ACTF_PRINT_TSTAMP_DELTA \<notin> pr_flags p then (Ok (), p)
      else
        thenc (if pr_has_last_tstamp p then bindc (lift_res delta) (\<lambda>s. out (''(+'' @ s @ '') ''))
               else thenc (out ''(+??????????) '') (modify (\<lambda>p. p\<lparr>pr_has_last_tstamp := True\<rparr>)))
       (modify (\<lambda>p. p\<lparr>pr_last_tstamp := tstamp\<rparr>)) p)"

definition fprint_event_tstamp :: "(int \<Rightarrow> tm) \<Rightarrow> actf_metadata \<Rightarrow> actf_event \<Rightarrow> ('cd, unit) pr_op" where
  "fprint_event_tstamp localtime md ev p =
     (if ACTF_PRINT_TSTAMP_CC \<notin> pr_flags p then
        bindc (lift_res (actf_event_tstamp_ns_from_origin md ev)) (\<lambda>tstamp.
        bindc (lift_res (fprint_tstamp_ns localtime tstamp (pr_flags p))) (\<lambda>s.
        thenc (out s)
       (let d = sint tstamp - sint (pr_last_tstamp p) in
        out_delta (if in_i64 d then Ok (fmt_0i 10 d) else Undef) tstamp))) p
      else
        let tstamp = actf_event_tstamp ev in
        thenc (out (''['' @ pad0 20 (dec (unat tstamp)) @ ''] ''))
          (out_delta (Ok (pad0 10 (dec (unat (tstamp - pr_last_tstamp p))))) tstamp) p)"

text \<open>The properties that are not nil, separated by commas; the result is whether one was printed.\<close>

fun fprint_props ::
  "nat \<Rightarrow> 'cd iconv_lib \<Rightarrow> actf_decoder \<Rightarrow> ('p \<Rightarrow> string) \<Rightarrow> ('p \<Rightarrow> actf_fld) \<Rightarrow> 'p list \<Rightarrow> bool \<Rightarrow> ('cd, bool) pr_op" where
  "fprint_props n IC d name prop [] do_comma p = (Ok do_comma, p)"
| "fprint_props n IC d name prop (x # xs) do_comma p =
     (if f_type (prop x) = ACTF_FLD_TYPE_NIL then fprint_props n IC d name prop xs do_comma p
      else
        thenc (if do_comma then out '', '' else ret ())
       (thenc (if ACTF_PRINT_PROP_LABELS \<in> pr_flags p then out (name x @ '': '') else ret ())
       (thenc (ignore_err (actf_fprint_fld n IC d (prop x)))
       (fprint_props n IC d name prop xs True))) p)"

definition event_name_text :: "actf_event_cls \<Rightarrow> string" where
  "event_name_text evc =
     (case (ec_namespace evc, ec_name evc) of
        (Some ns, Some name) \<Rightarrow> ns @ ''::'' @ name @ '': ''
      | (None, Some name) \<Rightarrow> name @ '': ''
      | (_, None) \<Rightarrow> [])"

definition actf_fprint_event ::
  "nat \<Rightarrow> 'cd iconv_lib \<Rightarrow> (int \<Rightarrow> tm) \<Rightarrow> actf_decoder \<Rightarrow> actf_event \<Rightarrow> ('cd, unit) pr_op" where
  "actf_fprint_event n IC localtime d ev =
     (case actf_event_event_cls ev of
        None \<Rightarrow> undef
      | Some evc \<Rightarrow>
          bindc (lift_res (dsc_clk_cls (d_metadata d) (Some (ec_dsc evc)))) (\<lambda>clkc.
          thenc (if clkc \<noteq> None then fprint_event_tstamp localtime (d_metadata d) ev else ret ())
         (thenc (out (event_name_text evc))
         (thenc (out ''{ '')
         (bindc (\<lambda>p. fprint_props n IC d actf_pkt_prop_to_name (\<lambda>x. pk_props (ds_pkt (d_s d)) ! pkt_prop_idx x) (pr_pkt_to_print p) False p) (\<lambda>do_comma.
          thenc (\<lambda>p. bindc (fprint_props n IC d actf_event_prop_to_name (\<lambda>x. ev_props ev ! event_prop_idx x) (pr_ev_to_print p) do_comma) (\<lambda>_. ret ()) p)
         (out '' }'')))))))"

definition actf_print_event ::
  "nat \<Rightarrow> 'cd iconv_lib \<Rightarrow> (int \<Rightarrow> tm) \<Rightarrow> actf_decoder \<Rightarrow> actf_event \<Rightarrow> ('cd, unit) pr_op" where
  "actf_print_event n IC localtime d ev = actf_fprint_event n IC localtime d ev"

end
