(* ===== verification/Print_Theorems.thy ===== *)
theory Print_Theorems
  imports Printer
begin

text \<open>Theorems about the output of the printer.\<close>

section \<open>Integers\<close>

lemma text_int_nat: "s \<noteq> [] \<Longrightarrow> hd s \<noteq> CHR ''-'' \<Longrightarrow> text_int s = int (text_nat s)"
  by (cases s) simp_all

lemma prefixed: "hd (sprint_uint_bin n) = CHR ''0''" "hd (fmt_alt_o k) = CHR ''0''" "hd (fmt_alt_x k) = CHR ''0''"
  "sprint_uint_bin n \<noteq> []" "fmt_alt_o k \<noteq> []" "fmt_alt_x k \<noteq> []"
  by (simp_all add: sprint_uint_bin_def Let_def fmt_alt_o_def fmt_alt_x_def)

lemma uint_word_of_int: "0 \<le> x \<Longrightarrow> x < 2 ^ 64 \<Longrightarrow> uint (word_of_int x :: u64) = x"
  by (simp add: uint_word_of_int_eq take_bit_int_eq_self)

text \<open>The magnitude of a number is printed, and the least one has none.\<close>

lemma unat_magnitude:
  fixes v :: i64
  shows "0 \<le> sint v \<Longrightarrow> int (unat v) = sint v" "sint v < 0 \<Longrightarrow> - int (unat (- v)) = sint v"
proof -
  have b: "- (2 ^ 63) \<le> sint v" "sint v < 2 ^ 63" using sint_greater_eq [of v] sint_less [of v] by simp_all
  have w: "word_of_int (sint v) = v" "word_of_int (- sint v) = - v" by simp_all
  show "0 \<le> sint v \<Longrightarrow> int (unat v) = sint v" using uint_word_of_int [of "sint v"] b(2) unfolding w(1) by simp
  show "sint v < 0 \<Longrightarrow> - int (unat (- v)) = sint v" using uint_word_of_int [of "- sint v"] b(1) unfolding w(2) by simp
qed

text \<open>
  C38. Every integer can be read back from its output. An unsigned number prints in any base as a
  text that denotes it: binary with the prefix 0b, octal with 0, hexadecimal with 0x. So does a
  signed number with its sign, except that the least one is undefined in every base but the
  decimal one, because it has no magnitude in 64 bits.
\<close>

theorem printed_integers_read_back:
  "text_nat (fprint_uint v base) = unat v \<and>
   (case fprint_sint w base of
      Ok s \<Rightarrow> text_int s = sint w
    | Undef \<Rightarrow> w = INT64_MIN \<and> base \<noteq> ACTF_BASE_DECIMAL
    | _ \<Rightarrow> False)"
proof
  show "text_nat (fprint_uint v base) = unat v"
    by (cases base) (simp_all add: fprint_uint_def text_nat_bin text_nat_alt_o text_nat_alt_x text_nat_dec)
  show "case fprint_sint w base of Ok s \<Rightarrow> text_int s = sint w | Undef \<Rightarrow> w = INT64_MIN \<and> base \<noteq> ACTF_BASE_DECIMAL | _ \<Rightarrow> False"
  proof (cases "0 \<le> sint w")
    case True
    have e: "text_int (sprint_uint_bin x) = int (unat x)" "text_int (fmt_alt_o k) = int k" "text_int (fmt_alt_x k) = int k" for x k
      using text_int_nat prefixed by (simp_all add: text_nat_bin text_nat_alt_o text_nat_alt_x)
    have d: "text_int (dec k) = int k" for k using text_int_nat text_nat_dec by simp
    have t: "(0 \<le> sint w) = True" "(sint w < 0) = False" using True by simp_all
    have "int (nat (sint w)) = sint w" using True by simp
    then show ?thesis using unat_magnitude(1) [OF True]
      by (cases base) (simp_all only: fprint_sint_def fmt_i_def t if_True if_False actf_base.case res.case e d)
  next
    case False
    then have n: "- int (unat (- w)) = sint w" using unat_magnitude(2) by simp
    show ?thesis using False n
      by (cases base) (simp_all add: fprint_sint_def fmt_i_def text_nat_bin text_nat_alt_o text_nat_alt_x text_nat_dec)
  qed
qed

section \<open>Output\<close>

text \<open>
  Printing a field only appends to the output: the settings of the printer and the last timestamp
  stay, whatever the field is and however the call ends.
\<close>

definition appended :: "'cd actf_printer \<Rightarrow> 'cd actf_printer \<Rightarrow> bool" where
  "appended p p' \<longleftrightarrow>
     (\<exists>s. pr_out p' = pr_out p @ s) \<and> pr_flags p' = pr_flags p \<and> pr_convbuf_sz p' = pr_convbuf_sz p \<and>
     pr_pkt_to_print p' = pr_pkt_to_print p \<and> pr_ev_to_print p' = pr_ev_to_print p \<and>
     pr_last_tstamp p' = pr_last_tstamp p \<and> pr_has_last_tstamp p' = pr_has_last_tstamp p"

lemma appended_refl [simp]: "appended p p"
  by (simp add: appended_def)

lemma keeps_out [keeps_intros]: "keeps (appended p) (out s)"
  by (auto simp: keeps_def out_def modify_def appended_def)

lemma keeps_descr: "appended p q \<Longrightarrow> appended p (q\<lparr>pr_to_utf8 := c\<rparr>)"
  by (simp add: appended_def)

lemma keeps_out_bytes [keeps_intros]: "keeps (appended p) (out_bytes bs)"
  by (simp add: out_bytes_def keeps_out)

lemma keeps_ignore_err [keeps_intros]: "keeps I m \<Longrightarrow> keeps I (ignore_err m)"
  by (fastforce simp: keeps_def ignore_err_def split: prod.splits res.splits)

lemma keeps_seqc: "(\<And>m. m \<in> set ms \<Longrightarrow> keeps I m) \<Longrightarrow> keeps I (seqc ms)"
  by (induction ms) (auto intro: keeps_intros)

lemma keeps_snd: "keeps I m \<Longrightarrow> I s \<Longrightarrow> I (snd (m s))"
  by (simp add: keeps_def)

lemma piece_appends:
  assumes "appended p q"
  shows "appended p (snd (thenc (out_bytes conv) (ret True) q))" "appended p (snd (thenc (out ''?'') (ret False) q))"
  by (rule keeps_snd [where I = "appended p" and s = q, OF _ assms], intro keeps_intros)+

lemma keeps_names [keeps_intros]:
  "keeps (appended p) (umappings_fprint_names maps v)" "keeps (appended p) (smappings_fprint_names maps v)"
  "keeps (appended p) (actf_flags_fprint_names bm v)"
  by (simp_all add: umappings_fprint_names_def smappings_fprint_names_def actf_flags_fprint_names_def fprint_names_def keeps_intros)

lemma keeps_out_names [keeps_intros]: "keeps (appended p) m \<Longrightarrow> keeps (appended p) (out_names m)"
  unfolding out_names_def by (intro keeps_intros)

lemma keeps_conv_loop: "appended p q \<Longrightarrow> appended p (snd (conv_loop n IC enc bs q))"
proof (induction n IC enc bs q rule: conv_loop.induct)
  case (2 n IC enc bs q)
  show ?case
  proof (cases "bs = []")
    case False
    show ?thesis
    proof (cases "map_of (pr_to_utf8 q) enc")
      case None
      then show ?thesis using False 2 by simp
    next
      case (Some cd)
      obtain rc used conv cd' where i: "iconv IC cd bs (pr_convbuf_sz q) = (rc, used, conv, cd')" by (metis prod_cases4)
      let ?q = "q\<lparr>pr_to_utf8 := (enc, cd') # pr_to_utf8 q\<rparr>"
      have a: "appended p ?q" using 2(2) by (rule keeps_descr)
      have b: "appended p (snd (out_bytes conv ?q))" by (rule keeps_snd [OF keeps_out_bytes a])
      have "appended p (snd (thenc (out_bytes conv) (conv_loop n IC enc (drop used bs)) ?q))" if "rc = ICONV_E2BIG"
        using 2(1) [OF False Some i [symmetric]] that b by (auto simp: thenc_def bindc_def split: prod.splits res.splits)
      then show ?thesis using False Some i piece_appends [OF a] by (cases rc) (simp_all add: Let_def)
    qed
  qed (use 2 in simp)
qed simp

lemma keeps_conv_flush: "keeps (appended p) (conv_flush IC enc)"
proof (rule keepsI)
  fix q assume q: "appended p q"
  show "appended p (snd (conv_flush IC enc q))"
    using q piece_appends [OF keeps_descr [OF q]] by (auto simp: conv_flush_def Let_def split: option.splits prod.splits)
qed

lemma keeps_fprint_str [keeps_intros]: "keeps (appended p) (fprint_str n IC enc str)"
proof -
  have "keeps (appended p) (init_to_utf8_iconv IC enc)"
    by (rule keepsI) (auto simp: init_to_utf8_iconv_def keeps_descr split: option.splits)
  moreover have "keeps (appended p) (conv_loop n IC enc str)" by (rule keepsI) (rule keeps_conv_loop)
  ultimately show ?thesis unfolding fprint_str_def by (intro keeps_intros keeps_conv_flush)
qed

lemma fprint_fld_appends: "keeps (appended p) (actf_fprint_fld n IC d fld)"
proof (induction n arbitrary: fld)
  case 0
  then show ?case by (simp add: keeps_def)
next
  case (Suc n)
  have items: "keeps (appended p) (seqc (arr_items (actf_fprint_fld n IC d) d fld))"
    "keeps (appended p) (seqc (struct_items (actf_fprint_fld n IC d) d fld))" for fld
    by (rule keeps_seqc, auto simp: arr_items_def struct_items_def Let_def intro!: keeps_intros Suc.IH)+
  show ?case
    by (cases "f_type fld"; simp only: actf_fprint_fld.simps actf_fld_type.case; (intro keeps_intros items)?;
      cases "f_cls fld"; simp only: option.case; (intro keeps_intros)?; cases "actf_fld_cls_mappings (the (f_cls fld))";
      cases "actf_fld_cls_bit_map_flags (the (f_cls fld))"; simp add: keeps_intros)
qed

end
