(* ===== verification/Cli.thy ===== *)
theory Cli
  imports Printer
begin

text \<open>
  The command line tool (actf.c): the timestamps of the options \<open>-b\<close> and \<open>-e\<close>, the options
  themselves, and the loop that reads and prints events. The options are given as \<open>getopt\<close>
  returns them; \<open>mktime\<close>, which depends on the time zone, is a parameter. The usage text and
  messages are left out.
\<close>

section \<open>Numbers in options\<close>

definition is_digit :: "char \<Rightarrow> bool" where
  "is_digit c \<longleftrightarrow> 48 \<le> (of_char c :: nat) \<and> (of_char c :: nat) \<le> 57"

text \<open>The text begins with a digit, so that \<open>strtoull\<close> reads the digits it begins with.\<close>

definition strtoboundi64 :: "string \<Rightarrow> int \<Rightarrow> int \<Rightarrow> int res" where
  "strtoboundi64 s lower upper =
     (let n = int (digits_val 10 (takeWhile is_digit s));
          v = (if n < 2 ^ 63 then n else n - 2 ^ 64)
      in if 2 ^ 64 \<le> n \<or> v < lower \<or> upper < v then Err ACTF_ERROR else Ok v)"

section \<open>Dates\<close>

definition is_leap_year :: "int \<Rightarrow> bool" where
  "is_leap_year year \<longleftrightarrow> year mod 4 = 0 \<and> (year mod 100 \<noteq> 0 \<or> year mod 400 = 0)"

text \<open>Arithmetic on \<open>int\<close>: a result outside of its range is undefined.\<close>

definition i32 :: "int \<Rightarrow> int res" where
  "i32 x = (if - (2 ^ 31) \<le> x \<and> x < 2 ^ 31 then Ok x else Undef)"

definition days_to_month :: "int list" where
  "days_to_month = [0, 31, 59, 90, 120, 151, 181, 212, 243, 273, 304, 334]"

text \<open>The sum is evaluated from left to right.\<close>

fun sum_i32 :: "int \<Rightarrow> int list \<Rightarrow> int res" where
  "sum_i32 acc [] = Ok acc"
| "sum_i32 acc (x # xs) = bindr (i32 x) (\<lambda>x. bindr (i32 (acc + x)) (\<lambda>acc. sum_i32 acc xs))"

definition tm_yday :: "tm \<Rightarrow> int" where
  "tm_yday tm =
     int (tm_mday tm) - 1 + days_to_month ! (tm_mon tm - 1) +
     (if 2 < tm_mon tm \<and> is_leap_year (tm_year tm) then 1 else 0)"

definition c_gmtime :: "tm \<Rightarrow> int res" where
  "c_gmtime tm =
     (let y = tm_year tm - 1900 in
      sum_i32 (int (tm_sec tm))
        [int (tm_min tm) * 60, int (tm_hour tm) * 3600, tm_yday tm * 86400, (y - 70) * 31536000,
         cdiv (y - 69) 4 * 86400, - (cdiv (y - 1) 100 * 86400), cdiv (y + 299) 400 * 86400])"

text \<open>\<open>mktime\<close> returns the seconds with the error flag; minus one is also an error.\<close>

type_synonym mktime_fn = "tm \<Rightarrow> int \<times> bool"

definition local_time_to_epoch :: "mktime_fn \<Rightarrow> nat \<Rightarrow> nat \<Rightarrow> nat \<Rightarrow> int res" where
  "local_time_to_epoch mktime hour mi sec =
     (case mktime \<lparr>tm_year = 1970, tm_mon = 1, tm_mday = 1, tm_hour = hour, tm_min = mi, tm_sec = sec\<rparr> of
        (t, errno) \<Rightarrow> if t = - 1 \<and> errno then Err ACTF_ERROR else Ok t)"

section \<open>Timestamps\<close>

text \<open>
  The regular expressions. \<open>digs n\<close> matches exactly \<open>n\<close> digits; the parts that are captured are
  returned as the texts that begin with them.
\<close>

definition digs :: "nat \<Rightarrow> string \<Rightarrow> string option" where
  "digs n s = (if n \<le> length s \<and> list_all is_digit (take n s) then Some (drop n s) else None)"

definition lit :: "char \<Rightarrow> string \<Rightarrow> string option" where
  "lit c s = (case s of [] \<Rightarrow> None | d # s' \<Rightarrow> if d = c then Some s' else None)"

text \<open>The end, or a colon, two digits and the end or a point with one to nine digits to the end.\<close>

definition match_ss_nano :: "string \<Rightarrow> (string option \<times> string option) option" where
  "match_ss_nano s =
     (if s = [] then Some (None, None)
      else Option.bind (lit CHR '':'' s) (\<lambda>ss.
           Option.bind (digs 2 ss) (\<lambda>r.
           if r = [] then Some (Some ss, None)
           else Option.bind (lit CHR ''.'' r) (\<lambda>nano.
                if nano \<noteq> [] \<and> length nano \<le> 9 \<and> list_all is_digit nano then Some (Some ss, Some nano) else None))))"

definition match_hhiiss :: "string \<Rightarrow> (string \<times> string \<times> string option \<times> string option) option" where
  "match_hhiiss s =
     Option.bind (digs 2 s) (\<lambda>r. Option.bind (lit CHR '':'' r) (\<lambda>mi.
     Option.bind (digs 2 mi) (\<lambda>r. map_option (\<lambda>(ss, nano). (s, mi, ss, nano)) (match_ss_nano r))))"

definition match_yyyymmddhhiiss ::
  "string \<Rightarrow> (string \<times> string \<times> string \<times> string \<times> string \<times> string option \<times> string option) option" where
  "match_yyyymmddhhiiss s =
     Option.bind (digs 4 s) (\<lambda>r. Option.bind (lit CHR ''-'' r) (\<lambda>mon.
     Option.bind (digs 2 mon) (\<lambda>r. Option.bind (lit CHR ''-'' r) (\<lambda>day.
     Option.bind (digs 2 day) (\<lambda>r. Option.bind (lit CHR '' '' r) (\<lambda>hh.
     map_option (\<lambda>(hh, mi, ss, nano). (s, mon, day, hh, mi, ss, nano)) (match_hhiiss hh)))))))"

text \<open>
  Minus signs, digits, and the end or a point with a digit; what follows the digits behind the
  point is not looked at.
\<close>

definition match_sec :: "string \<Rightarrow> (bool \<times> string \<times> string option) option" where
  "match_sec s =
     (let sec = dropWhile (\<lambda>c. c = CHR ''-'') s;
          r = dropWhile is_digit sec
      in if sec = r then None
         else if r = [] then Some (take 1 s = ''-'', sec, None)
         else Option.bind (lit CHR ''.'' r) (\<lambda>nano.
              if nano \<noteq> [] \<and> is_digit (hd nano) then Some (take 1 s = ''-'', sec, Some nano) else None))"

definition opt_bound :: "string option \<Rightarrow> int \<Rightarrow> int res" where
  "opt_bound s upper = (case s of None \<Rightarrow> Ok 0 | Some s \<Rightarrow> strtoboundi64 s 0 upper)"

definition i64 :: "int \<Rightarrow> int res" where
  "i64 x = (if in_i64 x then Ok x else Undef)"

text \<open>Seconds and nanoseconds to nanoseconds, in 64 bits.\<close>

definition to_ns :: "int \<Rightarrow> int \<Rightarrow> int res" where
  "to_ns sec nsec = bindr (i64 (sec * 1000000000)) (\<lambda>s. i64 (s + nsec))"

abbreviation I64_MAX :: int where
  "I64_MAX \<equiv> 2 ^ 63 - 1"

definition date_tstamp ::
  "mktime_fn \<Rightarrow> bool \<Rightarrow> string \<times> string \<times> string \<times> string \<times> string \<times> string option \<times> string option \<Rightarrow> (int \<times> bool) res" where
  "date_tstamp mktime parse_as_utc m =
     (case m of (year, mon, day, hour, mi, ss, nano) \<Rightarrow>
        bindr (strtoboundi64 year 0 I64_MAX) (\<lambda>year.
        bindr (strtoboundi64 mon 1 12) (\<lambda>mon.
        bindr (strtoboundi64 day 1 31) (\<lambda>day.
        bindr (strtoboundi64 hour 0 23) (\<lambda>hour.
        bindr (strtoboundi64 mi 0 59) (\<lambda>mi.
        bindr (opt_bound ss 60) (\<lambda>sec.
        bindr (opt_bound nano I64_MAX) (\<lambda>nsec.
        let tm = \<lparr>tm_year = year, tm_mon = nat mon, tm_mday = nat day, tm_hour = nat hour, tm_min = nat mi, tm_sec = nat sec\<rparr> in
        bindr (if parse_as_utc then c_gmtime tm else Ok (fst (mktime tm))) (\<lambda>epoch_sec.
        if epoch_sec = - 1 then Err ACTF_ERROR
        else bindr (to_ns epoch_sec nsec) (\<lambda>ns. Ok (ns, True)))))))))))"

definition time_tstamp :: "mktime_fn \<Rightarrow> string \<times> string \<times> string option \<times> string option \<Rightarrow> (int \<times> bool) res" where
  "time_tstamp mktime m =
     (case m of (hour, mi, ss, nano) \<Rightarrow>
        bindr (strtoboundi64 hour 0 23) (\<lambda>hour.
        bindr (strtoboundi64 mi 0 59) (\<lambda>mi.
        bindr (opt_bound ss 60) (\<lambda>sec.
        bindr (opt_bound nano I64_MAX) (\<lambda>nsec.
        bindr (local_time_to_epoch mktime (nat hour) (nat mi) (nat sec)) (\<lambda>epoch_sec.
        bindr (to_ns epoch_sec nsec) (\<lambda>ns. Ok (ns, False))))))))"

definition sec_tstamp :: "bool \<times> string \<times> string option \<Rightarrow> (int \<times> bool) res" where
  "sec_tstamp m =
     (case m of (neg, sec, nano) \<Rightarrow>
        bindr (strtoboundi64 sec 0 I64_MAX) (\<lambda>sec.
        bindr (opt_bound nano I64_MAX) (\<lambda>nsec.
        bindr (to_ns sec nsec) (\<lambda>ns. Ok (if neg then - ns else ns, True)))))"

text \<open>\<open>compiled\<close> says whether the regular expressions compile. The result has the date or not.\<close>

definition parse_tstamp_ns :: "bool \<Rightarrow> mktime_fn \<Rightarrow> string \<Rightarrow> bool \<Rightarrow> (int \<times> bool) res" where
  "parse_tstamp_ns compiled mktime s parse_as_utc =
     (if \<not> compiled then Err ACTF_ERROR
      else case match_yyyymmddhhiiss s of
          Some m \<Rightarrow> date_tstamp mktime parse_as_utc m
        | None \<Rightarrow>
            (case match_hhiiss s of
               Some m \<Rightarrow> time_tstamp mktime m
             | None \<Rightarrow> (case match_sec s of Some m \<Rightarrow> sec_tstamp m | None \<Rightarrow> Err ACTF_ERROR)))"

section \<open>Options\<close>

record cli_flags =
  cl_quiet :: bool
  cl_ctf_paths :: "string list"
  cl_printer_flags :: "actf_printer_flags set"
  cl_filter_range :: actf_filter_time_range
  cl_has_filter_range :: bool

definition ACTF_FILTER_TIME_RANGE_ALL :: actf_filter_time_range where
  "ACTF_FILTER_TIME_RANGE_ALL =
     \<lparr>fr_begin = INT64_MIN, fr_begin_has_date = True, fr_end = INT64_MAX, fr_end_has_date = True\<rparr>"

text \<open>\<open>getsubopt\<close>: the names up to the commas, without a value behind an equals sign.\<close>

function subopts :: "string \<Rightarrow> string list" where
  "subopts s =
     (if s = [] then []
      else takeWhile (\<lambda>c. c \<noteq> CHR ''='') (takeWhile (\<lambda>c. c \<noteq> CHR '','') s)
             # subopts (drop 1 (dropWhile (\<lambda>c. c \<noteq> CHR '','') s)))"
  by pat_completeness auto
termination
proof (relation "measure length", goal_cases)
  case (2 s)
  have "length (dropWhile (\<lambda>c. c \<noteq> CHR '','') s) \<le> length s" by (rule length_dropWhile_le)
  then show ?case using 2 by (cases s) auto
qed simp

definition print_opt :: "string \<Rightarrow> actf_printer_flags set option" where
  "print_opt name =
     map_of [(''packet-header'', {ACTF_PRINT_PKT_HEADER}), (''packet-context'', {ACTF_PRINT_PKT_CTX}),
       (''event-header'', {ACTF_PRINT_EVENT_HEADER}), (''event-common-context'', {ACTF_PRINT_EVENT_COMMON_CTX}),
       (''event-specific-context'', {ACTF_PRINT_EVENT_SPECIFIC_CTX}), (''event-payload'', {ACTF_PRINT_EVENT_PAYLOAD}),
       (''all'', ACTF_PRINT_ALL)] name"

text \<open>\<open>CLI_EXIT\<close> ends the program with a status.\<close>

datatype 'a cli = CLI_OK 'a | CLI_EXIT int

fun print_opts :: "string list \<Rightarrow> actf_printer_flags set \<Rightarrow> actf_printer_flags set cli" where
  "print_opts [] fl = CLI_OK fl"
| "print_opts (name # names) fl =
     (case print_opt name of Some f \<Rightarrow> print_opts names (fl \<union> f) | None \<Rightarrow> CLI_EXIT (- 1))"

record opt_state =
  os_quiet :: bool
  os_flags :: "actf_printer_flags set"
  os_begin :: "string option"
  os_end :: "string option"

definition flag_opt :: "char \<Rightarrow> actf_printer_flags option" where
  "flag_opt c =
     map_of [(CHR ''l'', ACTF_PRINT_PROP_LABELS), (CHR ''d'', ACTF_PRINT_TSTAMP_DELTA), (CHR ''c'', ACTF_PRINT_TSTAMP_CC),
       (CHR ''g'', ACTF_PRINT_TSTAMP_UTC), (CHR ''t'', ACTF_PRINT_TSTAMP_DATE), (CHR ''s'', ACTF_PRINT_TSTAMP_SEC)] c"

fun parse_opts :: "(char \<times> string) list \<Rightarrow> opt_state \<Rightarrow> opt_state cli" where
  "parse_opts [] os = CLI_OK os"
| "parse_opts ((c, optarg) # opts) os =
     (if c = CHR ''p'' then
        (case print_opts (subopts optarg) (os_flags os) of
           CLI_OK fl \<Rightarrow> parse_opts opts (os\<lparr>os_flags := fl\<rparr>)
         | CLI_EXIT n \<Rightarrow> CLI_EXIT n)
      else if c = CHR ''b'' then parse_opts opts (os\<lparr>os_begin := Some optarg\<rparr>)
      else if c = CHR ''e'' then parse_opts opts (os\<lparr>os_end := Some optarg\<rparr>)
      else if c = CHR ''q'' then parse_opts opts (os\<lparr>os_quiet := True\<rparr>)
      else if c = CHR ''h'' then CLI_EXIT 0
      else case flag_opt c of
          Some f \<Rightarrow> parse_opts opts (os\<lparr>os_flags := insert f (os_flags os)\<rparr>)
        | None \<Rightarrow> CLI_EXIT (- 1))"

definition bound_opt :: "bool \<Rightarrow> mktime_fn \<Rightarrow> bool \<Rightarrow> string option \<Rightarrow> i64 \<times> bool \<Rightarrow> (i64 \<times> bool) cli res" where
  "bound_opt compiled mktime utc arg dflt =
     (case arg of
        None \<Rightarrow> Ok (CLI_OK dflt)
      | Some s \<Rightarrow>
          (case parse_tstamp_ns compiled mktime s utc of
             Ok (ns, has_date) \<Rightarrow> Ok (CLI_OK (word_of_int ns, has_date))
           | Err e \<Rightarrow> Ok (CLI_EXIT (- 1))
           | Undef \<Rightarrow> Undef
           | Loop \<Rightarrow> Loop))"

definition parse_flags :: "bool \<Rightarrow> mktime_fn \<Rightarrow> (char \<times> string) list \<Rightarrow> string list \<Rightarrow> cli_flags cli res" where
  "parse_flags compiled mktime opts args =
     (case parse_opts opts \<lparr>os_quiet = False, os_flags = {}, os_begin = None, os_end = None\<rparr> of
        CLI_EXIT n \<Rightarrow> Ok (CLI_EXIT n)
      | CLI_OK os \<Rightarrow>
          if args = [] then Ok (CLI_EXIT (- 1))
          else
            let fl = (if os_flags os \<inter> ACTF_PRINT_ALL = {} then os_flags os \<union> ACTF_PRINT_ALL else os_flags os);
                utc = ACTF_PRINT_TSTAMP_UTC \<in> fl;
                all = ACTF_FILTER_TIME_RANGE_ALL
            in bindr (bound_opt compiled mktime utc (os_begin os) (fr_begin all, fr_begin_has_date all)) (\<lambda>b.
               case b of
                 CLI_EXIT n \<Rightarrow> Ok (CLI_EXIT n)
               | CLI_OK (b, bd) \<Rightarrow>
                   bindr (bound_opt compiled mktime utc (os_end os) (fr_end all, fr_end_has_date all)) (\<lambda>e.
                   case e of
                     CLI_EXIT n \<Rightarrow> Ok (CLI_EXIT n)
                   | CLI_OK (e, ed) \<Rightarrow>
                       Ok (CLI_OK \<lparr>cl_quiet = os_quiet os, cl_ctf_paths = args, cl_printer_flags = fl,
                         cl_filter_range = \<lparr>fr_begin = b, fr_begin_has_date = bd, fr_end = e, fr_end_has_date = ed\<rparr>,
                         cl_has_filter_range = (os_begin os \<noteq> None \<or> os_end os \<noteq> None)\<rparr>))))"

section \<open>Reading events\<close>

text \<open>
  The loop over the events of a generator. \<open>pr\<close> prints an event, \<open>pkt\<close> is its packet. \<open>rl_lost\<close>
  are the lines about lost events, by the number of the packet.
\<close>

record 'cd read_loop =
  rl_printer :: "'cd actf_printer"
  rl_count :: u64
  rl_last_disc_evs :: u64
  rl_last_seq_num :: u64
  rl_lost :: "(u64 \<times> u64) list"

definition note_packet :: "bool \<Rightarrow> actf_pkt \<Rightarrow> 'cd read_loop \<Rightarrow> 'cd read_loop" where
  "note_packet quiet pkt l =
     (let seq_num = actf_pkt_seq_num pkt;
          disc_evs = actf_pkt_disc_event_record_snapshot pkt;
          l1 = (if rl_count l = 0 \<or> seq_num \<noteq> rl_last_seq_num l then
                  l\<lparr>rl_lost := rl_lost l @
                      (if \<not> quiet \<and> rl_last_disc_evs l < disc_evs then [(seq_num, disc_evs - rl_last_disc_evs l)] else []),
                    rl_last_disc_evs := disc_evs\<rparr>
                else l)
      in l1\<lparr>rl_last_seq_num := seq_num, rl_count := rl_count l + 1\<rparr>)"

text \<open>The result of printing an event is not looked at.\<close>

fun read_run ::
  "('e \<Rightarrow> ('cd, unit) pr_op) \<Rightarrow> ('e \<Rightarrow> actf_pkt) \<Rightarrow> bool \<Rightarrow> 'e list \<Rightarrow> ('cd read_loop, unit) cm" where
  "read_run pr pkt quiet [] l = (Ok (), l)"
| "read_run pr pkt quiet (e # es) l =
     (if quiet then read_run pr pkt quiet es (note_packet quiet (pkt e) l)
      else case thenc (ignore_err (pr e)) (out [char_of (10 :: nat)]) (rl_printer l) of
          (Ok u, p) \<Rightarrow> read_run pr pkt quiet es (note_packet quiet (pkt e) (l\<lparr>rl_printer := p\<rparr>))
        | (Err rc, p) \<Rightarrow> (Err rc, l\<lparr>rl_printer := p\<rparr>)
        | (Undef, p) \<Rightarrow> (Undef, l\<lparr>rl_printer := p\<rparr>)
        | (Loop, p) \<Rightarrow> (Loop, l\<lparr>rl_printer := p\<rparr>))"

fun read_gen ::
  "nat \<Rightarrow> ('s, 'e) generate \<Rightarrow> ('e \<Rightarrow> ('cd, unit) pr_op) \<Rightarrow> ('e \<Rightarrow> actf_pkt) \<Rightarrow> bool \<Rightarrow> 's \<Rightarrow> ('cd read_loop, unit) cm" where
  "read_gen 0 gen pr pkt quiet s l = (Loop, l)"
| "read_gen (Suc n) gen pr pkt quiet s l =
     (case gen s of
        (Ok [], t) \<Rightarrow> (Ok (), l)
      | (Ok es, t) \<Rightarrow> thenc (read_run pr pkt quiet es) (read_gen n gen pr pkt quiet t) l
      | (Err e, t) \<Rightarrow> (Err e, l)
      | (Undef, t) \<Rightarrow> (Undef, l)
      | (Loop, t) \<Rightarrow> (Loop, l))"

text \<open>The number of events and of discarded events that are reported at the end.\<close>

definition read_events ::
  "nat \<Rightarrow> bool \<Rightarrow> bool \<Rightarrow> ('s, 'e) generate \<Rightarrow> ('e \<Rightarrow> ('cd, unit) pr_op) \<Rightarrow> ('e \<Rightarrow> actf_pkt) \<Rightarrow> bool \<Rightarrow>
   actf_printer_flags set \<Rightarrow> 's \<Rightarrow> unit res \<times> 'cd read_loop option" where
  "read_events n alloc alloc_buf gen pr pkt quiet flags s =
     (case actf_printer_init alloc alloc_buf flags of
        None \<Rightarrow> (Err ACTF_ERROR, None)
      | Some p \<Rightarrow>
          (case read_gen n gen pr pkt quiet s
             \<lparr>rl_printer = p, rl_count = 0, rl_last_disc_evs = 0, rl_last_seq_num = 0, rl_lost = []\<rparr> of
             (r, l) \<Rightarrow> (r, Some l)))"

section \<open>The program\<close>

text \<open>
  \<open>main\<close> with the options as \<open>getopt\<close> has read them and the other arguments. The result is the
  exit of the program during the options, or the return code with what was printed.
\<close>

definition actf_main ::
  "nat \<Rightarrow> bool \<Rightarrow> mktime_fn \<Rightarrow> ('j, 'k) json_env \<Rightarrow> dec_mem \<Rightarrow> (string \<Rightarrow> fs_folder option) \<Rightarrow>
   (trace_event \<Rightarrow> ('cd, unit) pr_op) \<Rightarrow> (trace_event \<Rightarrow> actf_pkt) \<Rightarrow> (char \<times> string) list \<Rightarrow> string list \<Rightarrow>
   (unit res \<times> 'cd read_loop option) cli res" where
  "actf_main n compiled mktime E mem opendir pr pkt opts args =
     bindr (parse_flags compiled mktime opts args) (\<lambda>f.
     case f of
       CLI_EXIT c \<Rightarrow> Ok (CLI_EXIT c)
     | CLI_OK f \<Rightarrow>
         Ok (CLI_OK
          (case actf_freader_init (mallocs E 1) \<lparr>fc_metadata_filename = None, fc_dstream_evs_cap = 0, fc_muxer_evs_cap = 0\<rparr> of
             None \<Rightarrow> (Err ACTF_OOM, None)
           | Some rd \<Rightarrow>
               (case actf_freader_open_folders E mem opendir (cl_ctf_paths f) rd of
                  (Err e, rd') \<Rightarrow> (Err ACTF_ERROR, None)
                | (Undef, rd') \<Rightarrow> (Undef, None)
                | (Loop, rd') \<Rightarrow> (Loop, None)
                | (Ok u, rd') \<Rightarrow>
                    if cl_has_filter_range f then
                      (case actf_filter_init (mallocs E 1) rd' (cl_filter_range f) of
                         None \<Rightarrow> (Err ACTF_OOM, None)
                       | Some flt \<Rightarrow>
                           read_events n (mallocs E 1) (mallocs E DEFAULT_CONVBUF_SZ)
                             (actf_filter_filter actf_freader_read (actf_freader_seek_ns_from_origin n) trace_ts)
                             pr pkt (cl_quiet f) (cl_printer_flags f) flt)
                    else
                      read_events n (mallocs E 1) (mallocs E DEFAULT_CONVBUF_SZ) actf_freader_read
                        pr pkt (cl_quiet f) (cl_printer_flags f) rd'))))"

section \<open>Lemmas\<close>

text \<open>In the quiet mode the loop counts the events of the generator.\<close>

lemma read_run_quiet:
  "\<exists>l'. read_run pr pkt True es l = (Ok (), l') \<and> rl_count l' = rl_count l + of_nat (length es) \<and> rl_printer l' = rl_printer l"
proof (induction es arbitrary: l)
  case (Cons e es)
  have "rl_count (note_packet True (pkt e) l) = rl_count l + 1" "rl_printer (note_packet True (pkt e) l) = rl_printer l"
    by (simp_all add: note_packet_def Let_def)
  then show ?case using Cons.IH [of "note_packet True (pkt e) l"] by (auto simp: algebra_simps)
qed simp

lemma read_gen_counts:
  assumes "emits_all gen s str"
  shows "\<exists>n l'. read_gen n gen pr pkt True s l = (Ok (), l') \<and> rl_count l' = rl_count l + of_nat (length str) \<and> rl_printer l' = rl_printer l"
  using assms
proof (induction arbitrary: l rule: emits_all.induct)
  case (all_end s t)
  then show ?case by (intro exI [of _ "Suc 0"] exI [of _ l]) simp
next
  case (all_run s es t rest)
  obtain l1 where l1: "read_run pr pkt True es l = (Ok (), l1)" "rl_count l1 = rl_count l + of_nat (length es)" "rl_printer l1 = rl_printer l"
    using read_run_quiet by blast
  obtain n l' where "read_gen n gen pr pkt True t l1 = (Ok (), l')" "rl_count l' = rl_count l1 + of_nat (length rest)" "rl_printer l' = rl_printer l1"
    using all_run.IH by blast
  moreover from this have "read_gen (Suc n) gen pr pkt True s l = (Ok (), l')"
    using all_run.hyps(1,2) l1(1) by (cases es) (simp_all add: thenc_def bindc_def)
  ultimately show ?case using l1 by (intro exI [of _ "Suc n"] exI [of _ l']) simp
qed

text \<open>Until 2037 \<open>c_gmtime\<close> is the number of seconds since the epoch.\<close>

lemma cdiv_nonneg: "0 \<le> a \<Longrightarrow> 0 < b \<Longrightarrow> cdiv a b = a div b"
  by (cases "a = 0") (simp_all add: cdiv_def)

lemma sum_i32_Cons:
  assumes "- (2 ^ 31) \<le> x" "x < 2 ^ 31" "- (2 ^ 31) \<le> acc + x" "acc + x < 2 ^ 31"
  shows "sum_i32 acc (x # xs) = sum_i32 (acc + x) xs"
  using assms by (simp add: i32_def)

lemma sum_i32_nonneg:
  assumes "0 \<le> acc" "list_all (\<lambda>x. 0 \<le> x) xs" "acc + sum_list xs < 2 ^ 31"
  shows "sum_i32 acc xs = Ok (acc + sum_list xs)"
  using assms
proof (induction xs arbitrary: acc)
  case (Cons x xs)
  have "0 \<le> sum_list xs" using Cons.prems(2) by (intro sum_list_nonneg) (simp add: list_all_iff)
  then have "sum_i32 acc (x # xs) = sum_i32 (acc + x) xs" using Cons.prems by (intro sum_i32_Cons) simp_all
  then show ?case using Cons.IH [of "acc + x"] Cons.prems by (simp add: add.assoc)
qed simp

lemma leap_terms:
  assumes "1970 \<le> y" "y \<le> 2037"
  shows "cdiv (y - 1969) 4 = (y - 1969) div 4" "cdiv (y - 1901) 100 = (y - 1901) div 100" "cdiv (y - 1601) 400 = (y - 1601) div 400"
    "0 \<le> (y - 1969) div 4" "(y - 1969) div 4 \<le> 17" "0 \<le> (y - 1901) div 100" "(y - 1901) div 100 \<le> 1"
    "0 \<le> (y - 1601) div 400" "(y - 1601) div 400 \<le> 1"
proof -
  show "cdiv (y - 1969) 4 = (y - 1969) div 4" "cdiv (y - 1901) 100 = (y - 1901) div 100" "cdiv (y - 1601) 400 = (y - 1601) div 400"
    using assms by (simp_all add: cdiv_nonneg)
  show "0 \<le> (y - 1969) div 4" "0 \<le> (y - 1901) div 100" "0 \<le> (y - 1601) div 400" using assms by simp_all
  show "(y - 1969) div 4 \<le> 17" using assms zdiv_mono1 [of "y - 1969" 68 4] by simp
  show "(y - 1901) div 100 \<le> 1" using assms zdiv_mono1 [of "y - 1901" 136 100] by simp
  show "(y - 1601) div 400 \<le> 1" using assms zdiv_mono1 [of "y - 1601" 436 400] by simp
qed

lemma c_gmtime_seconds:
  assumes "1970 \<le> tm_year tm" "tm_year tm \<le> 2037" "0 \<le> tm_yday tm" "tm_yday tm \<le> 365"
    "tm_hour tm < 24" "tm_min tm < 60" "tm_sec tm \<le> 60"
  shows "c_gmtime tm = Ok (86400 * (year_start (tm_year tm) + tm_yday tm) + 3600 * int (tm_hour tm) + 60 * int (tm_min tm) + int (tm_sec tm))"
proof -
  define y where "y = tm_year tm"
  define a b c where "a = (y - 1969) div 4" and "b = (y - 1901) div 100" and "c = (y - 1601) div 400"
  have y: "1970 \<le> y" "y \<le> 2037" using assms(1,2) by (simp_all add: y_def)
  note bounds = leap_terms(4-9) [OF y, folded a_def b_def c_def]
  let ?up = "[int (tm_min tm) * 60, int (tm_hour tm) * 3600, tm_yday tm * 86400, (y - 1970) * 31536000, a * 86400]"
  let ?s = "int (tm_sec tm) + sum_list ?up"
  have small: "0 \<le> ?s" "?s + 86400 < 2 ^ 31" using assms(3-7) y bounds by simp_all
  have split: "sum_i32 acc (xs @ ys) = bindr (sum_i32 acc xs) (\<lambda>acc. sum_i32 acc ys)" for acc xs ys
    by (induction xs arbitrary: acc) (simp_all add: i32_def)
  have terms: "y - 1900 - 70 = y - 1970" "y - 1900 - 69 = y - 1969" "y - 1900 - 1 = y - 1901" "y - 1900 + 299 = y - 1601"
    by simp_all
  have "c_gmtime tm = sum_i32 (int (tm_sec tm)) (?up @ [- (b * 86400), c * 86400])"
    unfolding c_gmtime_def Let_def y_def [symmetric] terms leap_terms(1-3) [OF y] a_def b_def c_def by simp
  also have "\<dots> = sum_i32 ?s [- (b * 86400), c * 86400]"
    unfolding split using sum_i32_nonneg [of "int (tm_sec tm)" ?up] assms(3) y bounds small by simp
  also have "\<dots> = Ok (?s - b * 86400 + c * 86400)"
    using small bounds by (simp add: i32_def)
  finally show ?thesis
    unfolding year_start_def y_def [symmetric] a_def [symmetric] b_def [symmetric] c_def [symmetric] by simp
qed

end
