(* ===== verification/Date_Theorems.thy ===== *)
theory Date_Theorems
  imports Cli
begin

text \<open>
  Timestamps that are printed can be given to the options \<open>-b\<close> and \<open>-e\<close>: the parser of the
  command line reads the formats of the printer.
\<close>

section \<open>Numbers\<close>

lemma is_digit_digit: "d < 10 \<Longrightarrow> is_digit (digit d)"
  by (simp add: is_digit_def of_char_digit)

lemma not_digit [simp]: "\<not> is_digit CHR '':''" "\<not> is_digit CHR ''-''" "\<not> is_digit CHR '' ''" "\<not> is_digit CHR ''.''"
  by (simp_all add: is_digit_def)

lemma dec_digits: "list_all is_digit (dec n)"
proof (induction n rule: less_induct)
  case (less n)
  have "n mod 10 < 10" by simp
  then show ?case using less by (simp add: nat_digits.simps [of 10 n] is_digit_digit)
qed

lemma dec_length: "n < 10 ^ k \<Longrightarrow> 0 < k \<Longrightarrow> length (dec n) \<le> k"
proof (induction k arbitrary: n)
  case (Suc k)
  show ?case
  proof (cases "n < 10")
    case True
    then show ?thesis by (simp add: nat_digits.simps [of 10 n])
  next
    case False
    have "n div 10 < 10 ^ k" using Suc.prems(1) by (simp add: less_mult_imp_div_less mult.commute)
    moreover have "0 < k" using False Suc.prems(1) by (cases k) simp_all
    ultimately show ?thesis using Suc.IH False by (simp add: nat_digits.simps [of 10 n])
  qed
qed simp

text \<open>\<open>fixed w n s\<close>: the text \<open>s\<close> is the number \<open>n\<close> in \<open>w\<close> digits.\<close>

definition fixed :: "nat \<Rightarrow> nat \<Rightarrow> string \<Rightarrow> bool" where
  "fixed w n s \<longleftrightarrow> length s = w \<and> list_all is_digit s \<and> digits_val 10 s = n"

lemma digits_val_zeros: "digits_val 10 (replicate k CHR ''0'' @ s) = digits_val 10 s"
  by (induction k) (simp_all add: digits_val_def digit_0)

lemma fixed_dec: "fixed (length (dec n)) n (dec n)"
  using dec_digits [of n] digits_val_nat [of 10 n] by (simp add: fixed_def)

lemma fixed_pad0:
  assumes "n < 10 ^ w" "0 < w"
  shows "fixed w n (pad0 w (dec n))"
proof -
  have "list_all is_digit (replicate k CHR ''0'')" for k using is_digit_digit [of 0] by (simp add: digit_0 list_all_iff)
  then show ?thesis
    using dec_length [OF assms] dec_digits [of n] digits_val_nat [of 10 n]
    by (simp add: fixed_def pad0_def digits_val_zeros)
qed

lemma dec_wide: "10 ^ k \<le> n \<Longrightarrow> k < length (dec n)"
proof (induction k arbitrary: n)
  case (Suc k)
  then have "10 ^ k \<le> n div 10" by (simp add: less_eq_div_iff_mult_less_eq mult.commute)
  moreover have "10 \<le> n" using Suc.prems by (simp add: order_trans [of 10 "10 * 10 ^ k"])
  ultimately show ?case using Suc.IH by (simp add: nat_digits.simps [of 10 n])
qed (simp add: text_nat_dec)

lemma strtobound_fixed:
  assumes "fixed w n s" "r = [] \<or> \<not> is_digit (hd r)" "lower \<le> int n" "int n \<le> upper" "n < 2 ^ 63"
  shows "strtoboundi64 (s @ r) lower upper = Ok (int n)"
proof -
  have "takeWhile is_digit (s @ r) = s"
    using assms(1,2) by (cases r) (auto simp: fixed_def list_all_iff takeWhile_append)
  then show ?thesis using assms by (simp add: strtoboundi64_def fixed_def)
qed

lemma digs_fixed: "fixed w n s \<Longrightarrow> digs w (s @ r) = Some r"
  by (simp add: digs_def fixed_def)

section \<open>Dates\<close>

text \<open>A full timestamp, with all the parts of a fixed width.\<close>

lemma match_text:
  assumes parts: "fixed 4 y Y" "fixed 2 mo M" "fixed 2 da D" "fixed 2 h H" "fixed 2 mi I" "fixed 2 se S" "fixed 9 na N"
  shows "match_yyyymmddhhiiss (Y @ ''-'' @ M @ ''-'' @ D @ '' '' @ H @ '':'' @ I @ '':'' @ S @ ''.'' @ N) =
   Some (Y @ ''-'' @ M @ ''-'' @ D @ '' '' @ H @ '':'' @ I @ '':'' @ S @ ''.'' @ N,
     M @ ''-'' @ D @ '' '' @ H @ '':'' @ I @ '':'' @ S @ ''.'' @ N, D @ '' '' @ H @ '':'' @ I @ '':'' @ S @ ''.'' @ N,
     H @ '':'' @ I @ '':'' @ S @ ''.'' @ N, I @ '':'' @ S @ ''.'' @ N, Some (S @ ''.'' @ N), Some N)"
proof -
  note d = parts [THEN digs_fixed]
  have "N \<noteq> []" "length N \<le> 9" "list_all is_digit N" using parts(7) by (auto simp: fixed_def)
  then have "match_ss_nano ('':'' @ S @ ''.'' @ N) = Some (Some (S @ ''.'' @ N), Some N)"
    by (simp add: match_ss_nano_def lit_def d)
  then have "match_hhiiss (H @ '':'' @ I @ '':'' @ S @ ''.'' @ N) =
      Some (H @ '':'' @ I @ '':'' @ S @ ''.'' @ N, I @ '':'' @ S @ ''.'' @ N, Some (S @ ''.'' @ N), Some N)"
    by (simp add: match_hhiiss_def lit_def d)
  then show ?thesis by (simp add: match_yyyymmddhhiiss_def lit_def d)
qed

lemma parse_text:
  assumes parts: "fixed 4 y Y" "fixed 2 mo M" "fixed 2 da D" "fixed 2 h H" "fixed 2 mi I" "fixed 2 se S" "fixed 9 na N"
    and b: "1 \<le> mo" "mo \<le> 12" "1 \<le> da" "da \<le> 31" "h \<le> 23" "mi \<le> 59" "se \<le> 60" "y < 2 ^ 63" "na < 2 ^ 63"
  shows "parse_tstamp_ns True mktime (Y @ ''-'' @ M @ ''-'' @ D @ '' '' @ H @ '':'' @ I @ '':'' @ S @ ''.'' @ N) True =
    bindr (c_gmtime \<lparr>tm_year = int y, tm_mon = mo, tm_mday = da, tm_hour = h, tm_min = mi, tm_sec = se\<rparr>) (\<lambda>epoch_sec.
      if epoch_sec = - 1 then Err ACTF_ERROR else bindr (to_ns epoch_sec (int na)) (\<lambda>ns. Ok (ns, True)))"
proof -
  have "strtoboundi64 (Y @ ''-'' @ r) 0 I64_MAX = Ok (int y)" for r using b(8) by (intro strtobound_fixed [OF parts(1)]) simp_all
  moreover have "strtoboundi64 (M @ ''-'' @ r) 1 12 = Ok (int mo)" for r using b(1,2) by (intro strtobound_fixed [OF parts(2)]) simp_all
  moreover have "strtoboundi64 (D @ '' '' @ r) 1 31 = Ok (int da)" for r using b(3,4) by (intro strtobound_fixed [OF parts(3)]) simp_all
  moreover have "strtoboundi64 (H @ '':'' @ r) 0 23 = Ok (int h)" for r using b(5) by (intro strtobound_fixed [OF parts(4)]) simp_all
  moreover have "strtoboundi64 (I @ '':'' @ r) 0 59 = Ok (int mi)" for r using b(6) by (intro strtobound_fixed [OF parts(5)]) simp_all
  moreover have "strtoboundi64 (S @ ''.'' @ r) 0 60 = Ok (int se)" for r using b(7) by (intro strtobound_fixed [OF parts(6)]) simp_all
  moreover have "strtoboundi64 N 0 I64_MAX = Ok (int na)" using strtobound_fixed [OF parts(7), of "[]" 0 I64_MAX] b(9) by simp
  ultimately show ?thesis
    by (simp only: parse_tstamp_ns_def match_text [OF parts] date_tstamp_def opt_bound_def option.case prod.case bindr_def res.case Let_def nat_int if_True if_False not_True_eq_False)
qed

lemma is_leap_year_leap: "is_leap_year y = leap y"
  by (simp add: is_leap_year_def leap_def dvd_eq_mod_eq_0)

lemma tm_yday_month: "1 \<le> tm_mon tm \<Longrightarrow> tm_yday tm = month_start (leap (tm_year tm)) (tm_mon tm) + int (tm_mday tm) - 1"
  by (simp add: tm_yday_def month_start_def days_to_month_def is_leap_year_leap)

text \<open>\<open>c_gmtime\<close> is the inverse of \<open>gmtime\<close> until the end of 2037.\<close>

lemma c_gmtime_gmtime:
  assumes "0 \<le> t" "t < 2145916800"
  shows "c_gmtime (gmtime t) = Ok t" "1970 \<le> tm_year (gmtime t)" "tm_year (gmtime t) \<le> 2037"
proof -
  let ?tm = "gmtime t"
  have y: "tm_year ?tm = year_of (t div 86400)" by (simp add: gmtime_def Let_def)
  have "year_start 1970 \<le> t div 86400" "t div 86400 < year_start 2038"
    using assms by (simp_all add: year_start_def div_less_iff_less_mult)
  from year_of_bounds [OF this] show r: "1970 \<le> tm_year ?tm" "tm_year ?tm \<le> 2037" by (simp_all add: y)
  note d = gmtime_date [of t] and c = gmtime_time [of t]
  have yd: "tm_yday ?tm = t div 86400 - year_start (tm_year ?tm)" using d(5) tm_yday_month [OF d(1)] by linarith
  have "0 \<le> tm_yday ?tm" "tm_yday ?tm \<le> 365"
    using year_of_day [of "t div 86400"] year_start_next [of "tm_year ?tm"] unfolding yd y by (simp_all split: if_splits)
  from c_gmtime_seconds [OF r this] c
  have "c_gmtime ?tm = Ok (86400 * (year_start (tm_year ?tm) + tm_yday ?tm) + (3600 * int (tm_hour ?tm) + 60 * int (tm_min ?tm) + int (tm_sec ?tm)))"
    by (simp add: add.assoc)
  also have "\<dots> = Ok t" unfolding c(4) yd by simp
  finally show "c_gmtime ?tm = Ok t" .
qed

text \<open>
  C39. A timestamp that is printed with the date in UTC is read back by the parser of the command
  line, to the nanosecond, for every time from 1970 to the end of 2037: given to \<open>-b\<close> or \<open>-e\<close> with
  \<open>-g\<close>, the text between the brackets denotes the same timestamp.
\<close>

theorem printed_date_parses_back:
  assumes "0 \<le> sint ts" "sint ts < 2145916800 * 10 ^ 9"
    and "ACTF_PRINT_TSTAMP_UTC \<in> flags" "ACTF_PRINT_TSTAMP_DATE \<in> flags" "ACTF_PRINT_TSTAMP_SEC \<notin> flags"
  shows "\<exists>s. fprint_tstamp_ns localtime ts flags = Ok (''['' @ s @ ''] '') \<and>
    parse_tstamp_ns True mktime s True = Ok (sint ts, True)"
proof -
  define sec nsec where "sec = sint ts div 1000000000" and "nsec = sint ts mod 1000000000"
  have b: "0 \<le> sec" "sec < 2145916800" "0 \<le> nsec" "nsec < 10 ^ 9" "sec * 1000000000 + nsec = sint ts"
    using assms(1,2) by (simp_all add: sec_def nsec_def div_less_iff_less_mult)
  let ?tm = "gmtime sec"
  note g = c_gmtime_gmtime [OF b(1,2)] and d = gmtime_date [of sec] and c = gmtime_time [of sec]
  define y where "y = nat (tm_year ?tm)"
  have y: "int y = tm_year ?tm" "y < 10 ^ 4" "10 ^ 3 \<le> y" using g(2,3) by (auto simp: y_def)
  have Y: "length (dec y) = 4" using dec_length [OF y(2)] dec_wide [OF y(3)] by simp
  define N where "N = pad0 9 (dec (nat nsec))"
  let ?p2 = "\<lambda>n. pad0 2 (dec n)"
  let ?s = "dec y @ ''-'' @ ?p2 (tm_mon ?tm) @ ''-'' @ ?p2 (tm_mday ?tm) @ '' '' @ ?p2 (tm_hour ?tm) @ '':'' @ ?p2 (tm_min ?tm) @
    '':'' @ ?p2 (tm_sec ?tm) @ ''.'' @ N"
  have two: "fixed 2 n (?p2 n)" if "n < 100" for n using fixed_pad0 [of n 2] that by simp
  have parts: "fixed 4 y (dec y)" "fixed 2 (tm_mon ?tm) (?p2 (tm_mon ?tm))" "fixed 2 (tm_mday ?tm) (?p2 (tm_mday ?tm))"
    "fixed 2 (tm_hour ?tm) (?p2 (tm_hour ?tm))" "fixed 2 (tm_min ?tm) (?p2 (tm_min ?tm))" "fixed 2 (tm_sec ?tm) (?p2 (tm_sec ?tm))"
    "fixed 9 (nat nsec) N"
    using fixed_dec [of y] Y two d(2,4) c(1-3) fixed_pad0 [of "nat nsec" 9] b(4) by (auto simp: N_def)
  have "?tm = \<lparr>tm_year = int y, tm_mon = tm_mon ?tm, tm_mday = tm_mday ?tm, tm_hour = tm_hour ?tm, tm_min = tm_min ?tm, tm_sec = tm_sec ?tm\<rparr>"
    by (simp add: y(1))
  moreover have "to_ns sec (int (nat nsec)) = Ok (sint ts)"
    using b assms(1) sint_less [of ts] by (simp add: to_ns_def i64_def in_i64_def)
  ultimately have parsed: "parse_tstamp_ns True mktime ?s True = Ok (sint ts, True)"
    using parse_text [OF parts, of mktime] d(1-4) c(1-3) y(2) b(1,4) g(1) by simp
  have year: "fmt_i (tm_year ?tm) = dec y" using g(2) by (simp add: fmt_i_def y_def)
  have len: "length (fmt_ymdhms ?tm) < 22" using parts unfolding fmt_ymdhms_def fmt_hms_def year by (simp add: fixed_def)
  have sec: "cdiv (sint ts) 1000000000 = sec" "sint ts - sec * 1000000000 = nsec" "\<not> nsec < 0"
    using assms(1) b(3,5) by (simp_all add: cdiv_nonneg sec_def)
  have "fprint_tstamp_ns localtime ts flags = Ok (''['' @ fmt_ymdhms ?tm @ ''.'' @ fmt_0i 9 nsec @ ''] '')"
    using assms(3-5) len sec by (simp add: fprint_tstamp_ns_def Let_def strftime_def)
  also have "fmt_ymdhms ?tm @ ''.'' @ fmt_0i 9 nsec @ ''] '' = ?s @ ''] ''"
    using b(3) by (simp add: fmt_ymdhms_def fmt_hms_def year fmt_0i_def N_def)
  finally show ?thesis using parsed by blast
qed

theorem printed_date_parses_back_witness:
  "\<exists>s. fprint_tstamp_ns gmtime 1709164800000000007 {ACTF_PRINT_TSTAMP_UTC, ACTF_PRINT_TSTAMP_DATE} = Ok (''['' @ s @ ''] '') \<and>
    parse_tstamp_ns True (\<lambda>tm. (0, False)) s True = Ok (1709164800000000007, True)"
proof -
  have "sint (1709164800000000007 :: i64) = 1709164800000000007" by code_simp
  then show ?thesis
    using printed_date_parses_back [of 1709164800000000007 "{ACTF_PRINT_TSTAMP_UTC, ACTF_PRINT_TSTAMP_DATE}" gmtime "\<lambda>tm. (0, False)"] by simp
qed

section \<open>Seconds\<close>

lemma digs_Some: "digs n s = Some r \<Longrightarrow> r = drop n s"
  by (simp add: digs_def split: if_splits)

lemma lit_None: "c \<notin> set s \<Longrightarrow> lit c s = None"
  by (cases s) (auto simp: lit_def)

text \<open>A text without colons, and with a minus sign at most in front, is no date and no time of day.\<close>

lemma no_date:
  assumes "CHR '':'' \<notin> set s" "CHR ''-'' \<notin> set (drop 1 s)"
  shows "match_yyyymmddhhiiss s = None" "match_hhiiss s = None"
proof -
  have "CHR ''-'' \<notin> set (drop 4 s)" using assms(2) set_drop_subset [of 3 "drop 1 s"] by auto
  then have "lit CHR ''-'' (drop 4 s) = None" by (rule lit_None)
  then show "match_yyyymmddhhiiss s = None"
    by (cases "digs 4 s") (auto simp: match_yyyymmddhhiiss_def dest!: digs_Some)
  have "lit CHR '':'' (drop 2 s) = None" using assms(1) by (intro lit_None) (auto dest: in_set_dropD)
  then show "match_hhiiss s = None" by (cases "digs 2 s") (auto simp: match_hhiiss_def dest!: digs_Some)
qed

lemma match_seconds:
  assumes "fixed w q Q" "Q \<noteq> []" "fixed 9 n N"
  shows "match_sec ((if neg then ''-'' else []) @ Q @ ''.'' @ N) = Some (neg, Q @ ''.'' @ N, Some N)"
proof -
  obtain c Q' where c: "Q = c # Q'" using assms(2) by (cases Q) auto
  have q: "list_all is_digit Q" "list_all is_digit N" "N \<noteq> []" using assms(1,3) by (auto simp: fixed_def)
  then have h: "is_digit c" "is_digit (hd N)" by (auto simp: list_all_iff c)
  then have ne: "c \<noteq> CHR ''-''" by auto
  have "dropWhile is_digit (Q' @ ''.'' @ N) = ''.'' @ N" using q(1) by (simp add: dropWhile_append list_all_iff c)
  then show ?thesis using h q(3) ne unfolding c by (cases neg) (simp_all add: match_sec_def Let_def lit_def)
qed

lemma digits_val_less: "list_all is_digit s \<Longrightarrow> digits_val 10 s < 10 ^ length s"
proof (induction s rule: rev_induct)
  case (snoc c s)
  then have "digit_val c < 10" by (auto simp: is_digit_def digit_val_def)
  then show ?case using snoc by (simp add: digits_val_append)
qed (simp add: digits_val_def)

lemma parse_seconds:
  assumes Q: "fixed w q Q" "Q \<noteq> []" "q < 2 ^ 63" and N: "fixed 9 n N"
  shows "parse_tstamp_ns True mktime ((if neg then ''-'' else []) @ Q @ ''.'' @ N) utc =
    bindr (to_ns (int q) (int n)) (\<lambda>ns. Ok (if neg then - ns else ns, True))"
proof -
  have digits: "\<not> is_digit c \<Longrightarrow> c \<notin> set Q \<and> c \<notin> set N" for c using Q(1) N by (auto simp: fixed_def list_all_iff)
  let ?s = "(if neg then ''-'' else []) @ Q @ ''.'' @ N"
  have "CHR '':'' \<notin> set ?s" "CHR ''-'' \<notin> set (drop 1 ?s)"
    using digits [of "CHR '':''"] digits [of "CHR ''-''"] Q(2) by (cases Q; auto)+
  note no = no_date [OF this]
  have "n < 10 ^ 9" using digits_val_less [of N] N by (auto simp: fixed_def)
  then have "strtoboundi64 N 0 I64_MAX = Ok (int n)" using strtobound_fixed [OF N, of "[]" 0 I64_MAX] by simp
  moreover have "strtoboundi64 (Q @ ''.'' @ N) 0 I64_MAX = Ok (int q)" using Q(3) by (intro strtobound_fixed [OF Q(1)]) simp_all
  ultimately show ?thesis
    by (simp only: parse_tstamp_ns_def no match_seconds [OF Q(1,2) N] sec_tstamp_def opt_bound_def option.case prod.case
      bindr_simps not_True_eq_False if_False)
qed

text \<open>
  C40. A timestamp that is printed in seconds and nanoseconds is read back by the parser of the
  command line as the same timestamp, with two exceptions. The sign of a timestamp
  between minus one second and zero is lost, because the printer prints it with the seconds, which
  are zero; it is read back without its sign. The least timestamp is undefined for the parser,
  which computes its magnitude.
\<close>

theorem printed_seconds_parse_back:
  assumes "ACTF_PRINT_TSTAMP_SEC \<in> flags"
  shows "\<exists>s. fprint_tstamp_ns localtime ts flags = Ok (''['' @ s @ ''] '') \<and>
    parse_tstamp_ns True mktime s utc =
      (if ts = INT64_MIN then Undef
       else if - (10 ^ 9) < sint ts \<and> sint ts < 0 then Ok (- sint ts, True)
       else Ok (sint ts, True))"
proof -
  define m q n where "m = nat \<bar>sint ts\<bar>" and "q = m div 1000000000" and "n = m mod 1000000000"
  define neg where "neg \<longleftrightarrow> sint ts < 0 \<and> 0 < q"
  have "q * 1000000000 + n = m" by (simp add: q_def n_def)
  then have "int (q * 1000000000 + n) = int m" by (simp only:)
  then have m: "int m = \<bar>sint ts\<bar>" "int q * 1000000000 + int n = int m" "n < 1000000000"
    by (simp_all add: m_def n_def)
  have r: "- (2 ^ 63) \<le> sint ts" "sint ts < 2 ^ 63" using sint_greater_eq [of ts] sint_less [of ts] by simp_all
  have "sint INT64_MIN = - (2 ^ 63)" by code_simp
  then have least: "ts = INT64_MIN \<longleftrightarrow> sint ts = - (2 ^ 63)" by (metis signed_word_eqI)
  have sec: "cdiv (sint ts) 1000000000 = sgn (sint ts) * int q" by (simp add: cdiv_def q_def m_def zdiv_int)
  have nsec: "nat \<bar>sint ts - sgn (sint ts) * int q * 1000000000\<bar> = n"
    using m(1,2) by (cases "sint ts" "0 :: int" rule: linorder_cases) simp_all
  have shown: "fmt_i (sgn (sint ts) * int q) = (if neg then ''-'' else []) @ dec q"
    by (cases "sint ts" "0 :: int" rule: linorder_cases) (auto simp: fmt_i_def neg_def q_def m_def)
  have Q: "fixed (length (dec q)) q (dec q)" "dec q \<noteq> []" "q < 2 ^ 63" and N: "fixed 9 n (pad0 9 (dec n))"
    using fixed_dec text_nat_dec m r fixed_pad0 [of n 9] by auto
  have "fprint_tstamp_ns localtime ts flags = Ok (''['' @ ((if neg then ''-'' else []) @ dec q @ ''.'' @ pad0 9 (dec n)) @ ''] '')"
    using assms nsec unfolding fprint_tstamp_ns_def sec by (simp add: Let_def shown)
  moreover have "to_ns (int q) (int n) = (if int m < 2 ^ 63 then Ok (int m) else Undef)"
    using m r by (auto simp: to_ns_def i64_def in_i64_def)
  then have "parse_tstamp_ns True mktime ((if neg then ''-'' else []) @ dec q @ ''.'' @ pad0 9 (dec n)) utc =
      (if ts = INT64_MIN then Undef
       else if - (10 ^ 9) < sint ts \<and> sint ts < 0 then Ok (- sint ts, True)
       else Ok (sint ts, True))"
    unfolding parse_seconds [OF Q N] least using m r by (auto simp: neg_def)
  ultimately show ?thesis by blast
qed

theorem printed_seconds_parse_back_witness:
  "\<exists>s. fprint_tstamp_ns gmtime (- 7000000001) {ACTF_PRINT_TSTAMP_SEC} = Ok (''['' @ s @ ''] '') \<and>
    parse_tstamp_ns True (\<lambda>tm. (0, False)) s False = Ok (- 7000000001, True)"
proof -
  have "sint (- 7000000001 :: i64) = - 7000000001" "(- 7000000001 :: i64) \<noteq> INT64_MIN" by code_simp+
  then show ?thesis
    using printed_seconds_parse_back [of "{ACTF_PRINT_TSTAMP_SEC}" gmtime "- 7000000001" "\<lambda>tm. (0, False)" False] by simp
qed

end
