(* ===== verification/Spec2Isabelle.thy ===== *)
theory Spec2Isabelle
  imports Reader_Theorems Value_Theorems Data_Theorems Stream_Theorems Decoder_Seek Metadata_Theorems Parse_Theorems Mappings_Theorems Freader_Theorems Print_Theorems Date_Theorems Example_Trace
begin

text \<open>
  Verification of ACTF, a library and command line tool in C that decodes Common Trace Format 2
  (CTF 2) traces. This theory holds the properties of the decoder; the other properties are in the
  theories whose names end in \<open>_Theorems\<close>.

  \<^bold>\<open>The program.\<close> A trace is a folder with a metadata file and data stream files. freader.c reads the
  metadata file, a sequence of JSON fragments, bare or in packets; metadata.c, fld_cls.c,
  json_utils.c and ctfjson.c turn it into classes of clocks, data streams, event records and
  fields. For each data stream file decoder.c decodes packets and events with the help of the bit
  reader of breader.c. A decoder is an event generator; muxer.c merges several generators by time
  with the priority queue of prio_queue.h, filter.c cuts a generator to a range of time, and
  print.c and actf.c print the events. The containers are a hash map (crust/map.h), range sets
  (rng.c) and a red-black interval tree (crust/rb_tree.c, crust/ival.h) under the named ranges of
  mappings.c.

  \<^bold>\<open>Conventions.\<close> A C function is a function of its state and arguments that returns a result of
  type \<^typ>\<open>'a res\<close>: a value, an error code, \<^const>\<open>Undef\<close> for undefined behaviour and failed
  assertions, and \<^const>\<open>Loop\<close> where a bound on the number of rounds is used up. Stateful code is
  written in the state monad of \<open>Prelude\<close>. Integers are words of their width; signed overflow is
  undefined, unsigned arithmetic wraps. Structures are records, unions and enumerations datatypes,
  sets of ORed flags sets. Pointers are indices into the list that holds the object. Allocation
  can fail where the code handles it: the failing allocations are a parameter.

  \<^bold>\<open>Theories, from the bottom up.\<close>

  \<^item> \<open>Prelude\<close>, \<open>Types\<close>, \<open>Common\<close>: vocabulary, types.h, the byte swaps of crust/common.h.

  \<^item> \<open>Breader\<close> is breader.c. \<open>Bit_Reader\<close> states its contract as locales, a bit source whose
  position is known and a bit reader whose values are known too; \<open>Breader_Spec\<close> proves that every
  operation moves a cursor over the bits of the data, \<open>Reader_Theorems\<close> that any sequence of
  operations does. \<open>Bit_Fields\<close> has the bit routines of decoder.c and the locale \<open>wide_reader\<close>
  for reads of up to 64 bits.

  \<^item> \<open>Rng\<close> (rng.c), \<open>Hash_Map\<close> and \<open>Hash_Map_Spec\<close> (crust/map.h, refinement of a finite map),
  \<open>Prio_Queue\<close> (prio_queue.h, the locale \<open>min_queue\<close>), \<open>Data_Theorems\<close>.

  \<^item> \<open>Rb_Tree\<close>, \<open>Ptr_Tree\<close>, \<open>Rb_Insert\<close>, \<open>Ival\<close>, \<open>Ival_Inv\<close>, \<open>Ival_Insert\<close>, \<open>Ival_Search\<close>: the
  tree with parent pointers in memory cells, its shape, the red-black rules, the maxima, insertion
  and search; \<open>Scan\<close>, \<open>Mappings\<close>, \<open>Mappings_Spec\<close>, \<open>Mappings_Theorems\<close>: mappings.c and flags.c,
  and that lookups in the tree agree with a scan of all mappings.

  \<^item> \<open>Fld_Cls\<close>, \<open>Fld\<close>, \<open>Metadata\<close>, \<open>Pkt\<close>: field classes and locations, fields, metadata classes,
  clocks and role checks, packets and events (fld_cls.c, fld_loc.c, fld.c, metadata.c, pkt.c,
  event.c).

  \<^item> \<open>Json_Utils\<close>, \<open>Ctf_Json\<close>, \<open>Fld_Cls_Parse\<close>, \<open>Metadata_Parse\<close>: the parsers, over an arbitrary
  JSON library; \<open>Fld_Cls_Wf\<close>, \<open>Metadata_Inv\<close>: what they accept is well-formed; \<open>Json_Values\<close>: an
  instance of the JSON library; \<open>Metadata_Theorems\<close>, \<open>Parse_Theorems\<close>.

  \<^item> \<open>Decoder\<close>, \<open>Decoder_Cls\<close>, \<open>Decoder_Api\<close>: decoder.c, fields, compound classes and the interface.
  \<open>Decoder_Safety\<close> carries an invariant through all of it (locale \<open>decoder_invariant\<close>),
  \<open>Decoder_Fields\<close>, \<open>Var_Len\<close>, \<open>Clock\<close> and \<open>Decoder_Seek\<close> give the meaning of fixed-length and
  variable-length fields, of clock updates and of the seek; \<open>Value_Theorems\<close>; \<open>Example_Trace\<close>, a
  trace on which the theorems are applied.

  \<^item> \<open>Event_Generator\<close>, \<open>Muxer\<close>, \<open>Time_Filter\<close>, \<open>Pipeline\<close>, \<open>Stream_Theorems\<close>: generators as
  streams of events, the merge, the cut, and their composition. \<open>Freader\<close>, \<open>Freader_Theorems\<close>:
  from folders to events.

  \<^item> \<open>Calendar\<close>, \<open>Print_Int\<close>, \<open>Printer\<close>, \<open>Print_Theorems\<close>: dates, the output of integers, fields and
  events. \<open>Cli\<close>, \<open>Date_Theorems\<close>: actf.c, and that it reads the timestamps that are printed.

  \<^bold>\<open>What is shown.\<close> Fields: the bits, integers and LEB128 numbers that are decoded are those of the
  stream, with every error on its condition; the excluded case, a byte order that changes within a
  byte, is named in each statement. The decoder: it stays within the data, within the event array,
  defers errors, and a seek passes over nothing late. Clocks: updates never run backwards,
  conversions are exact where they do not overflow. Streams: merge and cut return exactly the right
  events in order. Metadata: parsed classes and metadata satisfy the invariant that the decoder
  relies on, whatever the input. Containers: they refine their abstract counterparts. Text: integers
  and timestamps that are printed read back.

  \<^bold>\<open>Bounds.\<close> \<open>d_depth\<close> bounds the nesting of field locations, the fuel of the parsers the nesting
  of JSON values (a rank above it is enough, as proved for the conversion of values). Insertion and
  growth of the hash map call each other at most three levels deep (proved). The loops of a
  variable-length integer end within \<open>VAR_LEN_ROUNDS\<close> refills, because a shift of 64 or more is
  undefined. The walks in a tree take the number of its cells as fuel (proved to be enough), the
  loops over the results of a search one more than there are cells or flags. The fuel of the seek
  bounds packets and calls, that of the printer the nesting of fields and the pieces of a string,
  that of the reading loop the calls of the generator; what they return within it is what the code
  returns, and running out is \<^const>\<open>Loop\<close>.

  \<^bold>\<open>Parameters.\<close> json-c and its tokener, the operating system (folders, files and what reading and
  mapping them returns), \<open>malloc\<close>, \<open>iconv\<close>, \<open>mktime\<close> and \<open>localtime\<close>; \<open>getopt\<close> has already split
  the arguments.

  \<^bold>\<open>Not modelled.\<close> The text of error messages and the usage text; the release of memory; the region
  arena, the generic vectors and the linked list of crust, for which lists stand; attributes and
  extensions of classes, which are converted for their errors and not stored; simple accessors of
  metadata.c; printing of trees; the tests and examples.
\<close>

unbundle bit_operations_syntax

section \<open>Fields\<close>

text \<open>
  C1. Reading a fixed-length bit array, from any reader state at bit \<open>p\<close> in step with the stream:
  the field begins at the next multiple of its alignment (or at the end of the data); the read
  fails with \<open>ACTF_NOT_ENOUGH_BITS\<close> exactly when the packet content or the data end before the
  field does, with \<open>ACTF_MID_BYTE_ENDIAN_SWAP\<close> exactly when the field begins within a byte and the
  byte order is not that of the field before, and otherwise returns a value with the reader right
  behind the field. This holds in every case. The value is the one whose bits are the bits of the
  stream in the bit order of the class, and the reader stays in step with the stream, if the reader
  had the byte order of the class before or stood at a byte boundary. In the other case, a change
  of the byte order within a byte followed by an alignment, the code swaps the bytes of the
  lookahead before it aligns, and the value is not determined by this theorem.
\<close>

theorem bit_array_decodes_stream_bits:
  assumes "br_at dat bo p (d_br d)" "unat (ps_bit_off (pkt_s d)) \<le> p"
    and "0 < unat (ba_len cls)" "unat (ba_len cls) \<le> 64" "ba_align cls = 2 ^ k" "k < 64"
  shows "\<exists>r d' t. fxd_len_bit_arr_decode cls d = (r, d') \<and>
    has_outcome (bo = ba_bo cls \<or> 8 dvd p) (bit_arr_outcome cls dat (min (align_up (2 ^ k) p) (8 * length dat)) d) r \<and>
    br_rel (bo = ba_bo cls \<or> 8 dvd p) dat (ba_bo cls) t (d_br d') \<and> p \<le> t \<and>
    (\<forall>v. bit_arr_outcome cls dat (min (align_up (2 ^ k) p) (8 * length dat)) d = Ok v \<longrightarrow>
       t = min (align_up (2 ^ k) p) (8 * length dat) + unat (ba_len cls) \<and>
       pkt_s d' = set_last_bo cls (pkt_s d))"
proof -
  have "dec_at True dat bo p d" using assms(1,2) by (simp add: dec_at_def)
  from fxd_len_bit_arr_decode_outcome [OF this assms(3-)] show ?thesis unfolding dec_at_def simp_thms by blast
qed

text \<open>Four bits in little-endian order, and the attempt to read the other half of the byte in big-endian order.\<close>

definition ex_nibble :: "actf_byte_order \<Rightarrow> bit_arr_cls" where
  "ex_nibble bo = \<lparr>ba_len = 4, ba_bo = bo, ba_bito = (if bo = ACTF_LIL_ENDIAN then ACTF_FIRST_TO_LAST else ACTF_LAST_TO_FIRST), ba_align = 1\<rparr>"

lemma ex_nibble_view [simp]: "ba_len (ex_nibble bo) = 4" "ba_bo (ex_nibble bo) = bo" "ba_align (ex_nibble bo) = 1"
  by (simp_all add: ex_nibble_def)

theorem bit_array_decodes_stream_bits_witness:
  "\<exists>d1 d2. fxd_len_bit_arr_decode (ex_nibble ACTF_LIL_ENDIAN) (ex_decoder 1 [0x97]) = (Ok 7, d1) \<and>
    fxd_len_bit_arr_decode (ex_nibble ACTF_BIG_ENDIAN) d1 = (Err ACTF_MID_BYTE_ENDIAN_SWAP, d2)"
proof -
  let ?d = "ex_decoder 1 [0x97]" and ?le = "ex_nibble ACTF_LIL_ENDIAN" and ?be = "ex_nibble ACTF_BIG_ENDIAN"
  have "fld_bits ?le [0x97] 0 = 7" by code_simp
  then have o1: "bit_arr_outcome ?le [0x97] (min (align_up (2 ^ 0) 0) (8 * length [0x97 :: u8])) ?d = Ok 7"
    by (simp add: align_up_def bit_arr_outcome_def pkt_end_def)
  obtain d1 t where d1: "fxd_len_bit_arr_decode ?le ?d = (Ok 7, d1)" "br_at [0x97] ACTF_LIL_ENDIAN t (d_br d1)"
    "t = 4" "pkt_s d1 = set_last_bo ?le (pkt_s ?d)"
    using bit_array_decodes_stream_bits [of "[0x97]" ACTF_LIL_ENDIAN 0 ?d ?le 0] o1
    by (auto simp: br_at_init has_outcome_def align_up_def)
  have o2: "bit_arr_outcome ?be [0x97] (min (align_up (2 ^ 0) 4) (8 * length [0x97 :: u8])) d1 = Err ACTF_MID_BYTE_ENDIAN_SWAP"
    using d1(4) by (simp add: align_up_def bit_arr_outcome_def pkt_end_def set_last_bo_def)
  have at: "br_at [0x97] ACTF_LIL_ENDIAN 4 (d_br d1)" using d1(2,3) by simp
  have "unat (ps_bit_off (pkt_s d1)) \<le> 4" using d1(4) by (simp add: set_last_bo_def)
  from bit_array_decodes_stream_bits [OF at this, of ?be 0] o2
  obtain d2 where "fxd_len_bit_arr_decode ?be d1 = (Err ACTF_MID_BYTE_ENDIAN_SWAP, d2)"
    by (auto simp: has_outcome_def)
  then show ?thesis using d1(1) by blast
qed

text \<open>
  C8. Decoding an unsigned integer class stores the value of its bits, if the reader has the byte
  order of the class already or stands at a byte boundary, and the bits are there: the field gets
  the class, the type and the value, every other field keeps its contents, and the reader stands
  behind the integer. (A class whose byte order differs from that of the reader within a byte is
  excluded: the code swaps the lookahead before it aligns.)
\<close>

theorem uint_field_decoded:
  assumes "br_at dat bo p (d_br d)" "unat (ps_bit_off (pkt_s d)) \<le> p" "bo = ba_bo b \<or> 8 dvd p"
    and "0 < unat (ba_len b)" "unat (ba_len b) \<le> 64" "ba_align b = 2 ^ k" "k < 64"
    and "load_fld ptr d = Some f"
    and "bit_arr_outcome b dat (min (align_up (2 ^ k) p) (8 * length dat)) d = Ok v"
  shows "\<exists>d'. fld_cls_decode (ACTF_FLD_CLS_FXD_LEN_UINT i b r) ptr d = (Ok (), d') \<and>
    load_fld ptr d' = Some (f\<lparr>f_cls := Some (ACTF_FLD_CLS_FXD_LEN_UINT i b r),
      f_type := ACTF_FLD_TYPE_UINT, f_d := D_uint v 0\<rparr>) \<and>
    (\<forall>q. q \<noteq> ptr \<longrightarrow> load_fld q d' = load_fld q d) \<and>
    br_at dat (ba_bo b) (min (align_up (2 ^ k) p) (8 * length dat) + unat (ba_len b)) (d_br d')"
proof -
  have at: "dec_at True dat bo p d" using assms(1,2) by (simp add: dec_at_def)
  show ?thesis
    by (rule bit_arr_field_spec [OF at assms(3-), where fin = "\<lambda>v. set_val ptr ACTF_FLD_TYPE_UINT (D_uint v 0)"])
      (simp_all add: fld_cls_decode.simps fld_cls_fxd_len_uint_decode_def)
qed

theorem uint_field_decoded_witness:
  "\<exists>d'. fld_cls_decode (ACTF_FLD_CLS_FXD_LEN_UINT ex_int_cls ex_bits {}) (PktProp 0) (ex_decoder 1 [7, 9]) = (Ok (), d') \<and>
    load_fld (PktProp 1) d' = Some zero_fld"
proof -
  have v: "fld_bits ex_bits [7, 9] 0 = 7" by code_simp
  have l: "load_fld (PktProp i) (ex_decoder 1 [7, 9]) = Some zero_fld" if "i < 2" for i
    using that by (simp add: ex_decoder_def)
  have o: "bit_arr_outcome ex_bits [7, 9] (min (align_up (2 ^ 3) 0) (8 * length [7 :: u8, 9])) (ex_decoder 1 [7, 9]) = Ok 7"
    using v by (simp add: align_up_def bit_arr_outcome_def pkt_end_def)
  have n: "length [7 :: u8, 9] < 2 ^ 60" by simp
  have l0: "load_fld (PktProp 0) (ex_decoder 1 [7, 9]) = Some zero_fld" using l [of 0] by simp
  obtain d' where d': "fld_cls_decode (ACTF_FLD_CLS_FXD_LEN_UINT ex_int_cls ex_bits {}) (PktProp 0) (ex_decoder 1 [7, 9]) = (Ok (), d')"
    "\<forall>q. q \<noteq> PktProp 0 \<longrightarrow> load_fld q d' = load_fld q (ex_decoder 1 [7, 9])"
    using uint_field_decoded [where i = ex_int_cls and r = "{}", OF ex_ready [OF n] l0 o] by blast
  then have "load_fld (PktProp 1) d' = Some zero_fld" using l [of 1] by (simp del: load_fld.simps)
  then show ?thesis using d'(1) by blast
qed

text \<open>
  C9. Decoding a signed integer class stores the two's complement reading of its bits, if the
  reader has the byte order of the class already or stands at a byte boundary, and the bits are
  there. (The change of the byte order within a byte is excluded as for unsigned integers.)
\<close>

theorem sint_field_decoded:
  assumes "br_at dat bo p (d_br d)" "unat (ps_bit_off (pkt_s d)) \<le> p" "bo = ba_bo b \<or> 8 dvd p"
    and "0 < unat (ba_len b)" "unat (ba_len b) \<le> 64" "ba_align b = 2 ^ k" "k < 64"
    and "load_fld ptr d = Some f"
    and "bit_arr_outcome b dat (min (align_up (2 ^ k) p) (8 * length dat)) d = Ok v"
  shows "\<exists>d' g. fld_cls_decode (ACTF_FLD_CLS_FXD_LEN_SINT i b r) ptr d = (Ok (), d') \<and>
    load_fld ptr d' = Some g \<and> f_type g = ACTF_FLD_TYPE_SINT \<and>
    sint (actf_fld_int64 g) = signed_take_bit (unat (ba_len b) - 1) (uint v)"
proof -
  let ?n = "unat (ba_len b)"
  have at: "dec_at True dat bo p d" using assms(1,2) by (simp add: dec_at_def)
  have "v = fld_bits b dat (min (align_up (2 ^ k) p) (8 * length dat))"
    using assms(9) by (simp add: bit_arr_outcome_def split: if_splits)
  then have lt: "bit v i \<Longrightarrow> i < ?n" for i by (simp add: bit_fld_bits)
  have sx: "sext v ?n = Ok (signed_take_bit (?n - 1) v)" using sext_signed [OF assms(4,5) lt] .
  have "sint (signed_take_bit (?n - 1) v) = signed_take_bit (?n - 1) (uint v)"
  proof (rule bit_eqI)
    fix j
    show "bit (sint (signed_take_bit (?n - 1) v)) j = bit (signed_take_bit (?n - 1) (uint v)) j"
      using assms(4,5) by (auto simp: bit_simps min_def)
  qed
  moreover have "\<exists>d'. fld_cls_decode (ACTF_FLD_CLS_FXD_LEN_SINT i b r) ptr d = (Ok (), d') \<and>
    load_fld ptr d' = Some (f\<lparr>f_cls := Some (ACTF_FLD_CLS_FXD_LEN_SINT i b r),
      f_type := ACTF_FLD_TYPE_SINT, f_d := D_int (signed_take_bit (?n - 1) v)\<rparr>) \<and>
    (\<forall>q. q \<noteq> ptr \<longrightarrow> load_fld q d' = load_fld q d) \<and>
    br_at dat (ba_bo b) (min (align_up (2 ^ k) p) (8 * length dat) + unat (ba_len b)) (d_br d')"
    by (rule bit_arr_field_spec [OF at assms(3-),
          where fin = "\<lambda>v. bindc (lift_res (sext v ?n)) (\<lambda>w. set_val ptr ACTF_FLD_TYPE_SINT (D_int w))"])
      (simp_all add: sx bindc_def lift_res_def fld_cls_decode.simps fld_cls_fxd_len_sint_decode_def)
  moreover have "actf_fld_int64 (g\<lparr>f_type := ACTF_FLD_TYPE_SINT, f_d := D_int w\<rparr>) = w" for g w
    by (simp add: actf_fld_int64_def)
  ultimately show ?thesis by fastforce
qed

theorem sint_field_decoded_witness:
  "\<exists>d' g. fld_cls_decode (ACTF_FLD_CLS_FXD_LEN_SINT ex_int_cls ex_bits {}) (PktProp 0) (ex_decoder 1 [0xFE]) = (Ok (), d') \<and>
    load_fld (PktProp 0) d' = Some g \<and> sint (actf_fld_int64 g) = - 2"
proof -
  have v: "fld_bits ex_bits [0xFE] 0 = 0xFE" by code_simp
  have s: "signed_take_bit 7 (uint (0xFE :: u64)) = - 2" by code_simp
  have l: "load_fld (PktProp 0) (ex_decoder 1 [0xFE]) = Some zero_fld" by (simp add: ex_decoder_def)
  have o: "bit_arr_outcome ex_bits [0xFE] (min (align_up (2 ^ 3) 0) (8 * length [0xFE :: u8])) (ex_decoder 1 [0xFE]) = Ok 0xFE"
    using v by (simp add: align_up_def bit_arr_outcome_def pkt_end_def)
  have n: "length [0xFE :: u8] < 2 ^ 60" by simp
  obtain d' g where d': "fld_cls_decode (ACTF_FLD_CLS_FXD_LEN_SINT ex_int_cls ex_bits {}) (PktProp 0) (ex_decoder 1 [0xFE]) = (Ok (), d')"
    "load_fld (PktProp 0) d' = Some g" "sint (actf_fld_int64 g) = signed_take_bit (unat (ba_len ex_bits) - 1) (uint (0xFE :: u64))"
    using sint_field_decoded [where i = ex_int_cls and r = "{}", OF ex_ready [OF n] l o] by blast
  have "sint (actf_fld_int64 g) = - 2" using d'(3) s by simp
  then show ?thesis using d'(1,2) by blast
qed

section \<open>The decoder\<close>

text \<open>
  C7. Decoding never leaves the data: whatever the class, the bytes and the outcome, decoding a
  field keeps the reader well-formed, over the same data, at or behind its old position and not
  behind the end, and touches neither the metadata, the capacity, nor the control state of the
  decoder.
\<close>

theorem field_decoding_stays_in_data:
  assumes "br_wf (d_br d)"
  shows "let d' = snd (fld_cls_decode cls ptr d) in
    br_wf (d_br d') \<and> br_data (d_br d') = br_data (d_br d) \<and>
    unat (br_tot_bit_cnt (d_br d)) \<le> unat (br_tot_bit_cnt (d_br d')) \<and>
    unat (br_tot_bit_cnt (d_br d')) \<le> 8 * length (br_data (d_br d)) \<and>
    d_metadata d' = d_metadata d \<and> d_evs_cap d' = d_evs_cap d \<and> length (d_evs d') = length (d_evs d) \<and>
    d_state d' = d_state d \<and> d_evs_len d' = d_evs_len d"
proof -
  obtain r d' where "fld_cls_decode cls ptr d = (r, d')" by fastforce
  from frameD [OF frame.keeps_decode(1) this] this assms show ?thesis
    by (auto simp: dec_frame_def rd_next_def dec_const_def dec_ctl_def br_wf_def)
qed

theorem field_decoding_stays_in_data_witness:
  "br_wf (d_br (ex_decoder 1 [5])) \<and> br_wf (d_br (snd (fld_cls_decode ex_payload (EvProp 0 3) (ex_decoder 1 [5]))))"
proof -
  have "br_wf (d_br (ex_decoder 1 [5]))" by (simp add: br_wf_def breader_init_def)
  then show ?thesis using field_decoding_stays_in_data [of "ex_decoder 1 [5]" ex_payload "EvProp 0 3"]
    by (simp add: Let_def)
qed

text \<open>
  C6. One call of \<open>actf_decoder_decode\<close> outside of a seek: a returned run starts at the event
  array and is no longer than its capacity, an error returns no events and leaves the decoder in
  its error state with that code, and in every case the reader stays within its data.
\<close>

theorem decode_call_contract:
  assumes "DECODING_STATE_RESUME_SEEK \<notin> d_state d"
  shows "case actf_decoder_decode d of
      (Ok (off, len), d') \<Rightarrow> off = 0 \<and> len \<le> d_evs_cap d \<and> dec_frame d d'
    | (Err e, d') \<Rightarrow> DECODING_STATE_ERROR \<in> d_state d' \<and> dec_frame d d' \<and>
        (DECODING_STATE_ERROR \<notin> d_state d \<longrightarrow> d_err_rc d' = e)
    | (_, d') \<Rightarrow> dec_frame d d'"
proof -
  obtain r d' where run: "actf_decoder_decode d = (r, d')" by fastforce
  note f = decoder_decode_frame [OF assms run]
  show ?thesis using f(1) f(2) f(3) by (cases r) (auto simp: run)
qed

theorem decode_call_contract_witness:
  "case actf_decoder_decode (ex_decoder 2 [32, 1, 2, 3]) of
      (Ok (off, len), d') \<Rightarrow> off = 0 \<and> len \<le> 2
    | _ \<Rightarrow> False"
proof -
  have "fst (actf_decoder_decode (ex_decoder 2 [32, 1, 2, 3])) = Ok (0, 2)" by code_simp
  then show ?thesis using decode_call_contract [of "ex_decoder 2 [32, 1, 2, 3]"]
    by (auto split: prod.splits res.splits)
qed

text \<open>
  C2. Errors are deferred and sticky: when a packet fails behind some decoded events, the call
  returns those events, and the next call and every later one return the error; when it fails
  before the first event, the error is returned at once.
\<close>

theorem decode_error_deferred_and_sticky:
  assumes "d_state d \<inter> {DECODING_STATE_RESUME_SEEK, DECODING_STATE_ERROR} = {}"
    and "breader_has_bits_remaining (d_br d)"
    and "actf_decoder_pkt_decode (d\<lparr>d_evs_len := 0\<rparr>) = (Err rc, d1)"
  shows "\<exists>d2. actf_decoder_decode d = (if d_evs_len d1 = 0 then Err rc else Ok (0, d_evs_len d1), d2) \<and>
    d_evs d2 = d_evs d1 \<and> actf_decoder_decode d2 = (Err rc, d2)"
  using assms by (rule decoder_error_deferred)

theorem decode_error_deferred_and_sticky_witness:
  "\<exists>d2. actf_decoder_decode (ex_decoder 4 [20, 1, 2]) = (Ok (0, 1), d2) \<and> actf_decoder_decode d2 = (Err ACTF_NOT_ENOUGH_BITS, d2)"
proof -
  let ?d = "ex_decoder 4 [20, 1, 2]"
  obtain r d1 where run: "actf_decoder_pkt_decode (?d\<lparr>d_evs_len := 0\<rparr>) = (r, d1)" by fastforce
  have "fst (actf_decoder_pkt_decode (?d\<lparr>d_evs_len := 0\<rparr>)) = Err ACTF_NOT_ENOUGH_BITS"
    "d_evs_len (snd (actf_decoder_pkt_decode (?d\<lparr>d_evs_len := 0\<rparr>))) = 1" by code_simp+
  then have "r = Err ACTF_NOT_ENOUGH_BITS" "d_evs_len d1 = 1" using run by simp_all
  then show ?thesis using decode_error_deferred_and_sticky [of ?d ACTF_NOT_ENOUGH_BITS d1] run
    by (force simp: breader_has_bits_remaining_def breader_init_def)
qed



end
